(* ===== verification/Estoc_Prelude.thy ===== *)
theory Estoc_Prelude
  imports Main "HOL-Library.Sublist" "HOL-Library.List_Lexorder" "HOL-Library.Char_ord"
    "HOL-Library.Product_Lexorder"
begin

text \<open>
  What the component theories share: the names of the basic data (DIDs and
  times), a result type for operations that may throw, the collections of
  rewrite rules the component proofs use, and the generic facts on lists as
  tables (a table is the list of its rows in the order they were inserted).
\<close>

section \<open>Shared names\<close>

type_synonym did = string
text \<open>A time is the integer the code reads from its clock: milliseconds, or seconds where said.\<close>
type_synonym time = int

named_theorems tx_simps \<open>how the statements of a transaction run\<close>
named_theorems row_simps \<open>facts on tables as lists of rows\<close>
named_theorems inv_defs \<open>the parts of an invariant, unfolded\<close>

section \<open>Tables as lists of rows\<close>

text \<open>The rows whose key is a given one; the first of them, as a lookup by primary key reads it.\<close>

definition row_of :: "('r \<Rightarrow> 'k) \<Rightarrow> 'k \<Rightarrow> 'r list \<Rightarrow> 'r option" where
  "row_of key k rows = find (\<lambda>r. key r = k) rows"

definition keys :: "('r \<Rightarrow> 'k) \<Rightarrow> 'r list \<Rightarrow> 'k set" where
  "keys key rows = set (map key rows)"

definition has_key :: "('r \<Rightarrow> 'k) \<Rightarrow> 'k \<Rightarrow> 'r list \<Rightarrow> bool" where
  "has_key key k rows = (k \<in> set (map key rows))"

lemma has_key_iff [simp]: "has_key key k rows \<longleftrightarrow> k \<in> key ` set rows"
  by (simp add: has_key_def)

lemma keys_iff [simp]: "keys key rows = key ` set rows"
  by (simp add: keys_def)

lemma row_of_None: "row_of key k rows = None \<longleftrightarrow> k \<notin> key ` set rows"
  by (auto simp: row_of_def find_None_iff)

lemma row_of_SomeD: "row_of key k rows = Some r \<Longrightarrow> r \<in> set rows \<and> key r = k"
  by (auto simp: row_of_def find_Some_iff)

lemma row_of_key: "row_of key k rows = Some r \<Longrightarrow> k \<in> key ` set rows"
  by (drule row_of_SomeD) force

lemma row_of_Some_unique:
  assumes "distinct (map key rows)" and "r \<in> set rows"
  shows "row_of key (key r) rows = Some r"
proof -
  obtain r' where r': "row_of key (key r) rows = Some r'"
    using assms(2) row_of_None [of key "key r" rows] by (cases "row_of key (key r) rows") auto
  then have "r' \<in> set rows" and "key r' = key r"
    by (auto dest: row_of_SomeD)
  with assms show ?thesis using r' by (auto simp: distinct_map inj_on_def)
qed

lemma row_of_Some_iff:
  "distinct (map key rows) \<Longrightarrow> row_of key k rows = Some r \<longleftrightarrow> r \<in> set rows \<and> key r = k"
  by (metis row_of_SomeD row_of_Some_unique)

lemma filter_key:
  "distinct (map key rows) \<Longrightarrow>
   filter (\<lambda>r. key r = k) rows = (case row_of key k rows of None \<Rightarrow> [] | Some r \<Rightarrow> [r])"
proof (induction rows)
  case (Cons r rows)
  show ?case
  proof (cases "key r = k")
    case True
    with Cons.prems have "filter (\<lambda>r. key r = k) rows = []" by (auto simp: filter_empty_conv image_iff)
    then show ?thesis using True by (simp add: row_of_def)
  next
    case False
    then show ?thesis using Cons by (simp add: row_of_def)
  qed
qed (simp add: row_of_def)

lemma row_of_append:
  "row_of key k (xs @ ys) = (case row_of key k xs of Some r \<Rightarrow> Some r | None \<Rightarrow> row_of key k ys)"
  by (induction xs) (auto simp: row_of_def)

lemma row_of_single [simp]: "row_of key k [r] = (if key r = k then Some r else None)"
  by (simp add: row_of_def)

lemma row_of_Nil [simp]: "row_of key k [] = None"
  by (simp add: row_of_def)

lemma distinct_map_filter_rows [simp]: "distinct (map f xs) \<Longrightarrow> distinct (map f (filter P xs))"
  by (simp add: distinct_map_filter)

lemma distinct_map_snoc [simp]:
  "distinct (map f (xs @ [x])) \<longleftrightarrow> distinct (map f xs) \<and> f x \<notin> f ` set xs"
  by auto

lemma same_key_same_row:
  "distinct (map key rows) \<Longrightarrow> r \<in> set rows \<Longrightarrow> r' \<in> set rows \<Longrightarrow> key r = key r' \<Longrightarrow> r = r'"
  by (auto simp: distinct_map inj_on_def)

lemma filter_snoc: "filter P (xs @ [x]) = filter P xs @ (if P x then [x] else [])"
  by simp

lemma length_filter_map_same:
  "(\<And>x. x \<in> set xs \<Longrightarrow> P (f x) = P x) \<Longrightarrow> length (filter P (map f xs)) = length (filter P xs)"
  by (induction xs) auto

text \<open>The sum of a column, as SQL's \<open>COALESCE(SUM(c), 0)\<close>.\<close>

definition sum_col :: "('r \<Rightarrow> int) \<Rightarrow> 'r list \<Rightarrow> int" where
  "sum_col c rows = sum_list (map c rows)"

lemma sum_col_snoc [simp]: "sum_col c (xs @ [x]) = sum_col c xs + c x"
  by (simp add: sum_col_def)

lemma sum_col_Nil [simp]: "sum_col c [] = 0"
  by (simp add: sum_col_def)

lemma sum_col_filter_le:
  "(\<And>x. x \<in> set xs \<Longrightarrow> 0 \<le> c x) \<Longrightarrow> sum_col c (filter P xs) \<le> sum_col c xs"
proof (induction xs)
  case (Cons x xs)
  then have "0 \<le> c x" and "sum_col c (filter P xs) \<le> sum_col c xs" by simp_all
  then show ?case by (simp add: sum_col_def)
qed simp

section \<open>Numbering rows from one\<close>

text \<open>An ordinal column that numbers the rows 1, 2, \<dots> in the order they were inserted.\<close>

definition numbered :: "('r \<Rightarrow> nat) \<Rightarrow> 'r list \<Rightarrow> bool" where
  "numbered ord rows = (map ord rows = [1..<Suc (length rows)])"

lemma numbered_Nil [simp]: "numbered ord []"
  by (simp add: numbered_def)

lemma numbered_snoc:
  "numbered ord rows \<Longrightarrow> ord r = Suc (length rows) \<Longrightarrow> numbered ord (rows @ [r])"
  by (simp add: numbered_def)

lemma numbered_distinct: "numbered ord rows \<Longrightarrow> distinct (map ord rows)"
  by (simp add: numbered_def)

lemma numbered_le: "numbered ord rows \<Longrightarrow> r \<in> set rows \<Longrightarrow> 1 \<le> ord r \<and> ord r \<le> length rows"
proof -
  assume "numbered ord rows" and "r \<in> set rows"
  then have "ord r \<in> set [1..<Suc (length rows)]"
    by (metis numbered_def image_eqI set_map)
  then show ?thesis by auto
qed

lemma numbered_fresh: "numbered ord rows \<Longrightarrow> Suc (length rows) \<notin> ord ` set rows"
  using numbered_le by fastforce

end
