(* ===== verification/Did_Peer4.thy ===== *)
theory Did_Peer4
  imports Estoc_Prelude
begin

text \<open>
  The two spellings of a did:peer:4, \<^verbatim>\<open>packages/did-peer/src/did-peer-4.ts\<close>: the
  regular expressions \<open>LONG_FORM_RE\<close> and \<open>SHORT_FORM_RE\<close> as predicates on
  strings, \<open>longToShort\<close> with the throw of its guard as \<open>None\<close>, and the
  canonical spelling the mediator keeps (\<open>canonicalDid\<close> of
  \<^verbatim>\<open>mediator/src/protocols/replica-grant.ts\<close>). A string is its characters;
  both expressions accept ASCII only.
\<close>

definition B58 :: string where
  "B58 = ''123456789ABCDEFGHJKLMNPQRSTUVWXYZabcdefghijkmnopqrstuvwxyz''"

definition isB58 :: "string \<Rightarrow> bool" where
  "isB58 s = list_all (\<lambda>c. c \<in> set B58) s"

definition peer4_prefix :: string where
  "peer4_prefix = ''did:peer:4zQm''"

text \<open>\<open>^did:peer:4zQm[B58]{44}$\<close>.\<close>

definition isShortForm :: "did \<Rightarrow> bool" where
  "isShortForm did =
     (take 13 did = peer4_prefix \<and> length did = 57 \<and> isB58 (drop 13 did))"

text \<open>\<open>^did:peer:4zQm[B58]{44}:z[B58]{6,}$\<close>: a short form, \<open>:z\<close> and six or more characters.\<close>

definition isLongForm :: "did \<Rightarrow> bool" where
  "isLongForm did =
     (isShortForm (take 57 did) \<and> take 2 (drop 57 did) = '':z'' \<and>
      6 \<le> length (drop 59 did) \<and> isB58 (drop 59 did))"

text \<open>\<open>did.lastIndexOf(":")\<close> and the slice before it; the whole string has a colon where it is called.\<close>

fun before_last_colon :: "string \<Rightarrow> string" where
  "before_last_colon s = rev (tl (dropWhile (\<lambda>c. c \<noteq> CHR '':'') (rev s)))"

definition longToShort :: "did \<Rightarrow> did option" where
  "longToShort did = (if isLongForm did then Some (before_last_colon did) else None)"

definition canonicalDid :: "did \<Rightarrow> did" where
  "canonicalDid did = (case longToShort did of Some s \<Rightarrow> s | None \<Rightarrow> did)"

lemma colon_not_B58: "CHR '':'' \<notin> set B58"
  by (simp add: B58_def)

lemma isB58_no_colon: "isB58 s \<Longrightarrow> CHR '':'' \<notin> set s"
  using colon_not_B58 by (auto simp: isB58_def list_all_iff)

lemma before_last_colon_append:
  assumes "CHR '':'' \<notin> set t"
  shows "before_last_colon (s @ CHR '':'' # t) = s"
proof -
  have "dropWhile (\<lambda>c. c \<noteq> CHR '':'') (rev t @ CHR '':'' # rev s) = CHR '':'' # rev s"
    using assms by (subst dropWhile_append2) auto
  then show ?thesis by simp
qed

lemma isLongForm_split:
  assumes "isLongForm did"
  obtains rest where "did = take 57 did @ CHR '':'' # CHR ''z'' # rest"
    and "isB58 rest" and "6 \<le> length rest" and "isShortForm (take 57 did)"
proof -
  have two: "take 2 (drop 57 did) = '':z''" and r: "isB58 (drop 59 did)" "6 \<le> length (drop 59 did)"
    and s: "isShortForm (take 57 did)"
    using assms by (auto simp: isLongForm_def)
  have "drop 57 did = take 2 (drop 57 did) @ drop 2 (drop 57 did)"
    by (simp only: append_take_drop_id)
  then have "drop 57 did = '':z'' @ drop 59 did" unfolding two by simp
  then have "did = take 57 did @ CHR '':'' # CHR ''z'' # drop 59 did"
    by (metis append_Cons append_Nil append_take_drop_id)
  from this r s show ?thesis by (rule that)
qed

lemma longToShort_take: "isLongForm did \<Longrightarrow> longToShort did = Some (take 57 did)"
proof -
  assume l: "isLongForm did"
  then obtain rest where d: "did = take 57 did @ CHR '':'' # CHR ''z'' # rest" and b: "isB58 rest"
    by (rule isLongForm_split)
  have "CHR '':'' \<notin> set (CHR ''z'' # rest)" using isB58_no_colon [OF b] by simp
  then have "before_last_colon (take 57 did @ CHR '':'' # CHR ''z'' # rest) = take 57 did"
    by (rule before_last_colon_append)
  then show ?thesis using l d by (simp add: longToShort_def del: before_last_colon.simps)
qed

lemma longToShort_None: "longToShort did = None \<longleftrightarrow> \<not> isLongForm did"
  by (simp add: longToShort_def)

lemma longToShort_SomeD: "longToShort did = Some s \<Longrightarrow> isLongForm did \<and> isShortForm s \<and> s = take 57 did"
  using longToShort_take [of did] by (auto simp: longToShort_def isLongForm_def split: if_splits)

lemma short_not_long: "isShortForm did \<Longrightarrow> \<not> isLongForm did"
  by (auto simp: isShortForm_def isLongForm_def)

lemma canonicalDid_short [simp]: "isShortForm did \<Longrightarrow> canonicalDid did = did"
  by (simp add: canonicalDid_def longToShort_def short_not_long)

lemma canonicalDid_long: "isLongForm did \<Longrightarrow> canonicalDid did = take 57 did"
  by (simp add: canonicalDid_def longToShort_take)

lemma canonicalDid_idem [simp]: "canonicalDid (canonicalDid did) = canonicalDid did"
proof (cases "isLongForm did")
  case True
  then have "isShortForm (take 57 did)" by (simp add: isLongForm_def)
  then show ?thesis by (simp add: canonicalDid_long True)
next
  case False
  then show ?thesis by (simp add: canonicalDid_def longToShort_def)
qed

text \<open>A short form and the long form it abbreviates, as the mediator keeps them side by side.\<close>

definition long_form_of :: "did \<Rightarrow> did \<Rightarrow> bool" where
  "long_form_of short long = (longToShort long = Some short)"

lemma long_form_ofD:
  "long_form_of s l \<Longrightarrow> isShortForm s \<and> isLongForm l \<and> canonicalDid l = s \<and> canonicalDid s = s \<and> s \<noteq> l"
  using short_not_long by (auto simp: long_form_of_def canonicalDid_long dest!: longToShort_SomeD)

end
