(* ===== verification/Mediator_Schema.thy ===== *)
theory Mediator_Schema
  imports Did_Peer4
begin

text \<open>
  The mediator's database, \<^verbatim>\<open>mediator/src/store/sql-store.ts\<close>: one record per
  table row with the columns of the schema, the database as the record of its
  tables (each the list of its rows in rowid order, which is the order they
  were inserted), the primary keys and unique constraints (\<open>uniq_ok\<close>), the
  foreign keys (\<open>fk_ok\<close>), and the batch of statements the driver runs as one
  transaction: every statement leaves the keys unique, and the foreign keys
  whole unless they were deferred to the commit; a violation takes the whole
  batch back.
\<close>

section \<open>Rows\<close>

record account_row =
  accounts_did :: did
  accounts_created_at :: time

record keylist_row =
  keylist_recipient_did :: did
  keylist_owner_did :: did
  keylist_created_at :: time

record message_row =
  messages_id :: string
  messages_owner_did :: did
  messages_packed :: string
  messages_created_at :: time
  messages_expires_at :: time

record blob_row =
  blobs_id :: string
  blobs_owner_did :: did
  blobs_hash :: string
  blobs_size :: int
  blobs_created_at :: time
  blobs_uploaded_at :: "time option"
  blobs_retain_until :: time

record upload_row =
  uploads_token :: string
  uploads_blob_id :: string
  uploads_expires_at :: time

record replica_account_row =
  raccounts_did :: did
  raccounts_mediator :: did
  raccounts_long_form :: did
  raccounts_created_at :: time
  raccounts_registration :: string

record replica_row =
  replicas_did :: did
  replicas_account_did :: did
  replicas_ordinal :: nat
  replicas_long_form :: did
  replicas_grant_jws :: string
  replicas_registered_at :: time
  replicas_removed_at :: "time option"

record recipient_row =
  recipients_did :: did
  recipients_account_did :: did
  recipients_long_form :: did
  recipients_created_at :: time

record package_row =
  packages_id :: string
  packages_account_did :: did
  packages_next_did :: did
  packages_packed :: string
  packages_bytes :: int
  packages_created_at :: time
  packages_expires_at :: time

record delivery_row =
  deliveries_id :: string
  deliveries_package_id :: string
  deliveries_replica_did :: did

record execution_row =
  executions_registration_id :: string
  executions_account_did :: did
  executions_execution_id :: string
  executions_created_time :: time
  executions_retain_until :: time

record listing_row =
  listings_registration_id :: string
  listings_replica_did :: did
  listings_ordinal :: nat

record db =
  accounts :: "account_row list"
  keylist :: "keylist_row list"
  messages :: "message_row list"
  blobs :: "blob_row list"
  blob_uploads :: "upload_row list"
  ended_blobs :: "string list"
  replica_accounts :: "replica_account_row list"
  replicas :: "replica_row list"
  replica_recipients :: "recipient_row list"
  replica_packages :: "package_row list"
  replica_deliveries :: "delivery_row list"
  replica_executions :: "execution_row list"
  replica_execution_registrations :: "listing_row list"
  identity :: "string option"

definition empty_db :: db where
  "empty_db = \<lparr>accounts = [], keylist = [], messages = [], blobs = [], blob_uploads = [],
     ended_blobs = [], replica_accounts = [], replicas = [], replica_recipients = [],
     replica_packages = [], replica_deliveries = [], replica_executions = [],
     replica_execution_registrations = [], identity = None\<rparr>"

section \<open>Constraints\<close>

definition uniq_ok :: "db \<Rightarrow> bool" where
  "uniq_ok s \<longleftrightarrow>
     distinct (map accounts_did (accounts s)) \<and>
     distinct (map keylist_recipient_did (keylist s)) \<and>
     distinct (map messages_id (messages s)) \<and>
     distinct (map blobs_id (blobs s)) \<and>
     distinct (map (\<lambda>b. (blobs_owner_did b, blobs_hash b)) (blobs s)) \<and>
     distinct (map uploads_token (blob_uploads s)) \<and>
     distinct (ended_blobs s) \<and>
     distinct (map raccounts_did (replica_accounts s)) \<and>
     distinct (map replicas_did (replicas s)) \<and>
     distinct (map (\<lambda>r. (replicas_account_did r, replicas_ordinal r)) (replicas s)) \<and>
     distinct (map recipients_did (replica_recipients s)) \<and>
     distinct (map packages_id (replica_packages s)) \<and>
     distinct (map deliveries_id (replica_deliveries s)) \<and>
     distinct (map (\<lambda>d. (deliveries_package_id d, deliveries_replica_did d)) (replica_deliveries s)) \<and>
     distinct (map executions_registration_id (replica_executions s)) \<and>
     distinct (map (\<lambda>e. (executions_account_did e, executions_execution_id e)) (replica_executions s)) \<and>
     distinct (map (\<lambda>l. (listings_registration_id l, listings_replica_did l))
       (replica_execution_registrations s)) \<and>
     distinct (map (\<lambda>l. (listings_registration_id l, listings_ordinal l))
       (replica_execution_registrations s))"

definition refers :: "('c \<Rightarrow> 'k) \<Rightarrow> 'c list \<Rightarrow> ('p \<Rightarrow> 'k) \<Rightarrow> 'p list \<Rightarrow> bool" where
  "refers col children key parents = list_all (\<lambda>c. has_key key (col c) parents) children"

definition fk_ok :: "db \<Rightarrow> bool" where
  "fk_ok s \<longleftrightarrow>
     refers keylist_owner_did (keylist s) accounts_did (accounts s) \<and>
     refers messages_owner_did (messages s) accounts_did (accounts s) \<and>
     refers uploads_blob_id (blob_uploads s) blobs_id (blobs s) \<and>
     refers replicas_account_did (replicas s) raccounts_did (replica_accounts s) \<and>
     refers recipients_account_did (replica_recipients s) raccounts_did (replica_accounts s) \<and>
     refers packages_account_did (replica_packages s) raccounts_did (replica_accounts s) \<and>
     refers deliveries_package_id (replica_deliveries s) packages_id (replica_packages s) \<and>
     refers deliveries_replica_did (replica_deliveries s) replicas_did (replicas s) \<and>
     refers executions_account_did (replica_executions s) raccounts_did (replica_accounts s) \<and>
     refers listings_registration_id (replica_execution_registrations s)
       executions_registration_id (replica_executions s) \<and>
     refers listings_replica_did (replica_execution_registrations s) replicas_did (replicas s)"

lemma refers_iff: "refers col cs key ps \<longleftrightarrow> (\<forall>c\<in>set cs. \<exists>p\<in>set ps. key p = col c)"
  by (force simp: refers_def list_all_iff)

section \<open>Transactions\<close>

text \<open>What the driver throws; the transaction is rolled back either way.\<close>

datatype sql_error = UniqueConstraint | ForeignKeyConstraint

text \<open>
  A statement list under way: the database as the statements so far left it,
  and whether \<^verbatim>\<open>PRAGMA defer_foreign_keys = ON\<close> was given. A step of a batch
  reads or writes it, or fails.
\<close>

type_synonym 'a tx = "db \<times> bool \<Rightarrow> sql_error + ('a \<times> db \<times> bool)"

definition then_tx :: "'a tx \<Rightarrow> ('a \<Rightarrow> 'b tx) \<Rightarrow> 'b tx" where
  "then_tx t f = (\<lambda>st. case t st of Inl e \<Rightarrow> Inl e | Inr (a, st') \<Rightarrow> f a st')"

definition return_tx :: "'a \<Rightarrow> 'a tx" where
  "return_tx a = (\<lambda>st. Inr (a, st))"

definition query :: "(db \<Rightarrow> 'a) \<Rightarrow> 'a tx" where
  "query q = (\<lambda>(s, deferred). Inr (q s, s, deferred))"

definition defer_foreign_keys :: "unit tx" where
  "defer_foreign_keys = (\<lambda>(s, _). Inr ((), s, True))"

definition statement :: "(db \<Rightarrow> db) \<Rightarrow> unit tx" where
  "statement f = (\<lambda>(s, deferred).
     if \<not> uniq_ok (f s) then Inl UniqueConstraint
     else if \<not> deferred \<and> \<not> fk_ok (f s) then Inl ForeignKeyConstraint
     else Inr ((), f s, deferred))"

text \<open>
  \<open>batch\<close>: all of the statements in one transaction. The foreign keys deferred
  are checked at the commit; an error of any statement leaves the database
  as it was.
\<close>

definition batch :: "'a tx \<Rightarrow> db \<Rightarrow> (sql_error + 'a) \<times> db" where
  "batch t s = (case t (s, False) of
      Inl e \<Rightarrow> (Inl e, s)
    | Inr (a, s', deferred) \<Rightarrow> if fk_ok s' then (Inr a, s') else (Inl ForeignKeyConstraint, s))"

lemma then_tx_Inr [tx_simps]: "t st = Inr (a, st') \<Longrightarrow> then_tx t f st = f a st'"
  by (simp add: then_tx_def)

lemma query_run [tx_simps]: "then_tx (query q) f (s, d) = f (q s) (s, d)"
  by (simp add: then_tx_def query_def)

lemma return_run [tx_simps]: "return_tx a st = Inr (a, st)"
  by (simp add: return_tx_def)

lemma defer_run [tx_simps]: "then_tx defer_foreign_keys f (s, d) = f () (s, True)"
  by (simp add: then_tx_def defer_foreign_keys_def)

lemma statement_run:
  "uniq_ok (g s) \<Longrightarrow> d \<or> fk_ok (g s) \<Longrightarrow> then_tx (statement g) f (s, d) = f () (g s, d)"
  by (auto simp: then_tx_def statement_def)

text \<open>A batch is all or nothing: it fails and the database is as it was, or it commits with its constraints whole.\<close>

lemma statement_keeps_uniq: "statement f (s, d) = Inr (a, s', d') \<Longrightarrow> uniq_ok s'"
  by (auto simp: statement_def split: if_splits)

lemma batch_error_unchanged: "batch t s = (Inl e, s') \<Longrightarrow> s' = s"
  by (auto simp: batch_def split: sum.splits if_splits)

lemma batch_commit_fk: "batch t s = (Inr a, s') \<Longrightarrow> fk_ok s'"
  by (auto simp: batch_def split: sum.splits if_splits)

lemma batch_commit: "t (s, False) = Inr (a, s', d) \<Longrightarrow> fk_ok s' \<Longrightarrow> batch t s = (Inr a, s')"
  by (simp add: batch_def)

end
