(* ===== verification/Mediator_Statements.thy ===== *)
theory Mediator_Statements
  imports Mediator_Schema
begin

text \<open>
  The SQL fragments the store's methods share (the spellings a DID may be
  bound under, the \<open>NOT_ORDINARY\<close>, \<open>NOT_SHARED_RECIPIENT\<close> and
  \<open>NOT_REPLICA_MEDIATION\<close> guards, \<open>holdsBlobs\<close>, \<open>endBlobs\<close> and
  \<open>endDeliveries\<close>), the deletions with the cascades the schema declares, and
  the invariant of the database that every method keeps.
\<close>

section \<open>Guards\<close>

text \<open>\<open>spellings(did, longForm?)\<close>: the DID as given, and its long form or else its canonical spelling.\<close>

definition spellings :: "did \<Rightarrow> did option \<Rightarrow> did \<times> did" where
  "spellings did longForm = (did, case longForm of Some l \<Rightarrow> l | None \<Rightarrow> canonicalDid did)"

definition is_active :: "replica_row \<Rightarrow> bool" where
  "is_active r = (replicas_removed_at r = None)"

definition holdsBlobs :: "did \<Rightarrow> db \<Rightarrow> bool" where
  "holdsBlobs did s = (has_key accounts_did did (accounts s) \<or>
     (\<exists>r\<in>set (replicas s). replicas_did r = did \<and> is_active r))"

definition not_ordinary :: "did \<times> did \<Rightarrow> db \<Rightarrow> bool" where
  "not_ordinary names s =
     (\<not> has_key accounts_did (fst names) (accounts s) \<and> \<not> has_key accounts_did (snd names) (accounts s) \<and>
      \<not> has_key keylist_recipient_did (fst names) (keylist s) \<and>
      \<not> has_key keylist_recipient_did (snd names) (keylist s))"

definition not_shared_recipient :: "did \<times> did \<Rightarrow> db \<Rightarrow> bool" where
  "not_shared_recipient names s =
     (\<not> has_key recipients_did (fst names) (replica_recipients s) \<and>
      \<not> has_key recipients_did (snd names) (replica_recipients s))"

definition not_replica_account :: "did \<times> did \<Rightarrow> db \<Rightarrow> bool" where
  "not_replica_account names s =
     (\<not> has_key raccounts_did (fst names) (replica_accounts s) \<and>
      \<not> has_key raccounts_did (snd names) (replica_accounts s))"

definition not_replica :: "did \<times> did \<Rightarrow> db \<Rightarrow> bool" where
  "not_replica names s =
     (\<not> has_key replicas_did (fst names) (replicas s) \<and> \<not> has_key replicas_did (snd names) (replicas s))"

definition not_replica_mediation :: "did \<times> did \<Rightarrow> db \<Rightarrow> bool" where
  "not_replica_mediation names s =
     (not_replica_account names s \<and> not_replica names s \<and> not_shared_recipient names s)"

text \<open>\<open>SELECT 1 FROM replica_accounts WHERE did = ? AND mediator = ?\<close>.\<close>

definition bound_account :: "did \<Rightarrow> did \<Rightarrow> db \<Rightarrow> bool" where
  "bound_account account mediator s =
     (\<exists>a\<in>set (replica_accounts s). raccounts_did a = account \<and> raccounts_mediator a = mediator)"

section \<open>Deletions with their cascades\<close>

text \<open>\<open>keylist.owner_did\<close> and \<open>messages.owner_did\<close> cascade from \<open>accounts\<close>.\<close>

definition delete_accounts :: "(account_row \<Rightarrow> bool) \<Rightarrow> db \<Rightarrow> db" where
  "delete_accounts which s =
     (let gone = map accounts_did (filter which (accounts s)) in
      s\<lparr>accounts := filter (\<lambda>a. \<not> which a) (accounts s),
        keylist := filter (\<lambda>k. keylist_owner_did k \<notin> set gone) (keylist s),
        messages := filter (\<lambda>m. messages_owner_did m \<notin> set gone) (messages s)\<rparr>)"

text \<open>\<open>blob_uploads.blob_id\<close> cascades from \<open>blobs\<close>.\<close>

definition delete_blobs :: "(blob_row \<Rightarrow> bool) \<Rightarrow> db \<Rightarrow> db" where
  "delete_blobs which s =
     (let gone = map blobs_id (filter which (blobs s)) in
      s\<lparr>blobs := filter (\<lambda>b. \<not> which b) (blobs s),
        blob_uploads := filter (\<lambda>u. uploads_blob_id u \<notin> set gone) (blob_uploads s)\<rparr>)"

text \<open>\<open>replica_execution_registrations.registration_id\<close> cascades from \<open>replica_executions\<close>.\<close>

definition delete_executions :: "(execution_row \<Rightarrow> bool) \<Rightarrow> db \<Rightarrow> db" where
  "delete_executions which s =
     (let gone = map executions_registration_id (filter which (replica_executions s)) in
      s\<lparr>replica_executions := filter (\<lambda>e. \<not> which e) (replica_executions s),
        replica_execution_registrations :=
          filter (\<lambda>l. listings_registration_id l \<notin> set gone) (replica_execution_registrations s)\<rparr>)"

section \<open>Statement lists the methods share\<close>

text \<open>\<open>SqlStore.endBlobs(which)\<close>: the ids of the blobs move to \<open>ended_blobs\<close>.\<close>

definition record_ended :: "(db \<Rightarrow> blob_row \<Rightarrow> bool) \<Rightarrow> db \<Rightarrow> db" where
  "record_ended which s = s\<lparr>ended_blobs := ended_blobs s @ map blobs_id (filter (which s) (blobs s))\<rparr>"

definition endBlobs :: "(db \<Rightarrow> blob_row \<Rightarrow> bool) \<Rightarrow> unit tx" where
  "endBlobs which =
     then_tx (statement (record_ended which)) (\<lambda>_.
     statement (\<lambda>s. delete_blobs (which s) s))"

text \<open>
  \<open>SqlStore.endDeliveries(which)\<close>: first the packages all of whose deliveries
  end, then the deliveries, with the foreign keys checked at the commit.
\<close>

definition delete_ending_packages :: "(db \<Rightarrow> delivery_row \<Rightarrow> bool) \<Rightarrow> db \<Rightarrow> db" where
  "delete_ending_packages which s =
     (let ending = map deliveries_id (filter (which s) (replica_deliveries s)) in
      s\<lparr>replica_packages := filter (\<lambda>p.
          \<not> (packages_id p \<in> set (map deliveries_package_id (filter (which s) (replica_deliveries s))) \<and>
             \<not> (\<exists>d\<in>set (replica_deliveries s).
                   deliveries_package_id d = packages_id p \<and> deliveries_id d \<notin> set ending)))
        (replica_packages s)\<rparr>)"

definition delete_deliveries :: "(db \<Rightarrow> delivery_row \<Rightarrow> bool) \<Rightarrow> db \<Rightarrow> db" where
  "delete_deliveries which s =
     s\<lparr>replica_deliveries := filter (\<lambda>d. \<not> which s d) (replica_deliveries s)\<rparr>"

definition endDeliveries :: "(db \<Rightarrow> delivery_row \<Rightarrow> bool) \<Rightarrow> unit tx" where
  "endDeliveries which =
     then_tx defer_foreign_keys (\<lambda>_.
     then_tx (statement (delete_ending_packages which)) (\<lambda>_.
     statement (delete_deliveries which)))"

section \<open>The invariant\<close>

text \<open>
  The names ordinary mediation binds, and the pairs of a short form and its
  long form replica mediation binds, by role.
\<close>

definition ordinary_names :: "db \<Rightarrow> did set" where
  "ordinary_names s = set (map accounts_did (accounts s)) \<union> set (map keylist_recipient_did (keylist s))"

definition account_names :: "db \<Rightarrow> (did \<times> did) list" where
  "account_names s = map (\<lambda>a. (raccounts_did a, raccounts_long_form a)) (replica_accounts s)"

definition replica_names :: "db \<Rightarrow> (did \<times> did) list" where
  "replica_names s = map (\<lambda>r. (replicas_did r, replicas_long_form r)) (replicas s)"

definition recipient_names :: "db \<Rightarrow> (did \<times> did) list" where
  "recipient_names s = map (\<lambda>r. (recipients_did r, recipients_long_form r)) (replica_recipients s)"

definition apart :: "db \<Rightarrow> did \<times> did \<Rightarrow> bool" where
  "apart s n = (long_form_of (fst n) (snd n) \<and> fst n \<notin> ordinary_names s \<and> snd n \<notin> ordinary_names s)"

text \<open>
  Ordinary and replica mediation never bind the same DID, in either spelling,
  and a DID replica mediation binds has one role there.
\<close>

definition roles :: "db \<Rightarrow> (did \<times> did) set" where
  "roles s = set (account_names s) \<union> set (replica_names s) \<union> set (recipient_names s)"

definition names_ok :: "db \<Rightarrow> bool" where
  "names_ok s \<longleftrightarrow> (\<forall>n\<in>roles s. apart s n) \<and>
     raccounts_did ` set (replica_accounts s) \<inter> replicas_did ` set (replicas s) = {} \<and>
     raccounts_did ` set (replica_accounts s) \<inter> recipients_did ` set (replica_recipients s) = {} \<and>
     replicas_did ` set (replicas s) \<inter> recipients_did ` set (replica_recipients s) = {}"

text \<open>An account's replicas are numbered 1, 2, \<dots> in the order it enrolled them.\<close>

definition replicas_of :: "did \<Rightarrow> db \<Rightarrow> replica_row list" where
  "replicas_of account s = filter (\<lambda>r. replicas_account_did r = account) (replicas s)"

definition ordinals_ok :: "db \<Rightarrow> bool" where
  "ordinals_ok s \<longleftrightarrow> (\<forall>r\<in>set (replicas s).
     numbered replicas_ordinal (replicas_of (replicas_account_did r) s))"

text \<open>A delivery is an active replica's, and its package is kept for that replica's account.\<close>

definition delivery_ok :: "db \<Rightarrow> delivery_row \<Rightarrow> bool" where
  "delivery_ok s d \<longleftrightarrow> (\<exists>r\<in>set (replicas s). \<exists>p\<in>set (replica_packages s).
     replicas_did r = deliveries_replica_did d \<and> is_active r \<and>
     packages_id p = deliveries_package_id d \<and> packages_account_did p = replicas_account_did r)"

definition mail_ok :: "db \<Rightarrow> bool" where
  "mail_ok s \<longleftrightarrow> list_all (delivery_ok s) (replica_deliveries s) \<and>
     list_all (\<lambda>p. 0 \<le> packages_bytes p) (replica_packages s)"

text \<open>
  An execution registration lists at least one replica, numbers the replicas it
  lists 1, 2, \<dots> in the order each first registered, and lists replicas of its
  own account only.
\<close>

definition listings_of :: "string \<Rightarrow> db \<Rightarrow> listing_row list" where
  "listings_of registration s =
     filter (\<lambda>l. listings_registration_id l = registration) (replica_execution_registrations s)"

definition listing_ok :: "db \<Rightarrow> listing_row \<Rightarrow> bool" where
  "listing_ok s l \<longleftrightarrow> (\<exists>e\<in>set (replica_executions s). \<exists>r\<in>set (replicas s).
     executions_registration_id e = listings_registration_id l \<and>
     replicas_did r = listings_replica_did l \<and>
     executions_account_did e = replicas_account_did r)"

definition listings_ok :: "db \<Rightarrow> bool" where
  "listings_ok s \<longleftrightarrow> list_all (listing_ok s) (replica_execution_registrations s) \<and>
     list_all (\<lambda>e. listings_of (executions_registration_id e) s \<noteq> [] \<and>
       numbered listings_ordinal (listings_of (executions_registration_id e) s)) (replica_executions s)"

text \<open>A blob is held by a mediation that has not ended, and has not been recorded as ended.\<close>

definition blobs_ok :: "db \<Rightarrow> bool" where
  "blobs_ok s \<longleftrightarrow> list_all (\<lambda>b. holdsBlobs (blobs_owner_did b) s \<and> blobs_id b \<notin> set (ended_blobs s) \<and>
     0 \<le> blobs_size b) (blobs s)"

definition db_inv :: "db \<Rightarrow> bool" where
  "db_inv s \<longleftrightarrow> uniq_ok s \<and> fk_ok s \<and> names_ok s \<and> ordinals_ok s \<and> mail_ok s \<and> listings_ok s \<and> blobs_ok s"

lemma db_invI:
  assumes "uniq_ok s" and "fk_ok s" and "names_ok s" and "ordinals_ok s" and "mail_ok s"
    and "listings_ok s" and "blobs_ok s"
  shows "db_inv s"
  using assms by (simp add: db_inv_def)

lemma db_invD:
  assumes "db_inv s"
  shows "uniq_ok s" and "fk_ok s" and "names_ok s" and "ordinals_ok s" and "mail_ok s"
    and "listings_ok s" and "blobs_ok s"
  using assms by (simp_all add: db_inv_def)

lemma db_inv_empty: "db_inv empty_db"
  by (simp add: db_inv_def empty_db_def uniq_ok_def fk_ok_def refers_def names_ok_def roles_def account_names_def
      replica_names_def recipient_names_def ordinals_ok_def mail_ok_def listings_ok_def blobs_ok_def)

lemma fst_roles:
  "fst ` roles s = raccounts_did ` set (replica_accounts s) \<union> replicas_did ` set (replicas s) \<union>
     recipients_did ` set (replica_recipients s)"
  by (simp add: roles_def account_names_def replica_names_def recipient_names_def image_Un image_image)

lemma names_okI:
  assumes "\<And>n. n \<in> roles s \<Longrightarrow> apart s n"
    and "raccounts_did ` set (replica_accounts s) \<inter> replicas_did ` set (replicas s) = {}"
    and "raccounts_did ` set (replica_accounts s) \<inter> recipients_did ` set (replica_recipients s) = {}"
    and "replicas_did ` set (replicas s) \<inter> recipients_did ` set (replica_recipients s) = {}"
  shows "names_ok s"
  using assms by (simp add: names_ok_def)

lemma names_okD:
  assumes "names_ok s"
  shows "n \<in> roles s \<Longrightarrow> apart s n"
    and "raccounts_did ` set (replica_accounts s) \<inter> replicas_did ` set (replicas s) = {}"
    and "raccounts_did ` set (replica_accounts s) \<inter> recipients_did ` set (replica_recipients s) = {}"
    and "replicas_did ` set (replicas s) \<inter> recipients_did ` set (replica_recipients s) = {}"
  using assms by (simp_all add: names_ok_def)

lemma bound_account_key: "bound_account a m s \<Longrightarrow> a \<in> raccounts_did ` set (replica_accounts s)"
  by (force simp: bound_account_def)

lemma disjoint_shrink: "A \<inter> B = {} \<Longrightarrow> A' \<subseteq> A \<Longrightarrow> B' \<subseteq> B \<Longrightarrow> A' \<inter> B' = {}"
  by blast

text \<open>Deleting rows keeps the names apart.\<close>

lemma names_ok_shrink:
  assumes "names_ok s" and "ordinary_names s' \<subseteq> ordinary_names s" and "roles s' \<subseteq> roles s"
    and sub: "raccounts_did ` set (replica_accounts s') \<subseteq> raccounts_did ` set (replica_accounts s)"
    "replicas_did ` set (replicas s') \<subseteq> replicas_did ` set (replicas s)"
    "recipients_did ` set (replica_recipients s') \<subseteq> recipients_did ` set (replica_recipients s)"
  shows "names_ok s'"
proof (rule names_okI)
  show "apart s' n" if "n \<in> roles s'" for n
    using names_okD(1) [OF assms(1), of n] assms(2,3) that by (auto simp: apart_def)
qed (rule disjoint_shrink, rule names_okD [OF assms(1)], rule sub, rule sub)+

text \<open>An ordinary name is added: neither it nor its canonical spelling has a role.\<close>

lemma names_ok_add_ordinary:
  assumes "names_ok s" and "not_replica_mediation (spellings d None) s"
    and "ordinary_names s' = insert d (ordinary_names s)" and "roles s' = roles s"
    and "replica_accounts s' = replica_accounts s" and "replicas s' = replicas s"
    and "replica_recipients s' = replica_recipients s"
  shows "names_ok s'"
proof (rule names_okI)
  show "apart s' n" if "n \<in> roles s'" for n
  proof -
    from that have n: "n \<in> roles s" by (simp add: assms(4))
    have "d \<notin> fst ` roles s" and "canonicalDid d \<notin> fst ` roles s"
      using assms(2) unfolding fst_roles
      by (simp_all add: not_replica_mediation_def not_replica_account_def not_replica_def
          not_shared_recipient_def spellings_def)
    with n have "fst n \<noteq> d" and "fst n \<noteq> canonicalDid d" by (metis imageI)+
    moreover have "apart s n" by (rule names_okD(1) [OF assms(1) n])
    ultimately show ?thesis by (auto simp: apart_def assms(3) dest: long_form_ofD)
  qed
qed (use names_okD [OF assms(1)] in \<open>simp_all add: assms(5-7)\<close>)

text \<open>A role is added to a DID that has none, and that ordinary mediation does not bind in either spelling.\<close>

lemma names_ok_add_role:
  assumes "names_ok s" and "long_form_of d l" and "not_ordinary (d, l) s"
    and "ordinary_names s' = ordinary_names s" and "roles s' = insert (d, l) (roles s)"
    and "raccounts_did ` set (replica_accounts s') \<inter> replicas_did ` set (replicas s') = {}"
    and "raccounts_did ` set (replica_accounts s') \<inter> recipients_did ` set (replica_recipients s') = {}"
    and "replicas_did ` set (replicas s') \<inter> recipients_did ` set (replica_recipients s') = {}"
  shows "names_ok s'"
proof (rule names_okI)
  show "apart s' n" if n: "n \<in> roles s'" for n
  proof (cases "n = (d, l)")
    case True
    then show ?thesis
      using assms(2-4) by (auto simp: apart_def not_ordinary_def ordinary_names_def)
  next
    case False
    with n have "n \<in> roles s" by (simp add: assms(5))
    then show ?thesis using names_okD(1) [OF assms(1)] by (auto simp: apart_def assms(4))
  qed
qed (rule assms)+

lemmas role_names = roles_def account_names_def replica_names_def recipient_names_def ordinary_names_def
lemmas mail_defs = mail_ok_def delivery_ok_def list_all_iff
lemmas listings_defs = listings_ok_def listing_ok_def listings_of_def list_all_iff
lemmas blobs_defs = blobs_ok_def holdsBlobs_def list_all_iff
lemmas guard_defs = not_ordinary_def not_shared_recipient_def not_replica_account_def not_replica_def
  not_replica_mediation_def bound_account_def


section \<open>One table at a time\<close>

text \<open>What an update of a single table has to establish to keep the invariant.\<close>

lemma refers_filter [simp, intro]: "refers col cs key ps \<Longrightarrow> refers col (filter P cs) key ps"
  by (auto simp: refers_def list_all_iff)

lemma refers_snoc_child [simp]:
  "refers col (cs @ [c]) key ps \<longleftrightarrow> refers col cs key ps \<and> has_key key (col c) ps"
  by (simp add: refers_def)

lemma refers_append: "refers col (cs @ cs') key ps \<longleftrightarrow> refers col cs key ps \<and> refers col cs' key ps"
  by (simp add: refers_def)

lemma refers_snoc_parent [simp, intro]: "refers col cs key ps \<Longrightarrow> refers col cs key (ps @ [p])"
  by (auto simp: refers_def list_all_iff)

lemma refers_Nil [simp]: "refers col [] key ps"
  by (simp add: refers_def)

lemma refersD: "refers col cs key ps \<Longrightarrow> c \<in> set cs \<Longrightarrow> col c \<in> key ` set ps"
  by (simp add: refers_def list_all_iff)

lemma fk_okD:
  assumes "fk_ok s"
  shows "k \<in> set (keylist s) \<Longrightarrow> keylist_owner_did k \<in> accounts_did ` set (accounts s)"
    and "m \<in> set (messages s) \<Longrightarrow> messages_owner_did m \<in> accounts_did ` set (accounts s)"
    and "u \<in> set (blob_uploads s) \<Longrightarrow> uploads_blob_id u \<in> blobs_id ` set (blobs s)"
    and "r \<in> set (replicas s) \<Longrightarrow> replicas_account_did r \<in> raccounts_did ` set (replica_accounts s)"
    and "c \<in> set (replica_recipients s) \<Longrightarrow> recipients_account_did c \<in> raccounts_did ` set (replica_accounts s)"
    and "p \<in> set (replica_packages s) \<Longrightarrow> packages_account_did p \<in> raccounts_did ` set (replica_accounts s)"
    and "d \<in> set (replica_deliveries s) \<Longrightarrow> deliveries_package_id d \<in> packages_id ` set (replica_packages s)"
    and "d \<in> set (replica_deliveries s) \<Longrightarrow> deliveries_replica_did d \<in> replicas_did ` set (replicas s)"
    and "e \<in> set (replica_executions s) \<Longrightarrow> executions_account_did e \<in> raccounts_did ` set (replica_accounts s)"
  using assms by (simp_all add: fk_ok_def refers_def list_all_iff)

text \<open>Children whose parent was deleted are deleted with it.\<close>

lemma refers_cascade:
  "refers col cs key ps \<Longrightarrow>
   refers col (filter (\<lambda>c. col c \<notin> set (map key (filter P ps))) cs) key (filter (\<lambda>p. \<not> P p) ps)"
  by (force simp: refers_iff)

lemma delete_accounts_fk: "fk_ok s \<Longrightarrow> fk_ok (delete_accounts which s)"
  by (simp add: delete_accounts_def Let_def fk_ok_def refers_cascade [simplified])

lemma delete_executions_fk: "fk_ok s \<Longrightarrow> fk_ok (delete_executions which s)"
  by (simp add: delete_executions_def Let_def fk_ok_def refers_cascade [simplified])

lemma messages_inv:
  assumes "db_inv s" and "distinct (map messages_id ms)"
    and "refers messages_owner_did ms accounts_did (accounts s)"
  shows "db_inv (s\<lparr>messages := ms\<rparr>)"
  using assms by (simp add: db_inv_def uniq_ok_def fk_ok_def names_ok_def apart_def role_names ordinals_ok_def
      replicas_of_def mail_defs listings_defs blobs_defs)

lemma keylist_inv:
  assumes "db_inv s" and "distinct (map keylist_recipient_did ks)"
    and "refers keylist_owner_did ks accounts_did (accounts s)" and "names_ok (s\<lparr>keylist := ks\<rparr>)"
  shows "db_inv (s\<lparr>keylist := ks\<rparr>)"
  using assms by (simp add: db_inv_def uniq_ok_def fk_ok_def ordinals_ok_def
      replicas_of_def mail_defs listings_defs blobs_defs)

lemma blobs_tables_inv:
  assumes "db_inv s" and "uniq_ok (s\<lparr>ended_blobs := es, blobs := bs, blob_uploads := us\<rparr>)"
    and "refers uploads_blob_id us blobs_id bs"
    and "blobs_ok (s\<lparr>ended_blobs := es, blobs := bs, blob_uploads := us\<rparr>)"
  shows "db_inv (s\<lparr>ended_blobs := es, blobs := bs, blob_uploads := us\<rparr>)"
  using assms by (simp add: db_inv_def fk_ok_def names_ok_def apart_def role_names ordinals_ok_def
      replicas_of_def mail_defs listings_defs)

section \<open>Ending blobs\<close>

definition end_blobs :: "(blob_row \<Rightarrow> bool) \<Rightarrow> db \<Rightarrow> db" where
  "end_blobs which s = delete_blobs which (s\<lparr>ended_blobs := ended_blobs s @ map blobs_id (filter which (blobs s))\<rparr>)"

lemma record_ended_uniq:
  assumes "uniq_ok s" and "blobs_ok s"
  shows "uniq_ok (record_ended which s)"
  using assms by (auto simp: record_ended_def uniq_ok_def blobs_ok_def list_all_iff)

lemma end_blobs_uniq:
  assumes "uniq_ok s" and "blobs_ok s"
  shows "uniq_ok (end_blobs which s)"
  using assms by (auto simp: end_blobs_def delete_blobs_def Let_def uniq_ok_def blobs_ok_def list_all_iff)

lemma end_blobs_fk: "fk_ok s \<Longrightarrow> fk_ok (end_blobs which s)"
  by (simp add: end_blobs_def delete_blobs_def Let_def fk_ok_def refers_cascade [simplified])

lemma endBlobs_run:
  assumes "uniq_ok s" and "fk_ok s" and "blobs_ok s"
    and "which (record_ended which s) = which s"
  shows "then_tx (endBlobs which) f (s, d) = f () (end_blobs (which s) s, d)"
proof -
  have fk: "fk_ok (record_ended which s)"
    using assms(2) by (simp add: fk_ok_def record_ended_def)
  have e: "delete_blobs (which (record_ended which s)) (record_ended which s) = end_blobs (which s) s"
    unfolding assms(4) by (simp add: end_blobs_def record_ended_def)
  have u: "uniq_ok (record_ended which s)" by (rule record_ended_uniq [OF assms(1,3)])
  show ?thesis
    using end_blobs_uniq [OF assms(1,3), of "which s"] end_blobs_fk [OF assms(2), of "which s"] u fk
    by (simp add: endBlobs_def then_tx_def statement_def e)
qed

lemma end_blobs_inv: "db_inv s \<Longrightarrow> db_inv (end_blobs which s)"
proof -
  assume s: "db_inv s"
  note u = end_blobs_uniq [OF db_invD(1,7) [OF s], of which]
  have "blobs_ok (end_blobs which s)"
    using db_invD(1,7) [OF s]
    by (auto simp: end_blobs_def delete_blobs_def Let_def blobs_defs uniq_ok_def dest: same_key_same_row)
  moreover have "refers uploads_blob_id (filter (\<lambda>u. uploads_blob_id u \<notin> blobs_id ` {b \<in> set (blobs s). which b})
      (blob_uploads s)) blobs_id (filter (\<lambda>b. \<not> which b) (blobs s))"
    using db_invD(2) [OF s] refers_cascade [of uploads_blob_id "blob_uploads s" blobs_id "blobs s" which]
    by (simp add: fk_ok_def)
  ultimately show ?thesis
    using u blobs_tables_inv [OF s] by (simp add: end_blobs_def delete_blobs_def Let_def)
qed

section \<open>Ending deliveries\<close>

definition end_deliveries :: "(delivery_row \<Rightarrow> bool) \<Rightarrow> db \<Rightarrow> db" where
  "end_deliveries which s = delete_deliveries (\<lambda>_. which) (delete_ending_packages (\<lambda>_. which) s)"

lemma end_deliveries_tables:
  "end_deliveries which s = s\<lparr>replica_packages := replica_packages (end_deliveries which s),
     replica_deliveries := filter (\<lambda>d. \<not> which d) (replica_deliveries s)\<rparr>"
  by (simp add: end_deliveries_def delete_deliveries_def delete_ending_packages_def Let_def)

text \<open>A package goes exactly when it had a delivery and every delivery of it ends.\<close>

lemma end_deliveries_package:
  assumes "distinct (map deliveries_id (replica_deliveries s))"
  shows "p \<in> set (replica_packages (end_deliveries which s)) \<longleftrightarrow>
     p \<in> set (replica_packages s) \<and>
     ((\<exists>d\<in>set (replica_deliveries s). deliveries_package_id d = packages_id p) \<longrightarrow>
      (\<exists>d\<in>set (replica_deliveries s). deliveries_package_id d = packages_id p \<and> \<not> which d))"
proof -
  have "deliveries_id d \<in> deliveries_id ` {d \<in> set (replica_deliveries s). which d} \<longleftrightarrow> which d"
    if "d \<in> set (replica_deliveries s)" for d
    using that same_key_same_row [OF assms, of d] by auto
  then show ?thesis
    by (force simp: end_deliveries_def delete_deliveries_def delete_ending_packages_def Let_def)
qed

lemma end_deliveries_sub:
  "replica_packages (end_deliveries which s) = filter (\<lambda>p. p \<in> set (replica_packages (end_deliveries which s)))
     (replica_packages s)"
  by (auto simp: end_deliveries_def delete_deliveries_def delete_ending_packages_def Let_def intro!: filter_cong)

lemma end_deliveries_inv:
  assumes "db_inv s"
  shows "db_inv (end_deliveries which s)"
proof -
  note s = db_invD [OF assms]
  let ?s = "end_deliveries which s"
  have d: "distinct (map deliveries_id (replica_deliveries s))" using s(1) by (simp add: uniq_ok_def)
  obtain P where P: "replica_packages ?s = filter P (replica_packages s)"
    using end_deliveries_sub by blast
  have e: "?s = s\<lparr>replica_packages := filter P (replica_packages s),
      replica_deliveries := filter (\<lambda>d. \<not> which d) (replica_deliveries s)\<rparr>"
    using end_deliveries_tables [of which s] P by simp
  have keep: "p \<in> set (filter P (replica_packages s))"
    if "p \<in> set (replica_packages s)" "c \<in> set (replica_deliveries s)" "\<not> which c"
      "packages_id p = deliveries_package_id c" for p c
    unfolding P [symmetric] end_deliveries_package [OF d] using that by metis
  show ?thesis
  proof (rule db_invI)
    show "uniq_ok ?s" using s(1) by (simp add: e uniq_ok_def)
    have "refers deliveries_package_id (filter (\<lambda>d. \<not> which d) (replica_deliveries s)) packages_id
        (filter P (replica_packages s))"
      unfolding refers_iff
    proof
      fix c assume "c \<in> set (filter (\<lambda>d. \<not> which d) (replica_deliveries s))"
      then have c: "c \<in> set (replica_deliveries s)" "\<not> which c" by auto
      obtain p where "p \<in> set (replica_packages s)" "packages_id p = deliveries_package_id c"
        using s(2) c(1) by (auto simp: fk_ok_def refers_iff)
      with keep c show "\<exists>p\<in>set (filter P (replica_packages s)). packages_id p = deliveries_package_id c"
        by blast
    qed
    then show "fk_ok ?s" using s(2) by (simp add: e fk_ok_def)
    show "names_ok ?s" by (rule names_ok_shrink [OF s(3)]) (simp_all add: e role_names)
    show "ordinals_ok ?s" using s(4) by (simp add: e ordinals_ok_def replicas_of_def)
    have "delivery_ok ?s c" if c: "c \<in> set (replica_deliveries s)" "\<not> which c" for c
    proof -
      have "delivery_ok s c" using s(5) c(1) by (simp add: mail_ok_def list_all_iff)
      then show ?thesis using keep [OF _ c] by (auto simp: delivery_ok_def e simp del: set_filter)
    qed
    then show "mail_ok ?s" using s(5) by (simp add: e mail_ok_def list_all_iff)
    show "listings_ok ?s" using s(6) by (simp add: e listings_defs)
    show "blobs_ok ?s" using s(7) by (simp add: e blobs_defs)
  qed
qed

lemma endDeliveries_run:
  assumes "db_inv s" and "which (delete_ending_packages which s) = which s"
  shows "then_tx (endDeliveries which) f (s, d) = f () (end_deliveries (which s) s, True)"
proof -
  have e: "delete_deliveries which (delete_ending_packages which s) = end_deliveries (which s) s"
    unfolding delete_deliveries_def assms(2) end_deliveries_def
    by (simp add: delete_ending_packages_def Let_def)
  have u: "uniq_ok (delete_ending_packages which s)"
    using db_invD(1) [OF assms(1)] by (simp add: uniq_ok_def delete_ending_packages_def Let_def)
  show ?thesis
    using db_invD(1) [OF end_deliveries_inv [OF assms(1)], of "which s"] u
    by (simp add: endDeliveries_def then_tx_def defer_foreign_keys_def statement_def e)
qed

end
