(* ===== verification/Mediator_Accounts.thy ===== *)
theory Mediator_Accounts
  imports Mediator_Statements
begin

text \<open>
  Ordinary mediation in the mediator's store: the stored identity, accounts
  (\<open>grantMediation\<close>, \<open>revokeMediation\<close>), the recipients bound to them and the
  messages waiting for them. Each method takes the clock reading and the
  random identifier the code draws as arguments, runs its batch, and returns
  what the driver answered with the database after it.
\<close>

section \<open>The stored identity\<close>

definition loadIdentity :: "db \<Rightarrow> string option" where
  "loadIdentity s = identity s"

text \<open>\<open>INSERT OR IGNORE\<close>, then the row that won; \<open>None\<close> is the throw when no row is there.\<close>

definition initIdentity :: "string \<Rightarrow> db \<Rightarrow> string option \<times> db" where
  "initIdentity secretsJson s =
     (let s' = (case identity s of None \<Rightarrow> s\<lparr>identity := Some secretsJson\<rparr> | Some _ \<Rightarrow> s)
      in (loadIdentity s', s'))"

section \<open>Accounts\<close>

definition insert_account :: "time \<Rightarrow> did \<Rightarrow> db \<Rightarrow> db" where
  "insert_account now did s =
     (if not_replica_mediation (spellings did None) s \<and> \<not> has_key accounts_did did (accounts s)
      then s\<lparr>accounts := accounts s @ [\<lparr>accounts_did = did, accounts_created_at = now\<rparr>]\<rparr>
      else s)"

definition isMediated :: "did \<Rightarrow> db \<Rightarrow> bool" where
  "isMediated did s = has_key accounts_did did (accounts s)"

definition grantMediation :: "time \<Rightarrow> did \<Rightarrow> db \<Rightarrow> (sql_error + bool) \<times> db" where
  "grantMediation now did =
     batch (then_tx (statement (insert_account now did)) (\<lambda>_. query (isMediated did)))"

definition revokeMediation :: "did \<Rightarrow> db \<Rightarrow> (sql_error + unit) \<times> db" where
  "revokeMediation did =
     batch (then_tx (endBlobs (\<lambda>s b. blobs_owner_did b = did \<and> has_key accounts_did did (accounts s))) (\<lambda>_.
            statement (delete_accounts (\<lambda>a. accounts_did a = did))))"

text \<open>The DID a sender holds blobs under: an account as written, else an active replica by its short form.\<close>

definition blobOwner :: "did \<Rightarrow> db \<Rightarrow> did option" where
  "blobOwner sender s =
     (case spellings sender None of (asWritten, short) \<Rightarrow>
        if has_key accounts_did asWritten (accounts s) then Some asWritten
        else if \<exists>r\<in>set (replicas s). replicas_did r = short \<and> is_active r then Some short
        else None)"

section \<open>Recipients\<close>

datatype AddRecipientResult = Added | AlreadyYours | Taken

definition ownerOf :: "did \<Rightarrow> db \<Rightarrow> did option" where
  "ownerOf recipientDid s = map_option keylist_owner_did (row_of keylist_recipient_did recipientDid (keylist s))"

definition insert_recipient :: "time \<Rightarrow> did \<Rightarrow> did \<Rightarrow> db \<Rightarrow> db" where
  "insert_recipient now ownerDid recipientDid s =
     (if not_replica_mediation (spellings recipientDid None) s \<and>
         \<not> has_key keylist_recipient_did recipientDid (keylist s)
      then s\<lparr>keylist := keylist s @ [\<lparr>keylist_recipient_did = recipientDid,
             keylist_owner_did = ownerDid, keylist_created_at = now\<rparr>]\<rparr>
      else s)"

definition addRecipient :: "time \<Rightarrow> did \<Rightarrow> did \<Rightarrow> db \<Rightarrow> (sql_error + AddRecipientResult) \<times> db" where
  "addRecipient now ownerDid recipientDid =
     batch (then_tx (query (ownerOf recipientDid)) (\<lambda>before.
            then_tx (statement (insert_recipient now ownerDid recipientDid)) (\<lambda>_.
            then_tx (query (ownerOf recipientDid)) (\<lambda>after.
            return_tx (if after \<noteq> Some ownerDid then Taken
                       else if before = Some ownerDid then AlreadyYours else Added)))))"

definition is_binding :: "did \<Rightarrow> did \<Rightarrow> keylist_row \<Rightarrow> bool" where
  "is_binding ownerDid recipientDid k =
     (keylist_recipient_did k = recipientDid \<and> keylist_owner_did k = ownerDid)"

definition removeRecipient :: "did \<Rightarrow> did \<Rightarrow> db \<Rightarrow> (sql_error + bool) \<times> db" where
  "removeRecipient ownerDid recipientDid =
     batch (then_tx (query (\<lambda>s. \<exists>k\<in>set (keylist s). is_binding ownerDid recipientDid k)) (\<lambda>changed.
            then_tx (statement (\<lambda>s. s\<lparr>keylist := filter (\<lambda>k. \<not> is_binding ownerDid recipientDid k) (keylist s)\<rparr>)) (\<lambda>_.
            return_tx changed)))"

record RecipientPage =
  page_recipients :: "did list"
  page_remaining :: nat

definition keylist_of :: "did \<Rightarrow> db \<Rightarrow> keylist_row list" where
  "keylist_of ownerDid s = filter (\<lambda>k. keylist_owner_did k = ownerDid) (keylist s)"

definition listRecipients :: "did \<Rightarrow> nat \<Rightarrow> nat \<Rightarrow> db \<Rightarrow> RecipientPage" where
  "listRecipients ownerDid offset limit s =
     (let recipients = map keylist_recipient_did (take limit (drop offset
            (sort_key (\<lambda>k. (keylist_created_at k, keylist_recipient_did k)) (keylist_of ownerDid s))));
          total = length (keylist_of ownerDid s)
      in \<lparr>page_recipients = recipients, page_remaining = total - offset - length recipients\<rparr>)"

section \<open>Messages\<close>

record StoredMessage =
  stored_id :: string
  stored_packed :: string
  stored_createdAt :: time

datatype StoreOutcome = Stored StoredMessage | Full

text \<open>What the store is configured with: how long a message is kept, in milliseconds, and how many an account may hold.\<close>

record store_options =
  ttlMs :: time
  maxMessages :: nat

definition waiting_messages :: "time \<Rightarrow> did \<Rightarrow> db \<Rightarrow> message_row list" where
  "waiting_messages now ownerDid s =
     filter (\<lambda>m. messages_owner_did m = ownerDid \<and> now < messages_expires_at m) (messages s)"

definition insert_message :: "store_options \<Rightarrow> string \<Rightarrow> time \<Rightarrow> did \<Rightarrow> string \<Rightarrow> db \<Rightarrow> db" where
  "insert_message opts mid now ownerDid packed s =
     (if length (waiting_messages now ownerDid s) < maxMessages opts
      then s\<lparr>messages := messages s @ [\<lparr>messages_id = mid, messages_owner_did = ownerDid,
             messages_packed = packed, messages_created_at = now,
             messages_expires_at = now + ttlMs opts\<rparr>]\<rparr>
      else s)"

definition storeMessage ::
    "store_options \<Rightarrow> string \<Rightarrow> time \<Rightarrow> did \<Rightarrow> string \<Rightarrow> db \<Rightarrow> (sql_error + StoreOutcome) \<times> db" where
  "storeMessage opts mid now ownerDid packed =
     batch (then_tx (statement (insert_message opts mid now ownerDid packed)) (\<lambda>_.
            then_tx (query (\<lambda>s. has_key messages_id mid (messages s))) (\<lambda>found.
            return_tx (if \<not> found then Full
              else Stored \<lparr>stored_id = mid, stored_packed = packed, stored_createdAt = now\<rparr>))))"

definition messageCount :: "time \<Rightarrow> did \<Rightarrow> db \<Rightarrow> nat" where
  "messageCount now ownerDid s = length (waiting_messages now ownerDid s)"

definition stored_message :: "message_row \<Rightarrow> StoredMessage" where
  "stored_message m =
     \<lparr>stored_id = messages_id m, stored_packed = messages_packed m, stored_createdAt = messages_created_at m\<rparr>"

definition messagesFor :: "time \<Rightarrow> did \<Rightarrow> nat \<Rightarrow> db \<Rightarrow> StoredMessage list" where
  "messagesFor now ownerDid limit s =
     map stored_message (take limit (sort_key messages_created_at (waiting_messages now ownerDid s)))"

definition is_message :: "did \<Rightarrow> string \<Rightarrow> message_row \<Rightarrow> bool" where
  "is_message ownerDid mid m = (messages_id m = mid \<and> messages_owner_did m = ownerDid)"

definition delete_message :: "did \<Rightarrow> string \<Rightarrow> db \<Rightarrow> db" where
  "delete_message ownerDid mid s = s\<lparr>messages := filter (\<lambda>m. \<not> is_message ownerDid mid m) (messages s)\<rparr>"

text \<open>One statement per id, in order; the ids whose statement changed a row.\<close>

fun delete_each :: "did \<Rightarrow> string list \<Rightarrow> string list tx" where
  "delete_each ownerDid [] = return_tx []"
| "delete_each ownerDid (mid # ids) =
     then_tx (query (\<lambda>s. \<exists>m\<in>set (messages s). is_message ownerDid mid m)) (\<lambda>changed.
     then_tx (statement (delete_message ownerDid mid)) (\<lambda>_.
     then_tx (delete_each ownerDid ids) (\<lambda>gone.
     return_tx (if changed then mid # gone else gone))))"

definition deleteMessages :: "did \<Rightarrow> string list \<Rightarrow> db \<Rightarrow> (sql_error + string list) \<times> db" where
  "deleteMessages ownerDid ids = batch (delete_each ownerDid ids)"


section \<open>What the methods keep\<close>

lemma insert_account_inv:
  assumes "db_inv s"
  shows "db_inv (insert_account now did s)"
proof (cases "not_replica_mediation (spellings did None) s \<and> did \<notin> accounts_did ` set (accounts s)")
  case True
  note s = db_invD [OF assms]
  let ?s = "insert_account now did s"
  have e: "?s = s\<lparr>accounts := accounts s @ [\<lparr>accounts_did = did, accounts_created_at = now\<rparr>]\<rparr>"
    using True by (simp add: insert_account_def)
  show ?thesis
  proof (rule db_invI)
    show "uniq_ok ?s" using s(1) True by (auto simp: e uniq_ok_def)
    show "fk_ok ?s" using s(2) by (auto simp: e fk_ok_def refers_iff)
    show "names_ok ?s"
      by (rule names_ok_add_ordinary [OF s(3), of did]) (use True in \<open>auto simp: e role_names\<close>)
    show "ordinals_ok ?s" using s(4) by (simp add: e ordinals_ok_def replicas_of_def)
    show "mail_ok ?s" using s(5) by (simp add: e mail_defs)
    show "listings_ok ?s" using s(6) by (simp add: e listings_defs)
    show "blobs_ok ?s" using s(7) by (auto simp: e blobs_defs)
  qed
next
  case False
  then show ?thesis using assms by (auto simp: insert_account_def)
qed

lemma grantMediation_run:
  assumes "db_inv s"
  shows "grantMediation now did s = (Inr (isMediated did (insert_account now did s)), insert_account now did s)"
  using db_invD(1,2) [OF insert_account_inv [OF assms, of now did]]
  by (simp add: grantMediation_def batch_def statement_run query_def)

lemma grantMediation_inv: "db_inv s \<Longrightarrow> db_inv (snd (grantMediation now did s))"
  by (simp add: grantMediation_run insert_account_inv)

lemma delete_accounts_inv:
  assumes "db_inv s" and "\<And>b. b \<in> set (blobs s) \<Longrightarrow> blobs_owner_did b \<noteq> did"
  shows "db_inv (delete_accounts (\<lambda>a. accounts_did a = did) s)"
proof -
  note s = db_invD [OF assms(1)]
  let ?s = "delete_accounts (\<lambda>a. accounts_did a = did) s"
  show ?thesis
  proof (rule db_invI)
    show "uniq_ok ?s" using s(1) by (simp add: delete_accounts_def Let_def uniq_ok_def)
    show "fk_ok ?s" using s(2) by (rule delete_accounts_fk)
    show "names_ok ?s"
      by (rule names_ok_shrink [OF s(3)]) (auto simp: delete_accounts_def Let_def role_names)
    show "ordinals_ok ?s" using s(4) by (simp add: delete_accounts_def Let_def ordinals_ok_def replicas_of_def)
    show "mail_ok ?s" using s(5) by (simp add: delete_accounts_def Let_def mail_defs)
    show "listings_ok ?s" using s(6) by (simp add: delete_accounts_def Let_def listings_defs)
    show "blobs_ok ?s" using s(7) assms(2) by (force simp: delete_accounts_def Let_def blobs_defs)
  qed
qed

definition revoked :: "did \<Rightarrow> db \<Rightarrow> db" where
  "revoked did s = delete_accounts (\<lambda>a. accounts_did a = did)
     (end_blobs (\<lambda>b. blobs_owner_did b = did \<and> isMediated did s) s)"

lemma revoked_inv:
  assumes "db_inv s"
  shows "db_inv (revoked did s)"
proof (cases "isMediated did s")
  case True
  then show ?thesis
    unfolding revoked_def
    by (intro delete_accounts_inv end_blobs_inv assms) (auto simp: end_blobs_def delete_blobs_def Let_def)
next
  case False
  then have "\<forall>a\<in>set (accounts s). accounts_did a \<noteq> did" by (auto simp: isMediated_def)
  then have f: "filter (\<lambda>a. accounts_did a = did) (accounts s) = []"
      "filter (\<lambda>a. accounts_did a \<noteq> did) (accounts s) = accounts s" by (auto simp: filter_empty_conv)
  have "revoked did s = s" using False f
    by (simp add: revoked_def delete_accounts_def end_blobs_def delete_blobs_def Let_def)
  then show ?thesis using assms by simp
qed

lemma revokeMediation_run:
  assumes "db_inv s"
  shows "revokeMediation did s = (Inr (), revoked did s)"
proof -
  let ?which = "\<lambda>s b. blobs_owner_did b = did \<and> has_key accounts_did did (accounts s)"
  have r: "revoked did s = delete_accounts (\<lambda>a. accounts_did a = did) (end_blobs (?which s) s)"
    by (simp add: revoked_def isMediated_def)
  have "then_tx (endBlobs ?which) (\<lambda>_. statement (delete_accounts (\<lambda>a. accounts_did a = did))) (s, False) =
      statement (delete_accounts (\<lambda>a. accounts_did a = did)) (end_blobs (?which s) s, False)"
    by (rule endBlobs_run [OF db_invD(1,2,7) [OF assms]]) (simp add: record_ended_def)
  then show ?thesis
    using db_invD(1,2) [OF revoked_inv [OF assms, of did]]
    by (simp add: revokeMediation_def batch_def statement_def r del: has_key_iff)
qed

lemma insert_recipient_inv:
  assumes "db_inv s" and "isMediated ownerDid s"
  shows "db_inv (insert_recipient now ownerDid r s)"
proof (cases "not_replica_mediation (spellings r None) s \<and> r \<notin> keylist_recipient_did ` set (keylist s)")
  case True
  note s = db_invD [OF assms(1)]
  let ?k = "\<lparr>keylist_recipient_did = r, keylist_owner_did = ownerDid, keylist_created_at = now\<rparr>"
  have "db_inv (s\<lparr>keylist := keylist s @ [?k]\<rparr>)"
  proof (rule keylist_inv [OF assms(1)])
    show "distinct (map keylist_recipient_did (keylist s @ [?k]))"
      using s(1) True by (auto simp: uniq_ok_def)
    show "refers keylist_owner_did (keylist s @ [?k]) accounts_did (accounts s)"
      using s(2) assms(2) by (simp add: fk_ok_def isMediated_def)
    show "names_ok (s\<lparr>keylist := keylist s @ [?k]\<rparr>)"
      by (rule names_ok_add_ordinary [OF s(3), of r]) (use True in \<open>auto simp: role_names\<close>)
  qed
  then show ?thesis using True by (simp add: insert_recipient_def)
next
  case False
  then show ?thesis using assms by (auto simp: insert_recipient_def)
qed

lemma ownerOf_None: "ownerOf r s = None \<longleftrightarrow> r \<notin> keylist_recipient_did ` set (keylist s)"
  by (simp add: ownerOf_def row_of_None)

lemma ownerOf_insert_recipient:
  "ownerOf r (insert_recipient now ownerDid r s) =
     (if ownerOf r s = None \<and> not_replica_mediation (spellings r None) s then Some ownerDid else ownerOf r s)"
  by (auto simp: ownerOf_def insert_recipient_def row_of_append row_of_None split: option.splits dest: row_of_SomeD)

lemma addRecipient_run:
  assumes "db_inv s" and "isMediated ownerDid s"
  shows "addRecipient now ownerDid r s =
     (Inr (case ownerOf r s of
         Some owner \<Rightarrow> if owner = ownerDid then AlreadyYours else Taken
       | None \<Rightarrow> if not_replica_mediation (spellings r None) s then Added else Taken),
      insert_recipient now ownerDid r s)"
  using db_invD(1,2) [OF insert_recipient_inv [OF assms, of now r]]
  by (auto simp: addRecipient_def batch_def statement_run tx_simps ownerOf_insert_recipient
      split: option.splits)

lemma addRecipient_no_account:
  assumes "db_inv s" and "\<not> isMediated ownerDid s"
    and "ownerOf r s = None" and "not_replica_mediation (spellings r None) s"
  shows "addRecipient now ownerDid r s = (Inl ForeignKeyConstraint, s)"
proof -
  have u: "uniq_ok (insert_recipient now ownerDid r s)"
    using db_invD(1) [OF assms(1)] assms(3,4) by (auto simp: insert_recipient_def uniq_ok_def ownerOf_None)
  have "\<not> fk_ok (insert_recipient now ownerDid r s)"
    using assms by (auto simp: insert_recipient_def fk_ok_def isMediated_def ownerOf_None)
  with u show ?thesis
    by (simp add: addRecipient_def batch_def tx_simps then_tx_def statement_def query_def)
qed

lemma removeRecipient_run:
  fixes ownerDid r :: did
  assumes "db_inv s"
  defines "s' \<equiv> s\<lparr>keylist := filter (\<lambda>k. \<not> is_binding ownerDid r k) (keylist s)\<rparr>"
  shows "removeRecipient ownerDid r s = (Inr (ownerOf r s = Some ownerDid), s')" and "db_inv s'"
proof -
  note s = db_invD [OF assms(1)]
  show inv: "db_inv s'" unfolding s'_def
  proof (rule keylist_inv [OF assms(1)])
    show "names_ok (s\<lparr>keylist := filter (\<lambda>k. \<not> is_binding ownerDid r k) (keylist s)\<rparr>)"
      by (rule names_ok_shrink [OF s(3)]) (auto simp: role_names)
  qed (use s(1,2) in \<open>auto simp: uniq_ok_def fk_ok_def\<close>)
  have d: "distinct (map keylist_recipient_did (keylist s))" using s(1) by (simp add: uniq_ok_def)
  have "(\<exists>k\<in>set (keylist s). is_binding ownerDid r k) = (ownerOf r s = Some ownerDid)"
    by (auto simp: ownerOf_def is_binding_def row_of_Some_iff [OF d])
  then show "removeRecipient ownerDid r s = (Inr (ownerOf r s = Some ownerDid), s')"
    using db_invD(1,2) [OF inv]
    by (simp add: removeRecipient_def batch_def tx_simps then_tx_def statement_def query_def s'_def)
qed

lemma insert_message_inv:
  assumes "db_inv s" and "isMediated ownerDid s" and "mid \<notin> messages_id ` set (messages s)"
  shows "db_inv (insert_message opts mid now ownerDid packed s)"
proof -
  note s = db_invD(1,2) [OF assms(1)]
  have "db_inv (s\<lparr>messages := messages s @ [\<lparr>messages_id = mid, messages_owner_did = ownerDid,
      messages_packed = packed, messages_created_at = now, messages_expires_at = now + ttlMs opts\<rparr>]\<rparr>)"
    by (rule messages_inv [OF assms(1)])
      (use s assms(2,3) in \<open>auto simp: uniq_ok_def fk_ok_def isMediated_def\<close>)
  then show ?thesis using assms(1) by (simp add: insert_message_def)
qed

lemma storeMessage_run:
  assumes "db_inv s" and "isMediated ownerDid s" and "mid \<notin> messages_id ` set (messages s)"
  shows "storeMessage opts mid now ownerDid packed s =
     (Inr (if messageCount now ownerDid s < maxMessages opts
           then Stored \<lparr>stored_id = mid, stored_packed = packed, stored_createdAt = now\<rparr> else Full),
      insert_message opts mid now ownerDid packed s)"
  using db_invD(1,2) [OF insert_message_inv [OF assms, of opts now packed]] assms(3)
  by (simp add: storeMessage_def batch_def statement_run tx_simps insert_message_def messageCount_def)

lemma delete_message_inv: "db_inv s \<Longrightarrow> db_inv (delete_message ownerDid mid s)"
  unfolding delete_message_def
  by (rule messages_inv) (use db_invD(1,2) [of s] in \<open>auto simp: uniq_ok_def fk_ok_def\<close>)

definition without_messages :: "did \<Rightarrow> string set \<Rightarrow> db \<Rightarrow> db" where
  "without_messages ownerDid ids s =
     s\<lparr>messages := filter (\<lambda>m. \<not> (messages_owner_did m = ownerDid \<and> messages_id m \<in> ids)) (messages s)\<rparr>"

lemma delete_each_run:
  assumes "db_inv s"
  shows "\<exists>gone. delete_each ownerDid ids (s, d) = Inr (gone, without_messages ownerDid (set ids) s, d) \<and>
     distinct gone \<and> set gone = {i \<in> set ids. \<exists>m\<in>set (messages s). is_message ownerDid i m} \<and>
     db_inv (without_messages ownerDid (set ids) s)"
  using assms
proof (induction ids arbitrary: s)
  case Nil
  then show ?case by (simp add: tx_simps without_messages_def)
next
  case (Cons i ids)
  let ?s = "delete_message ownerDid i s"
  have inv: "db_inv ?s" using Cons.prems by (rule delete_message_inv)
  from Cons.IH [OF inv] obtain gone where g:
    "delete_each ownerDid ids (?s, d) = Inr (gone, without_messages ownerDid (set ids) ?s, d)"
    "distinct gone" "set gone = {i' \<in> set ids. \<exists>m\<in>set (messages ?s). is_message ownerDid i' m}"
    "db_inv (without_messages ownerDid (set ids) ?s)" by blast
  have e: "without_messages ownerDid (set ids) ?s = without_messages ownerDid (set (i # ids)) s"
    unfolding without_messages_def delete_message_def is_message_def
    by (simp, rule arg_cong [where f = "\<lambda>ms. s\<lparr>messages := ms\<rparr>"], rule filter_cong) auto
  let ?changed = "\<exists>m\<in>set (messages s). is_message ownerDid i m"
  have "delete_each ownerDid (i # ids) (s, d) =
      Inr (if ?changed then i # gone else gone, without_messages ownerDid (set (i # ids)) s, d)"
    using db_invD(1,2) [OF inv] g(1) by (simp add: tx_simps statement_run then_tx_Inr e)
  moreover have "distinct (if ?changed then i # gone else gone)"
    using g(2,3) by (auto simp: delete_message_def is_message_def)
  moreover have "set (if ?changed then i # gone else gone) =
      {i' \<in> set (i # ids). \<exists>m\<in>set (messages s). is_message ownerDid i' m}"
    using g(3) by (auto simp: delete_message_def is_message_def)
  ultimately show ?case using g(4) unfolding e by blast
qed

lemma deleteMessages_run:
  assumes "db_inv s"
  obtains gone where "deleteMessages ownerDid ids s = (Inr gone, without_messages ownerDid (set ids) s)"
    and "distinct gone"
    and "set gone = {i \<in> set ids. \<exists>m\<in>set (messages s). is_message ownerDid i m}"
    and "db_inv (without_messages ownerDid (set ids) s)"
  using delete_each_run [OF assms, of ownerDid ids False]
  by (auto simp: deleteMessages_def batch_def db_inv_def)

end
