(* ===== verification/Mediator_Replicas.thy ===== *)
theory Mediator_Replicas
  imports Mediator_Accounts
begin

text \<open>
  Replica mediation in the mediator's store: accounts, the replicas they
  enroll and remove, and the recipients they share. The clock is read in
  milliseconds; where the code keeps whole seconds it floors the reading.
\<close>

section \<open>Accounts\<close>

record ReplicaAccount =
  ra_accountDid :: did
  ra_accountLongForm :: did
  ra_mediator :: did
  ra_create :: bool

datatype RegisterAccountOutcome = Registered time | RegisterRefused | RegisterConflict

definition insert_replica_account :: "string \<Rightarrow> time \<Rightarrow> ReplicaAccount \<Rightarrow> db \<Rightarrow> db" where
  "insert_replica_account registration now a s =
     (let account = spellings (ra_accountDid a) (Some (ra_accountLongForm a)) in
      if ra_create a \<and> not_ordinary account s \<and> not_replica account s \<and> not_shared_recipient account s \<and>
         \<not> has_key raccounts_did (ra_accountDid a) (replica_accounts s)
      then s\<lparr>replica_accounts := replica_accounts s @ [\<lparr>raccounts_did = ra_accountDid a,
             raccounts_mediator = ra_mediator a, raccounts_long_form = ra_accountLongForm a,
             raccounts_created_at = now, raccounts_registration = registration\<rparr>]\<rparr>
      else s)"

definition registerReplicaAccount ::
    "string \<Rightarrow> time \<Rightarrow> ReplicaAccount \<Rightarrow> db \<Rightarrow> (sql_error + RegisterAccountOutcome) \<times> db" where
  "registerReplicaAccount registration now a =
     batch (then_tx (statement (insert_replica_account registration now a)) (\<lambda>_.
            then_tx (query (\<lambda>s. row_of raccounts_did (ra_accountDid a) (replica_accounts s))) (\<lambda>held.
            return_tx (case held of
                None \<Rightarrow> if ra_create a then RegisterConflict else RegisterRefused
              | Some h \<Rightarrow> if raccounts_mediator h = ra_mediator a
                          then Registered (raccounts_created_at h div 1000) else RegisterConflict))))"

text \<open>
  \<open>account_did = (SELECT did FROM replica_accounts WHERE did = ? AND mediator = ?)\<close>: the
  rows of the account, none without such an account bound to that mediator.
\<close>

definition held_by :: "did \<Rightarrow> did \<Rightarrow> db \<Rightarrow> did \<Rightarrow> bool" where
  "held_by accountDid mediator s account = (account = accountDid \<and> bound_account accountDid mediator s)"

definition delete_account_deliveries :: "did \<Rightarrow> did \<Rightarrow> db \<Rightarrow> db" where
  "delete_account_deliveries a m s = s\<lparr>replica_deliveries := filter (\<lambda>d. \<not>
     ((\<exists>p\<in>set (replica_packages s). held_by a m s (packages_account_did p) \<and>
         packages_id p = deliveries_package_id d) \<or>
      (\<exists>r\<in>set (replicas s). held_by a m s (replicas_account_did r) \<and>
         replicas_did r = deliveries_replica_did d))) (replica_deliveries s)\<rparr>"

definition delete_account_packages :: "did \<Rightarrow> did \<Rightarrow> db \<Rightarrow> db" where
  "delete_account_packages a m s = s\<lparr>replica_packages :=
     filter (\<lambda>p. \<not> held_by a m s (packages_account_did p)) (replica_packages s)\<rparr>"

definition delete_account_recipients :: "did \<Rightarrow> did \<Rightarrow> db \<Rightarrow> db" where
  "delete_account_recipients a m s = s\<lparr>replica_recipients :=
     filter (\<lambda>r. \<not> held_by a m s (recipients_account_did r)) (replica_recipients s)\<rparr>"

definition delete_account_executions :: "did \<Rightarrow> did \<Rightarrow> db \<Rightarrow> db" where
  "delete_account_executions a m s =
     delete_executions (\<lambda>e. held_by a m s (executions_account_did e)) s"

definition of_account_replica :: "did \<Rightarrow> did \<Rightarrow> db \<Rightarrow> did \<Rightarrow> bool" where
  "of_account_replica a m s did =
     (\<exists>r\<in>set (replicas s). held_by a m s (replicas_account_did r) \<and> replicas_did r = did)"

definition delete_account_replicas :: "did \<Rightarrow> did \<Rightarrow> db \<Rightarrow> db" where
  "delete_account_replicas a m s = s\<lparr>replicas :=
     filter (\<lambda>r. \<not> held_by a m s (replicas_account_did r)) (replicas s)\<rparr>"

definition delete_account :: "did \<Rightarrow> did \<Rightarrow> db \<Rightarrow> db" where
  "delete_account a m s = s\<lparr>replica_accounts :=
     filter (\<lambda>r. \<not> (raccounts_did r = a \<and> raccounts_mediator r = m)) (replica_accounts s)\<rparr>"

definition deleteReplicaAccount :: "did \<Rightarrow> did \<Rightarrow> db \<Rightarrow> (sql_error + bool) \<times> db" where
  "deleteReplicaAccount accountDid mediator =
     batch (then_tx (query (bound_account accountDid mediator)) (\<lambda>bound.
            then_tx (statement (delete_account_deliveries accountDid mediator)) (\<lambda>_.
            then_tx (statement (delete_account_packages accountDid mediator)) (\<lambda>_.
            then_tx (statement (delete_account_recipients accountDid mediator)) (\<lambda>_.
            then_tx (statement (delete_account_executions accountDid mediator)) (\<lambda>_.
            then_tx (endBlobs (\<lambda>s b. of_account_replica accountDid mediator s (blobs_owner_did b))) (\<lambda>_.
            then_tx (statement (delete_account_replicas accountDid mediator)) (\<lambda>_.
            then_tx (statement (delete_account accountDid mediator)) (\<lambda>_.
            return_tx bound)))))))))"

section \<open>Replicas\<close>

record ReplicaAddition =
  add_accountDid :: did
  add_mediator :: did
  add_replicaDid :: did
  add_replicaLongForm :: did
  add_grant :: string
  add_maxReplicas :: nat

datatype AddReplicaOutcome = ReplicaAdded time | AddUnknown | AddConflict | AddFull

definition active_replicas :: "did \<Rightarrow> db \<Rightarrow> replica_row list" where
  "active_replicas account s = filter is_active (replicas_of account s)"

definition insert_replica :: "time \<Rightarrow> ReplicaAddition \<Rightarrow> db \<Rightarrow> db" where
  "insert_replica now a s =
     (let account = add_accountDid a; replica = add_replicaDid a;
          ordinal = length (replicas_of account s) + 1 in
      if bound_account account (add_mediator a) s \<and>
         not_ordinary (spellings replica (Some (add_replicaLongForm a))) s \<and>
         \<not> has_key raccounts_did replica (replica_accounts s) \<and>
         not_shared_recipient (replica, replica) s \<and>
         length (active_replicas account s) < add_maxReplicas a \<and>
         \<not> has_key replicas_did replica (replicas s) \<and>
         (account, ordinal) \<notin> set (map (\<lambda>r. (replicas_account_did r, replicas_ordinal r)) (replicas s))
      then s\<lparr>replicas := replicas s @ [\<lparr>replicas_did = replica, replicas_account_did = account,
             replicas_ordinal = ordinal, replicas_long_form = add_replicaLongForm a,
             replicas_grant_jws = add_grant a, replicas_registered_at = now div 1000,
             replicas_removed_at = None\<rparr>]\<rparr>
      else s)"

definition addReplica :: "time \<Rightarrow> ReplicaAddition \<Rightarrow> db \<Rightarrow> (sql_error + AddReplicaOutcome) \<times> db" where
  "addReplica now a =
     batch (then_tx (statement (insert_replica now a)) (\<lambda>_.
            then_tx (query (\<lambda>s. row_of raccounts_did (add_accountDid a) (replica_accounts s))) (\<lambda>accounts.
            then_tx (query (\<lambda>s. row_of replicas_did (add_replicaDid a) (replicas s))) (\<lambda>bound.
            then_tx (query (\<lambda>s. length (active_replicas (add_accountDid a) s))) (\<lambda>enrollments.
            return_tx (case accounts of
                None \<Rightarrow> AddUnknown
              | Some held \<Rightarrow>
                  if raccounts_mediator held \<noteq> add_mediator a then AddConflict
                  else (case bound of
                      Some binding \<Rightarrow>
                        if replicas_account_did binding = add_accountDid a \<and> replicas_removed_at binding = None
                        then ReplicaAdded (replicas_registered_at binding) else AddConflict
                    | None \<Rightarrow> if enrollments \<ge> add_maxReplicas a then AddFull else AddConflict)))))))"

text \<open>\<open>removedTime\<close> is the column as it is read back, which is not null after the update.\<close>

datatype RemoveOutcome = Removed "time option" | RemoveUnknown | RemoveNotEnrolled

definition enrolled :: "did \<Rightarrow> did \<Rightarrow> did \<Rightarrow> db \<Rightarrow> replica_row \<Rightarrow> bool" where
  "enrolled replicaDid accountDid mediator s r =
     (replicas_did r = replicaDid \<and> held_by accountDid mediator s (replicas_account_did r))"

definition is_enrolled :: "did \<Rightarrow> did \<Rightarrow> did \<Rightarrow> db \<Rightarrow> did \<Rightarrow> bool" where
  "is_enrolled replicaDid accountDid mediator s did =
     (\<exists>r\<in>set (replicas s). enrolled replicaDid accountDid mediator s r \<and> replicas_did r = did)"

definition mark_removed :: "time \<Rightarrow> did \<Rightarrow> did \<Rightarrow> did \<Rightarrow> db \<Rightarrow> db" where
  "mark_removed now replicaDid accountDid mediator s =
     s\<lparr>replicas := map (\<lambda>r. if enrolled replicaDid accountDid mediator s r \<and> is_active r
         then r\<lparr>replicas_removed_at := Some (now div 1000)\<rparr> else r) (replicas s)\<rparr>"

definition removeReplica :: "time \<Rightarrow> did \<Rightarrow> did \<Rightarrow> did \<Rightarrow> db \<Rightarrow> (sql_error + RemoveOutcome) \<times> db" where
  "removeReplica now accountDid mediator replicaDid =
     batch (then_tx (query (bound_account accountDid mediator)) (\<lambda>bound.
            then_tx (endDeliveries (\<lambda>s d. is_enrolled replicaDid accountDid mediator s (deliveries_replica_did d))) (\<lambda>_.
            then_tx (endBlobs (\<lambda>s b. is_enrolled replicaDid accountDid mediator s (blobs_owner_did b))) (\<lambda>_.
            then_tx (statement (mark_removed now replicaDid accountDid mediator)) (\<lambda>_.
            then_tx (query (\<lambda>s. find (enrolled replicaDid accountDid mediator s) (replicas s))) (\<lambda>row.
            return_tx (if \<not> bound then RemoveUnknown
              else case row of None \<Rightarrow> RemoveNotEnrolled | Some r \<Rightarrow> Removed (replicas_removed_at r))))))))"

definition isReplicaAccount :: "did \<Rightarrow> db \<Rightarrow> bool" where
  "isReplicaAccount did s = has_key raccounts_did did (replica_accounts s)"

datatype replica_state = Active | RemovedState

definition replicaState :: "did \<Rightarrow> db \<Rightarrow> replica_state option" where
  "replicaState did s = map_option (\<lambda>r. if is_active r then Active else RemovedState)
     (row_of replicas_did did (replicas s))"

record RosterEntry =
  entry_ordinal :: nat
  entry_grant :: string
  entry_addedTime :: time
  entry_removedTime :: "time option"

record RosterPage =
  roster_registration :: string
  roster_size :: nat
  roster_entries :: "RosterEntry list"

definition roster_entry :: "replica_row \<Rightarrow> RosterEntry" where
  "roster_entry r = \<lparr>entry_ordinal = replicas_ordinal r, entry_grant = replicas_grant_jws r,
     entry_addedTime = replicas_registered_at r, entry_removedTime = replicas_removed_at r\<rparr>"

definition account_bound_to :: "did \<Rightarrow> did \<Rightarrow> db \<Rightarrow> replica_account_row option" where
  "account_bound_to accountDid mediator s =
     find (\<lambda>a. raccounts_did a = accountDid \<and> raccounts_mediator a = mediator) (replica_accounts s)"

definition replicaRoster :: "did \<Rightarrow> did \<Rightarrow> nat \<Rightarrow> nat option \<Rightarrow> nat \<Rightarrow> db \<Rightarrow> RosterPage option" where
  "replicaRoster accountDid mediator after through limit s =
     (let held = filter (\<lambda>r. held_by accountDid mediator s (replicas_account_did r)) (replicas s) in
      map_option (\<lambda>a. \<lparr>roster_registration = raccounts_registration a, roster_size = length held,
        roster_entries = map roster_entry (take limit (sort_key replicas_ordinal
          (filter (\<lambda>r. after < replicas_ordinal r \<and>
             (case through of None \<Rightarrow> True | Some t \<Rightarrow> replicas_ordinal r \<le> t)) held)))\<rparr>)
        (account_bound_to accountDid mediator s))"

definition resolutionMaterial :: "did \<Rightarrow> db \<Rightarrow> did option" where
  "resolutionMaterial did s =
     (case row_of raccounts_did did (replica_accounts s) of
        Some a \<Rightarrow> Some (raccounts_long_form a)
      | None \<Rightarrow> map_option replicas_long_form (row_of replicas_did did (replicas s)))"

section \<open>Shared recipients\<close>

record SharedRecipient =
  share_accountDid :: did
  share_mediator :: did
  share_recipientDid :: did
  share_recipientLongForm :: did
  share_maxRecipients :: nat

datatype ShareOutcome = ShareAdded time | ShareUnknown | ShareConflict | ShareFull

definition unbound :: "did \<times> did \<Rightarrow> db \<Rightarrow> bool" where
  "unbound names s = (not_ordinary names s \<and> not_replica_account names s \<and> not_replica names s)"

definition recipients_of :: "did \<Rightarrow> db \<Rightarrow> recipient_row list" where
  "recipients_of account s = filter (\<lambda>r. recipients_account_did r = account) (replica_recipients s)"

definition insert_shared :: "time \<Rightarrow> SharedRecipient \<Rightarrow> db \<Rightarrow> db" where
  "insert_shared now c s =
     (if bound_account (share_accountDid c) (share_mediator c) s \<and>
         unbound (spellings (share_recipientDid c) (Some (share_recipientLongForm c))) s \<and>
         length (recipients_of (share_accountDid c) s) < share_maxRecipients c \<and>
         \<not> has_key recipients_did (share_recipientDid c) (replica_recipients s)
      then s\<lparr>replica_recipients := replica_recipients s @ [\<lparr>recipients_did = share_recipientDid c,
             recipients_account_did = share_accountDid c,
             recipients_long_form = share_recipientLongForm c, recipients_created_at = now\<rparr>]\<rparr>
      else s)"

definition addSharedRecipient :: "time \<Rightarrow> SharedRecipient \<Rightarrow> db \<Rightarrow> (sql_error + ShareOutcome) \<times> db" where
  "addSharedRecipient now c =
     batch (then_tx (query (bound_account (share_accountDid c) (share_mediator c))) (\<lambda>account.
            then_tx (statement (insert_shared now c)) (\<lambda>_.
            then_tx (query (\<lambda>s. row_of recipients_did (share_recipientDid c) (replica_recipients s))) (\<lambda>held.
            then_tx (query (unbound (spellings (share_recipientDid c) (Some (share_recipientLongForm c))))) (\<lambda>free.
            return_tx (if \<not> account then ShareUnknown
              else case held of
                  Some binding \<Rightarrow> if recipients_account_did binding = share_accountDid c
                    then ShareAdded (recipients_created_at binding div 1000) else ShareConflict
                | None \<Rightarrow> if free then ShareFull else ShareConflict))))))"

datatype RemoveSharedOutcome = SharedRemoved | SharedNoChange | SharedUnknown

definition is_shared :: "did \<Rightarrow> did \<Rightarrow> did \<Rightarrow> db \<Rightarrow> recipient_row \<Rightarrow> bool" where
  "is_shared accountDid mediator recipientDid s r =
     (recipients_did r = recipientDid \<and> held_by accountDid mediator s (recipients_account_did r))"

definition removeSharedRecipient :: "did \<Rightarrow> did \<Rightarrow> did \<Rightarrow> db \<Rightarrow> (sql_error + RemoveSharedOutcome) \<times> db" where
  "removeSharedRecipient accountDid mediator recipientDid =
     batch (then_tx (query (bound_account accountDid mediator)) (\<lambda>account.
            then_tx (query (\<lambda>s. \<exists>r\<in>set (replica_recipients s). is_shared accountDid mediator recipientDid s r)) (\<lambda>changed.
            then_tx (statement (\<lambda>s. s\<lparr>replica_recipients :=
              filter (\<lambda>r. \<not> is_shared accountDid mediator recipientDid s r) (replica_recipients s)\<rparr>)) (\<lambda>_.
            return_tx (if \<not> account then SharedUnknown
              else if changed then SharedRemoved else SharedNoChange)))))"

text \<open>A recipient's place: when it was added, in milliseconds, then its DID; pairs compare in that order.\<close>

type_synonym RecipientPlace = "time \<times> did"

record SharedRecipientPage =
  shared_registration :: string
  shared_recipients :: "RecipientPlace list"
  shared_more :: bool

definition place_of :: "recipient_row \<Rightarrow> RecipientPlace" where
  "place_of r = (recipients_created_at r, recipients_did r)"

definition listSharedRecipients ::
    "did \<Rightarrow> did \<Rightarrow> RecipientPlace option \<Rightarrow> nat \<Rightarrow> db \<Rightarrow> SharedRecipientPage option" where
  "listSharedRecipients accountDid mediator after limit s =
     (let start = (case after of None \<Rightarrow> (-1, []) | Some p \<Rightarrow> p);
          rows = take (limit + 1) (sort_key (\<lambda>p. p) (filter (\<lambda>p. start < p)
            (map place_of (recipients_of accountDid s))))
      in map_option (\<lambda>a. \<lparr>shared_registration = raccounts_registration a,
           shared_recipients = take limit rows, shared_more = limit < length rows\<rparr>)
         (account_bound_to accountDid mediator s))"

definition sharedRecipientMaterial :: "did \<Rightarrow> db \<Rightarrow> did option" where
  "sharedRecipientMaterial did s =
     map_option recipients_long_form (row_of recipients_did did (replica_recipients s))"

section \<open>What the methods keep\<close>

lemma insert_replica_account_inv:
  assumes "db_inv s" and "long_form_of (ra_accountDid a) (ra_accountLongForm a)"
  shows "db_inv (insert_replica_account registration now a s)"
proof (cases "insert_replica_account registration now a s = s")
  case True
  then show ?thesis using assms(1) by simp
next
  case False
  note s = db_invD [OF assms(1)]
  let ?s = "insert_replica_account registration now a s"
  let ?names = "(ra_accountDid a, ra_accountLongForm a)"
  let ?row = "\<lparr>raccounts_did = ra_accountDid a, raccounts_mediator = ra_mediator a,
    raccounts_long_form = ra_accountLongForm a, raccounts_created_at = now,
    raccounts_registration = registration\<rparr>"
  have e: "?s = s\<lparr>replica_accounts := replica_accounts s @ [?row]\<rparr>"
    and g: "not_ordinary ?names s" "not_replica ?names s" "not_shared_recipient ?names s"
      "ra_accountDid a \<notin> raccounts_did ` set (replica_accounts s)"
    using False by (auto simp: insert_replica_account_def Let_def spellings_def split: if_splits)
  show ?thesis
  proof (rule db_invI)
    show "uniq_ok ?s" using s(1) g(4) by (auto simp: e uniq_ok_def)
    show "fk_ok ?s" using s(2) by (simp add: e fk_ok_def)
    show "names_ok ?s"
      by (rule names_ok_add_role [OF s(3) assms(2) g(1)])
        (use names_okD [OF s(3)] g in \<open>auto simp: e role_names not_replica_def not_shared_recipient_def\<close>)
    show "ordinals_ok ?s" using s(4) by (simp add: e ordinals_ok_def replicas_of_def)
    show "mail_ok ?s" using s(5) by (simp add: e mail_defs)
    show "listings_ok ?s" using s(6) by (simp add: e listings_defs)
    show "blobs_ok ?s" using s(7) by (simp add: e blobs_defs)
  qed
qed

lemma registerReplicaAccount_run:
  assumes "db_inv s" and "long_form_of (ra_accountDid a) (ra_accountLongForm a)"
  shows "registerReplicaAccount registration now a s =
     (Inr (case row_of raccounts_did (ra_accountDid a)
             (replica_accounts (insert_replica_account registration now a s)) of
           None \<Rightarrow> if ra_create a then RegisterConflict else RegisterRefused
         | Some h \<Rightarrow> if raccounts_mediator h = ra_mediator a
             then Registered (raccounts_created_at h div 1000) else RegisterConflict),
      insert_replica_account registration now a s)"
  using db_invD(1,2) [OF insert_replica_account_inv [OF assms, of registration now]]
  by (simp add: registerReplicaAccount_def batch_def statement_run tx_simps)

lemma ordinals_numbered: "ordinals_ok s \<Longrightarrow> numbered replicas_ordinal (replicas_of a s)"
proof (cases "replicas_of a s")
  case (Cons r rs)
  assume o: "ordinals_ok s"
  have "r \<in> set (replicas_of a s)" using Cons by simp
  then have "r \<in> set (replicas s)" and "replicas_account_did r = a" by (auto simp: replicas_of_def)
  with o show ?thesis by (auto simp: ordinals_ok_def)
qed simp

text \<open>The next ordinal of an account is never taken, so \<open>ON CONFLICT DO NOTHING\<close> hides no enrollment.\<close>

lemma next_ordinal_free:
  assumes "ordinals_ok s"
  shows "(a, length (replicas_of a s) + 1) \<notin> (\<lambda>r. (replicas_account_did r, replicas_ordinal r)) ` set (replicas s)"
  using numbered_fresh [OF ordinals_numbered [OF assms, of a]] by (auto simp: replicas_of_def)

lemma insert_replica_inv:
  assumes "db_inv s" and "long_form_of (add_replicaDid a) (add_replicaLongForm a)"
  shows "db_inv (insert_replica now a s)"
proof (cases "insert_replica now a s = s")
  case True
  then show ?thesis using assms(1) by simp
next
  case False
  note s = db_invD [OF assms(1)]
  let ?s = "insert_replica now a s"
  let ?acc = "add_accountDid a" and ?rep = "add_replicaDid a"
  let ?row = "\<lparr>replicas_did = ?rep, replicas_account_did = ?acc,
     replicas_ordinal = length (replicas_of ?acc s) + 1, replicas_long_form = add_replicaLongForm a,
     replicas_grant_jws = add_grant a, replicas_registered_at = now div 1000, replicas_removed_at = None\<rparr>"
  have e: "?s = s\<lparr>replicas := replicas s @ [?row]\<rparr>"
    and g: "bound_account ?acc (add_mediator a) s" "not_ordinary (?rep, add_replicaLongForm a) s"
      "?rep \<notin> raccounts_did ` set (replica_accounts s)" "not_shared_recipient (?rep, ?rep) s"
      "?rep \<notin> replicas_did ` set (replicas s)"
    using False by (auto simp: insert_replica_def Let_def spellings_def split: if_splits)
  have acc: "?acc \<in> raccounts_did ` set (replica_accounts s)" using g(1) by (rule bound_account_key)
  show ?thesis
  proof (rule db_invI)
    show "uniq_ok ?s" using s(1) g(5) next_ordinal_free [OF s(4), of ?acc] by (auto simp: e uniq_ok_def)
    show "fk_ok ?s" using s(2) acc by (simp add: e fk_ok_def)
    show "names_ok ?s"
      by (rule names_ok_add_role [OF s(3) assms(2) g(2)])
        (use names_okD [OF s(3)] g in \<open>auto simp: e role_names not_shared_recipient_def\<close>)
    show "ordinals_ok ?s"
      using s(4) ordinals_numbered [OF s(4)]
      by (auto simp: e ordinals_ok_def replicas_of_def intro!: numbered_snoc)
    show "mail_ok ?s" using s(5) by (fastforce simp: e mail_defs)
    show "listings_ok ?s" using s(6) by (fastforce simp: e listings_defs)
    show "blobs_ok ?s" using s(7) by (fastforce simp: e blobs_defs)
  qed
qed

lemma insert_shared_inv:
  assumes "db_inv s" and "long_form_of (share_recipientDid c) (share_recipientLongForm c)"
  shows "db_inv (insert_shared now c s)"
proof (cases "insert_shared now c s = s")
  case True
  then show ?thesis using assms(1) by simp
next
  case False
  note s = db_invD [OF assms(1)]
  let ?s = "insert_shared now c s"
  let ?names = "(share_recipientDid c, share_recipientLongForm c)"
  let ?row = "\<lparr>recipients_did = share_recipientDid c, recipients_account_did = share_accountDid c,
     recipients_long_form = share_recipientLongForm c, recipients_created_at = now\<rparr>"
  have e: "?s = s\<lparr>replica_recipients := replica_recipients s @ [?row]\<rparr>"
    and g: "bound_account (share_accountDid c) (share_mediator c) s" "not_ordinary ?names s"
      "not_replica_account ?names s" "not_replica ?names s"
      "share_recipientDid c \<notin> recipients_did ` set (replica_recipients s)"
    using False by (auto simp: insert_shared_def Let_def spellings_def unbound_def split: if_splits)
  have acc: "share_accountDid c \<in> raccounts_did ` set (replica_accounts s)"
    using g(1) by (rule bound_account_key)
  show ?thesis
  proof (rule db_invI)
    show "uniq_ok ?s" using s(1) g(5) by (auto simp: e uniq_ok_def)
    show "fk_ok ?s" using s(2) acc by (simp add: e fk_ok_def)
    show "names_ok ?s"
      by (rule names_ok_add_role [OF s(3) assms(2) g(2)])
        (use names_okD [OF s(3)] g in \<open>auto simp: e role_names not_replica_account_def not_replica_def\<close>)
    show "ordinals_ok ?s" using s(4) by (simp add: e ordinals_ok_def replicas_of_def)
    show "mail_ok ?s" using s(5) by (simp add: e mail_defs)
    show "listings_ok ?s" using s(6) by (simp add: e listings_defs)
    show "blobs_ok ?s" using s(7) by (simp add: e blobs_defs)
  qed
qed

lemma account_row_mediator:
  assumes "uniq_ok s" and "row_of raccounts_did a (replica_accounts s) = Some h"
  shows "bound_account a m s \<longleftrightarrow> raccounts_mediator h = m"
proof -
  have d: "distinct (map raccounts_did (replica_accounts s))" using assms(1) by (simp add: uniq_ok_def)
  have h: "h \<in> set (replica_accounts s)" "raccounts_did h = a" using row_of_SomeD [OF assms(2)] by auto
  have "raccounts_did x = a \<Longrightarrow> x \<in> set (replica_accounts s) \<Longrightarrow> x = h" for x
    using same_key_same_row [OF d] h by blast
  with h show ?thesis unfolding bound_account_def by blast
qed

lemma replica_accounts_insert_replica [simp]: "replica_accounts (insert_replica now a s) = replica_accounts s"
  by (simp add: insert_replica_def Let_def)

lemma addReplica_run:
  fixes now :: time
  assumes "db_inv s" and "long_form_of (add_replicaDid a) (add_replicaLongForm a)"
  defines "s' \<equiv> insert_replica now a s"
  shows "addReplica now a s =
     (Inr (if \<not> isReplicaAccount (add_accountDid a) s then AddUnknown
           else if \<not> bound_account (add_accountDid a) (add_mediator a) s then AddConflict
           else (case row_of replicas_did (add_replicaDid a) (replicas s') of
               Some binding \<Rightarrow>
                 if replicas_account_did binding = add_accountDid a \<and> is_active binding
                 then ReplicaAdded (replicas_registered_at binding) else AddConflict
             | None \<Rightarrow> if length (active_replicas (add_accountDid a) s') \<ge> add_maxReplicas a
                 then AddFull else AddConflict)), s')"
proof -
  note s' = db_invD(1,2) [OF insert_replica_inv [OF assms(1,2), of now], folded s'_def]
  have r: "replica_accounts s' = replica_accounts s" by (simp add: s'_def)
  show ?thesis
  proof (cases "row_of raccounts_did (add_accountDid a) (replica_accounts s)")
    case None
    then have "\<not> isReplicaAccount (add_accountDid a) s" by (simp add: isReplicaAccount_def row_of_None)
    with None s' r show ?thesis
      by (simp add: addReplica_def batch_def statement_run tx_simps flip: s'_def)
  next
    case (Some h)
    then have "isReplicaAccount (add_accountDid a) s"
      by (simp add: isReplicaAccount_def row_of_key)
    with s' r Some account_row_mediator [OF db_invD(1) [OF assms(1)] Some, of "add_mediator a"]
    show ?thesis
      unfolding is_active_def
      by (simp add: addReplica_def batch_def statement_run tx_simps flip: s'_def)
  qed
qed

lemma addSharedRecipient_run:
  fixes now :: time
  assumes "db_inv s" and "long_form_of (share_recipientDid c) (share_recipientLongForm c)"
  defines "s' \<equiv> insert_shared now c s"
  shows "addSharedRecipient now c s =
     (Inr (if \<not> bound_account (share_accountDid c) (share_mediator c) s then ShareUnknown
           else (case row_of recipients_did (share_recipientDid c) (replica_recipients s') of
               Some binding \<Rightarrow> if recipients_account_did binding = share_accountDid c
                 then ShareAdded (recipients_created_at binding div 1000) else ShareConflict
             | None \<Rightarrow> if unbound (share_recipientDid c, share_recipientLongForm c) s'
                 then ShareFull else ShareConflict)), s')"
  using db_invD(1,2) [OF insert_shared_inv [OF assms(1,2), of now], folded s'_def]
  by (simp add: addSharedRecipient_def batch_def statement_run tx_simps spellings_def flip: s'_def)

definition unshared :: "did \<Rightarrow> did \<Rightarrow> did \<Rightarrow> db \<Rightarrow> db" where
  "unshared a m r s = s\<lparr>replica_recipients :=
     filter (\<lambda>row. \<not> is_shared a m r s row) (replica_recipients s)\<rparr>"

lemma unshared_inv:
  assumes "db_inv s"
  shows "db_inv (unshared a m r s)"
proof -
  note s = db_invD [OF assms]
  let ?s = "unshared a m r s"
  show ?thesis
  proof (rule db_invI)
    show "uniq_ok ?s" using s(1) by (simp add: unshared_def uniq_ok_def)
    show "fk_ok ?s" using s(2) by (simp add: unshared_def fk_ok_def)
    show "names_ok ?s" by (rule names_ok_shrink [OF s(3)]) (auto simp: unshared_def role_names)
    show "ordinals_ok ?s" using s(4) by (simp add: unshared_def ordinals_ok_def replicas_of_def)
    show "mail_ok ?s" using s(5) by (simp add: unshared_def mail_defs)
    show "listings_ok ?s" using s(6) by (simp add: unshared_def listings_defs)
    show "blobs_ok ?s" using s(7) by (simp add: unshared_def blobs_defs)
  qed
qed

lemma removeSharedRecipient_run:
  assumes "db_inv s"
  shows "removeSharedRecipient a m r s =
     (Inr (if \<not> bound_account a m s then SharedUnknown
           else if \<exists>row\<in>set (replica_recipients s). is_shared a m r s row then SharedRemoved
           else SharedNoChange), unshared a m r s)"
  using db_invD(1,2) [OF unshared_inv [OF assms, of a m r]]
  by (simp add: removeSharedRecipient_def batch_def tx_simps then_tx_def statement_def query_def
      flip: unshared_def)

section \<open>Removing a replica\<close>

lemma enrolled_tables:
  assumes "replica_accounts s' = replica_accounts s"
  shows "held_by a m s' = held_by a m s" and "enrolled r a m s' = enrolled r a m s"
    and "replicas s' = replicas s \<Longrightarrow> is_enrolled r a m s' = is_enrolled r a m s"
    and "replicas s' = replicas s \<Longrightarrow> of_account_replica a m s' = of_account_replica a m s"
  by (simp_all add: held_by_def bound_account_def enrolled_def is_enrolled_def of_account_replica_def assms
      fun_eq_iff)

lemma mark_removed_inv:
  assumes "db_inv s"
    and "\<And>d. d \<in> set (replica_deliveries s) \<Longrightarrow> \<not> is_enrolled r a m s (deliveries_replica_did d)"
    and "\<And>b. b \<in> set (blobs s) \<Longrightarrow> \<not> is_enrolled r a m s (blobs_owner_did b)"
  shows "db_inv (mark_removed now r a m s)"
proof -
  note s = db_invD [OF assms(1)]
  let ?s = "mark_removed now r a m s"
  define upd where "upd = (\<lambda>row. if enrolled r a m s row \<and> is_active row
      then row\<lparr>replicas_removed_at := Some (now div 1000)\<rparr> else row)"
  have e: "?s = s\<lparr>replicas := map upd (replicas s)\<rparr>" by (simp add: mark_removed_def upd_def)
  have u [simp]: "replicas_did (upd x) = replicas_did x" "replicas_account_did (upd x) = replicas_account_did x"
    "replicas_ordinal (upd x) = replicas_ordinal x" "replicas_long_form (upd x) = replicas_long_form x" for x
    by (simp_all add: upd_def)
  have same: "upd x = x" if "x \<in> set (replicas s)" "\<not> is_enrolled r a m s (replicas_did x)" for x
    using that by (auto simp: upd_def is_enrolled_def)
  have m: "map f (map upd (replicas s)) = map f (replicas s)" if "\<And>x. f (upd x) = f x"
    for f :: "replica_row \<Rightarrow> 'b" using that by simp
  have of: "replicas_of acc ?s = map upd (replicas_of acc s)" for acc
    by (simp add: e replicas_of_def filter_map o_def)
  have ref: "refers col cs replicas_did (map upd (replicas s)) = refers col cs replicas_did (replicas s)"
    for col and cs :: "'c list" by (simp add: refers_iff)
  have ch: "refers replicas_account_did (map upd (replicas s)) key ps =
      refers replicas_account_did (replicas s) key ps" for key and ps :: "'p list"
    by (simp add: refers_iff)
  show ?thesis
  proof (rule db_invI)
    show "uniq_ok ?s" using s(1) by (simp add: e uniq_ok_def o_def)
    show "fk_ok ?s" using s(2) by (simp add: e fk_ok_def ref ch)
    show "names_ok ?s"
      by (rule names_ok_shrink [OF s(3)]) (simp_all add: e role_names image_image)
    show "ordinals_ok ?s" using s(4)
      by (simp add: ordinals_ok_def of) (simp add: e numbered_def o_def)
    show "mail_ok ?s"
    proof -
      have "delivery_ok ?s d" if d: "d \<in> set (replica_deliveries s)" for d
      proof -
        have "delivery_ok s d" using s(5) d by (simp add: mail_ok_def list_all_iff)
        then obtain x p where x: "x \<in> set (replicas s)" "p \<in> set (replica_packages s)"
          "replicas_did x = deliveries_replica_did d" "is_active x" "packages_id p = deliveries_package_id d"
          "packages_account_did p = replicas_account_did x" by (auto simp: delivery_ok_def)
        have "upd x = x" using same [OF x(1)] assms(2) [OF d] x(3) by simp
        then have "x \<in> set (replicas ?s)" using x(1) by (simp add: e) (metis imageI)
        moreover have "p \<in> set (replica_packages ?s)" using x(2) by (simp add: e)
        ultimately show ?thesis using x(3-) unfolding delivery_ok_def by blast
      qed
      then show ?thesis using s(5) by (simp add: e mail_ok_def list_all_iff)
    qed
    show "listings_ok ?s" using s(6) by (fastforce simp: e listings_defs)
    show "blobs_ok ?s"
    proof -
      have "holdsBlobs (blobs_owner_did b) ?s" if b: "b \<in> set (blobs s)" for b
      proof -
        have "holdsBlobs (blobs_owner_did b) s" using s(7) b by (simp add: blobs_ok_def list_all_iff)
        then consider "blobs_owner_did b \<in> accounts_did ` set (accounts s)"
          | x where "x \<in> set (replicas s)" "replicas_did x = blobs_owner_did b" "is_active x"
          by (auto simp: holdsBlobs_def)
        then show ?thesis
        proof cases
          case 1
          then show ?thesis by (simp add: holdsBlobs_def e)
        next
          case (2 x)
          then have "upd x = x" using same [OF 2(1)] assms(3) [OF b] by simp
          then have "x \<in> set (replicas ?s)" using 2(1) by (simp add: e) (metis imageI)
          then show ?thesis using 2(2,3) unfolding holdsBlobs_def by blast
        qed
      qed
      then show ?thesis using s(7) by (simp add: e blobs_ok_def list_all_iff)
    qed
  qed
qed

definition without_replica :: "time \<Rightarrow> did \<Rightarrow> did \<Rightarrow> did \<Rightarrow> db \<Rightarrow> db" where
  "without_replica now a m r s = mark_removed now r a m
     (end_blobs (\<lambda>b. is_enrolled r a m s (blobs_owner_did b))
       (end_deliveries (\<lambda>d. is_enrolled r a m s (deliveries_replica_did d)) s))"

lemma end_tables [simp]:
  "replica_accounts (end_blobs P s) = replica_accounts s" "replicas (end_blobs P s) = replicas s"
  "replica_accounts (end_deliveries Q s) = replica_accounts s" "replicas (end_deliveries Q s) = replicas s"
  "blobs (end_blobs P s) = filter (\<lambda>b. \<not> P b) (blobs s)"
  "replica_deliveries (end_blobs P s) = replica_deliveries s"
  "replica_deliveries (end_deliveries Q s) = filter (\<lambda>d. \<not> Q d) (replica_deliveries s)"
  "blobs (end_deliveries Q s) = blobs s"
  "accounts (end_blobs P s) = accounts s" "accounts (end_deliveries Q s) = accounts s"
  by (simp_all add: end_blobs_def delete_blobs_def end_deliveries_def delete_deliveries_def
      delete_ending_packages_def Let_def)

lemma is_enrolled_ends [simp]:
  "is_enrolled r a m (end_blobs P s) = is_enrolled r a m s"
  "is_enrolled r a m (end_deliveries Q s) = is_enrolled r a m s"
  "is_enrolled r a m (record_ended W s) = is_enrolled r a m s"
  "is_enrolled r a m (delete_ending_packages V s) = is_enrolled r a m s"
  by (rule enrolled_tables(3); simp add: record_ended_def delete_ending_packages_def Let_def)+

lemma without_replica_inv: "db_inv s \<Longrightarrow> db_inv (without_replica now a m r s)"
  unfolding without_replica_def
  by (rule mark_removed_inv) (auto intro: end_blobs_inv end_deliveries_inv)

lemma removeReplica_run:
  assumes "db_inv s"
  shows "removeReplica now a m r s =
     (Inr (if \<not> bound_account a m s then RemoveUnknown
           else case find (enrolled r a m s) (replicas (without_replica now a m r s)) of
               None \<Rightarrow> RemoveNotEnrolled | Some x \<Rightarrow> Removed (replicas_removed_at x)),
      without_replica now a m r s)"
proof -
  let ?wd = "\<lambda>s d. is_enrolled r a m s (deliveries_replica_did d)"
  let ?wb = "\<lambda>s b. is_enrolled r a m s (blobs_owner_did b)"
  let ?s1 = "end_deliveries (?wd s) s"
  let ?s2 = "end_blobs (?wb s) ?s1"
  have i1: "db_inv ?s1" by (rule end_deliveries_inv [OF assms])
  have wb: "?wb ?s1 = ?wb s" by simp
  have r1: "then_tx (endDeliveries ?wd) f (s, False) = f () (?s1, True)" for f :: "unit \<Rightarrow> 'b tx"
    by (rule endDeliveries_run [OF assms]) simp
  have r2: "then_tx (endBlobs ?wb) f (?s1, True) = f () (?s2, True)" for f :: "unit \<Rightarrow> 'b tx"
    unfolding wb [symmetric]
    by (rule endBlobs_run [OF db_invD(1,2,7) [OF i1]]) simp
  have w: "mark_removed now r a m ?s2 = without_replica now a m r s"
    by (simp add: without_replica_def)
  have n: "enrolled r a m (without_replica now a m r s) = enrolled r a m s"
    by (rule enrolled_tables) (simp add: without_replica_def mark_removed_def)
  show ?thesis
    using db_invD(1,2) [OF without_replica_inv [OF assms, of now a m r]]
    by (simp add: removeReplica_def batch_def query_run return_run statement_run r1 r2 w n)
qed

section \<open>Deleting an account\<close>

text \<open>
  The database after each statement of \<open>deleteReplicaAccount\<close>, for an account that is
  bound to the mediator: each leaves the foreign keys whole, so the order of
  the statements is one the schema admits.
\<close>

definition cleared_mail :: "did \<Rightarrow> db \<Rightarrow> db" where
  "cleared_mail a s = s\<lparr>replica_deliveries := filter (\<lambda>d. \<not>
     ((\<exists>p\<in>set (replica_packages s). packages_account_did p = a \<and> packages_id p = deliveries_package_id d) \<or>
      (\<exists>r\<in>set (replicas s). replicas_account_did r = a \<and> replicas_did r = deliveries_replica_did d)))
     (replica_deliveries s)\<rparr>"

definition cleared_content :: "did \<Rightarrow> db \<Rightarrow> db" where
  "cleared_content a s = delete_executions (\<lambda>e. executions_account_did e = a)
     (s\<lparr>replica_packages := filter (\<lambda>p. packages_account_did p \<noteq> a) (replica_packages s),
        replica_recipients := filter (\<lambda>r. recipients_account_did r \<noteq> a) (replica_recipients s)\<rparr>)"

definition cleared_replicas :: "did \<Rightarrow> db \<Rightarrow> db" where
  "cleared_replicas a s = s\<lparr>replicas := filter (\<lambda>r. replicas_account_did r \<noteq> a) (replicas s)\<rparr>"

definition without_account :: "did \<Rightarrow> db \<Rightarrow> db" where
  "without_account a s =
     (let s' = cleared_replicas a (end_blobs (\<lambda>b. \<exists>r\<in>set (replicas s). replicas_account_did r = a \<and>
             replicas_did r = blobs_owner_did b) (cleared_content a (cleared_mail a s)))
      in s'\<lparr>replica_accounts := filter (\<lambda>r. raccounts_did r \<noteq> a) (replica_accounts s)\<rparr>)"

lemma cleared_mail_inv:
  assumes "db_inv s"
  shows "db_inv (cleared_mail a s)"
proof -
  note s = db_invD [OF assms]
  let ?s = "cleared_mail a s"
  show ?thesis
  proof (rule db_invI)
    show "uniq_ok ?s" using s(1) by (simp add: cleared_mail_def uniq_ok_def)
    show "fk_ok ?s" using s(2) by (simp add: cleared_mail_def fk_ok_def)
    show "names_ok ?s" by (rule names_ok_shrink [OF s(3)]) (simp_all add: cleared_mail_def role_names)
    show "ordinals_ok ?s" using s(4) by (simp add: cleared_mail_def ordinals_ok_def replicas_of_def)
    show "mail_ok ?s" using s(5) by (simp add: cleared_mail_def mail_defs)
    show "listings_ok ?s" using s(6) by (simp add: cleared_mail_def listings_defs)
    show "blobs_ok ?s" using s(7) by (simp add: cleared_mail_def blobs_defs)
  qed
qed

lemma delete_executions_listings:
  assumes "uniq_ok s" and "listings_ok s"
  shows "listings_ok (delete_executions which s)"
proof -
  let ?s = "delete_executions which s"
  have d: "distinct (map executions_registration_id (replica_executions s))"
    using assms(1) by (simp add: uniq_ok_def)
  let ?gone = "executions_registration_id ` {e \<in> set (replica_executions s). which e}"
  have keep: "executions_registration_id e \<notin> ?gone" if "e \<in> set (replica_executions s)" "\<not> which e" for e
    using same_key_same_row [OF d that(1)] that(2) by auto
  have "listings_of (executions_registration_id e) ?s = listings_of (executions_registration_id e) s"
    if "e \<in> set (replica_executions s)" "\<not> which e" for e
    using keep [OF that]
    by (auto simp: listings_of_def delete_executions_def Let_def image_iff intro!: filter_cong)
  moreover have "listing_ok ?s l" if l: "l \<in> set (replica_execution_registrations s)"
    "listings_registration_id l \<notin> ?gone" for l
  proof -
    obtain e r where er: "e \<in> set (replica_executions s)" "r \<in> set (replicas s)"
      "executions_registration_id e = listings_registration_id l" "replicas_did r = listings_replica_did l"
      "executions_account_did e = replicas_account_did r"
      using assms(2) l(1) by (auto simp: listings_defs)
    then have "\<not> which e" using l(2) by (auto simp: image_iff)
    with er show ?thesis by (auto simp: listing_ok_def delete_executions_def Let_def)
  qed
  ultimately show ?thesis
    using assms(2) by (auto simp: listings_ok_def delete_executions_def Let_def list_all_iff)
qed

lemma cleared_content_inv:
  assumes "db_inv s"
    and "\<And>d p. d \<in> set (replica_deliveries s) \<Longrightarrow> p \<in> set (replica_packages s) \<Longrightarrow>
      packages_id p = deliveries_package_id d \<Longrightarrow> packages_account_did p \<noteq> a"
  shows "db_inv (cleared_content a s)"
proof -
  note s = db_invD [OF assms(1)]
  let ?s = "cleared_content a s"
  let ?x = "s\<lparr>replica_packages := filter (\<lambda>p. packages_account_did p \<noteq> a) (replica_packages s),
    replica_recipients := filter (\<lambda>r. recipients_account_did r \<noteq> a) (replica_recipients s)\<rparr>"
  have x: "uniq_ok ?x" "listings_ok ?x" using s(1,6) by (simp_all add: uniq_ok_def listings_defs)
  have pk: "refers deliveries_package_id (replica_deliveries s) packages_id
      (filter (\<lambda>p. packages_account_did p \<noteq> a) (replica_packages s))"
    using s(2) assms(2) by (fastforce simp: fk_ok_def refers_iff)
  show ?thesis
  proof (rule db_invI)
    show "uniq_ok ?s" using s(1) by (simp add: cleared_content_def delete_executions_def Let_def uniq_ok_def)
    show "fk_ok ?s"
      unfolding cleared_content_def using s(2) pk by (intro delete_executions_fk) (simp add: fk_ok_def)
    show "names_ok ?s"
      by (rule names_ok_shrink [OF s(3)])
        (auto simp: cleared_content_def delete_executions_def Let_def role_names)
    show "ordinals_ok ?s" using s(4)
      by (simp add: cleared_content_def delete_executions_def Let_def ordinals_ok_def replicas_of_def)
    show "mail_ok ?s" using s(5) assms(2)
      by (fastforce simp: cleared_content_def delete_executions_def Let_def mail_defs)
    show "listings_ok ?s" unfolding cleared_content_def by (rule delete_executions_listings [OF x])
    show "blobs_ok ?s" using s(7)
      by (simp add: cleared_content_def delete_executions_def Let_def blobs_defs)
  qed
qed

text \<open>No row refers to a replica of the account any more: the replicas can go, then the account.\<close>

lemma cleared_replicas_inv:
  assumes "db_inv s"
    and "\<And>d. d \<in> set (replica_deliveries s) \<Longrightarrow> deliveries_replica_did d \<notin> replicas_did ` set (replicas_of a s)"
    and "\<And>e. e \<in> set (replica_executions s) \<Longrightarrow> executions_account_did e \<noteq> a"
    and "\<And>b. b \<in> set (blobs s) \<Longrightarrow> blobs_owner_did b \<notin> replicas_did ` set (replicas_of a s)"
  shows "db_inv (cleared_replicas a s)"
proof -
  note s = db_invD [OF assms(1)]
  let ?s = "cleared_replicas a s"
  let ?rs = "filter (\<lambda>r. replicas_account_did r \<noteq> a) (replicas s)"
  have e: "?s = s\<lparr>replicas := ?rs\<rparr>" by (simp add: cleared_replicas_def)
  have d: "delivery_ok ?s c" if c: "c \<in> set (replica_deliveries s)" for c
  proof -
    obtain x p where x: "x \<in> set (replicas s)" "p \<in> set (replica_packages s)"
      "replicas_did x = deliveries_replica_did c" "is_active x" "packages_id p = deliveries_package_id c"
      "packages_account_did p = replicas_account_did x"
      using s(5) c by (auto simp: mail_defs)
    then have "replicas_account_did x \<noteq> a"
      using assms(2) [OF c] by (auto simp: replicas_of_def image_iff)
    with x show ?thesis unfolding delivery_ok_def e by auto
  qed
  have l: "listing_ok ?s c" if c: "c \<in> set (replica_execution_registrations s)" for c
    using s(6) c assms(3) by (fastforce simp: listings_defs e)
  show ?thesis
  proof (rule db_invI)
    show "uniq_ok ?s" using s(1) by (simp add: e uniq_ok_def)
    have "refers deliveries_replica_did (replica_deliveries s) replicas_did ?rs"
      unfolding refers_iff using d by (auto simp: delivery_ok_def e)
    moreover have "refers listings_replica_did (replica_execution_registrations s) replicas_did ?rs"
      unfolding refers_iff using l by (fastforce simp: listing_ok_def e)
    ultimately show "fk_ok ?s" using s(2) by (simp add: e fk_ok_def)
    show "names_ok ?s" by (rule names_ok_shrink [OF s(3)]) (auto simp: e role_names)
    have "replicas_of acc ?s = replicas_of acc s" if "acc \<noteq> a" for acc
      using that by (auto simp: e replicas_of_def intro!: filter_cong)
    then show "ordinals_ok ?s" using s(4) by (auto simp: ordinals_ok_def e)
    show "mail_ok ?s" using s(5) d by (simp add: e mail_ok_def list_all_iff)
    show "listings_ok ?s" using s(6) l by (simp add: e listings_ok_def listings_of_def list_all_iff)
    have "holdsBlobs (blobs_owner_did b) ?s" if b: "b \<in> set (blobs s)" for b
      using s(7) b assms(4) [OF b] by (fastforce simp: blobs_defs e replicas_of_def image_iff)
    then show "blobs_ok ?s" using s(7) by (simp add: e blobs_ok_def list_all_iff)
  qed
qed

lemma delete_account_inv:
  assumes "db_inv s"
    and "replicas_of a s = []"
    and "\<And>p. p \<in> set (replica_packages s) \<Longrightarrow> packages_account_did p \<noteq> a"
    and "\<And>r. r \<in> set (replica_recipients s) \<Longrightarrow> recipients_account_did r \<noteq> a"
    and "\<And>e. e \<in> set (replica_executions s) \<Longrightarrow> executions_account_did e \<noteq> a"
  shows "db_inv (s\<lparr>replica_accounts := filter (\<lambda>r. raccounts_did r \<noteq> a) (replica_accounts s)\<rparr>)"
proof -
  note s = db_invD [OF assms(1)]
  let ?s = "s\<lparr>replica_accounts := filter (\<lambda>r. raccounts_did r \<noteq> a) (replica_accounts s)\<rparr>"
  have r: "x \<in> set (replicas s) \<Longrightarrow> replicas_account_did x \<noteq> a" for x
    using assms(2) by (auto simp: replicas_of_def filter_empty_conv)
  have ref: "refers col cs raccounts_did (filter (\<lambda>r. raccounts_did r \<noteq> a) (replica_accounts s))"
    if "refers col cs raccounts_did (replica_accounts s)" "\<And>c. c \<in> set cs \<Longrightarrow> col c \<noteq> a"
    for col and cs :: "'c list"
    using that by (fastforce simp: refers_iff)
  show ?thesis
  proof (rule db_invI)
    show "uniq_ok ?s" using s(1) by (simp add: uniq_ok_def)
    show "fk_ok ?s" using s(2) r assms(3-5) by (simp add: fk_ok_def ref)
    show "names_ok ?s" by (rule names_ok_shrink [OF s(3)]) (auto simp: role_names)
    show "ordinals_ok ?s" using s(4) by (simp add: ordinals_ok_def replicas_of_def)
    show "mail_ok ?s" using s(5) by (simp add: mail_defs)
    show "listings_ok ?s" using s(6) by (simp add: listings_defs)
    show "blobs_ok ?s" using s(7) by (simp add: blobs_defs)
  qed
qed

definition account_blob :: "did \<Rightarrow> db \<Rightarrow> blob_row \<Rightarrow> bool" where
  "account_blob a s b = (\<exists>r\<in>set (replicas s). replicas_account_did r = a \<and> replicas_did r = blobs_owner_did b)"

lemma without_account_eq:
  "without_account a s =
     (let s' = cleared_replicas a (end_blobs (account_blob a s) (cleared_content a (cleared_mail a s)))
      in s'\<lparr>replica_accounts := filter (\<lambda>r. raccounts_did r \<noteq> a) (replica_accounts s')\<rparr>)"
proof -
  have "account_blob a s = (\<lambda>b. \<exists>r\<in>set (replicas s). replicas_account_did r = a \<and> replicas_did r = blobs_owner_did b)"
    by (simp add: account_blob_def fun_eq_iff)
  then show ?thesis
    by (simp add: without_account_def Let_def cleared_replicas_def cleared_content_def cleared_mail_def
        delete_executions_def)
qed

lemma cleared_stages:
  assumes "db_inv s"
  shows "db_inv (cleared_content a (cleared_mail a s))"
    and "db_inv (end_blobs (account_blob a s) (cleared_content a (cleared_mail a s)))"
    and "db_inv (cleared_replicas a (end_blobs (account_blob a s) (cleared_content a (cleared_mail a s))))"
    and "db_inv (without_account a s)"
proof -
  let ?c = "cleared_content a (cleared_mail a s)"
  let ?b = "end_blobs (account_blob a s) ?c"
  show c: "db_inv ?c"
    by (rule cleared_content_inv [OF cleared_mail_inv [OF assms]]) (auto simp: cleared_mail_def)
  show b: "db_inv ?b" by (rule end_blobs_inv [OF c])
  show r: "db_inv (cleared_replicas a ?b)"
    by (rule cleared_replicas_inv [OF b])
      (auto simp: cleared_content_def cleared_mail_def delete_executions_def Let_def replicas_of_def
        account_blob_def end_blobs_def delete_blobs_def image_iff)
  show "db_inv (without_account a s)"
    unfolding without_account_eq Let_def
    by (rule delete_account_inv [OF r])
      (auto simp: cleared_replicas_def cleared_content_def cleared_mail_def delete_executions_def Let_def
        replicas_of_def filter_empty_conv end_blobs_def delete_blobs_def)
qed

lemma deleteReplicaAccount_bound:
  assumes "db_inv s" and "bound_account a m s"
  shows "deleteReplicaAccount a m s = (Inr True, without_account a s)"
proof -
  let ?m = "cleared_mail a s"
  let ?p = "?m\<lparr>replica_packages := filter (\<lambda>p. packages_account_did p \<noteq> a) (replica_packages ?m)\<rparr>"
  let ?r = "?m\<lparr>replica_packages := filter (\<lambda>p. packages_account_did p \<noteq> a) (replica_packages ?m),
    replica_recipients := filter (\<lambda>r. recipients_account_did r \<noteq> a) (replica_recipients ?m)\<rparr>"
  let ?c = "cleared_content a ?m"
  let ?b = "end_blobs (account_blob a s) ?c"
  let ?q = "cleared_replicas a ?b"
  note m = db_invD [OF cleared_mail_inv [OF assms(1), of a]]
  have b: "bound_account a m ?m" "bound_account a m ?p" "bound_account a m ?r" "bound_account a m ?c"
    "bound_account a m ?b" "bound_account a m ?q"
    using assms(2) by (simp_all add: bound_account_def cleared_mail_def cleared_content_def cleared_replicas_def
        delete_executions_def Let_def)
  have h: "held_by a m x = (\<lambda>acc. acc = a)" if "bound_account a m x" for x
    using that by (simp add: held_by_def fun_eq_iff)
  have 1: "delete_account_deliveries a m s = ?m"
    by (simp add: delete_account_deliveries_def cleared_mail_def h [OF assms(2)])
  have 2: "delete_account_packages a m ?m = ?p"
    by (simp add: delete_account_packages_def h [OF b(1)])
  have 3: "delete_account_recipients a m ?p = ?r"
    by (simp add: delete_account_recipients_def h [OF b(2)])
  have 4: "delete_account_executions a m ?r = ?c"
    unfolding delete_account_executions_def h [OF b(3)] cleared_content_def by simp
  have 6: "delete_account_replicas a m ?b = ?q"
    by (simp add: delete_account_replicas_def h [OF b(5)] cleared_replicas_def)
  have "x \<in> set (replica_accounts ?q) \<Longrightarrow> raccounts_did x = a \<Longrightarrow> raccounts_mediator x = m" for x
    using b(6) db_invD(1) [OF cleared_stages(3) [OF assms(1), of a]]
    by (auto simp: bound_account_def uniq_ok_def dest: same_key_same_row)
  then have 7: "delete_account a m ?q = without_account a s"
    unfolding without_account_eq Let_def delete_account_def
    by (intro arg_cong [where f = "\<lambda>x. ?q\<lparr>replica_accounts := x\<rparr>"] filter_cong) auto
  have u: "uniq_ok ?p" "uniq_ok ?r" using m(1) by (simp_all add: uniq_ok_def)
  have pk: "refers deliveries_package_id (replica_deliveries ?m) packages_id (replica_packages ?p)"
    using m(2) by (fastforce simp: fk_ok_def refers_iff cleared_mail_def)
  have f: "fk_ok ?p" "fk_ok ?r" using m(2) pk by (simp_all add: fk_ok_def)
  let ?w = "\<lambda>s b. of_account_replica a m s (blobs_owner_did b)"
  have w: "?w ?c = account_blob a s"
    using h [OF b(4)]
    by (simp add: of_account_replica_def account_blob_def fun_eq_iff cleared_content_def cleared_mail_def
        delete_executions_def Let_def)
  have 5: "then_tx (endBlobs ?w) g (?c, False) = g () (?b, False)" for g :: "unit \<Rightarrow> 'x tx"
    unfolding w [symmetric]
    by (rule endBlobs_run [OF db_invD(1,2,7) [OF cleared_stages(1) [OF assms(1)]]])
      (simp add: of_account_replica_def held_by_def bound_account_def record_ended_def)
  show ?thesis
    unfolding deleteReplicaAccount_def batch_def
    using assms(2) m(1,2) u f db_invD(1,2) [OF cleared_stages(1) [OF assms(1), of a]]
      db_invD(1,2) [OF cleared_stages(3) [OF assms(1), of a]]
      db_invD(1,2) [OF cleared_stages(4) [OF assms(1), of a]]
    by (simp add: query_run return_run statement_run 1 2 3 4 5 6 7)
qed

lemma deleteReplicaAccount_unbound:
  assumes "db_inv s" and "\<not> bound_account a m s"
  shows "deleteReplicaAccount a m s = (Inr False, s)"
proof -
  have h: "held_by a m s = (\<lambda>acc. False)" using assms(2) by (simp add: held_by_def fun_eq_iff)
  have eb: "end_blobs (\<lambda>b. False) s = s" by (simp add: end_blobs_def delete_blobs_def Let_def)
  have id: "delete_account_deliveries a m s = s" "delete_account_packages a m s = s"
    "delete_account_recipients a m s = s" "delete_account_executions a m s = s"
    "delete_account_replicas a m s = s"
    by (simp_all add: delete_account_deliveries_def delete_account_packages_def delete_account_recipients_def
        delete_account_executions_def delete_account_replicas_def delete_executions_def Let_def h)
  have "delete_account a m s = s"
    unfolding delete_account_def
    using assms(2) by (subst filter_True) (auto simp: bound_account_def)
  note id = id this
  let ?w = "\<lambda>s b. of_account_replica a m s (blobs_owner_did b)"
  have w: "?w s = (\<lambda>b. False)" by (simp add: of_account_replica_def h)
  have "then_tx (endBlobs ?w) g (s, False) = g () (end_blobs (?w s) s, False)" for g :: "unit \<Rightarrow> 'x tx"
    by (rule endBlobs_run [OF db_invD(1,2,7) [OF assms(1)]])
      (simp add: of_account_replica_def held_by_def bound_account_def record_ended_def)
  then have e: "then_tx (endBlobs ?w) g (s, False) = g () (s, False)" for g :: "unit \<Rightarrow> 'x tx"
    unfolding w eb .
  show ?thesis
    unfolding deleteReplicaAccount_def batch_def
    using assms db_invD(1,2) [OF assms(1)] by (simp add: query_run return_run statement_run id e)
qed

end
