(* ===== verification/Mediator_Mail.thy ===== *)
theory Mediator_Mail
  imports Mediator_Replicas
begin

text \<open>
  The mail of replica mediation: a package is kept once for the account it is
  forwarded to and a delivery of it queued for each target replica; a replica
  reads and acknowledges its own deliveries, and a package goes with the last
  of them or when it expires.
\<close>

record PackageBounds =
  bounds_deadline :: "time option"
  bounds_maxRetainedBytes :: int

record ReplicaDelivery =
  delivery_replicaDid :: did
  delivery_message :: StoredMessage

datatype FanOutOutcome = FanStored "ReplicaDelivery list" | FanUnknown | FanFull | FanLapsed

definition expiry :: "store_options \<Rightarrow> time \<Rightarrow> time option \<Rightarrow> time" where
  "expiry opts now deadline =
     (case deadline of None \<Rightarrow> now + ttlMs opts | Some d \<Rightarrow> min (now + ttlMs opts) d)"

text \<open>The rows \<open>SELECT account_did \<dots> UNION ALL SELECT account_did \<dots>\<close> gives for a recipient.\<close>

definition accounts_for :: "did \<Rightarrow> db \<Rightarrow> did list" where
  "accounts_for next s =
     map recipients_account_did (filter (\<lambda>r. recipients_did r = next) (replica_recipients s)) @
     map replicas_account_did (filter (\<lambda>r. replicas_did r = next \<and> is_active r) (replicas s))"

definition retained :: "did \<Rightarrow> time \<Rightarrow> db \<Rightarrow> package_row list" where
  "retained account now s =
     filter (\<lambda>p. packages_account_did p = account \<and> now < packages_expires_at p) (replica_packages s)"

definition has_room :: "store_options \<Rightarrow> time \<Rightarrow> int \<Rightarrow> int \<Rightarrow> db \<Rightarrow> did \<Rightarrow> bool" where
  "has_room opts now bytes maxRetainedBytes s account =
     (length (retained account now s) < maxMessages opts \<and>
      sum_col packages_bytes (retained account now s) + bytes \<le> maxRetainedBytes)"

definition insert_package ::
    "store_options \<Rightarrow> string \<Rightarrow> time \<Rightarrow> time \<Rightarrow> did \<Rightarrow> string \<Rightarrow> int \<Rightarrow> db \<Rightarrow> db" where
  "insert_package opts pid now expiresAt next packed maxRetainedBytes s =
     (let bytes = int (length packed) in
      s\<lparr>replica_packages := replica_packages s @
        map (\<lambda>account. \<lparr>packages_id = pid, packages_account_did = account, packages_next_did = next,
               packages_packed = packed, packages_bytes = bytes, packages_created_at = now,
               packages_expires_at = expiresAt\<rparr>)
          (filter (has_room opts now bytes maxRetainedBytes s) (accounts_for next s))\<rparr>)"

definition targets :: "did \<Rightarrow> db \<Rightarrow> replica_row list" where
  "targets next s = filter (\<lambda>r. (replicas_did r = next \<or>
       Some (replicas_account_did r) =
         map_option recipients_account_did (row_of recipients_did next (replica_recipients s))) \<and>
     is_active r) (replicas s)"

definition insert_deliveries :: "(nat \<Rightarrow> string) \<Rightarrow> string \<Rightarrow> did \<Rightarrow> db \<Rightarrow> db" where
  "insert_deliveries ids pid next s =
     (if has_key packages_id pid (replica_packages s)
      then s\<lparr>replica_deliveries := replica_deliveries s @
             map (\<lambda>(i, r). \<lparr>deliveries_id = ids i, deliveries_package_id = pid,
                    deliveries_replica_did = replicas_did r\<rparr>)
               (zip [0..<length (targets next s)] (targets next s))\<rparr>
      else s)"

text \<open>
  \<open>SELECT id, replica_did FROM replica_deliveries WHERE package_id = ?\<close> has no \<open>ORDER BY\<close>: SQLite serves it from
  the index of \<open>UNIQUE (package_id, replica_did)\<close>, in the order of the DIDs.
\<close>

definition queued_for :: "string \<Rightarrow> db \<Rightarrow> delivery_row list" where
  "queued_for pid s = sort_key deliveries_replica_did (filter (\<lambda>d. deliveries_package_id d = pid) (replica_deliveries s))"

definition fanOut ::
    "store_options \<Rightarrow> string \<Rightarrow> (nat \<Rightarrow> string) \<Rightarrow> time \<Rightarrow> did \<Rightarrow> string \<Rightarrow> PackageBounds \<Rightarrow>
     db \<Rightarrow> (sql_error + FanOutOutcome) \<times> db" where
  "fanOut opts pid ids now next packed bounds s =
     (let expiresAt = expiry opts now (bounds_deadline bounds) in
      if expiresAt \<le> now then (Inr FanLapsed, s)
      else batch (
        then_tx (statement (insert_package opts pid now expiresAt next packed (bounds_maxRetainedBytes bounds))) (\<lambda>_.
        then_tx (statement (insert_deliveries ids pid next)) (\<lambda>_.
        then_tx (query (\<lambda>s. has_key packages_id pid (replica_packages s))) (\<lambda>found.
        then_tx (query (accounts_for next)) (\<lambda>account.
        then_tx (query (queued_for pid)) (\<lambda>queued.
        return_tx (if \<not> found then (if account = [] then FanUnknown else FanFull)
          else FanStored (map (\<lambda>d. \<lparr>delivery_replicaDid = deliveries_replica_did d,
            delivery_message = \<lparr>stored_id = deliveries_id d, stored_packed = packed,
              stored_createdAt = now\<rparr>\<rparr>) queued)))))))) s)"

text \<open>
  \<open>WAITING\<close>: the deliveries of a replica joined with their packages, in the
  packages' rowid order, those forwarded to \<open>next\<close> only when one is given.
\<close>

definition waiting_deliveries :: "time \<Rightarrow> did \<Rightarrow> did option \<Rightarrow> db \<Rightarrow> (delivery_row \<times> package_row) list" where
  "waiting_deliveries now replicaDid next s =
     concat (map (\<lambda>p. map (\<lambda>d. (d, p))
         (filter (\<lambda>d. deliveries_package_id d = packages_id p \<and> deliveries_replica_did d = replicaDid)
           (replica_deliveries s)))
       (filter (\<lambda>p. now < packages_expires_at p \<and> (case next of None \<Rightarrow> True | Some n \<Rightarrow> packages_next_did p = n))
         (replica_packages s)))"

definition delivered_message :: "delivery_row \<times> package_row \<Rightarrow> StoredMessage" where
  "delivered_message dp = \<lparr>stored_id = deliveries_id (fst dp), stored_packed = packages_packed (snd dp),
     stored_createdAt = packages_created_at (snd dp)\<rparr>"

definition deliveriesFor :: "time \<Rightarrow> did \<Rightarrow> nat \<Rightarrow> did option \<Rightarrow> db \<Rightarrow> StoredMessage list" where
  "deliveriesFor now replicaDid limit next s =
     map delivered_message (take limit (sort_key (\<lambda>dp. packages_created_at (snd dp))
       (waiting_deliveries now replicaDid next s)))"

definition deliveryCount :: "time \<Rightarrow> did \<Rightarrow> did option \<Rightarrow> db \<Rightarrow> nat" where
  "deliveryCount now replicaDid next s = length (waiting_deliveries now replicaDid next s)"

definition acknowledgeDeliveries :: "did \<Rightarrow> string list \<Rightarrow> db \<Rightarrow> (sql_error + unit) \<times> db" where
  "acknowledgeDeliveries replicaDid ids =
     batch (endDeliveries (\<lambda>s d. deliveries_replica_did d = replicaDid \<and> deliveries_id d \<in> set ids))"

definition purge_messages :: "time \<Rightarrow> db \<Rightarrow> db" where
  "purge_messages now s = s\<lparr>messages := filter (\<lambda>m. now < messages_expires_at m) (messages s)\<rparr>"

definition purge_deliveries :: "time \<Rightarrow> db \<Rightarrow> db" where
  "purge_deliveries now s = s\<lparr>replica_deliveries := filter (\<lambda>d. \<not> (\<exists>p\<in>set (replica_packages s).
     packages_expires_at p \<le> now \<and> packages_id p = deliveries_package_id d)) (replica_deliveries s)\<rparr>"

definition purge_packages :: "time \<Rightarrow> db \<Rightarrow> db" where
  "purge_packages now s = s\<lparr>replica_packages := filter (\<lambda>p. now < packages_expires_at p) (replica_packages s)\<rparr>"

definition purgeExpired :: "time \<Rightarrow> db \<Rightarrow> (sql_error + nat) \<times> db" where
  "purgeExpired now =
     batch (then_tx (query (\<lambda>s. length (filter (\<lambda>m. messages_expires_at m \<le> now) (messages s)))) (\<lambda>ms.
            then_tx (statement (purge_messages now)) (\<lambda>_.
            then_tx (statement (purge_deliveries now)) (\<lambda>_.
            then_tx (query (\<lambda>s. length (filter (\<lambda>p. packages_expires_at p \<le> now) (replica_packages s)))) (\<lambda>ps.
            then_tx (statement (purge_packages now)) (\<lambda>_.
            return_tx (ms + ps)))))))"

section \<open>Where mail goes\<close>

text \<open>The account a recipient routes to: of the shared recipient it is, else of the active replica it is.\<close>

definition routed_account :: "did \<Rightarrow> db \<Rightarrow> did option" where
  "routed_account next s =
     (case row_of recipients_did next (replica_recipients s) of
        Some r \<Rightarrow> Some (recipients_account_did r)
      | None \<Rightarrow> (case row_of replicas_did next (replicas s) of
            Some r \<Rightarrow> if is_active r then Some (replicas_account_did r) else None
          | None \<Rightarrow> None))"

lemma accounts_for_eq:
  assumes "db_inv s"
  shows "accounts_for next s = (case routed_account next s of None \<Rightarrow> [] | Some a \<Rightarrow> [a])"
proof -
  note s = db_invD [OF assms]
  have d: "distinct (map recipients_did (replica_recipients s))" "distinct (map replicas_did (replicas s))"
    using s(1) by (simp_all add: uniq_ok_def)
  have f: "filter (\<lambda>r. replicas_did r = next \<and> is_active r) (replicas s) =
      filter is_active (filter (\<lambda>r. replicas_did r = next) (replicas s))"
    by simp
  show ?thesis
  proof (cases "row_of recipients_did next (replica_recipients s)")
    case None
    then show ?thesis
      unfolding accounts_for_def f filter_key [OF d(1)] filter_key [OF d(2)]
      by (simp add: routed_account_def split: option.split)
  next
    case (Some r)
    then have "next \<in> recipients_did ` set (replica_recipients s)" by (rule row_of_key)
    then have "next \<notin> replicas_did ` set (replicas s)" using names_okD(4) [OF s(3)] by blast
    then have "row_of replicas_did next (replicas s) = None" by (simp add: row_of_None)
    with Some show ?thesis
      unfolding accounts_for_def f filter_key [OF d(1)] filter_key [OF d(2)]
      by (simp add: routed_account_def)
  qed
qed

lemma targets_of:
  assumes "db_inv s" and "routed_account next s = Some a" and "r \<in> set (targets next s)"
  shows "r \<in> set (active_replicas a s)"
proof (cases "row_of recipients_did next (replica_recipients s)")
  case None
  with assms(3) have r: "r \<in> set (replicas s)" "replicas_did r = next" "is_active r" by (auto simp: targets_def)
  have "distinct (map replicas_did (replicas s))" using db_invD(1) [OF assms(1)] by (simp add: uniq_ok_def)
  then have "row_of replicas_did next (replicas s) = Some r" using r by (simp add: row_of_Some_iff)
  with None assms(2) r show ?thesis
    by (auto simp: routed_account_def active_replicas_def replicas_of_def split: if_splits)
next
  case (Some x)
  then have "next \<notin> replicas_did ` set (replicas s)"
    using names_okD(4) [OF db_invD(3) [OF assms(1)]] row_of_key [OF Some] by blast
  with Some assms(2,3) show ?thesis
    by (auto simp: targets_def routed_account_def active_replicas_def replicas_of_def)
qed

lemma targets_shared:
  assumes "db_inv s" and "row_of recipients_did next (replica_recipients s) = Some x"
  shows "targets next s = active_replicas (recipients_account_did x) s"
proof -
  have "next \<notin> replicas_did ` set (replicas s)"
    using names_okD(4) [OF db_invD(3) [OF assms(1)]] row_of_key [OF assms(2)] by blast
  then show ?thesis
    using assms(2) by (auto simp: targets_def active_replicas_def replicas_of_def intro!: filter_cong)
qed

section \<open>What the methods keep\<close>

definition package_for :: "store_options \<Rightarrow> string \<Rightarrow> time \<Rightarrow> did \<Rightarrow> string \<Rightarrow> PackageBounds \<Rightarrow> did \<Rightarrow> package_row" where
  "package_for opts pid now next packed bounds a =
     \<lparr>packages_id = pid, packages_account_did = a, packages_next_did = next, packages_packed = packed,
      packages_bytes = int (length packed), packages_created_at = now,
      packages_expires_at = expiry opts now (bounds_deadline bounds)\<rparr>"

definition deliveries_for :: "(nat \<Rightarrow> string) \<Rightarrow> string \<Rightarrow> replica_row list \<Rightarrow> delivery_row list" where
  "deliveries_for ids pid rs = map (\<lambda>(i, r). \<lparr>deliveries_id = ids i, deliveries_package_id = pid,
     deliveries_replica_did = replicas_did r\<rparr>) (zip [0..<length rs] rs)"

lemma deliveries_for_cols:
  "map deliveries_id (deliveries_for ids pid rs) = map ids [0..<length rs]"
  "map deliveries_replica_did (deliveries_for ids pid rs) = map replicas_did rs"
  "d \<in> set (deliveries_for ids pid rs) \<Longrightarrow> deliveries_package_id d = pid"
  "d \<in> set (deliveries_for ids pid rs) \<Longrightarrow> \<exists>r\<in>set rs. replicas_did r = deliveries_replica_did d"
  by (auto simp: deliveries_for_def intro!: nth_equalityI dest: set_zip_rightD)

definition fanned ::
    "store_options \<Rightarrow> string \<Rightarrow> (nat \<Rightarrow> string) \<Rightarrow> time \<Rightarrow> did \<Rightarrow> string \<Rightarrow> PackageBounds \<Rightarrow> did \<Rightarrow> db \<Rightarrow> db" where
  "fanned opts pid ids now next packed bounds a s =
     s\<lparr>replica_packages := replica_packages s @ [package_for opts pid now next packed bounds a],
       replica_deliveries := replica_deliveries s @ deliveries_for ids pid (targets next s)\<rparr>"

text \<open>The identifiers a fan-out draws are new: \<open>crypto.randomUUID()\<close> and \<open>randomblob(16)\<close>.\<close>

definition fresh_mail :: "string \<Rightarrow> (nat \<Rightarrow> string) \<Rightarrow> db \<Rightarrow> bool" where
  "fresh_mail pid ids s \<longleftrightarrow> \<not> has_key packages_id pid (replica_packages s) \<and>
     (let new = map ids [0..<length (replicas s)] in
      distinct new \<and> list_all (\<lambda>d. deliveries_id d \<notin> set new) (replica_deliveries s))"

lemma targets_length: "length (targets next s) \<le> length (replicas s)"
  by (simp add: targets_def)

lemma fresh_mailD:
  assumes "fresh_mail pid ids s"
  shows "pid \<notin> packages_id ` set (replica_packages s)" and "distinct (map ids [0..<length (targets next s)])"
    and "set (map ids [0..<length (targets next s)]) \<inter> deliveries_id ` set (replica_deliveries s) = {}"
proof -
  obtain k where "length (replicas s) = length (targets next s) + k"
    using targets_length [of "next" s] le_Suc_ex by blast
  then have e: "map ids [0..<length (replicas s)] =
      map ids [0..<length (targets next s)] @ map ids [length (targets next s)..<length (replicas s)]"
    using upt_add_eq_append [of 0 "length (targets next s)" k] by (simp only: le0 simp_thms map_append)
  have f: "pid \<notin> packages_id ` set (replica_packages s)" "distinct (map ids [0..<length (replicas s)])"
    "\<forall>d\<in>set (replica_deliveries s). deliveries_id d \<notin> set (map ids [0..<length (replicas s)])"
    using assms unfolding fresh_mail_def Let_def list_all_iff has_key_iff by blast+
  show "pid \<notin> packages_id ` set (replica_packages s)" by (rule f(1))
  show "distinct (map ids [0..<length (targets next s)])" using f(2) unfolding e distinct_append by blast
  show "set (map ids [0..<length (targets next s)]) \<inter> deliveries_id ` set (replica_deliveries s) = {}"
    using f(3) unfolding e set_append by fast
qed

lemma fanned_inv:
  assumes "db_inv s" and "routed_account next s = Some a" and "fresh_mail pid ids s"
  shows "db_inv (fanned opts pid ids now next packed bounds a s)"
    and "uniq_ok (s\<lparr>replica_packages := replica_packages s @ [package_for opts pid now next packed bounds a]\<rparr>)"
    and "fk_ok (s\<lparr>replica_packages := replica_packages s @ [package_for opts pid now next packed bounds a]\<rparr>)"
proof -
  note s = db_invD [OF assms(1)]
  let ?p = "package_for opts pid now next packed bounds a"
  let ?ds = "deliveries_for ids pid (targets next s)"
  let ?s = "fanned opts pid ids now next packed bounds a s"
  have p: "packages_id ?p = pid" "packages_account_did ?p = a" "0 \<le> packages_bytes ?p"
    by (simp_all add: package_for_def)
  have a: "a \<in> raccounts_did ` set (replica_accounts s)"
  proof (cases "row_of recipients_did next (replica_recipients s)")
    case None
    with assms(2) obtain r where "row_of replicas_did next (replicas s) = Some r" "replicas_account_did r = a"
      by (auto simp: routed_account_def split: option.splits if_splits)
    then show ?thesis using fk_okD(4) [OF s(2)] row_of_SomeD by metis
  next
    case (Some r)
    with assms(2) have "recipients_account_did r = a" by (simp add: routed_account_def)
    with Some show ?thesis using fk_okD(5) [OF s(2)] row_of_SomeD by metis
  qed
  note fresh = fresh_mailD(1) [OF assms(3)] fresh_mailD(2,3) [OF assms(3), of "next"]
  have old: "deliveries_package_id d \<noteq> pid" if "d \<in> set (replica_deliveries s)" for d
    using fk_okD(7) [OF s(2) that] fresh(1) by auto
  have dt: "distinct (map replicas_did (targets next s))"
    using s(1) by (simp add: targets_def uniq_ok_def)
  have di: "distinct (map deliveries_id (replica_deliveries s @ ?ds))"
  proof -
    have "distinct (map deliveries_id ?ds)"
      unfolding deliveries_for_cols(1) by (rule fresh(2))
    moreover have "set (map deliveries_id ?ds) = set (map ids [0..<length (targets next s)])"
      unfolding deliveries_for_cols(1) ..
    moreover have "distinct (map deliveries_id (replica_deliveries s))" using s(1) by (simp add: uniq_ok_def)
    ultimately show ?thesis using fresh(3) by (simp only: map_append distinct_append set_map) blast
  qed
  have dp: "distinct (map (\<lambda>d. (deliveries_package_id d, deliveries_replica_did d)) (replica_deliveries s @ ?ds))"
  proof -
    have "map (\<lambda>d. (deliveries_package_id d, deliveries_replica_did d)) ?ds =
        map (Pair pid) (map replicas_did (targets next s))"
      unfolding deliveries_for_cols(2) [of ids pid, symmetric] by (auto dest: deliveries_for_cols(3))
    then have "distinct (map (\<lambda>d. (deliveries_package_id d, deliveries_replica_did d)) ?ds)"
      using dt by (simp add: distinct_map inj_on_def)
    moreover have "distinct (map (\<lambda>d. (deliveries_package_id d, deliveries_replica_did d)) (replica_deliveries s))"
      using s(1) by (simp add: uniq_ok_def)
    moreover have "deliveries_package_id d \<noteq> deliveries_package_id d'"
      if "d \<in> set (replica_deliveries s)" "d' \<in> set ?ds" for d d'
      using old [OF that(1)] deliveries_for_cols(3) [OF that(2)] by simp
    ultimately show ?thesis by (simp only: map_append distinct_append) fastforce
  qed
  show up: "uniq_ok (s\<lparr>replica_packages := replica_packages s @ [?p]\<rparr>)"
    using s(1) fresh(1) p(1) by (auto simp: uniq_ok_def)
  show fp: "fk_ok (s\<lparr>replica_packages := replica_packages s @ [?p]\<rparr>)"
    using s(2) a p(2) by (simp add: fk_ok_def)
  have new: "\<exists>r\<in>set (replicas s). replicas_did r = deliveries_replica_did d \<and> is_active r \<and> replicas_account_did r = a"
    if d: "d \<in> set ?ds" for d
  proof -
    obtain r where "r \<in> set (targets next s)" and r: "replicas_did r = deliveries_replica_did d"
      using deliveries_for_cols(4) [OF d] by blast
    then have "r \<in> set (active_replicas a s)" by (intro targets_of [OF assms(1,2)])
    with r show ?thesis by (auto simp: active_replicas_def replicas_of_def)
  qed
  show "db_inv ?s"
  proof (rule db_invI)
    show "uniq_ok ?s" using up di dp by (simp add: fanned_def uniq_ok_def)
    have "refers deliveries_package_id (replica_deliveries s @ ?ds) packages_id (replica_packages s @ [?p])"
      using s(2) p(1) deliveries_for_cols(3) [of _ ids pid "targets next s"]
      by (simp add: fk_ok_def refers_iff ball_Un bex_Un)
    moreover have "refers deliveries_replica_did ?ds replicas_did (replicas s)"
      unfolding refers_iff using new by fast
    then have "refers deliveries_replica_did (replica_deliveries s @ ?ds) replicas_did (replicas s)"
      using s(2) by (simp add: fk_ok_def refers_append)
    ultimately show "fk_ok ?s" using fp by (simp add: fanned_def fk_ok_def)
    show "names_ok ?s" by (rule names_ok_shrink [OF s(3)]) (simp_all add: fanned_def role_names)
    show "ordinals_ok ?s" using s(4) by (simp add: fanned_def ordinals_ok_def replicas_of_def)
    have "delivery_ok ?s d" if "d \<in> set (replica_deliveries s)" for d
      using s(5) that by (fastforce simp: mail_defs fanned_def)
    moreover have "delivery_ok ?s d" if "d \<in> set ?ds" for d
      using new [OF that] deliveries_for_cols(3) [OF that] p(1,2) by (auto simp: delivery_ok_def fanned_def)
    ultimately show "mail_ok ?s" using s(5) p(3) by (auto simp: fanned_def mail_ok_def list_all_iff)
    show "listings_ok ?s" using s(6) by (simp add: fanned_def listings_defs)
    show "blobs_ok ?s" using s(7) by (simp add: fanned_def blobs_defs)
  qed
qed

lemma fanOut_run:
  assumes "db_inv s" and "now < expiry opts now (bounds_deadline bounds)" and "fresh_mail pid ids s"
  shows "fanOut opts pid ids now next packed bounds s =
     (case routed_account next s of
        None \<Rightarrow> (Inr FanUnknown, s)
      | Some a \<Rightarrow>
          if \<not> has_room opts now (int (length packed)) (bounds_maxRetainedBytes bounds) s a
          then (Inr FanFull, s)
          else (Inr (FanStored (map (\<lambda>d. \<lparr>delivery_replicaDid = deliveries_replica_did d,
                  delivery_message = \<lparr>stored_id = deliveries_id d, stored_packed = packed, stored_createdAt = now\<rparr>\<rparr>)
                (sort_key deliveries_replica_did (deliveries_for ids pid (targets next s))))),
                fanned opts pid ids now next packed bounds a s))"
proof -
  note s = db_invD [OF assms(1)]
  let ?e = "expiry opts now (bounds_deadline bounds)" and ?max = "bounds_maxRetainedBytes bounds"
  have pid: "pid \<notin> packages_id ` set (replica_packages s)" by (rule fresh_mailD(1) [OF assms(3)])
  have no_deliveries: "insert_deliveries ids pid next s = s" using pid by (simp add: insert_deliveries_def)
  show ?thesis
  proof (cases "routed_account next s")
    case None
    then have a: "accounts_for next s = []" by (simp add: accounts_for_eq [OF assms(1)])
    then have "insert_package opts pid now ?e next packed ?max s = s" by (simp add: insert_package_def Let_def)
    then show ?thesis
      using assms(2) s(1,2) pid None a
      by (simp add: fanOut_def Let_def batch_def then_tx_def statement_def query_def return_tx_def no_deliveries)
  next
    case (Some a)
    then have af: "accounts_for next s = [a]" by (simp add: accounts_for_eq [OF assms(1)])
    show ?thesis
    proof (cases "has_room opts now (int (length packed)) ?max s a")
      case False
      then have "insert_package opts pid now ?e next packed ?max s = s"
        by (simp add: insert_package_def Let_def af)
      then show ?thesis
        using assms(2) s(1,2) pid Some af False
        by (simp add: fanOut_def Let_def batch_def then_tx_def statement_def query_def return_tx_def no_deliveries)
    next
      case True
      let ?p = "package_for opts pid now next packed bounds a"
      let ?m = "s\<lparr>replica_packages := replica_packages s @ [?p]\<rparr>"
      let ?f = "fanned opts pid ids now next packed bounds a s"
      have 1: "insert_package opts pid now ?e next packed ?max s = ?m"
        using True by (simp add: insert_package_def Let_def af package_for_def)
      have t: "targets next (replica_packages_update f s) = targets next s" for f by (simp add: targets_def)
      have 2: "insert_deliveries ids pid next ?m = ?f"
        by (simp add: insert_deliveries_def fanned_def deliveries_for_def t package_for_def)
      have "filter (\<lambda>d. deliveries_package_id d = pid) (replica_deliveries ?f) =
          deliveries_for ids pid (targets next s)"
      proof -
        have "filter (\<lambda>d. deliveries_package_id d = pid) (replica_deliveries s) = []"
          using fk_okD(7) [OF s(2)] pid by (auto simp: filter_empty_conv)
        moreover have "filter (\<lambda>d. deliveries_package_id d = pid) (deliveries_for ids pid (targets next s)) =
            deliveries_for ids pid (targets next s)"
          by (simp add: deliveries_for_cols(3))
        ultimately show ?thesis by (simp add: fanned_def)
      qed
      then have "queued_for pid ?f = sort_key deliveries_replica_did (deliveries_for ids pid (targets next s))"
        by (simp add: queued_for_def)
      moreover have "pid \<in> packages_id ` set (replica_packages ?f)" by (simp add: fanned_def package_for_def)
      ultimately show ?thesis
        using assms(2) fanned_inv(2,3) [OF assms(1) Some assms(3), of opts now packed bounds] Some True
          db_invD(1,2) [OF fanned_inv(1) [OF assms(1) Some assms(3), of opts now packed bounds]]
        by (simp add: fanOut_def Let_def batch_def statement_run tx_simps 1 2)
    qed
  qed
qed

lemma fanOut_lapsed:
  "expiry opts now (bounds_deadline bounds) \<le> now \<Longrightarrow> fanOut opts pid ids now next packed bounds s = (Inr FanLapsed, s)"
  by (simp add: fanOut_def)

lemma acknowledgeDeliveries_run:
  assumes "db_inv s"
  shows "acknowledgeDeliveries r ids s =
     (Inr (), end_deliveries (\<lambda>d. deliveries_replica_did d = r \<and> deliveries_id d \<in> set ids) s)"
proof -
  let ?w = "\<lambda>(_::db) d. deliveries_replica_did d = r \<and> deliveries_id d \<in> set ids"
  have "then_tx (endDeliveries ?w) return_tx (s, False) = return_tx () (end_deliveries (?w s) s, True)"
    by (rule endDeliveries_run [OF assms]) simp
  then have "endDeliveries ?w (s, False) = Inr ((), end_deliveries (?w s) s, True)"
    by (simp add: then_tx_def return_tx_def split: sum.splits prod.splits)
  then show ?thesis
    using db_invD(2) [OF end_deliveries_inv [OF assms]] by (simp add: acknowledgeDeliveries_def batch_def)
qed

definition purged :: "time \<Rightarrow> db \<Rightarrow> db" where
  "purged now s = purge_packages now (purge_deliveries now (purge_messages now s))"

lemma purged_inv:
  assumes "db_inv s"
  shows "db_inv (purge_messages now s)" and "db_inv (purge_deliveries now (purge_messages now s))"
    and "db_inv (purged now s)"
proof -
  note s = db_invD [OF assms]
  show m: "db_inv (purge_messages now s)" unfolding purge_messages_def
    by (rule messages_inv [OF assms]) (use s(1,2) in \<open>auto simp: uniq_ok_def fk_ok_def\<close>)
  let ?d = "purge_deliveries now (purge_messages now s)"
  note i = db_invD [OF m]
  show d: "db_inv ?d"
  proof (rule db_invI)
    show "uniq_ok ?d" using i(1) by (simp add: purge_deliveries_def uniq_ok_def)
    show "fk_ok ?d" using i(2) by (simp add: purge_deliveries_def fk_ok_def)
    show "names_ok ?d" by (rule names_ok_shrink [OF i(3)]) (simp_all add: purge_deliveries_def role_names)
    show "ordinals_ok ?d" using i(4) by (simp add: purge_deliveries_def ordinals_ok_def replicas_of_def)
    show "mail_ok ?d" using i(5) by (simp add: purge_deliveries_def mail_defs)
    show "listings_ok ?d" using i(6) by (simp add: purge_deliveries_def listings_defs)
    show "blobs_ok ?d" using i(7) by (simp add: purge_deliveries_def blobs_defs)
  qed
  note d = db_invD [OF d]
  let ?p = "purged now s"
  have live: "now < packages_expires_at p"
    if "c \<in> set (replica_deliveries ?d)" "p \<in> set (replica_packages ?d)" "packages_id p = deliveries_package_id c" for c p
    using that by (auto simp: purge_deliveries_def purge_messages_def)
  show "db_inv ?p"
  proof (rule db_invI)
    show "uniq_ok ?p" using d(1) by (simp add: purged_def purge_packages_def uniq_ok_def)
    have "refers deliveries_package_id (replica_deliveries ?d) packages_id
        (filter (\<lambda>p. now < packages_expires_at p) (replica_packages ?d))"
      using d(2) live by (fastforce simp: fk_ok_def refers_iff)
    then show "fk_ok ?p" using d(2) by (simp add: purged_def purge_packages_def fk_ok_def)
    show "names_ok ?p" by (rule names_ok_shrink [OF d(3)]) (simp_all add: purged_def purge_packages_def role_names)
    show "ordinals_ok ?p" using d(4) by (simp add: purged_def purge_packages_def ordinals_ok_def replicas_of_def)
    have "delivery_ok ?p c" if "c \<in> set (replica_deliveries ?d)" for c
      using d(5) that live [OF that] by (fastforce simp: mail_defs purged_def purge_packages_def)
    then show "mail_ok ?p" using d(5) by (simp add: purged_def purge_packages_def mail_ok_def list_all_iff)
    show "listings_ok ?p" using d(6) by (simp add: purged_def purge_packages_def listings_defs)
    show "blobs_ok ?p" using d(7) by (simp add: purged_def purge_packages_def blobs_defs)
  qed
qed

lemma purgeExpired_run:
  assumes "db_inv s"
  shows "purgeExpired now s =
     (Inr (length (filter (\<lambda>m. messages_expires_at m \<le> now) (messages s)) +
           length (filter (\<lambda>p. packages_expires_at p \<le> now) (replica_packages s))), purged now s)"
proof -
  have p: "replica_packages (purge_deliveries now (purge_messages now s)) = replica_packages s"
    by (simp add: purge_deliveries_def purge_messages_def)
  show ?thesis
    using db_invD(1,2) [OF purged_inv(1) [OF assms, of now]] db_invD(1,2) [OF purged_inv(2) [OF assms, of now]]
      db_invD(1,2) [OF purged_inv(3) [OF assms, of now]]
    by (simp add: purgeExpired_def batch_def statement_run tx_simps p flip: purged_def)
qed

end
