(* ===== verification/Mediator_Executions.thy ===== *)
theory Mediator_Executions
  imports Mediator_Replicas
begin

text \<open>
  Execution registrations: a replica registers under an execution ID of its
  account, in the order each replica first did; a registration is kept until
  its retention has passed and it is purged, or until its account is deleted.
\<close>

record ExecutionPolicy =
  policy_retainSeconds :: time
  policy_maxRetained :: nat
  policy_maxReplicas :: nat

record ExecutionRegistration =
  reg_replicaDid :: did
  reg_mediator :: did
  reg_executionId :: string
  reg_policy :: ExecutionPolicy

record ExecutionRegistrationSnapshot =
  snap_executionId :: string
  snap_registrationId :: string
  snap_createdTime :: time
  snap_retainUntil :: time
  snap_replicas :: "did list"

datatype RegisterExecutionOutcome =
  ExecutionRegistered ExecutionRegistrationSnapshot | ExecutionUnknown | ExecutionFull

text \<open>The account the caller is an active replica of, when that account is bound to the mediator.\<close>

definition member_account :: "did \<Rightarrow> did \<Rightarrow> db \<Rightarrow> did option" where
  "member_account replicaDid mediator s =
     map_option replicas_account_did (find (\<lambda>r. replicas_did r = replicaDid \<and> is_active r \<and>
       bound_account (replicas_account_did r) mediator s) (replicas s))"

definition executions_of :: "did \<Rightarrow> db \<Rightarrow> execution_row list" where
  "executions_of account s = filter (\<lambda>e. executions_account_did e = account) (replica_executions s)"

definition insert_execution :: "string \<Rightarrow> time \<Rightarrow> ExecutionRegistration \<Rightarrow> db \<Rightarrow> db" where
  "insert_execution rid now g s =
     (case member_account (reg_replicaDid g) (reg_mediator g) s of
        None \<Rightarrow> s
      | Some account \<Rightarrow>
          if length (executions_of account s) < policy_maxRetained (reg_policy g) \<and>
             (account, reg_executionId g) \<notin>
               set (map (\<lambda>e. (executions_account_did e, executions_execution_id e)) (replica_executions s))
          then s\<lparr>replica_executions := replica_executions s @ [\<lparr>executions_registration_id = rid,
                 executions_account_did = account, executions_execution_id = reg_executionId g,
                 executions_created_time = now,
                 executions_retain_until = now + policy_retainSeconds (reg_policy g)\<rparr>]\<rparr>
          else s)"

text \<open>The registrations of the caller's account under the execution ID; the unique constraint leaves one at most.\<close>

definition matching_executions :: "ExecutionRegistration \<Rightarrow> db \<Rightarrow> execution_row list" where
  "matching_executions g s =
     filter (\<lambda>e. Some (executions_account_did e) = member_account (reg_replicaDid g) (reg_mediator g) s \<and>
       executions_execution_id e = reg_executionId g) (replica_executions s)"

text \<open>\<open>ON CONFLICT DO NOTHING\<close>: a listing whose replica, or whose ordinal, the registration already has is left out.\<close>

definition list_replica :: "ExecutionRegistration \<Rightarrow> db \<Rightarrow> db" where
  "list_replica g s =
     s\<lparr>replica_execution_registrations := replica_execution_registrations s @
       concat (map (\<lambda>e.
         let listed = listings_of (executions_registration_id e) s in
         if length listed < policy_maxReplicas (reg_policy g) \<and>
            reg_replicaDid g \<notin> set (map listings_replica_did listed) \<and>
            length listed + 1 \<notin> set (map listings_ordinal listed)
         then [\<lparr>listings_registration_id = executions_registration_id e,
                listings_replica_did = reg_replicaDid g, listings_ordinal = length listed + 1\<rparr>]
         else []) (matching_executions g s))\<rparr>"

text \<open>The registrations joined with their listings, ordered by ordinal.\<close>

definition snapshot_rows :: "ExecutionRegistration \<Rightarrow> db \<Rightarrow> (execution_row \<times> listing_row) list" where
  "snapshot_rows g s = sort_key (\<lambda>el. listings_ordinal (snd el))
     (concat (map (\<lambda>e. map (\<lambda>l. (e, l)) (listings_of (executions_registration_id e) s))
       (matching_executions g s)))"

definition registerExecution ::
    "string \<Rightarrow> time \<Rightarrow> ExecutionRegistration \<Rightarrow> db \<Rightarrow> (sql_error + RegisterExecutionOutcome) \<times> db" where
  "registerExecution rid nowMs g =
     batch (then_tx (query (member_account (reg_replicaDid g) (reg_mediator g))) (\<lambda>caller.
            then_tx (statement (insert_execution rid (nowMs div 1000) g)) (\<lambda>_.
            then_tx (statement (list_replica g)) (\<lambda>_.
            then_tx (query (snapshot_rows g)) (\<lambda>rows.
            return_tx (if caller = None then ExecutionUnknown
              else case rows of
                  [] \<Rightarrow> ExecutionFull
                | (e, l) # later \<Rightarrow>
                    if \<not> (\<exists>el\<in>set rows. listings_replica_did (snd el) = reg_replicaDid g) then ExecutionFull
                    else ExecutionRegistered \<lparr>snap_executionId = reg_executionId g,
                      snap_registrationId = executions_registration_id e,
                      snap_createdTime = executions_created_time e,
                      snap_retainUntil = executions_retain_until e,
                      snap_replicas = map (\<lambda>el. listings_replica_did (snd el)) rows\<rparr>))))))"

definition purgeExecutions :: "time \<Rightarrow> db \<Rightarrow> (sql_error + nat) \<times> db" where
  "purgeExecutions nowMs =
     batch (then_tx (query (\<lambda>s. length (filter (\<lambda>e. executions_retain_until e \<le> nowMs div 1000)
              (replica_executions s)))) (\<lambda>n.
            then_tx (statement (delete_executions (\<lambda>e. executions_retain_until e \<le> nowMs div 1000))) (\<lambda>_.
            return_tx n)))"

section \<open>What a registration does\<close>

text \<open>
  The contract: a caller that is no active replica of an account bound here
  registers nothing; a first registration under an execution ID opens it,
  while the account keeps fewer than it may; a later one is appended to it,
  while it lists fewer replicas than it may; and a replica already listed
  changes nothing. Every caller is told the replicas in the order each first
  registered.
\<close>

definition execution_of :: "did \<Rightarrow> string \<Rightarrow> db \<Rightarrow> execution_row option" where
  "execution_of account eid s = find (\<lambda>e. executions_account_did e = account \<and> executions_execution_id e = eid)
     (replica_executions s)"

definition listed_replicas :: "execution_row \<Rightarrow> db \<Rightarrow> did list" where
  "listed_replicas e s = map listings_replica_did (listings_of (executions_registration_id e) s)"

definition snapshot :: "execution_row \<Rightarrow> did list \<Rightarrow> ExecutionRegistrationSnapshot" where
  "snapshot e dids = \<lparr>snap_executionId = executions_execution_id e,
     snap_registrationId = executions_registration_id e, snap_createdTime = executions_created_time e,
     snap_retainUntil = executions_retain_until e, snap_replicas = dids\<rparr>"

definition new_execution :: "string \<Rightarrow> time \<Rightarrow> ExecutionRegistration \<Rightarrow> did \<Rightarrow> execution_row" where
  "new_execution rid now g account = \<lparr>executions_registration_id = rid, executions_account_did = account,
     executions_execution_id = reg_executionId g, executions_created_time = now,
     executions_retain_until = now + policy_retainSeconds (reg_policy g)\<rparr>"

definition listing_for :: "execution_row \<Rightarrow> did \<Rightarrow> db \<Rightarrow> listing_row" where
  "listing_for e did s = \<lparr>listings_registration_id = executions_registration_id e, listings_replica_did = did,
     listings_ordinal = length (listings_of (executions_registration_id e) s) + 1\<rparr>"

definition add_listing :: "execution_row \<Rightarrow> did \<Rightarrow> db \<Rightarrow> db" where
  "add_listing e did s =
     s\<lparr>replica_execution_registrations := replica_execution_registrations s @ [listing_for e did s]\<rparr>"

definition register_execution ::
    "string \<Rightarrow> time \<Rightarrow> ExecutionRegistration \<Rightarrow> db \<Rightarrow> RegisterExecutionOutcome \<times> db" where
  "register_execution rid now g s =
     (case member_account (reg_replicaDid g) (reg_mediator g) s of
        None \<Rightarrow> (ExecutionUnknown, s)
      | Some account \<Rightarrow>
          (case execution_of account (reg_executionId g) s of
             None \<Rightarrow>
               (if length (executions_of account s) < policy_maxRetained (reg_policy g)
                then let e = new_execution rid now g account in
                  (ExecutionRegistered (snapshot e [reg_replicaDid g]),
                   add_listing e (reg_replicaDid g) (s\<lparr>replica_executions := replica_executions s @ [e]\<rparr>))
                else (ExecutionFull, s))
           | Some e \<Rightarrow>
               (if reg_replicaDid g \<in> set (listed_replicas e s)
                then (ExecutionRegistered (snapshot e (listed_replicas e s)), s)
                else if length (listed_replicas e s) < policy_maxReplicas (reg_policy g)
                then (ExecutionRegistered (snapshot e (listed_replicas e s @ [reg_replicaDid g])),
                      add_listing e (reg_replicaDid g) s)
                else (ExecutionFull, s))))"

lemma member_accountD:
  assumes "member_account did mediator s = Some a"
  shows "\<exists>r\<in>set (replicas s). replicas_did r = did \<and> is_active r \<and> replicas_account_did r = a"
    and "bound_account a mediator s"
  using assms by (auto simp: member_account_def find_Some_iff)

lemma execution_ofD:
  assumes "execution_of a eid s = Some e"
  shows "e \<in> set (replica_executions s)" and "executions_account_did e = a" and "executions_execution_id e = eid"
  using assms by (auto simp: execution_of_def find_Some_iff)

lemma find_as_row_of:
  "execution_of a eid s = row_of (\<lambda>e. (executions_account_did e, executions_execution_id e)) (a, eid)
     (replica_executions s)"
  by (simp add: execution_of_def row_of_def)

lemma matching_executions_eq:
  assumes "uniq_ok s" and "member_account (reg_replicaDid g) (reg_mediator g) s = Some a"
  shows "matching_executions g s = (case execution_of a (reg_executionId g) s of None \<Rightarrow> [] | Some e \<Rightarrow> [e])"
proof -
  have "distinct (map (\<lambda>e. (executions_account_did e, executions_execution_id e)) (replica_executions s))"
    using assms(1) by (simp add: uniq_ok_def)
  from filter_key [OF this, of "(a, reg_executionId g)"] show ?thesis
    by (simp add: matching_executions_def assms(2) find_as_row_of)
qed

lemma sorted_numbered: "numbered ord rows \<Longrightarrow> sorted (map ord rows)"
  by (simp only: numbered_def) (rule sorted_upt)

lemma snapshot_rows_eq:
  assumes "matching_executions g s = [e]" and "numbered listings_ordinal (listings_of (executions_registration_id e) s)"
  shows "snapshot_rows g s = map (Pair e) (listings_of (executions_registration_id e) s)"
  using assms sorted_numbered [OF assms(2)]
  by (simp add: snapshot_rows_def sorted_sort_id [of "map _ _"] sort_key_id_if_sorted comp_def)

text \<open>All of the invariant but that the registration \<open>e\<close> lists a replica: what holds between the two inserts.\<close>

definition half_open :: "execution_row \<Rightarrow> db \<Rightarrow> bool" where
  "half_open e s \<longleftrightarrow> uniq_ok s \<and> fk_ok s \<and> names_ok s \<and> ordinals_ok s \<and> mail_ok s \<and> blobs_ok s \<and>
     list_all (listing_ok s) (replica_execution_registrations s) \<and> e \<in> set (replica_executions s) \<and>
     (\<forall>e'\<in>set (replica_executions s). numbered listings_ordinal (listings_of (executions_registration_id e') s) \<and>
        (e' \<noteq> e \<longrightarrow> listings_of (executions_registration_id e') s \<noteq> []))"

lemma half_open_existing: "db_inv s \<Longrightarrow> e \<in> set (replica_executions s) \<Longrightarrow> half_open e s"
  using db_invD [of s] by (simp add: half_open_def listings_ok_def list_all_iff)

lemma listings_of_add:
  "listings_of rid (add_listing e did s) =
     listings_of rid s @ (if rid = executions_registration_id e then [listing_for e did s] else [])"
  by (simp add: listings_of_def add_listing_def listing_for_def)

lemma in_listings_of: "l \<in> set (listings_of rid s) \<longleftrightarrow>
    l \<in> set (replica_execution_registrations s) \<and> listings_registration_id l = rid"
  by (auto simp: listings_of_def)

lemma add_listing_uniq:
  assumes "half_open e s" and "did \<notin> set (listed_replicas e s)"
  shows "uniq_ok (add_listing e did s)"
proof -
  let ?rid = "executions_registration_id e"
  have n: "numbered listings_ordinal (listings_of ?rid s)" using assms(1) by (simp add: half_open_def)
  have 1: "(?rid, did) \<notin> (\<lambda>l. (listings_registration_id l, listings_replica_did l)) ` set (replica_execution_registrations s)"
    using assms(2) by (force simp: listed_replicas_def listings_of_def)
  have 2: "(?rid, Suc (length (listings_of ?rid s))) \<notin>
      (\<lambda>l. (listings_registration_id l, listings_ordinal l)) ` set (replica_execution_registrations s)"
    using numbered_fresh [OF n] by (force simp: in_listings_of)
  have "uniq_ok s" using assms(1) by (simp add: half_open_def)
  with 1 2 show ?thesis by (simp add: uniq_ok_def add_listing_def listing_for_def)
qed

lemma add_listing_inv:
  assumes "half_open e s" and "did \<notin> set (listed_replicas e s)" and "r \<in> set (replicas s)"
    and "replicas_did r = did" and "replicas_account_did r = executions_account_did e"
  shows "db_inv (add_listing e did s)"
proof -
  let ?s = "add_listing e did s" and ?l = "listing_for e did s" and ?rid = "executions_registration_id e"
  have o: "fk_ok s" "names_ok s" "ordinals_ok s" "mail_ok s" "blobs_ok s"
    "list_all (listing_ok s) (replica_execution_registrations s)" "e \<in> set (replica_executions s)"
    "\<And>e'. e' \<in> set (replica_executions s) \<Longrightarrow> numbered listings_ordinal (listings_of (executions_registration_id e') s)"
    "\<And>e'. e' \<in> set (replica_executions s) \<Longrightarrow> e' \<noteq> e \<Longrightarrow> listings_of (executions_registration_id e') s \<noteq> []"
    using assms(1) by (simp_all add: half_open_def)
  have l: "listings_registration_id ?l = ?rid" "listings_replica_did ?l = did"
    "listings_ordinal ?l = Suc (length (listings_of ?rid s))"
    by (simp_all add: listing_for_def)
  show ?thesis
  proof (rule db_invI)
    show "uniq_ok ?s" by (rule add_listing_uniq [OF assms(1,2)])
    have "?rid \<in> executions_registration_id ` set (replica_executions s)" "did \<in> replicas_did ` set (replicas s)"
      using o(7) assms(3,4) by auto
    then show "fk_ok ?s" using o(1) by (simp add: fk_ok_def add_listing_def l)
    show "names_ok ?s" by (rule names_ok_shrink [OF o(2)]) (simp_all add: add_listing_def role_names)
    show "ordinals_ok ?s" using o(3) by (simp add: ordinals_ok_def replicas_of_def add_listing_def)
    show "mail_ok ?s" using o(4) by (simp add: mail_defs add_listing_def)
    show "blobs_ok ?s" using o(5) by (simp add: blobs_defs add_listing_def)
    have "listing_ok s ?l" unfolding listing_ok_def l using o(7) assms(3-5) by metis
    then have "list_all (listing_ok ?s) (replica_execution_registrations ?s)"
      using o(6) by (simp add: add_listing_def listing_ok_def list_all_iff)
    moreover have "numbered listings_ordinal (listings_of (executions_registration_id e') ?s)"
      and "listings_of (executions_registration_id e') ?s \<noteq> []" if "e' \<in> set (replica_executions s)" for e'
      using o(8) [OF that] o(9) [OF that] l(3) by (auto simp: listings_of_add numbered_snoc)
    ultimately show "listings_ok ?s" by (simp add: listings_ok_def list_all_iff add_listing_def)
  qed
qed

text \<open>The first registration under an execution ID.\<close>

lemma half_open_new:
  fixes now :: time
  assumes "db_inv s" and "rid \<notin> executions_registration_id ` set (replica_executions s)"
    and "execution_of a (reg_executionId g) s = None" and "a \<in> raccounts_did ` set (replica_accounts s)"
  defines "e \<equiv> new_execution rid now g a"
  shows "half_open e (s\<lparr>replica_executions := replica_executions s @ [e]\<rparr>)"
    and "listings_of rid (s\<lparr>replica_executions := replica_executions s @ [e]\<rparr>) = []"
proof -
  note s = db_invD [OF assms(1)]
  let ?s = "s\<lparr>replica_executions := replica_executions s @ [e]\<rparr>"
  have e: "executions_registration_id e = rid" "executions_account_did e = a"
    "executions_execution_id e = reg_executionId g"
    by (simp_all add: e_def new_execution_def)
  have "(a, reg_executionId g) \<notin> (\<lambda>e. (executions_account_did e, executions_execution_id e)) ` set (replica_executions s)"
    using assms(3) by (simp add: find_as_row_of row_of_None)
  then have u: "uniq_ok ?s" using s(1) assms(2) by (simp add: uniq_ok_def e)
  have f: "fk_ok ?s" using s(2) assms(4) by (simp add: fk_ok_def e)
  have n: "names_ok ?s" by (rule names_ok_shrink [OF s(3)]) (simp_all add: role_names)
  have rest: "ordinals_ok ?s" "mail_ok ?s" "blobs_ok ?s"
    using s(4,5,7) by (simp_all add: ordinals_ok_def replicas_of_def mail_defs blobs_defs)
  have l: "list_all (listing_ok ?s) (replica_execution_registrations s)"
    using s(6) by (force simp: listings_defs)
  show none: "listings_of rid ?s = []"
  proof -
    have "listings_registration_id l \<noteq> rid" if "l \<in> set (replica_execution_registrations s)" for l
      using s(6) that assms(2) unfolding listings_ok_def list_all_iff listing_ok_def by (metis imageI)
    then show ?thesis by (auto simp: listings_of_def filter_empty_conv)
  qed
  have same: "listings_of r ?s = listings_of r s" for r by (simp add: listings_of_def)
  have "numbered listings_ordinal (listings_of (executions_registration_id e') s)"
    and "listings_of (executions_registration_id e') s \<noteq> []" if "e' \<in> set (replica_executions s)" for e'
    using s(6) that by (simp_all add: listings_ok_def list_all_iff)
  then show "half_open e ?s" using u f n rest l none by (simp add: half_open_def same e)
qed

text \<open>The method implements the contract, and never fails.\<close>

lemma listings_numbered:
  "db_inv s \<Longrightarrow> e \<in> set (replica_executions s) \<Longrightarrow>
   numbered listings_ordinal (listings_of (executions_registration_id e) s) \<and>
   listings_of (executions_registration_id e) s \<noteq> []"
  using db_invD(6) [of s] by (simp add: listings_ok_def list_all_iff)

lemma list_replica_eq:
  assumes "matching_executions g s = [e]" and "numbered listings_ordinal (listings_of (executions_registration_id e) s)"
  shows "list_replica g s =
     (if length (listed_replicas e s) < policy_maxReplicas (reg_policy g) \<and> reg_replicaDid g \<notin> set (listed_replicas e s)
      then add_listing e (reg_replicaDid g) s else s)"
  using numbered_fresh [OF assms(2)]
  by (simp add: list_replica_def assms(1) Let_def listed_replicas_def add_listing_def listing_for_def)

lemma register_execution_None:
  assumes "db_inv s" and "member_account (reg_replicaDid g) (reg_mediator g) s = None"
  shows "registerExecution rid nowMs g s = (Inr ExecutionUnknown, s)"
proof -
  have "matching_executions g s = []" by (simp add: matching_executions_def assms(2))
  then have "list_replica g s = s" by (simp add: list_replica_def)
  moreover have "insert_execution rid (nowMs div 1000) g s = s" by (simp add: insert_execution_def assms(2))
  ultimately show ?thesis
    using assms(2) db_invD(1,2) [OF assms(1)]
    by (simp add: registerExecution_def batch_def tx_simps statement_run)
qed

lemma member_account_cong:
  "replicas s' = replicas s \<Longrightarrow> replica_accounts s' = replica_accounts s \<Longrightarrow>
   member_account did mediator s' = member_account did mediator s"
  by (simp add: member_account_def bound_account_def)

lemma add_listing_tables:
  "replicas (add_listing e did s) = replicas s" "replica_accounts (add_listing e did s) = replica_accounts s"
  "replica_executions (add_listing e did s) = replica_executions s"
  "listed_replicas e (add_listing e did s) = listed_replicas e s @ [did]"
  by (simp_all add: add_listing_def listed_replicas_def listings_of_def listing_for_def)

lemma registered_rows:
  assumes "db_inv s" and "member_account (reg_replicaDid g) (reg_mediator g) s = Some a"
    and "execution_of a (reg_executionId g) s = Some e"
  shows "snapshot_rows g s = map (Pair e) (listings_of (executions_registration_id e) s)"
  by (rule snapshot_rows_eq)
    (use matching_executions_eq [OF db_invD(1) [OF assms(1)] assms(2)] assms(3)
       listings_numbered [OF assms(1) execution_ofD(1) [OF assms(3)]] in simp_all)

text \<open>What the method answers from the rows it reads back.\<close>

definition answer_rows :: "ExecutionRegistration \<Rightarrow> (execution_row \<times> listing_row) list \<Rightarrow> RegisterExecutionOutcome" where
  "answer_rows g rows = (case rows of
      [] \<Rightarrow> ExecutionFull
    | (e, l) # later \<Rightarrow>
        if \<not> (\<exists>el\<in>set rows. listings_replica_did (snd el) = reg_replicaDid g) then ExecutionFull
        else ExecutionRegistered \<lparr>snap_executionId = reg_executionId g,
          snap_registrationId = executions_registration_id e, snap_createdTime = executions_created_time e,
          snap_retainUntil = executions_retain_until e,
          snap_replicas = map (\<lambda>el. listings_replica_did (snd el)) rows\<rparr>)"

lemma answer_rows_eq:
  "executions_execution_id e = reg_executionId g \<Longrightarrow>
   answer_rows g (map (Pair e) (listings_of (executions_registration_id e) s)) =
     (if reg_replicaDid g \<in> set (listed_replicas e s)
      then ExecutionRegistered (snapshot e (listed_replicas e s)) else ExecutionFull)"
  by (cases "listings_of (executions_registration_id e) s")
    (force simp: answer_rows_def listed_replicas_def snapshot_def comp_def)+

lemma registerExecution_answers:
  assumes "uniq_ok s1" "fk_ok s1" and "uniq_ok s2" "fk_ok s2"
    and "s1 = insert_execution rid (nowMs div 1000) g s" and "s2 = list_replica g s1"
    and "member_account (reg_replicaDid g) (reg_mediator g) s = Some a"
  shows "registerExecution rid nowMs g s = (Inr (answer_rows g (snapshot_rows g s2)), s2)"
  using assms by (simp add: registerExecution_def batch_def tx_simps statement_run answer_rows_def)

lemma register_execution_existing:
  assumes "db_inv s" and m: "member_account (reg_replicaDid g) (reg_mediator g) s = Some a"
    and e: "execution_of a (reg_executionId g) s = Some e"
  shows "registerExecution rid nowMs g s = map_prod Inr id (register_execution rid (nowMs div 1000) g s)"
    and "db_inv (snd (register_execution rid (nowMs div 1000) g s))"
proof -
  note s = db_invD [OF assms(1)]
  let ?s = "snd (register_execution rid (nowMs div 1000) g s)"
  have i: "insert_execution rid (nowMs div 1000) g s = s"
    using execution_ofD [OF e] by (force simp: insert_execution_def m)
  have "matching_executions g s = [e]" using matching_executions_eq [OF s(1) m] e by simp
  then have l: "list_replica g s = ?s"
    using listings_numbered [OF assms(1) execution_ofD(1) [OF e]]
    by (subst list_replica_eq [of _ _ e]) (auto simp: register_execution_def m e)
  obtain r where r: "r \<in> set (replicas s)" "replicas_did r = reg_replicaDid g" "replicas_account_did r = a"
    using member_accountD(1) [OF m] by blast
  show inv: "db_inv ?s"
    using assms(1) add_listing_inv [OF half_open_existing [OF assms(1) execution_ofD(1) [OF e]] _ r(1,2)] r(3)
      execution_ofD(2) [OF e]
    by (auto simp: register_execution_def m e)
  have t: "replicas ?s = replicas s" "replica_accounts ?s = replica_accounts s"
    "replica_executions ?s = replica_executions s"
    by (simp_all add: register_execution_def m e add_listing_tables)
  then have m': "member_account (reg_replicaDid g) (reg_mediator g) ?s = Some a"
    and e': "execution_of a (reg_executionId g) ?s = Some e"
    using m e by (simp_all only: member_account_cong [OF t(1,2)] execution_of_def t(3))
  have "registerExecution rid nowMs g s = (Inr (answer_rows g (snapshot_rows g ?s)), ?s)"
    by (rule registerExecution_answers [OF s(1,2) db_invD(1,2) [OF inv] i [symmetric] l [symmetric] m])
  also have "answer_rows g (snapshot_rows g ?s) = fst (register_execution rid (nowMs div 1000) g s)"
    unfolding registered_rows [OF inv m' e'] answer_rows_eq [OF execution_ofD(3) [OF e]]
    by (simp add: register_execution_def m e add_listing_tables(4))
  finally show "registerExecution rid nowMs g s = map_prod Inr id (register_execution rid (nowMs div 1000) g s)"
    by (simp add: map_prod_def case_prod_beta)
qed

lemma register_execution_first:
  assumes "db_inv s" and m: "member_account (reg_replicaDid g) (reg_mediator g) s = Some a"
    and e: "execution_of a (reg_executionId g) s = None"
    and "rid \<notin> executions_registration_id ` set (replica_executions s)"
    and "1 \<le> policy_maxReplicas (reg_policy g)"
  shows "registerExecution rid nowMs g s = map_prod Inr id (register_execution rid (nowMs div 1000) g s)"
    and "db_inv (snd (register_execution rid (nowMs div 1000) g s))"
proof -
  note s = db_invD [OF assms(1)]
  let ?now = "nowMs div 1000" and ?did = "reg_replicaDid g"
  let ?e = "new_execution rid ?now g a"
  let ?s1 = "s\<lparr>replica_executions := replica_executions s @ [?e]\<rparr>" and ?room = "length (executions_of a s) < policy_maxRetained (reg_policy g)"
  let ?s2 = "add_listing ?e ?did ?s1"
  have ek: "(a, reg_executionId g) \<notin> (\<lambda>e. (executions_account_did e, executions_execution_id e)) ` set (replica_executions s)"
    using e by (simp add: find_as_row_of row_of_None)
  show "registerExecution rid nowMs g s = map_prod Inr id (register_execution rid ?now g s)"
    and "db_inv (snd (register_execution rid ?now g s))"
  proof (atomize (full), cases ?room)
    case False
    have i: "insert_execution rid ?now g s = s" using False by (simp add: insert_execution_def m)
    have no: "matching_executions g s = []" using matching_executions_eq [OF s(1) m] e by simp
    then have "list_replica g s = s" by (simp add: list_replica_def)
    moreover have "answer_rows g (snapshot_rows g s) = ExecutionFull"
      by (simp add: snapshot_rows_def no answer_rows_def)
    ultimately show "registerExecution rid nowMs g s = map_prod Inr id (register_execution rid ?now g s) \<and>
        db_inv (snd (register_execution rid ?now g s))"
      using registerExecution_answers [OF s(1,2) s(1,2) i [symmetric] _ m] False assms(1)
      by (simp add: register_execution_def m e)
  next
    case True
    obtain r where r: "r \<in> set (replicas s)" "replicas_did r = ?did" "replicas_account_did r = a"
      using member_accountD(1) [OF m] by blast
    note op = half_open_new [OF assms(1,4) e bound_account_key [OF member_accountD(2) [OF m]], of ?now]
    have i: "insert_execution rid ?now g s = ?s1"
      using True ek by (simp add: insert_execution_def m new_execution_def)
    have eid: "executions_registration_id ?e = rid" "executions_account_did ?e = a"
      "executions_execution_id ?e = reg_executionId g"
      by (simp_all add: new_execution_def)
    have m1: "member_account ?did (reg_mediator g) ?s1 = Some a"
      using m by (simp add: member_account_def bound_account_def)
    have e1: "execution_of a (reg_executionId g) ?s1 = Some ?e"
      using e eid by (simp add: find_as_row_of row_of_append)
    have u1: "uniq_ok ?s1" "fk_ok ?s1" using op(1) by (simp_all add: half_open_def)
    have none: "listed_replicas ?e ?s1 = []" using op(2) by (simp add: listed_replicas_def eid)
    have l: "list_replica g ?s1 = ?s2"
      using matching_executions_eq [OF u1(1) m1] e1 op(2) assms(5) none
      by (subst list_replica_eq [of _ _ ?e]) (simp_all add: eid)
    have inv: "db_inv ?s2"
      by (rule add_listing_inv [OF op(1), of _ r]) (use r none eid in simp_all)
    have m2: "member_account ?did (reg_mediator g) ?s2 = Some a"
      by (simp only: m1 member_account_cong [OF add_listing_tables(1,2)])
    have e2: "execution_of a (reg_executionId g) ?s2 = Some ?e"
      using e1 by (simp add: execution_of_def add_listing_tables)
    have rows: "answer_rows g (snapshot_rows g ?s2) = ExecutionRegistered (snapshot ?e [?did])"
      unfolding registered_rows [OF inv m2 e2] answer_rows_eq [OF eid(3)] by (simp add: add_listing_tables none)
    have "registerExecution rid nowMs g s = (Inr (answer_rows g (snapshot_rows g ?s2)), ?s2)"
      by (rule registerExecution_answers [OF u1 db_invD(1,2) [OF inv] i [symmetric] l [symmetric] m])
    then show "registerExecution rid nowMs g s = map_prod Inr id (register_execution rid ?now g s) \<and>
        db_inv (snd (register_execution rid ?now g s))"
      using True inv by (simp add: register_execution_def m e rows Let_def)
  qed
qed

lemma registerExecution_run:
  assumes "db_inv s" and "rid \<notin> executions_registration_id ` set (replica_executions s)"
    and "1 \<le> policy_maxReplicas (reg_policy g)"
  shows "registerExecution rid nowMs g s = map_prod Inr id (register_execution rid (nowMs div 1000) g s)"
    and "db_inv (snd (register_execution rid (nowMs div 1000) g s))"
proof -
  let ?m = "member_account (reg_replicaDid g) (reg_mediator g) s"
  have "registerExecution rid nowMs g s = map_prod Inr id (register_execution rid (nowMs div 1000) g s) \<and>
      db_inv (snd (register_execution rid (nowMs div 1000) g s))"
  proof (cases ?m)
    case None
    then show ?thesis using register_execution_None [OF assms(1) None] assms(1) by (simp add: register_execution_def)
  next
    case (Some a)
    then show ?thesis
      using register_execution_existing [OF assms(1) Some] register_execution_first [OF assms(1) Some _ assms(2,3)]
      by (cases "execution_of a (reg_executionId g) s") blast+
  qed
  then show "registerExecution rid nowMs g s = map_prod Inr id (register_execution rid (nowMs div 1000) g s)"
    and "db_inv (snd (register_execution rid (nowMs div 1000) g s))" by blast+
qed

text \<open>What lapsed goes, with its listings; the rest keeps its order.\<close>

lemma delete_executions_inv:
  assumes "db_inv s"
  shows "db_inv (delete_executions which s)"
proof -
  note s = db_invD [OF assms]
  let ?s = "delete_executions which s"
  have rid: "distinct (map executions_registration_id (replica_executions s))" using s(1) by (simp add: uniq_ok_def)
  have gone: "executions_registration_id e \<notin> executions_registration_id ` {e \<in> set (replica_executions s). which e}"
    if "e \<in> set (replica_executions s)" "\<not> which e" for e
    using same_key_same_row [OF rid that(1)] that(2) by auto
  show ?thesis
  proof (rule db_invI)
    show "uniq_ok ?s" using s(1) by (simp add: delete_executions_def Let_def uniq_ok_def)
    show "fk_ok ?s" by (rule delete_executions_fk [OF s(2)])
    show "names_ok ?s" by (rule names_ok_shrink [OF s(3)]) (simp_all add: delete_executions_def Let_def role_names)
    show "ordinals_ok ?s" using s(4) by (simp add: delete_executions_def Let_def ordinals_ok_def replicas_of_def)
    show "mail_ok ?s" using s(5) by (simp add: delete_executions_def Let_def mail_defs)
    show "blobs_ok ?s" using s(7) by (simp add: delete_executions_def Let_def blobs_defs)
    have "listing_ok ?s l" if "l \<in> set (replica_execution_registrations ?s)" for l
    proof -
      have l: "l \<in> set (replica_execution_registrations s)"
        "listings_registration_id l \<notin> executions_registration_id ` {e \<in> set (replica_executions s). which e}"
        using that by (simp_all add: delete_executions_def Let_def)
      then have "listing_ok s l" using s(6) by (simp add: listings_ok_def list_all_iff)
      then obtain e r where er: "e \<in> set (replica_executions s)" "r \<in> set (replicas s)"
        "executions_registration_id e = listings_registration_id l" "replicas_did r = listings_replica_did l"
        "executions_account_did e = replicas_account_did r"
        unfolding listing_ok_def by blast
      with l(2) have "\<not> which e" by force
      then show ?thesis unfolding listing_ok_def using er by (auto simp: delete_executions_def Let_def)
    qed
    moreover have "listings_of (executions_registration_id e) ?s = listings_of (executions_registration_id e) s"
      if "e \<in> set (replica_executions s)" "\<not> which e" for e
      using gone [OF that] unfolding listings_of_def delete_executions_def Let_def
      by simp (rule filter_cong [OF refl], metis)
    moreover have "replica_executions ?s = filter (\<lambda>e. \<not> which e) (replica_executions s)"
      by (simp add: delete_executions_def Let_def)
    ultimately show "listings_ok ?s" using s(6) by (simp add: listings_ok_def list_all_iff)
  qed
qed

lemma purgeExecutions_run:
  assumes "db_inv s"
  shows "purgeExecutions nowMs s =
     (Inr (length (filter (\<lambda>e. executions_retain_until e \<le> nowMs div 1000) (replica_executions s))),
      delete_executions (\<lambda>e. executions_retain_until e \<le> nowMs div 1000) s)"
  using db_invD(1,2) [OF delete_executions_inv [OF assms]]
  by (simp add: purgeExecutions_def batch_def tx_simps statement_run)

end
