(* ===== verification/Mediator_Blobs.thy ===== *)
theory Mediator_Blobs
  imports Mediator_Replicas
begin

text \<open>
  The blob store's rows: one mediation's bytes under (owner, hash), kept until
  their retention passes, within a quota of live bytes; the one-time tokens
  that upload them; and the ids whose bytes are to be deleted.
\<close>

record BlobKeep =
  keep_id :: string
  keep_ownerDid :: did
  keep_hash :: string
  keep_size :: int
  keep_retainUntil :: time

datatype KeepOutcome = Kept blob_row | KeepMismatch | KeepFull | KeepEnded

definition blobOf :: "did \<Rightarrow> string \<Rightarrow> db \<Rightarrow> blob_row option" where
  "blobOf ownerDid hash s = find (\<lambda>b. blobs_owner_did b = ownerDid \<and> blobs_hash b = hash) (blobs s)"

definition blobById :: "string \<Rightarrow> db \<Rightarrow> blob_row option" where
  "blobById bid s = row_of blobs_id bid (blobs s)"

definition live_blobs :: "did \<Rightarrow> time \<Rightarrow> db \<Rightarrow> blob_row list" where
  "live_blobs ownerDid now s = filter (\<lambda>b. blobs_owner_did b = ownerDid \<and> now < blobs_retain_until b) (blobs s)"

definition blobUsage :: "time \<Rightarrow> did \<Rightarrow> db \<Rightarrow> int" where
  "blobUsage now ownerDid s = sum_col blobs_size (live_blobs ownerDid now s)"

definition room :: "time \<Rightarrow> BlobKeep \<Rightarrow> int \<Rightarrow> db \<Rightarrow> bool" where
  "room now k quotaBytes s = (blobUsage now (keep_ownerDid k) s + keep_size k \<le> quotaBytes)"

definition creates_blob :: "time \<Rightarrow> BlobKeep \<Rightarrow> int \<Rightarrow> db \<Rightarrow> bool" where
  "creates_blob now k quotaBytes s =
     (blobOf (keep_ownerDid k) (keep_hash k) s = None \<and> room now k quotaBytes s \<and>
      holdsBlobs (keep_ownerDid k) s)"

definition create_blob :: "time \<Rightarrow> BlobKeep \<Rightarrow> int \<Rightarrow> db \<Rightarrow> db" where
  "create_blob now k quotaBytes s =
     (if creates_blob now k quotaBytes s
      then s\<lparr>blobs := blobs s @ [\<lparr>blobs_id = keep_id k, blobs_owner_did = keep_ownerDid k,
             blobs_hash = keep_hash k, blobs_size = keep_size k, blobs_created_at = now,
             blobs_uploaded_at = None, blobs_retain_until = keep_retainUntil k\<rparr>]\<rparr>
      else s)"

definition renews :: "time \<Rightarrow> BlobKeep \<Rightarrow> int \<Rightarrow> db \<Rightarrow> blob_row \<Rightarrow> bool" where
  "renews now k quotaBytes s b =
     (blobs_owner_did b = keep_ownerDid k \<and> blobs_hash b = keep_hash k \<and> blobs_size b = keep_size k \<and>
      (now < blobs_retain_until b \<or> room now k quotaBytes s) \<and> holdsBlobs (keep_ownerDid k) s)"

definition renew_blob :: "time \<Rightarrow> BlobKeep \<Rightarrow> int \<Rightarrow> db \<Rightarrow> db" where
  "renew_blob now k quotaBytes s =
     s\<lparr>blobs := map (\<lambda>b. if renews now k quotaBytes s b
         then b\<lparr>blobs_retain_until := max (blobs_retain_until b) (keep_retainUntil k)\<rparr> else b) (blobs s)\<rparr>"

definition keepBlob :: "time \<Rightarrow> BlobKeep \<Rightarrow> int \<Rightarrow> db \<Rightarrow> (sql_error + KeepOutcome) \<times> db" where
  "keepBlob now k quotaBytes =
     batch (then_tx (query (holdsBlobs (keep_ownerDid k))) (\<lambda>held.
            then_tx (query (creates_blob now k quotaBytes)) (\<lambda>created.
            then_tx (statement (create_blob now k quotaBytes)) (\<lambda>_.
            then_tx (query (\<lambda>s. \<exists>b\<in>set (blobs s). renews now k quotaBytes s b)) (\<lambda>renewed.
            then_tx (statement (renew_blob now k quotaBytes)) (\<lambda>_.
            then_tx (query (blobOf (keep_ownerDid k) (keep_hash k))) (\<lambda>kept.
            return_tx (if \<not> held then KeepEnded
              else case kept of
                  None \<Rightarrow> KeepFull
                | Some row \<Rightarrow> if blobs_size row \<noteq> keep_size k then KeepMismatch
                    else if \<not> created \<and> \<not> renewed then KeepFull
                    else Kept row))))))))"

definition is_blob :: "did \<Rightarrow> string \<Rightarrow> blob_row \<Rightarrow> bool" where
  "is_blob ownerDid hash b = (blobs_owner_did b = ownerDid \<and> blobs_hash b = hash)"

definition dropBlob :: "did \<Rightarrow> string \<Rightarrow> db \<Rightarrow> (sql_error + string option) \<times> db" where
  "dropBlob ownerDid hash =
     batch (then_tx (query (\<lambda>s. map_option blobs_id (blobOf ownerDid hash s))) (\<lambda>found.
            then_tx (statement (delete_blobs (is_blob ownerDid hash))) (\<lambda>_.
            return_tx found)))"

definition grantUpload :: "string \<Rightarrow> string \<Rightarrow> time \<Rightarrow> db \<Rightarrow> (sql_error + string) \<times> db" where
  "grantUpload token bid expiresAt =
     batch (then_tx (statement (\<lambda>s. s\<lparr>blob_uploads := blob_uploads s @
              [\<lparr>uploads_token = token, uploads_blob_id = bid, uploads_expires_at = expiresAt\<rparr>]\<rparr>)) (\<lambda>_.
            return_tx token))"

record UploadGrant =
  grant_id :: string
  grant_hash :: string
  grant_size :: int

text \<open>The blob a live token names, joined by its id; the token is consumed either way.\<close>

definition claimed :: "time \<Rightarrow> string \<Rightarrow> db \<Rightarrow> UploadGrant option" where
  "claimed now token s =
     (case find (\<lambda>u. uploads_token u = token \<and> now < uploads_expires_at u) (blob_uploads s) of
        None \<Rightarrow> None
      | Some u \<Rightarrow> map_option (\<lambda>b. \<lparr>grant_id = blobs_id b, grant_hash = blobs_hash b, grant_size = blobs_size b\<rparr>)
          (blobById (uploads_blob_id u) s))"

definition claimUpload :: "time \<Rightarrow> string \<Rightarrow> db \<Rightarrow> (sql_error + UploadGrant option) \<times> db" where
  "claimUpload now token =
     batch (then_tx (query (claimed now token)) (\<lambda>found.
            then_tx (statement (\<lambda>s. s\<lparr>blob_uploads := filter (\<lambda>u. uploads_token u \<noteq> token) (blob_uploads s)\<rparr>)) (\<lambda>_.
            return_tx found)))"

definition markUploaded :: "time \<Rightarrow> string \<Rightarrow> db \<Rightarrow> (sql_error + unit) \<times> db" where
  "markUploaded now bid =
     batch (statement (\<lambda>s. s\<lparr>blobs := map (\<lambda>b. if blobs_id b = bid \<and> blobs_uploaded_at b = None
       then b\<lparr>blobs_uploaded_at := Some now\<rparr> else b) (blobs s)\<rparr>))"

definition purgeBlobs :: "time \<Rightarrow> db \<Rightarrow> (sql_error + string list) \<times> db" where
  "purgeBlobs now =
     batch (then_tx (query (\<lambda>s. map blobs_id (filter (\<lambda>b. blobs_retain_until b \<le> now) (blobs s)) @ ended_blobs s)) (\<lambda>found.
            then_tx (statement (delete_blobs (\<lambda>b. blobs_retain_until b \<le> now))) (\<lambda>_.
            then_tx (statement (\<lambda>s. s\<lparr>ended_blobs := []\<rparr>)) (\<lambda>_.
            then_tx (statement (\<lambda>s. s\<lparr>blob_uploads := filter (\<lambda>u. now < uploads_expires_at u) (blob_uploads s)\<rparr>)) (\<lambda>_.
            return_tx found)))))"

section \<open>What each method does\<close>

text \<open>
  The contract of \<open>keepBlob\<close>: a mediation that holds no blobs keeps nothing; a
  hash kept with another size is a mismatch; a new blob, or one whose
  retention has passed, needs room in the quota; and the retention of a blob
  kept is never shortened.
\<close>

definition new_blob :: "time \<Rightarrow> BlobKeep \<Rightarrow> blob_row" where
  "new_blob now k = \<lparr>blobs_id = keep_id k, blobs_owner_did = keep_ownerDid k, blobs_hash = keep_hash k,
     blobs_size = keep_size k, blobs_created_at = now, blobs_uploaded_at = None,
     blobs_retain_until = keep_retainUntil k\<rparr>"

definition renewed_blob :: "BlobKeep \<Rightarrow> blob_row \<Rightarrow> blob_row" where
  "renewed_blob k b = b\<lparr>blobs_retain_until := max (blobs_retain_until b) (keep_retainUntil k)\<rparr>"

definition blob_key :: "blob_row \<Rightarrow> did \<times> string" where
  "blob_key b = (blobs_owner_did b, blobs_hash b)"

definition put_blob :: "did \<times> string \<Rightarrow> (blob_row \<Rightarrow> blob_row) \<Rightarrow> db \<Rightarrow> db" where
  "put_blob key f s = s\<lparr>blobs := map (\<lambda>b. if blob_key b = key then f b else b) (blobs s)\<rparr>"

definition keep_blob :: "time \<Rightarrow> BlobKeep \<Rightarrow> int \<Rightarrow> db \<Rightarrow> KeepOutcome \<times> db" where
  "keep_blob now k quotaBytes s =
     (if \<not> holdsBlobs (keep_ownerDid k) s then (KeepEnded, s)
      else case blobOf (keep_ownerDid k) (keep_hash k) s of
          None \<Rightarrow> if room now k quotaBytes s
            then (Kept (new_blob now k), s\<lparr>blobs := blobs s @ [new_blob now k]\<rparr>) else (KeepFull, s)
        | Some b \<Rightarrow>
            if blobs_size b \<noteq> keep_size k then (KeepMismatch, s)
            else if now < blobs_retain_until b \<or> room now k quotaBytes s
            then (Kept (renewed_blob k b), put_blob (keep_ownerDid k, keep_hash k) (renewed_blob k) s)
            else (KeepFull, s))"

lemma blobOf_row_of: "blobOf o' h s = row_of blob_key (o', h) (blobs s)"
  by (simp add: blobOf_def row_of_def blob_key_def)

lemma blob_keys_distinct: "uniq_ok s \<Longrightarrow> distinct (map blob_key (blobs s))"
  by (simp add: uniq_ok_def blob_key_def [abs_def])

lemma blobOf_iff:
  "uniq_ok s \<Longrightarrow> blobOf o' h s = Some b \<longleftrightarrow> b \<in> set (blobs s) \<and> blobs_owner_did b = o' \<and> blobs_hash b = h"
  unfolding blobOf_row_of by (subst row_of_Some_iff) (auto simp: blob_keys_distinct blob_key_def)

lemma blobOf_NoneD: "blobOf o' h s = None \<Longrightarrow> b \<in> set (blobs s) \<Longrightarrow> \<not> (blobs_owner_did b = o' \<and> blobs_hash b = h)"
  by (auto simp: blobOf_def find_None_iff)

lemma renewed_blob_same [simp]:
  "blobs_id (renewed_blob k b) = blobs_id b" "blobs_owner_did (renewed_blob k b) = blobs_owner_did b"
  "blobs_hash (renewed_blob k b) = blobs_hash b" "blobs_size (renewed_blob k b) = blobs_size b"
  "blob_key (renewed_blob k b) = blob_key b"
  by (simp_all add: renewed_blob_def blob_key_def)

text \<open>Changing rows in place, their keys, owners and sizes kept.\<close>

lemma map_blobs_inv:
  assumes "db_inv s" and f: "\<And>b. blobs_id (f b) = blobs_id b \<and> blobs_owner_did (f b) = blobs_owner_did b \<and>
      blobs_hash (f b) = blobs_hash b \<and> blobs_size (f b) = blobs_size b"
  shows "db_inv (s\<lparr>blobs := map f (blobs s)\<rparr>)"
proof -
  note s = db_invD [OF assms(1)]
  let ?bs = "map f (blobs s)"
  have u: "uniq_ok (s\<lparr>ended_blobs := ended_blobs s, blobs := ?bs, blob_uploads := blob_uploads s\<rparr>)"
    using s(1) f by (simp add: uniq_ok_def comp_def)
  have r: "refers uploads_blob_id (blob_uploads s) blobs_id ?bs"
    using s(2) f by (simp add: fk_ok_def refers_iff)
  have b: "blobs_ok (s\<lparr>ended_blobs := ended_blobs s, blobs := ?bs, blob_uploads := blob_uploads s\<rparr>)"
    using s(7) f by (simp add: blobs_defs)
  have "s\<lparr>ended_blobs := ended_blobs s, blobs := ?bs, blob_uploads := blob_uploads s\<rparr> = s\<lparr>blobs := ?bs\<rparr>"
    by simp
  with blobs_tables_inv [OF assms(1) u r b] show ?thesis by simp
qed

lemma put_renewed_inv: "db_inv s \<Longrightarrow> db_inv (put_blob key (renewed_blob k) s)"
  unfolding put_blob_def by (rule map_blobs_inv) simp_all

lemma create_blob_inv:
  assumes "db_inv s" and "keep_id k \<notin> blobs_id ` set (blobs s)" and "keep_id k \<notin> set (ended_blobs s)"
    and "0 \<le> keep_size k" and "holdsBlobs (keep_ownerDid k) s"
    and "blobOf (keep_ownerDid k) (keep_hash k) s = None"
  shows "db_inv (s\<lparr>blobs := blobs s @ [new_blob now k]\<rparr>)"
proof -
  note s = db_invD [OF assms(1)]
  let ?bs = "blobs s @ [new_blob now k]"
  have n: "blobs_id (new_blob now k) = keep_id k" "blobs_owner_did (new_blob now k) = keep_ownerDid k"
    "blobs_hash (new_blob now k) = keep_hash k" "blobs_size (new_blob now k) = keep_size k"
    by (simp_all add: new_blob_def)
  have "(keep_ownerDid k, keep_hash k) \<notin> (\<lambda>b. (blobs_owner_did b, blobs_hash b)) ` set (blobs s)"
    using blobOf_NoneD [OF assms(6)] by fastforce
  then have u: "uniq_ok (s\<lparr>ended_blobs := ended_blobs s, blobs := ?bs, blob_uploads := blob_uploads s\<rparr>)"
    using s(1) assms(2) by (simp add: uniq_ok_def n)
  have r: "refers uploads_blob_id (blob_uploads s) blobs_id ?bs" using s(2) by (simp add: fk_ok_def)
  have b: "blobs_ok (s\<lparr>ended_blobs := ended_blobs s, blobs := ?bs, blob_uploads := blob_uploads s\<rparr>)"
    using s(7) assms(3-5) by (simp add: blobs_defs n)
  from blobs_tables_inv [OF assms(1) u r b] show ?thesis by simp
qed

lemma keep_blob_inv:
  assumes "db_inv s" and "keep_id k \<notin> blobs_id ` set (blobs s)" and "keep_id k \<notin> set (ended_blobs s)"
    and "0 \<le> keep_size k"
  shows "db_inv (snd (keep_blob now k quotaBytes s))"
  using create_blob_inv [OF assms] put_renewed_inv [OF assms(1)] assms(1)
  by (simp add: keep_blob_def split: option.split)

lemma renew_blob_eq:
  assumes "uniq_ok s"
  shows "renew_blob now k q s = (case blobOf (keep_ownerDid k) (keep_hash k) s of
      None \<Rightarrow> s
    | Some b \<Rightarrow> if renews now k q s b then put_blob (keep_ownerDid k, keep_hash k) (renewed_blob k) s else s)"
proof (cases "blobOf (keep_ownerDid k) (keep_hash k) s")
  case None
  have "\<not> renews now k q s b" if "b \<in> set (blobs s)" for b
    using blobOf_NoneD [OF None that] by (auto simp: renews_def)
  then have "map (\<lambda>b. if renews now k q s b
      then b\<lparr>blobs_retain_until := max (blobs_retain_until b) (keep_retainUntil k)\<rparr> else b) (blobs s) = blobs s"
    by (simp add: map_idI)
  with None show ?thesis by (simp add: renew_blob_def)
next
  case (Some b)
  have "renews now k q s b' \<longleftrightarrow> renews now k q s b \<and> blob_key b' = (keep_ownerDid k, keep_hash k)"
    if "b' \<in> set (blobs s)" for b'
  proof -
    have "b' = b" if "blob_key b' = (keep_ownerDid k, keep_hash k)"
      using Some that \<open>b' \<in> set (blobs s)\<close> blobOf_iff [OF assms, of "keep_ownerDid k" "keep_hash k" b']
      by (simp add: blob_key_def)
    then show ?thesis by (auto simp: renews_def blob_key_def)
  qed
  then have "map (\<lambda>b. if renews now k q s b
      then b\<lparr>blobs_retain_until := max (blobs_retain_until b) (keep_retainUntil k)\<rparr> else b) (blobs s) =
    map (\<lambda>b'. if renews now k q s b \<and> blob_key b' = (keep_ownerDid k, keep_hash k) then renewed_blob k b' else b')
      (blobs s)"
    by (simp add: renewed_blob_def)
  then have "renew_blob now k q s = s\<lparr>blobs := map (\<lambda>b'. if renews now k q s b \<and>
      blob_key b' = (keep_ownerDid k, keep_hash k) then renewed_blob k b' else b') (blobs s)\<rparr>"
    unfolding renew_blob_def by simp
  with Some show ?thesis by (simp add: put_blob_def)
qed

lemma renews_ex:
  "uniq_ok s \<Longrightarrow> (\<exists>b\<in>set (blobs s). renews now k q s b) \<longleftrightarrow>
     (case blobOf (keep_ownerDid k) (keep_hash k) s of None \<Rightarrow> False | Some b \<Rightarrow> renews now k q s b)"
proof -
  assume u: "uniq_ok s"
  have "renews now k q s b \<longrightarrow> blobOf (keep_ownerDid k) (keep_hash k) s = Some b" if "b \<in> set (blobs s)" for b
    using that by (simp add: blobOf_iff [OF u] renews_def)
  moreover have "b \<in> set (blobs s)" if "blobOf (keep_ownerDid k) (keep_hash k) s = Some b" for b
    using that by (simp add: blobOf_iff [OF u])
  ultimately show ?thesis by (cases "blobOf (keep_ownerDid k) (keep_hash k) s") auto
qed

lemma keepBlob_answers:
  assumes "uniq_ok s1" "fk_ok s1" and "uniq_ok s2" "fk_ok s2"
    and "create_blob now k q s = s1" and "renew_blob now k q s1 = s2"
  shows "keepBlob now k q s = (Inr (
     if \<not> holdsBlobs (keep_ownerDid k) s then KeepEnded
     else case blobOf (keep_ownerDid k) (keep_hash k) s2 of
         None \<Rightarrow> KeepFull
       | Some row \<Rightarrow> if blobs_size row \<noteq> keep_size k then KeepMismatch
           else if \<not> creates_blob now k q s \<and> \<not> (\<exists>b\<in>set (blobs s1). renews now k q s1 b) then KeepFull
           else Kept row), s2)"
  using assms by (simp add: keepBlob_def batch_def tx_simps statement_run)

lemma find_map: "find P (map g xs) = map_option g (find (\<lambda>x. P (g x)) xs)"
  by (induction xs) auto

lemma blobOf_put:
  assumes "uniq_ok s" and "blobOf o' h s = Some b" and "\<And>b. blob_key (f b) = blob_key b"
  shows "blobOf o' h (put_blob (o', h) f s) = Some (f b)"
proof -
  have "blob_key (if blob_key b = (o', h) then f b else b) = blob_key b" for b using assms(3) by simp
  moreover have "blob_key b = (o', h)" using assms(2) row_of_SomeD [of blob_key] by (simp add: blobOf_row_of)
  ultimately show ?thesis using assms(2) by (simp add: blobOf_row_of row_of_def put_blob_def find_map)
qed

lemma keepBlob_new:
  assumes "db_inv s" and "keep_id k \<notin> blobs_id ` set (blobs s)" and "keep_id k \<notin> set (ended_blobs s)"
    and "0 \<le> keep_size k" and c: "creates_blob now k q s"
  shows "keepBlob now k q s = map_prod Inr id (keep_blob now k q s)"
proof -
  let ?s = "s\<lparr>blobs := blobs s @ [new_blob now k]\<rparr>"
  have h: "holdsBlobs (keep_ownerDid k) s" and none: "blobOf (keep_ownerDid k) (keep_hash k) s = None"
    and room: "room now k q s"
    using c by (simp_all add: creates_blob_def)
  have inv: "db_inv ?s" by (rule create_blob_inv [OF assms(1-4) h none])
  have cr: "create_blob now k q s = ?s" using c by (simp add: create_blob_def new_blob_def)
  have bo: "blobOf (keep_ownerDid k) (keep_hash k) ?s = Some (new_blob now k)"
    using none by (simp add: blobOf_row_of row_of_append blob_key_def new_blob_def)
  have "\<not> blob_key b = (keep_ownerDid k, keep_hash k)" if "b \<in> set (blobs s)" for b
    using blobOf_NoneD [OF none that] by (simp add: blob_key_def)
  then have "map (\<lambda>b. if blob_key b = (keep_ownerDid k, keep_hash k) then renewed_blob k b else b) (blobs s) = blobs s"
    by (simp add: map_idI)
  then have "put_blob (keep_ownerDid k, keep_hash k) (renewed_blob k) ?s = ?s"
    by (simp add: put_blob_def renewed_blob_def new_blob_def)
  then have "renew_blob now k q ?s = ?s" by (simp add: renew_blob_eq [OF db_invD(1) [OF inv]] bo)
  with keepBlob_answers [OF db_invD(1,2) [OF inv] db_invD(1,2) [OF inv] cr] show ?thesis
    using h none bo c room by (simp add: keep_blob_def new_blob_def)
qed

lemma keepBlob_known:
  assumes "db_inv s" and c: "\<not> creates_blob now k q s"
  shows "keepBlob now k q s = map_prod Inr id (keep_blob now k q s)"
proof -
  note s = db_invD [OF assms(1)]
  let ?s = "renew_blob now k q s"
  have cr: "create_blob now k q s = s" using c by (simp add: create_blob_def)
  have eq: "?s = (case blobOf (keep_ownerDid k) (keep_hash k) s of None \<Rightarrow> s
      | Some b \<Rightarrow> if renews now k q s b then put_blob (keep_ownerDid k, keep_hash k) (renewed_blob k) s else s)"
    by (rule renew_blob_eq [OF s(1)])
  have inv: "db_inv ?s" unfolding eq using assms(1) put_renewed_inv by (simp split: option.split)
  note a = keepBlob_answers [OF s(1,2) db_invD(1,2) [OF inv] cr refl]
  show ?thesis
  proof (cases "blobOf (keep_ownerDid k) (keep_hash k) s")
    case None
    then show ?thesis using a eq c renews_ex [OF s(1)] by (simp add: keep_blob_def creates_blob_def)
  next
    case (Some b)
    have "blobOf (keep_ownerDid k) (keep_hash k) ?s = Some (if renews now k q s b then renewed_blob k b else b)"
      using blobOf_put [OF s(1) Some, of "renewed_blob k"] Some by (simp add: eq)
    moreover have "blobs_owner_did b = keep_ownerDid k" "blobs_hash b = keep_hash k"
      using Some blobOf_iff [OF s(1)] by blast+
    ultimately show ?thesis
      using a eq c Some renews_ex [OF s(1), of now k q]
      by (auto simp: keep_blob_def renews_def)
  qed
qed

lemma keepBlob_run:
  assumes "db_inv s" and "keep_id k \<notin> blobs_id ` set (blobs s)" and "keep_id k \<notin> set (ended_blobs s)"
    and "0 \<le> keep_size k"
  shows "keepBlob now k q s = map_prod Inr id (keep_blob now k q s)"
  using keepBlob_new [OF assms] keepBlob_known [OF assms(1)] by blast

text \<open>The live bytes of a mediation stay within its quota.\<close>

lemma sum_col_update:
  "distinct (map key xs) \<Longrightarrow> b \<in> set xs \<Longrightarrow> (\<And>x. c (f x) = c x) \<Longrightarrow>
   sum_col c (filter live (map (\<lambda>x. if key x = key b then f x else x) xs)) =
     sum_col c (filter live xs) - (if live b then c b else 0) + (if live (f b) then c b else 0)"
proof (induction xs)
  case (Cons x xs)
  show ?case
  proof (cases "x = b")
    case True
    then have "map (\<lambda>x. if key x = key b then f x else x) xs = xs"
      using Cons.prems(1) by (intro map_idI) (auto simp: image_iff)
    then show ?thesis using True Cons.prems(3) by (simp add: sum_col_def)
  next
    case False
    then have "b \<in> set xs" and "key x \<noteq> key b" using Cons.prems(1,2) by (auto simp: image_iff)
    then show ?thesis using Cons by (simp add: sum_col_def)
  qed
qed simp

lemma keep_blob_usage:
  assumes "uniq_ok s" and "blobUsage now (keep_ownerDid k) s \<le> q" and "0 \<le> keep_size k"
  shows "blobUsage now (keep_ownerDid k) (snd (keep_blob now k q s)) \<le> q"
proof (cases "blobOf (keep_ownerDid k) (keep_hash k) s")
  case None
  then show ?thesis
    using assms by (auto simp: keep_blob_def room_def blobUsage_def live_blobs_def new_blob_def)
next
  case (Some b)
  let ?live = "\<lambda>b. blobs_owner_did b = keep_ownerDid k \<and> now < blobs_retain_until b"
  have b: "b \<in> set (blobs s)" "blob_key b = (keep_ownerDid k, keep_hash k)" "blobs_owner_did b = keep_ownerDid k"
    using Some by (auto simp: blobOf_iff [OF assms(1)] blob_key_def)
  have "blobUsage now (keep_ownerDid k) (put_blob (keep_ownerDid k, keep_hash k) (renewed_blob k) s) =
      blobUsage now (keep_ownerDid k) s - (if ?live b then blobs_size b else 0) +
      (if ?live (renewed_blob k b) then blobs_size b else 0)"
    using sum_col_update [OF blob_keys_distinct [OF assms(1)] b(1), of blobs_size "renewed_blob k" ?live]
    by (simp add: blobUsage_def live_blobs_def put_blob_def b(2))
  then show ?thesis using assms(2,3) b(3) by (auto simp: keep_blob_def Some room_def)
qed

lemma retention_grows:
  assumes "uniq_ok s" and "b \<in> set (blobs s)"
  shows "\<exists>b'\<in>set (blobs (snd (keep_blob now k q s))). blobs_id b' = blobs_id b \<and> blobs_owner_did b' = blobs_owner_did b \<and>
     blobs_hash b' = blobs_hash b \<and> blobs_size b' = blobs_size b \<and> blobs_uploaded_at b' = blobs_uploaded_at b \<and>
     blobs_retain_until b \<le> blobs_retain_until b'"
proof -
  have u: "blobs_uploaded_at (renewed_blob k b) = blobs_uploaded_at b"
    "blobs_retain_until b \<le> blobs_retain_until (renewed_blob k b)"
    by (simp_all add: renewed_blob_def)
  have "(if blob_key b = key then renewed_blob k b else b) \<in> set (blobs (put_blob key (renewed_blob k) s))" for key
    using assms(2) by (simp add: put_blob_def)
  then have "\<exists>b'\<in>set (blobs (put_blob key (renewed_blob k) s)). blobs_id b' = blobs_id b \<and>
      blobs_owner_did b' = blobs_owner_did b \<and> blobs_hash b' = blobs_hash b \<and> blobs_size b' = blobs_size b \<and>
      blobs_uploaded_at b' = blobs_uploaded_at b \<and> blobs_retain_until b \<le> blobs_retain_until b'" for key
    by (rule bexI [rotated]) (use u in simp)
  then show ?thesis using assms(2) by (auto simp: keep_blob_def split: option.split)
qed

text \<open>Deleting, granting, claiming and marking.\<close>

lemma delete_blobs_inv:
  assumes "db_inv s"
  shows "db_inv (delete_blobs which s)"
proof -
  note s = db_invD [OF assms]
  let ?us = "filter (\<lambda>u. uploads_blob_id u \<notin> blobs_id ` {b \<in> set (blobs s). which b}) (blob_uploads s)"
  let ?bs = "filter (\<lambda>b. \<not> which b) (blobs s)"
  have "db_inv (s\<lparr>ended_blobs := ended_blobs s, blobs := ?bs, blob_uploads := ?us\<rparr>)"
  proof (rule blobs_tables_inv [OF assms])
    show "uniq_ok (s\<lparr>ended_blobs := ended_blobs s, blobs := ?bs, blob_uploads := ?us\<rparr>)"
      using s(1) by (simp add: uniq_ok_def)
    show "refers uploads_blob_id ?us blobs_id ?bs"
      using s(2) refers_cascade [of uploads_blob_id "blob_uploads s" blobs_id "blobs s" which] by (simp add: fk_ok_def)
    show "blobs_ok (s\<lparr>ended_blobs := ended_blobs s, blobs := ?bs, blob_uploads := ?us\<rparr>)"
      using s(7) by (simp add: blobs_defs)
  qed
  then show ?thesis by (simp add: delete_blobs_def Let_def)
qed

lemma uploads_inv:
  assumes "db_inv s" and "distinct (map uploads_token us)" and "refers uploads_blob_id us blobs_id (blobs s)"
  shows "db_inv (s\<lparr>blob_uploads := us\<rparr>)"
proof -
  note s = db_invD [OF assms(1)]
  have "db_inv (s\<lparr>ended_blobs := ended_blobs s, blobs := blobs s, blob_uploads := us\<rparr>)"
    by (rule blobs_tables_inv [OF assms(1)]) (use s(1,7) assms(2,3) in \<open>simp_all add: uniq_ok_def blobs_defs\<close>)
  then show ?thesis by simp
qed

lemma dropBlob_run:
  assumes "db_inv s"
  shows "dropBlob o' h s = (Inr (map_option blobs_id (blobOf o' h s)), delete_blobs (is_blob o' h) s)"
  using db_invD(1,2) [OF delete_blobs_inv [OF assms]]
  by (simp add: dropBlob_def batch_def tx_simps statement_run)

lemma grantUpload_inv:
  assumes "db_inv s" and "token \<notin> uploads_token ` set (blob_uploads s)" and "bid \<in> blobs_id ` set (blobs s)"
  shows "db_inv (s\<lparr>blob_uploads := blob_uploads s @
     [\<lparr>uploads_token = token, uploads_blob_id = bid, uploads_expires_at = expires\<rparr>]\<rparr>)"
  using db_invD(1,2) [OF assms(1)] assms(2,3) by (intro uploads_inv [OF assms(1)]) (simp_all add: uniq_ok_def fk_ok_def)

lemma grantUpload_run:
  assumes "db_inv s" and "token \<notin> uploads_token ` set (blob_uploads s)"
  shows "grantUpload token bid expires s =
     (if bid \<in> blobs_id ` set (blobs s)
      then (Inr token, s\<lparr>blob_uploads := blob_uploads s @
             [\<lparr>uploads_token = token, uploads_blob_id = bid, uploads_expires_at = expires\<rparr>]\<rparr>)
      else (Inl ForeignKeyConstraint, s))"
proof (cases "bid \<in> blobs_id ` set (blobs s)")
  case True
  with db_invD(1,2) [OF grantUpload_inv [OF assms True, of expires]] show ?thesis
    by (simp add: grantUpload_def batch_def tx_simps statement_run)
next
  case False
  let ?s = "s\<lparr>blob_uploads := blob_uploads s @ [\<lparr>uploads_token = token, uploads_blob_id = bid, uploads_expires_at = expires\<rparr>]\<rparr>"
  have "uniq_ok ?s" using db_invD(1) [OF assms(1)] assms(2) by (simp add: uniq_ok_def)
  moreover have "\<not> fk_ok ?s" using False by (simp add: fk_ok_def)
  ultimately show ?thesis using False by (simp add: grantUpload_def batch_def then_tx_def statement_def)
qed

lemma claimUpload_inv:
  "db_inv s \<Longrightarrow> db_inv (s\<lparr>blob_uploads := filter P (blob_uploads s)\<rparr>)"
  using db_invD(1,2) [of s] by (intro uploads_inv) (simp_all add: uniq_ok_def fk_ok_def)

lemma claimUpload_run:
  assumes "db_inv s"
  shows "claimUpload now token s = (Inr (claimed now token s),
     s\<lparr>blob_uploads := filter (\<lambda>u. uploads_token u \<noteq> token) (blob_uploads s)\<rparr>)"
  using db_invD(1,2) [OF claimUpload_inv [OF assms, of "\<lambda>u. uploads_token u \<noteq> token"]]
  by (simp add: claimUpload_def batch_def tx_simps statement_run)

definition mark_uploaded :: "time \<Rightarrow> string \<Rightarrow> db \<Rightarrow> db" where
  "mark_uploaded now bid s = s\<lparr>blobs := map (\<lambda>b. if blobs_id b = bid \<and> blobs_uploaded_at b = None
       then b\<lparr>blobs_uploaded_at := Some now\<rparr> else b) (blobs s)\<rparr>"

lemma mark_uploaded_inv: "db_inv s \<Longrightarrow> db_inv (mark_uploaded now bid s)"
  unfolding mark_uploaded_def by (rule map_blobs_inv) simp_all

lemma markUploaded_run: "db_inv s \<Longrightarrow> markUploaded now bid s = (Inr (), mark_uploaded now bid s)"
  using db_invD(1,2) [OF mark_uploaded_inv [of s now bid]]
  by (simp add: markUploaded_def batch_def statement_def mark_uploaded_def)

text \<open>\<open>purgeBlobs\<close>: what lapsed and what had ended are handed over once, and forgotten.\<close>

definition purged_blobs :: "time \<Rightarrow> db \<Rightarrow> db" where
  "purged_blobs now s = (let t = delete_blobs (\<lambda>b. blobs_retain_until b \<le> now) s in
     t\<lparr>ended_blobs := [], blob_uploads := filter (\<lambda>u. now < uploads_expires_at u) (blob_uploads t)\<rparr>)"

lemma ended_cleared_inv:
  assumes "db_inv s"
  shows "db_inv (s\<lparr>ended_blobs := []\<rparr>)"
proof -
  note s = db_invD [OF assms]
  have "db_inv (s\<lparr>ended_blobs := [], blobs := blobs s, blob_uploads := blob_uploads s\<rparr>)"
    by (rule blobs_tables_inv [OF assms]) (use s(1,2,7) in \<open>simp_all add: uniq_ok_def fk_ok_def blobs_defs\<close>)
  then show ?thesis by simp
qed

lemma purged_blobs_inv: "db_inv s \<Longrightarrow> db_inv (purged_blobs now s)"
  using claimUpload_inv [OF ended_cleared_inv [OF delete_blobs_inv [of s "\<lambda>b. blobs_retain_until b \<le> now"]],
      of "\<lambda>u. now < uploads_expires_at u"]
  by (simp add: purged_blobs_def Let_def)

lemma purgeBlobs_run:
  assumes "db_inv s"
  shows "purgeBlobs now s =
     (Inr (map blobs_id (filter (\<lambda>b. blobs_retain_until b \<le> now) (blobs s)) @ ended_blobs s), purged_blobs now s)"
proof -
  let ?d = "delete_blobs (\<lambda>b. blobs_retain_until b \<le> now) s"
  have "db_inv ?d" by (rule delete_blobs_inv [OF assms])
  note i = db_invD(1,2) [OF this] db_invD(1,2) [OF ended_cleared_inv [OF this]]
    db_invD(1,2) [OF purged_blobs_inv [OF assms, of now], unfolded purged_blobs_def Let_def]
  show ?thesis using i by (simp add: purgeBlobs_def batch_def tx_simps statement_run purged_blobs_def Let_def)
qed

end
