(* ===== verification/Mediator_System.thy ===== *)
theory Mediator_System
  imports Mediator_Mail Mediator_Executions Mediator_Blobs
begin

text \<open>
  The store as a whole: its calls, what each does to the database, and the
  databases reachable from an empty one by any sequence of calls. The contract
  every method keeps (it answers, and keeps the invariant) is the locale
  \<open>store_method\<close>, interpreted once for each of them; the invariant of the
  reachable databases and that no call fails follow by rule induction.
\<close>

section \<open>The contract of a store method\<close>

locale store_method =
  fixes run :: "db \<Rightarrow> (sql_error + 'a) \<times> db" and allowed :: "db \<Rightarrow> bool"
  assumes law: "db_inv s \<Longrightarrow> allowed s \<Longrightarrow> \<exists>a s'. run s = (Inr a, s') \<and> db_inv s'"
begin

lemma answers: "db_inv s \<Longrightarrow> allowed s \<Longrightarrow> \<not> isl (fst (run s))"
  using law by fastforce

lemma keeps: "db_inv s \<Longrightarrow> allowed s \<Longrightarrow> db_inv (snd (run s))"
  using law by fastforce

end

interpretation grant: store_method "grantMediation now did" "\<lambda>_. True" for now did
  by unfold_locales (metis grantMediation_run insert_account_inv)

interpretation revoke: store_method "revokeMediation did" "\<lambda>_. True" for did
  by unfold_locales (metis revokeMediation_run revoked_inv)

interpretation add_recipient: store_method "addRecipient now owner r" "isMediated owner" for now owner r
  by unfold_locales (metis addRecipient_run insert_recipient_inv)

interpretation remove_recipient: store_method "removeRecipient owner r" "\<lambda>_. True" for owner r
  by unfold_locales (metis removeRecipient_run)

interpretation store_message: store_method "storeMessage opts mid now owner packed"
    "\<lambda>s. isMediated owner s \<and> mid \<notin> messages_id ` set (messages s)" for opts mid now owner packed
  by unfold_locales (metis storeMessage_run insert_message_inv)

interpretation delete_messages: store_method "deleteMessages owner ids" "\<lambda>_. True" for owner ids
proof unfold_locales
  fix s assume "db_inv s"
  then show "\<exists>a s'. deleteMessages owner ids s = (Inr a, s') \<and> db_inv s'"
    by (rule deleteMessages_run) blast
qed

interpretation register_account: store_method "registerReplicaAccount registration now a"
    "\<lambda>_. long_form_of (ra_accountDid a) (ra_accountLongForm a)" for registration now a
  by unfold_locales (simp only: registerReplicaAccount_run, blast intro: insert_replica_account_inv)

interpretation delete_account: store_method "deleteReplicaAccount a m" "\<lambda>_. True" for a m
  by unfold_locales (metis deleteReplicaAccount_bound deleteReplicaAccount_unbound cleared_stages(4))

interpretation add_replica: store_method "addReplica now a"
    "\<lambda>_. long_form_of (add_replicaDid a) (add_replicaLongForm a)" for now a
  by unfold_locales (simp only: addReplica_run, blast intro: insert_replica_inv)

interpretation remove_replica: store_method "removeReplica now a m r" "\<lambda>_. True" for now a m r
  by unfold_locales (simp only: removeReplica_run, blast intro: without_replica_inv)

interpretation share: store_method "addSharedRecipient now c"
    "\<lambda>_. long_form_of (share_recipientDid c) (share_recipientLongForm c)" for now c
  by unfold_locales (simp only: addSharedRecipient_run, blast intro: insert_shared_inv)

interpretation unshare: store_method "removeSharedRecipient a m r" "\<lambda>_. True" for a m r
  by unfold_locales (simp only: removeSharedRecipient_run, blast intro: unshared_inv)

interpretation fan_out: store_method "fanOut opts pid ids now next packed bounds" "fresh_mail pid ids"
    for opts pid ids now "next" packed bounds
proof unfold_locales
  fix s assume s: "db_inv s" "fresh_mail pid ids s"
  show "\<exists>a s'. fanOut opts pid ids now next packed bounds s = (Inr a, s') \<and> db_inv s'"
  proof (cases "now < expiry opts now (bounds_deadline bounds)")
    case True
    then show ?thesis
      using fanned_inv(1) [OF s(1) _ s(2), of "next" _ opts now packed bounds] s(1)
      by (simp add: fanOut_run [OF s(1) True s(2)] split: option.split)
  next
    case False
    then show ?thesis using fanOut_lapsed [of opts now bounds] s(1) by simp
  qed
qed

interpretation acknowledge: store_method "acknowledgeDeliveries r ids" "\<lambda>_. True" for r ids
  by unfold_locales (simp only: acknowledgeDeliveries_run, blast intro: end_deliveries_inv)

interpretation purge_expired: store_method "purgeExpired now" "\<lambda>_. True" for now
  by unfold_locales (simp only: purgeExpired_run, blast intro: purged_inv(3))

interpretation register_execution: store_method "registerExecution rid now g"
    "\<lambda>s. rid \<notin> executions_registration_id ` set (replica_executions s) \<and> 1 \<le> policy_maxReplicas (reg_policy g)"
    for rid now g
proof unfold_locales
  fix s assume s: "db_inv s"
    "rid \<notin> executions_registration_id ` set (replica_executions s) \<and> 1 \<le> policy_maxReplicas (reg_policy g)"
  then show "\<exists>a s'. registerExecution rid now g s = (Inr a, s') \<and> db_inv s'"
    using registerExecution_run [OF s(1), of rid g now] by (simp add: map_prod_def case_prod_beta)
qed

interpretation purge_executions: store_method "purgeExecutions now" "\<lambda>_. True" for now
  by unfold_locales (simp only: purgeExecutions_run, blast intro: delete_executions_inv)

definition fresh_blob :: "BlobKeep \<Rightarrow> db \<Rightarrow> bool" where
  "fresh_blob k s \<longleftrightarrow> keep_id k \<notin> set (map blobs_id (blobs s)) \<and> keep_id k \<notin> set (ended_blobs s) \<and> 0 \<le> keep_size k"

interpretation keep: store_method "keepBlob now k q" "fresh_blob k" for now k q
proof unfold_locales
  fix s assume s: "db_inv s" "fresh_blob k s"
  then show "\<exists>a s'. keepBlob now k q s = (Inr a, s') \<and> db_inv s'"
    using keepBlob_run [OF s(1)] keep_blob_inv [OF s(1)]
    by (simp add: fresh_blob_def map_prod_def case_prod_beta)
qed

interpretation drop_blob: store_method "dropBlob o' h" "\<lambda>_. True" for o' h
  by unfold_locales (simp only: dropBlob_run, blast intro: delete_blobs_inv)

interpretation grant_upload: store_method "grantUpload token bid expires"
    "\<lambda>s. token \<notin> uploads_token ` set (blob_uploads s) \<and> bid \<in> blobs_id ` set (blobs s)" for token bid expires
  by unfold_locales (simp add: grantUpload_run grantUpload_inv)

interpretation claim_upload: store_method "claimUpload now token" "\<lambda>_. True" for now token
  by unfold_locales (simp only: claimUpload_run, blast intro: claimUpload_inv)

interpretation mark: store_method "markUploaded now bid" "\<lambda>_. True" for now bid
  by unfold_locales (simp only: markUploaded_run, blast intro: mark_uploaded_inv)

interpretation purge_blobs: store_method "purgeBlobs now" "\<lambda>_. True" for now
  by unfold_locales (simp only: purgeBlobs_run, blast intro: purged_blobs_inv)

section \<open>Sequences of calls\<close>

text \<open>
  A call of the store's interface, with the clock reading and the random
  identifiers it draws. What makes it allowed: an identifier just drawn is not
  in use, a DID and its long form belong together (the handlers check both),
  and a row is added under an owner only where the handler found the owner.
\<close>

datatype store_call =
    InitIdentity string
  | GrantMediation time did
  | RevokeMediation did
  | AddRecipient time did did
  | RemoveRecipient did did
  | StoreMessage store_options string time did string
  | DeleteMessages did "string list"
  | RegisterReplicaAccount string time ReplicaAccount
  | DeleteReplicaAccount did did
  | AddReplica time ReplicaAddition
  | RemoveReplica time did did did
  | AddSharedRecipient time SharedRecipient
  | RemoveSharedRecipient did did did
  | FanOut store_options string "nat \<Rightarrow> string" time did string PackageBounds
  | AcknowledgeDeliveries did "string list"
  | PurgeExpired time
  | RegisterExecution string time ExecutionRegistration
  | PurgeExecutions time
  | KeepBlob time BlobKeep int
  | DropBlob did string
  | GrantUpload string string time
  | ClaimUpload time string
  | MarkUploaded time string
  | PurgeBlobs time

definition failed :: "(sql_error + 'a) \<times> db \<Rightarrow> bool \<times> db" where
  "failed r = (isl (fst r), snd r)"

fun perform :: "store_call \<Rightarrow> db \<Rightarrow> bool \<times> db" where
  "perform (InitIdentity secrets) s = (fst (initIdentity secrets s) = None, snd (initIdentity secrets s))"
| "perform (GrantMediation now did) s = failed (grantMediation now did s)"
| "perform (RevokeMediation did) s = failed (revokeMediation did s)"
| "perform (AddRecipient now owner r) s = failed (addRecipient now owner r s)"
| "perform (RemoveRecipient owner r) s = failed (removeRecipient owner r s)"
| "perform (StoreMessage opts mid now owner packed) s = failed (storeMessage opts mid now owner packed s)"
| "perform (DeleteMessages owner ids) s = failed (deleteMessages owner ids s)"
| "perform (RegisterReplicaAccount registration now a) s = failed (registerReplicaAccount registration now a s)"
| "perform (DeleteReplicaAccount a m) s = failed (deleteReplicaAccount a m s)"
| "perform (AddReplica now a) s = failed (addReplica now a s)"
| "perform (RemoveReplica now a m r) s = failed (removeReplica now a m r s)"
| "perform (AddSharedRecipient now c) s = failed (addSharedRecipient now c s)"
| "perform (RemoveSharedRecipient a m r) s = failed (removeSharedRecipient a m r s)"
| "perform (FanOut opts pid ids now nxt packed bounds) s = failed (fanOut opts pid ids now nxt packed bounds s)"
| "perform (AcknowledgeDeliveries r ids) s = failed (acknowledgeDeliveries r ids s)"
| "perform (PurgeExpired now) s = failed (purgeExpired now s)"
| "perform (RegisterExecution rid now g) s = failed (registerExecution rid now g s)"
| "perform (PurgeExecutions now) s = failed (purgeExecutions now s)"
| "perform (KeepBlob now k q) s = failed (keepBlob now k q s)"
| "perform (DropBlob owner h) s = failed (dropBlob owner h s)"
| "perform (GrantUpload token bid expires) s = failed (grantUpload token bid expires s)"
| "perform (ClaimUpload now token) s = failed (claimUpload now token s)"
| "perform (MarkUploaded now bid) s = failed (markUploaded now bid s)"
| "perform (PurgeBlobs now) s = failed (purgeBlobs now s)"

fun call_ok :: "store_call \<Rightarrow> db \<Rightarrow> bool" where
  "call_ok (AddRecipient now owner r) s = isMediated owner s"
| "call_ok (StoreMessage opts mid now owner packed) s =
     (isMediated owner s \<and> mid \<notin> messages_id ` set (messages s))"
| "call_ok (RegisterReplicaAccount registration now a) s = long_form_of (ra_accountDid a) (ra_accountLongForm a)"
| "call_ok (AddReplica now a) s = long_form_of (add_replicaDid a) (add_replicaLongForm a)"
| "call_ok (AddSharedRecipient now c) s = long_form_of (share_recipientDid c) (share_recipientLongForm c)"
| "call_ok (FanOut opts pid ids now nxt packed bounds) s = fresh_mail pid ids s"
| "call_ok (RegisterExecution rid now g) s =
     (rid \<notin> executions_registration_id ` set (replica_executions s) \<and> 1 \<le> policy_maxReplicas (reg_policy g))"
| "call_ok (KeepBlob now k q) s = fresh_blob k s"
| "call_ok (GrantUpload token bid expires) s =
     (token \<notin> uploads_token ` set (blob_uploads s) \<and> bid \<in> blobs_id ` set (blobs s))"
| "call_ok _ s = True"

inductive store_step :: "db \<Rightarrow> store_call \<Rightarrow> db \<Rightarrow> bool" where
  call: "call_ok c s \<Longrightarrow> store_step s c (snd (perform c s))"

inductive_cases store_stepE: "store_step s c s'"

inductive reachable_from :: "db \<Rightarrow> db \<Rightarrow> bool" where
  start: "reachable_from s s"
| further: "reachable_from s t \<Longrightarrow> store_step t c t' \<Longrightarrow> reachable_from s t'"

abbreviation reachable :: "db \<Rightarrow> bool" where
  "reachable s \<equiv> reachable_from empty_db s"

lemma initIdentity_inv: "db_inv s \<Longrightarrow> db_inv (snd (initIdentity secrets s))"
  by (simp add: initIdentity_def Let_def db_inv_def uniq_ok_def fk_ok_def names_ok_def apart_def role_names ordinals_ok_def
      replicas_of_def mail_defs listings_defs blobs_defs split: option.split)

lemma initIdentity_answers: "fst (initIdentity secrets s) \<noteq> None"
  by (simp add: initIdentity_def Let_def loadIdentity_def split: option.split)

lemmas methods_answer = grant.answers revoke.answers add_recipient.answers remove_recipient.answers
  store_message.answers delete_messages.answers register_account.answers delete_account.answers
  add_replica.answers remove_replica.answers share.answers unshare.answers fan_out.answers acknowledge.answers
  purge_expired.answers register_execution.answers purge_executions.answers keep.answers drop_blob.answers
  grant_upload.answers claim_upload.answers mark.answers purge_blobs.answers

lemmas methods_keep = grant.keeps revoke.keeps add_recipient.keeps remove_recipient.keeps
  store_message.keeps delete_messages.keeps register_account.keeps delete_account.keeps
  add_replica.keeps remove_replica.keeps share.keeps unshare.keeps fan_out.keeps acknowledge.keeps
  purge_expired.keeps register_execution.keeps purge_executions.keeps keep.keeps drop_blob.keeps
  grant_upload.keeps claim_upload.keeps mark.keeps purge_blobs.keeps

lemma perform_answers: "db_inv s \<Longrightarrow> call_ok c s \<Longrightarrow> \<not> fst (perform c s)"
  by (cases c) (simp_all only: perform.simps call_ok.simps failed_def fst_conv methods_answer initIdentity_answers
      simp_thms)

lemma perform_inv: "db_inv s \<Longrightarrow> call_ok c s \<Longrightarrow> db_inv (snd (perform c s))"
  by (cases c) (simp_all only: perform.simps call_ok.simps failed_def snd_conv methods_keep initIdentity_inv simp_thms)

lemma reachable_from_inv: "reachable_from s t \<Longrightarrow> db_inv s \<Longrightarrow> db_inv t"
  by (induction rule: reachable_from.induct) (auto elim!: store_stepE intro: perform_inv)

lemma reachable_inv: "reachable s \<Longrightarrow> db_inv s"
  using reachable_from_inv db_inv_empty by blast

text \<open>A predicate every allowed call keeps holds of whatever follows.\<close>

lemma reachable_from_keeps:
  assumes "reachable_from s t" and "db_inv s" and "P s"
    and "\<And>u c. db_inv u \<Longrightarrow> P u \<Longrightarrow> call_ok c u \<Longrightarrow> P (snd (perform c u))"
  shows "P t"
  using assms(1-3)
proof (induction rule: reachable_from.induct)
  case (further s t c t')
  then show ?case using assms(4) reachable_from_inv by (auto elim!: store_stepE)
qed

end
