(* ===== verification/Mediator_Traces.thy ===== *)
theory Mediator_Traces
  imports Mediator_System
begin

text \<open>
  What holds along a run of the store: a sequence of calls, each allowed where
  it is made. The roster of an account only grows while the account is there,
  a replica removed stays removed, and the bytes of a blob are always
  accounted for: its id is with the live blobs or with the ended ones until a
  call hands it over.
\<close>

section \<open>Runs\<close>

fun calls_ok :: "store_call list \<Rightarrow> db \<Rightarrow> bool" where
  "calls_ok [] s = True"
| "calls_ok (c # cs) s = (call_ok c s \<and> calls_ok cs (snd (perform c s)))"

fun run_calls :: "store_call list \<Rightarrow> db \<Rightarrow> db" where
  "run_calls [] s = s"
| "run_calls (c # cs) s = run_calls cs (snd (perform c s))"

lemma run_reachable_from: "reachable_from r s \<Longrightarrow> calls_ok cs s \<Longrightarrow> reachable_from r (run_calls cs s)"
  by (induction cs arbitrary: s) (auto intro: reachable_from.further store_step.call)

lemma run_reachable: "calls_ok cs empty_db \<Longrightarrow> reachable (run_calls cs empty_db)"
  by (rule run_reachable_from [OF reachable_from.start])

lemma run_append:
  "run_calls (cs @ ds) s = run_calls ds (run_calls cs s)"
  "calls_ok (cs @ ds) s \<longleftrightarrow> calls_ok cs s \<and> calls_ok ds (run_calls cs s)"
  by (induction cs arbitrary: s) auto

lemma reachable_run: "reachable_from r s \<Longrightarrow> \<exists>cs. calls_ok cs r \<and> run_calls cs r = s"
proof (induction rule: reachable_from.induct)
  case (start s)
  then show ?case by (intro exI [of _ "[]"]) simp
next
  case (further s t c t')
  then obtain cs where "calls_ok cs s" "run_calls cs s = t" by blast
  then show ?case using further.hyps(2) by (intro exI [of _ "cs @ [c]"]) (auto simp: run_append elim!: store_stepE)
qed

lemma run_keeps:
  assumes "calls_ok cs s" and "db_inv s" and "P s" and "\<And>c. c \<in> set cs \<Longrightarrow> Q c"
    and step: "\<And>u c. db_inv u \<Longrightarrow> P u \<Longrightarrow> call_ok c u \<Longrightarrow> Q c \<Longrightarrow> P (snd (perform c u))"
  shows "P (run_calls cs s)"
  using assms(1-4)
proof (induction cs arbitrary: s)
  case (Cons c cs)
  then show ?case using perform_inv [of s c] step [of s c] by auto
qed simp

section \<open>What a call does\<close>

text \<open>The database after a call, free of the transaction that made it so.\<close>

definition fan_out_state ::
    "store_options \<Rightarrow> string \<Rightarrow> (nat \<Rightarrow> string) \<Rightarrow> time \<Rightarrow> did \<Rightarrow> string \<Rightarrow> PackageBounds \<Rightarrow> db \<Rightarrow> db" where
  "fan_out_state opts pid ids now nxt packed bounds s =
     (case routed_account nxt s of
        None \<Rightarrow> s
      | Some a \<Rightarrow>
          if now < expiry opts now (bounds_deadline bounds) \<and>
             has_room opts now (int (length packed)) (bounds_maxRetainedBytes bounds) s a
          then fanned opts pid ids now nxt packed bounds a s else s)"

fun after_call :: "store_call \<Rightarrow> db \<Rightarrow> db" where
  "after_call (InitIdentity secrets) s = snd (initIdentity secrets s)"
| "after_call (GrantMediation now did) s = insert_account now did s"
| "after_call (RevokeMediation did) s = revoked did s"
| "after_call (AddRecipient now owner r) s = insert_recipient now owner r s"
| "after_call (RemoveRecipient owner r) s =
     s\<lparr>keylist := filter (\<lambda>k. \<not> is_binding owner r k) (keylist s)\<rparr>"
| "after_call (StoreMessage opts mid now owner packed) s = insert_message opts mid now owner packed s"
| "after_call (DeleteMessages owner ids) s = without_messages owner (set ids) s"
| "after_call (RegisterReplicaAccount registration now a) s = insert_replica_account registration now a s"
| "after_call (DeleteReplicaAccount a m) s = (if bound_account a m s then without_account a s else s)"
| "after_call (AddReplica now a) s = insert_replica now a s"
| "after_call (RemoveReplica now a m r) s = without_replica now a m r s"
| "after_call (AddSharedRecipient now c) s = insert_shared now c s"
| "after_call (RemoveSharedRecipient a m r) s = unshared a m r s"
| "after_call (FanOut opts pid ids now nxt packed bounds) s = fan_out_state opts pid ids now nxt packed bounds s"
| "after_call (AcknowledgeDeliveries r ids) s =
     end_deliveries (\<lambda>d. deliveries_replica_did d = r \<and> deliveries_id d \<in> set ids) s"
| "after_call (PurgeExpired now) s = purged now s"
| "after_call (RegisterExecution rid now g) s = snd (register_execution rid (now div 1000) g s)"
| "after_call (PurgeExecutions now) s = delete_executions (\<lambda>e. executions_retain_until e \<le> now div 1000) s"
| "after_call (KeepBlob now k q) s = snd (keep_blob now k q s)"
| "after_call (DropBlob owner h) s = delete_blobs (is_blob owner h) s"
| "after_call (GrantUpload token bid expires) s = s\<lparr>blob_uploads := blob_uploads s @
     [\<lparr>uploads_token = token, uploads_blob_id = bid, uploads_expires_at = expires\<rparr>]\<rparr>"
| "after_call (ClaimUpload now token) s =
     s\<lparr>blob_uploads := filter (\<lambda>u. uploads_token u \<noteq> token) (blob_uploads s)\<rparr>"
| "after_call (MarkUploaded now bid) s = mark_uploaded now bid s"
| "after_call (PurgeBlobs now) s = purged_blobs now s"

lemma fanOut_state:
  "db_inv s \<Longrightarrow> fresh_mail pid ids s \<Longrightarrow>
   snd (fanOut opts pid ids now nxt packed bounds s) = fan_out_state opts pid ids now nxt packed bounds s"
  using fanOut_lapsed [of opts now bounds pid ids nxt packed s]
  by (cases "now < expiry opts now (bounds_deadline bounds)")
    (simp_all add: fanOut_run fan_out_state_def split: option.split)

lemma deleteMessages_state: "db_inv s \<Longrightarrow> snd (deleteMessages owner ids s) = without_messages owner (set ids) s"
  by (rule deleteMessages_run [of s owner ids]) simp_all

lemma deleteReplicaAccount_state:
  "db_inv s \<Longrightarrow> snd (deleteReplicaAccount a m s) = (if bound_account a m s then without_account a s else s)"
  by (simp add: deleteReplicaAccount_bound deleteReplicaAccount_unbound)

lemma perform_after:
  assumes "db_inv s" and "call_ok c s"
  shows "snd (perform c s) = after_call c s"
  using assms
  by (cases c)
    (simp_all add: failed_def grantMediation_run revokeMediation_run addRecipient_run removeRecipient_run
      storeMessage_run deleteMessages_state registerReplicaAccount_run deleteReplicaAccount_state addReplica_run
      removeReplica_run addSharedRecipient_run removeSharedRecipient_run fanOut_state acknowledgeDeliveries_run
      purgeExpired_run registerExecution_run purgeExecutions_run keepBlob_run fresh_blob_def dropBlob_run
      grantUpload_run claimUpload_run markUploaded_run purgeBlobs_run)

section \<open>What a call leaves of the replicas\<close>

fun deletes_account :: "store_call \<Rightarrow> bool" where
  "deletes_account (DeleteReplicaAccount a m) = True"
| "deletes_account _ = False"

text \<open>
  A roster grows: its replicas are those before, in their order and unchanged
  but for the time one was removed, which once set stays, then the new ones.
\<close>

definition later_row :: "replica_row \<Rightarrow> replica_row \<Rightarrow> bool" where
  "later_row r r' \<longleftrightarrow> r'\<lparr>replicas_removed_at := None\<rparr> = r\<lparr>replicas_removed_at := None\<rparr> \<and>
     (replicas_removed_at r \<noteq> None \<longrightarrow> replicas_removed_at r' = replicas_removed_at r)"

definition roster_grows :: "db \<Rightarrow> db \<Rightarrow> bool" where
  "roster_grows s t \<longleftrightarrow> list_all2 later_row (replicas s) (take (length (replicas s)) (replicas t))"

lemma later_row_refl [simp]: "later_row r r"
  by (simp add: later_row_def)

lemma later_row_trans: "later_row r r' \<Longrightarrow> later_row r' r'' \<Longrightarrow> later_row r r''"
  by (auto simp: later_row_def)

lemma roster_grows_refl [simp]: "roster_grows s s"
  by (simp add: roster_grows_def list_all2_refl)

lemma roster_grows_trans:
  assumes "roster_grows s t" and "roster_grows t u"
  shows "roster_grows s u"
proof -
  let ?n = "length (replicas s)"
  have n: "?n \<le> length (replicas t)" using assms(1) list_all2_lengthD by (fastforce simp: roster_grows_def)
  have "list_all2 later_row (take ?n (replicas t)) (take ?n (take (length (replicas t)) (replicas u)))"
    by (rule list_all2_takeI) (use assms(2) in \<open>simp add: roster_grows_def\<close>)
  then have "list_all2 later_row (take ?n (replicas t)) (take ?n (replicas u))" using n by (simp add: min_def)
  with assms(1) show ?thesis
    unfolding roster_grows_def using list_all2_trans [of later_row later_row later_row] later_row_trans by blast
qed

lemma roster_grows_same: "replicas t = replicas s \<Longrightarrow> roster_grows s t"
  by (simp add: roster_grows_def list_all2_refl)

lemma roster_grows_snoc: "replicas t = replicas s @ rs \<Longrightarrow> roster_grows s t"
  by (simp add: roster_grows_def list_all2_refl)

lemma roster_grows_map:
  "replicas t = map f (replicas s) \<Longrightarrow> (\<And>r. later_row r (f r)) \<Longrightarrow> roster_grows s t"
  by (simp add: roster_grows_def list_all2_conv_all_nth)

lemma later_row_removed: "is_active r \<Longrightarrow> later_row r (r\<lparr>replicas_removed_at := t\<rparr>)"
  by (simp add: later_row_def is_active_def)

lemmas state_defs = initIdentity_def insert_account_def revoked_def delete_accounts_def insert_recipient_def
  insert_message_def without_messages_def insert_replica_account_def insert_shared_def unshared_def
  fan_out_state_def fanned_def purged_def purge_packages_def purge_deliveries_def purge_messages_def
  delete_executions_def delete_blobs_def keep_blob_def put_blob_def mark_uploaded_def purged_blobs_def
  register_execution_def add_listing_def Let_def

lemma replicas_after:
  assumes "\<not> deletes_account c"
  shows "roster_grows s (after_call c s)"
proof (cases c)
  case (AddReplica now a)
  have "\<exists>rs. replicas (insert_replica now a s) = replicas s @ rs"
    by (simp add: insert_replica_def Let_def)
  then show ?thesis using AddReplica roster_grows_snoc by fastforce
next
  case (RemoveReplica now a m r)
  have "replicas (after_call c s) = map (\<lambda>x. if enrolled r a m s x \<and> is_active x
      then x\<lparr>replicas_removed_at := Some (now div 1000)\<rparr> else x) (replicas s)"
    by (simp add: RemoveReplica without_replica_def mark_removed_def enrolled_def held_by_def bound_account_def)
  then show ?thesis by (rule roster_grows_map) (simp add: later_row_removed)
qed (use assms in \<open>auto simp: state_defs intro!: roster_grows_same split: option.split\<close>)

lemma run_roster_grows:
  assumes "db_inv s" and "calls_ok cs s" and "\<And>c. c \<in> set cs \<Longrightarrow> \<not> deletes_account c"
  shows "roster_grows s (run_calls cs s)"
proof (rule run_keeps [OF assms(2,1), of "roster_grows s" "\<lambda>c. \<not> deletes_account c"])
  fix u c
  assume "db_inv u" "roster_grows s u" "call_ok c u" "\<not> deletes_account c"
  then show "roster_grows s (snd (perform c u))"
    by (simp add: perform_after) (blast intro: roster_grows_trans replicas_after)
qed (use assms(3) in simp_all)

lemma later_row_cols:
  "later_row r r' \<Longrightarrow> replicas_did r' = replicas_did r \<and> replicas_account_did r' = replicas_account_did r \<and>
     replicas_ordinal r' = replicas_ordinal r \<and> replicas_grant_jws r' = replicas_grant_jws r"
  by (cases r, cases r') (simp add: later_row_def)

text \<open>The row of a replica, later.\<close>

lemma roster_grows_row:
  assumes "roster_grows s t" and "r \<in> set (replicas s)"
  shows "\<exists>r'\<in>set (replicas t). later_row r r'"
proof -
  obtain i where i: "i < length (replicas s)" "r = replicas s ! i" using assms(2) by (auto simp: in_set_conv_nth)
  let ?ts = "take (length (replicas s)) (replicas t)"
  have l: "list_all2 later_row (replicas s) ?ts" using assms(1) by (simp add: roster_grows_def)
  then have "i < length ?ts" using i(1) list_all2_lengthD by fastforce
  moreover have "later_row r (?ts ! i)" using l i by (simp add: list_all2_conv_all_nth)
  ultimately show ?thesis by (metis nth_mem in_set_takeD)
qed

lemma replicaState_iff:
  assumes "uniq_ok s"
  shows "replicaState d s = Some RemovedState \<longleftrightarrow> (\<exists>r\<in>set (replicas s). replicas_did r = d \<and> \<not> is_active r)"
    and "replicaState d s = Some Active \<longleftrightarrow> (\<exists>r\<in>set (replicas s). replicas_did r = d \<and> is_active r)"
proof -
  have d: "distinct (map replicas_did (replicas s))" using assms by (simp add: uniq_ok_def)
  show "replicaState d s = Some RemovedState \<longleftrightarrow> (\<exists>r\<in>set (replicas s). replicas_did r = d \<and> \<not> is_active r)"
    by (auto simp: replicaState_def row_of_Some_iff [OF d])
  show "replicaState d s = Some Active \<longleftrightarrow> (\<exists>r\<in>set (replicas s). replicas_did r = d \<and> is_active r)"
    by (auto simp: replicaState_def row_of_Some_iff [OF d])
qed

lemma run_inv: "db_inv s \<Longrightarrow> calls_ok cs s \<Longrightarrow> db_inv (run_calls cs s)"
  by (induction cs arbitrary: s) (auto intro: perform_inv)

section \<open>The ids of blobs\<close>

definition blob_ids :: "db \<Rightarrow> string set" where
  "blob_ids s = set (map blobs_id (blobs s)) \<union> set (ended_blobs s)"

text \<open>The ids a call hands to its caller, who deletes their bytes.\<close>

fun handed_over :: "store_call \<Rightarrow> db \<Rightarrow> string set" where
  "handed_over (DropBlob owner h) s = (case fst (dropBlob owner h s) of Inr (Some bid) \<Rightarrow> {bid} | _ \<Rightarrow> {})"
| "handed_over (PurgeBlobs now) s = (case fst (purgeBlobs now s) of Inr bids \<Rightarrow> set bids | Inl _ \<Rightarrow> {})"
| "handed_over _ s = {}"

lemma blob_ids_end [simp]: "blob_ids (end_blobs P s) = blob_ids s"
  by (auto simp: blob_ids_def end_blobs_def delete_blobs_def Let_def)

lemma blob_ids_tables: "blobs t = blobs s \<Longrightarrow> ended_blobs t = ended_blobs s \<Longrightarrow> blob_ids t = blob_ids s"
  by (simp add: blob_ids_def)

lemma blob_ids_delete_accounts [simp]: "blob_ids (delete_accounts P s) = blob_ids s"
  by (rule blob_ids_tables) (simp_all add: delete_accounts_def Let_def)

lemma blob_ids_without_replica [simp]: "blob_ids (without_replica now a m r s) = blob_ids s"
proof -
  have "blob_ids (without_replica now a m r s) =
      blob_ids (end_blobs (\<lambda>b. is_enrolled r a m s (blobs_owner_did b))
        (end_deliveries (\<lambda>d. is_enrolled r a m s (deliveries_replica_did d)) s))"
    by (rule blob_ids_tables) (simp_all add: without_replica_def mark_removed_def)
  also have "\<dots> = blob_ids s"
    unfolding blob_ids_end
    by (rule blob_ids_tables) (simp_all add: end_deliveries_def delete_deliveries_def delete_ending_packages_def Let_def)
  finally show ?thesis .
qed

lemma blob_ids_without_account [simp]: "blob_ids (without_account a s) = blob_ids s"
proof -
  have "blob_ids (without_account a s) = blob_ids (end_blobs (account_blob a s) (cleared_content a (cleared_mail a s)))"
    unfolding without_account_eq Let_def by (rule blob_ids_tables) (simp_all add: cleared_replicas_def)
  also have "\<dots> = blob_ids s"
    unfolding blob_ids_end
    by (rule blob_ids_tables) (simp_all add: cleared_content_def cleared_mail_def delete_executions_def Let_def)
  finally show ?thesis .
qed

lemma blob_ids_map:
  "(\<And>b. blobs_id (f b) = blobs_id b) \<Longrightarrow> blob_ids (s\<lparr>blobs := map f (blobs s)\<rparr>) = blob_ids s"
  by (simp add: blob_ids_def image_image)

lemma blob_ids_keep: "blob_ids s \<subseteq> blob_ids (snd (keep_blob now k q s))"
proof -
  have "blob_ids (put_blob key (renewed_blob k) s) = blob_ids s" for key
    unfolding put_blob_def by (rule blob_ids_map) simp
  then show ?thesis by (auto simp: keep_blob_def blob_ids_def split: option.split)
qed

lemma blob_ids_after:
  assumes "db_inv s"
  shows "blob_ids s \<subseteq> blob_ids (after_call c s) \<union> handed_over c s"
proof (cases c)
  case (DropBlob owner h)
  have "blobs_id b = bid" if "b \<in> set (blobs s)" "is_blob owner h b" "blobOf owner h s = Some b'" "bid = blobs_id b'"
    for b b' bid
    using that blobOf_iff [OF db_invD(1) [OF assms], of owner h b] by (simp add: is_blob_def)
  moreover have "blobOf owner h s \<noteq> None" if "b \<in> set (blobs s)" "is_blob owner h b" for b
    using that blobOf_iff [OF db_invD(1) [OF assms], of owner h b] by (simp add: is_blob_def)
  ultimately show ?thesis
    by (cases "blobOf owner h s")
      (force simp: DropBlob dropBlob_run [OF assms] blob_ids_def delete_blobs_def Let_def)+
next
  case (PurgeBlobs now)
  show ?thesis
    by (auto simp: PurgeBlobs purgeBlobs_run [OF assms] blob_ids_def purged_blobs_def delete_blobs_def Let_def)
next
  case (KeepBlob now k q)
  then show ?thesis using blob_ids_keep by simp
next
  case (MarkUploaded now bid)
  then show ?thesis by (simp add: mark_uploaded_def blob_ids_map)
next
  case (RevokeMediation did)
  then show ?thesis by (simp add: revoked_def)
next
  case (AcknowledgeDeliveries r ids)
  have "blob_ids (end_deliveries P s) = blob_ids s" for P
    by (rule blob_ids_tables) (simp_all add: end_deliveries_def delete_deliveries_def delete_ending_packages_def Let_def)
  then show ?thesis by (simp add: AcknowledgeDeliveries)
next
  case (DeleteReplicaAccount a m)
  then show ?thesis by simp
next
  case (RemoveReplica now a m r)
  then show ?thesis by simp
qed (auto simp: state_defs blob_ids_def insert_replica_def split: option.split)

text \<open>What is handed over is forgotten: no later call hands it over again.\<close>

lemma handed_over_gone:
  assumes "db_inv s"
  shows "handed_over c s \<inter> blob_ids (after_call c s) = {}"
proof (cases c)
  case (DropBlob owner h)
  note s = db_invD [OF assms]
  have d: "distinct (map blobs_id (blobs s))" using s(1) by (simp add: uniq_ok_def)
  show ?thesis
  proof (cases "blobOf owner h s")
    case (Some b)
    then have b: "b \<in> set (blobs s)" "is_blob owner h b" by (auto simp: blobOf_iff [OF s(1)] is_blob_def)
    have "blobs_id b \<notin> set (ended_blobs s)" using s(7) b(1) by (auto simp: blobs_ok_def list_all_iff)
    moreover have "blobs_id b \<noteq> blobs_id b'" if "b' \<in> set (blobs s)" "\<not> is_blob owner h b'" for b'
      using same_key_same_row [OF d b(1) that(1)] b(2) that(2) by blast
    ultimately show ?thesis
      using Some by (auto simp: DropBlob dropBlob_run [OF assms] blob_ids_def delete_blobs_def Let_def)
  qed (simp add: DropBlob dropBlob_run [OF assms])
next
  case (PurgeBlobs now)
  note s = db_invD [OF assms]
  have d: "distinct (map blobs_id (blobs s))" using s(1) by (simp add: uniq_ok_def)
  have "blobs_id b \<notin> set (ended_blobs s)" if "b \<in> set (blobs s)" for b
    using s(7) that by (auto simp: blobs_ok_def list_all_iff)
  then have 1: "set (ended_blobs s) \<inter> set (map blobs_id (filter (\<lambda>b. \<not> blobs_retain_until b \<le> now) (blobs s))) = {}"
    by auto
  have 2: "set (map blobs_id (filter (\<lambda>b. blobs_retain_until b \<le> now) (blobs s))) \<inter>
      set (map blobs_id (filter (\<lambda>b. \<not> blobs_retain_until b \<le> now) (blobs s))) = {}"
  proof (rule ccontr)
    assume "\<not> ?thesis"
    then obtain x y where "x \<in> set (blobs s)" "y \<in> set (blobs s)" "blobs_id x = blobs_id y"
      "blobs_retain_until x \<le> now" "\<not> blobs_retain_until y \<le> now" by auto
    with same_key_same_row [OF d, of x y] show False by simp
  qed
  have h: "handed_over c s =
      set (map blobs_id (filter (\<lambda>b. blobs_retain_until b \<le> now) (blobs s))) \<union> set (ended_blobs s)"
    by (simp add: PurgeBlobs purgeBlobs_run [OF assms])
  have b: "blob_ids (after_call c s) = set (map blobs_id (filter (\<lambda>b. \<not> blobs_retain_until b \<le> now) (blobs s)))"
    by (simp add: PurgeBlobs blob_ids_def purged_blobs_def delete_blobs_def Let_def)
  show ?thesis unfolding h b Int_Un_distrib2 1 2 by simp
qed simp_all

end
