(* ===== verification/Mediator_Store.thy ===== *)
theory Mediator_Store
  imports Mediator_Traces
begin

text \<open>
  What the store promises its callers, over every database it can reach: the
  listings it pages through, whom a package is queued for and until when, what
  an acknowledgement, a removal, a revocation and a deletion end and what they
  leave, and the quotas.
\<close>

section \<open>Rosters in pages\<close>

lemma numbered_snocD: "numbered ord (xs @ [x]) \<Longrightarrow> numbered ord xs \<and> ord x = Suc (length xs)"
  by (simp add: numbered_def)

lemma numbered_after: "numbered ord rows \<Longrightarrow> filter (\<lambda>r. a < ord r) rows = drop a rows"
proof (induction rows rule: rev_induct)
  case (snoc x xs)
  then have IH: "filter (\<lambda>r. a < ord r) xs = drop a xs" and x: "ord x = Suc (length xs)"
    using numbered_snocD [OF snoc.prems] snoc.IH by blast+
  show ?case by (cases "a \<le> length xs") (simp_all add: IH x)
qed simp

lemma numbered_take: "numbered ord rows \<Longrightarrow> filter (\<lambda>r. ord r \<le> t) rows = take t rows"
proof (induction rows rule: rev_induct)
  case (snoc x xs)
  then have IH: "filter (\<lambda>r. ord r \<le> t) xs = take t xs" and x: "ord x = Suc (length xs)"
    using numbered_snocD [OF snoc.prems] snoc.IH by blast+
  show ?case by (cases "t \<le> length xs") (simp_all add: IH x)
qed simp

lemma numbered_prefix: "numbered ord rows \<Longrightarrow> numbered ord (take t rows)"
  by (simp add: numbered_def take_map [symmetric] min_def)

lemma numbered_slice:
  assumes "numbered ord rows"
  shows "filter (\<lambda>r. a < ord r \<and> ord r \<le> t) rows = drop a (take t rows)"
proof -
  have "filter (\<lambda>r. a < ord r \<and> ord r \<le> t) rows = filter (\<lambda>r. a < ord r) (filter (\<lambda>r. ord r \<le> t) rows)"
    by (simp add: conj_commute)
  also have "\<dots> = drop a (take t rows)"
    by (simp only: numbered_take [OF assms] numbered_after [OF numbered_prefix [OF assms]])
  finally show ?thesis .
qed

lemma sort_numbered: "numbered ord rows \<Longrightarrow> sort_key ord (filter P rows) = filter P rows"
  using sorted_numbered [of ord rows] by (simp add: sort_key_id_if_sorted sorted_filter)

lemma roster_numbered:
  assumes "db_inv s"
  shows "numbered replicas_ordinal (replicas_of a s)"
proof (cases "replicas_of a s")
  case (Cons r rs)
  then have "r \<in> set (replicas_of a s)" by simp
  then have "r \<in> set (replicas s)" "replicas_account_did r = a" by (auto simp: replicas_of_def)
  then show ?thesis using db_invD(4) [OF assms] by (auto simp: ordinals_ok_def)
qed simp

definition first_of :: "nat option \<Rightarrow> 'a list \<Rightarrow> 'a list" where
  "first_of through xs = (case through of None \<Rightarrow> xs | Some t \<Rightarrow> take t xs)"

lemma replicaRoster_page:
  assumes "db_inv s" and "bound_account a m s"
  shows "\<exists>registration. replicaRoster a m after through limit s =
     Some \<lparr>roster_registration = registration, roster_size = length (replicas_of a s),
       roster_entries = map roster_entry (take limit (drop after (first_of through (replicas_of a s))))\<rparr>"
proof -
  obtain x where x: "account_bound_to a m s = Some x"
    using assms(2) by (cases "account_bound_to a m s")
      (auto simp: account_bound_to_def bound_account_def find_None_iff)
  have held: "filter (\<lambda>r. held_by a m s (replicas_account_did r)) (replicas s) = replicas_of a s"
    using assms(2) by (simp add: held_by_def replicas_of_def)
  note n = roster_numbered [OF assms(1), of a]
  have slice: "filter (\<lambda>r. after < replicas_ordinal r \<and>
      (case through of None \<Rightarrow> True | Some t \<Rightarrow> replicas_ordinal r \<le> t)) (replicas_of a s) =
    drop after (first_of through (replicas_of a s))"
    using numbered_slice [OF n] numbered_after [OF n] by (simp add: first_of_def split: option.split)
  then have "sort_key replicas_ordinal (drop after (first_of through (replicas_of a s))) =
      drop after (first_of through (replicas_of a s))"
    using sort_numbered [OF n] by metis
  with slice show ?thesis by (simp add: replicaRoster_def held x Let_def)
qed

section \<open>Deliveries\<close>

lemma concat_map_filter:
  "(\<And>x. x \<in> set xs \<Longrightarrow> \<not> P x \<Longrightarrow> f x = []) \<Longrightarrow> concat (map f (filter P xs)) = concat (map f xs)"
  by (induction xs) auto

text \<open>Ending deliveries takes them out of the queues they waited in, and nothing else.\<close>

lemma waiting_end_deliveries:
  assumes "db_inv s"
  shows "waiting_deliveries now r nxt (end_deliveries which s) =
     filter (\<lambda>dp. \<not> which (fst dp)) (waiting_deliveries now r nxt s)"
proof -
  have d: "distinct (map deliveries_id (replica_deliveries s))"
    using db_invD(1) [OF assms] by (simp add: uniq_ok_def)
  let ?Q = "\<lambda>p. now < packages_expires_at p \<and> (case nxt of None \<Rightarrow> True | Some n \<Rightarrow> packages_next_did p = n)"
  let ?K = "\<lambda>p. p \<in> set (replica_packages (end_deliveries which s))"
  let ?f = "\<lambda>p. map (\<lambda>d. (d, p)) (filter (\<lambda>d. \<not> which d) (filter (\<lambda>d. deliveries_package_id d = packages_id p \<and>
      deliveries_replica_did d = r) (replica_deliveries s)))"
  have gone: "?f p = []" if "p \<in> set (filter ?Q (replica_packages s))" "\<not> ?K p" for p
    using that end_deliveries_package [OF d, of p which] by (auto simp: filter_empty_conv)
  have "waiting_deliveries now r nxt (end_deliveries which s) = concat (map ?f (filter ?K (filter ?Q (replica_packages s))))"
  proof -
    have "filter ?Q (replica_packages (end_deliveries which s)) = filter ?Q (filter ?K (replica_packages s))"
      using end_deliveries_sub [of which s] by metis
    also have "\<dots> = filter ?K (filter ?Q (replica_packages s))" by (simp add: conj_commute)
    finally show ?thesis
      unfolding waiting_deliveries_def by (simp add: conj_ac)
  qed
  also have "\<dots> = concat (map ?f (filter ?Q (replica_packages s)))"
    by (rule concat_map_filter) (rule gone)
  also have "\<dots> = filter (\<lambda>dp. \<not> which (fst dp)) (waiting_deliveries now r nxt s)"
    by (simp add: waiting_deliveries_def filter_concat filter_map comp_def conj_ac)
  finally show ?thesis .
qed

lemma waiting_deliveries_replica:
  "dp \<in> set (waiting_deliveries now r nxt s) \<Longrightarrow> deliveries_replica_did (fst dp) = r"
  by (auto simp: waiting_deliveries_def)

text \<open>A fan-out adds one delivery to the end of the queue of each replica it targets, and none elsewhere.\<close>

lemma deliveries_for_replica:
  assumes "distinct (map replicas_did rs)"
  shows "map deliveries_replica_did (filter (\<lambda>d. deliveries_replica_did d = r) (deliveries_for ids pid rs)) =
     (if r \<in> replicas_did ` set rs then [r] else [])"
proof -
  have 1: "map deliveries_replica_did (filter (\<lambda>d. deliveries_replica_did d = r) ds) =
      filter (\<lambda>x. x = r) (map deliveries_replica_did ds)" for ds
    by (induction ds) auto
  have 2: "filter (\<lambda>x. x = r) xs = (if r \<in> set xs then [r] else [])" if "distinct xs" for xs :: "did list"
    using that by (induction xs) auto
  show ?thesis unfolding 1 deliveries_for_cols(2) 2 [OF assms] by simp
qed

lemma waiting_fanned:
  assumes "db_inv s" and "fresh_mail pid ids s" and "t < expiry opts now (bounds_deadline bounds)"
  shows "waiting_deliveries t r None (fanned opts pid ids now nxt packed bounds a s) =
     waiting_deliveries t r None s @
     map (\<lambda>d. (d, package_for opts pid now nxt packed bounds a))
       (filter (\<lambda>d. deliveries_replica_did d = r) (deliveries_for ids pid (targets nxt s)))"
proof -
  note s = db_invD [OF assms(1)]
  let ?p = "package_for opts pid now nxt packed bounds a" and ?new = "deliveries_for ids pid (targets nxt s)"
  have p: "packages_id ?p = pid" "packages_expires_at ?p = expiry opts now (bounds_deadline bounds)"
    by (simp_all add: package_for_def)
  have pid: "pid \<notin> packages_id ` set (replica_packages s)" by (rule fresh_mailD(1) [OF assms(2)])
  have "filter (\<lambda>d. deliveries_package_id d = packages_id q \<and> deliveries_replica_did d = r) ?new = []"
    if "q \<in> set (replica_packages s)" for q
    using that pid deliveries_for_cols(3) [of _ ids pid "targets nxt s"] by (fastforce simp: filter_empty_conv)
  then have old: "concat (map (\<lambda>q. map (\<lambda>d. (d, q)) (filter (\<lambda>d. deliveries_package_id d = packages_id q \<and>
        deliveries_replica_did d = r) (replica_deliveries s @ ?new))) (filter (\<lambda>q. t < packages_expires_at q) (replica_packages s))) =
      concat (map (\<lambda>q. map (\<lambda>d. (d, q)) (filter (\<lambda>d. deliveries_package_id d = packages_id q \<and>
        deliveries_replica_did d = r) (replica_deliveries s))) (filter (\<lambda>q. t < packages_expires_at q) (replica_packages s)))"
    by (intro arg_cong [where f = concat] map_cong) auto
  have none: "filter (\<lambda>d. deliveries_package_id d = pid \<and> deliveries_replica_did d = r) (replica_deliveries s) = []"
    using fk_okD(7) [OF s(2)] pid by (auto simp: filter_empty_conv)
  have new: "filter (\<lambda>d. deliveries_package_id d = pid \<and> deliveries_replica_did d = r) ?new =
      filter (\<lambda>d. deliveries_replica_did d = r) ?new"
    using deliveries_for_cols(3) by (intro filter_cong) auto
  show ?thesis
    using old assms(3) by (simp add: waiting_deliveries_def fanned_def p none new)
qed

section \<open>What is forgotten\<close>

text \<open>The tables after an account is deleted.\<close>

lemma without_account_tables:
  "accounts (without_account a s) = accounts s" "keylist (without_account a s) = keylist s"
  "messages (without_account a s) = messages s"
  "replica_accounts (without_account a s) = filter (\<lambda>r. raccounts_did r \<noteq> a) (replica_accounts s)"
  "replicas (without_account a s) = filter (\<lambda>r. replicas_account_did r \<noteq> a) (replicas s)"
  "replica_recipients (without_account a s) = filter (\<lambda>r. recipients_account_did r \<noteq> a) (replica_recipients s)"
  "replica_packages (without_account a s) = filter (\<lambda>p. packages_account_did p \<noteq> a) (replica_packages s)"
  "replica_executions (without_account a s) = filter (\<lambda>e. executions_account_did e \<noteq> a) (replica_executions s)"
  "replica_deliveries (without_account a s) = replica_deliveries (cleared_mail a s)"
  "blobs (without_account a s) = filter (\<lambda>b. \<not> account_blob a s b) (blobs s)"
  by (simp_all add: without_account_eq cleared_replicas_def end_blobs_def cleared_content_def cleared_mail_def
      delete_executions_def delete_blobs_def Let_def)

text \<open>No delivery is lost but those of the account's own packages and replicas, which are the same.\<close>

lemma delivery_of_account:
  assumes "db_inv s" and "d \<in> set (replica_deliveries s)"
    and "r \<in> set (replicas s)" "replicas_did r = deliveries_replica_did d"
    and "p \<in> set (replica_packages s)" "packages_id p = deliveries_package_id d"
  shows "packages_account_did p = replicas_account_did r" and "is_active r"
proof -
  note s = db_invD [OF assms(1)]
  have "distinct (map replicas_did (replicas s))" "distinct (map packages_id (replica_packages s))"
    using s(1) by (simp_all add: uniq_ok_def)
  moreover obtain r' p' where "r' \<in> set (replicas s)" "p' \<in> set (replica_packages s)"
      "replicas_did r' = deliveries_replica_did d" "is_active r'"
      "packages_id p' = deliveries_package_id d" "packages_account_did p' = replicas_account_did r'"
    using s(5) assms(2) unfolding mail_ok_def list_all_iff delivery_ok_def by blast
  ultimately show "packages_account_did p = replicas_account_did r" and "is_active r"
    using assms(3-6) same_key_same_row by metis+
qed

lemma cleared_mail_deliveries:
  assumes "db_inv s"
  shows "replica_deliveries (cleared_mail a s) =
     filter (\<lambda>d. deliveries_replica_did d \<notin> replicas_did ` set (replicas_of a s)) (replica_deliveries s)"
proof -
  note s = db_invD [OF assms]
  have "(\<exists>p\<in>set (replica_packages s). packages_account_did p = a \<and> packages_id p = deliveries_package_id d) \<longleftrightarrow>
      (\<exists>r\<in>set (replicas s). replicas_account_did r = a \<and> replicas_did r = deliveries_replica_did d)"
    if d: "d \<in> set (replica_deliveries s)" for d
  proof -
    obtain p r where "p \<in> set (replica_packages s)" "packages_id p = deliveries_package_id d"
      "r \<in> set (replicas s)" "replicas_did r = deliveries_replica_did d"
      using fk_okD(7,8) [OF s(2) d] by (metis imageE)
    then show ?thesis using delivery_of_account(1) [OF assms d] by metis
  qed
  note eq = this
  have "deliveries_replica_did d \<in> replicas_did ` set (replicas_of a s) \<longleftrightarrow>
      (\<exists>r\<in>set (replicas s). replicas_account_did r = a \<and> replicas_did r = deliveries_replica_did d)" for d
    by (force simp: replicas_of_def)
  then show ?thesis
    unfolding cleared_mail_def using eq by (simp, intro filter_cong [OF refl]) blast
qed

end
