(* ===== verification/Mediator_Example.thy ===== *)
theory Mediator_Example
  imports Mediator_Traces
begin

text \<open>
  One run of the store, from an empty database: an ordinary account with a
  recipient, a waiting message and a blob; a replica account with two active
  replicas and one removed, a shared recipient, a package queued for both
  active replicas, an execution registration and a replica's blob. The
  concrete instances of the guarantees are stated at the database it reaches.
\<close>

definition demo_did :: "char \<Rightarrow> did" where
  "demo_did c = ''did:peer:4zQm'' @ replicate 44 c"

definition demo_long :: "char \<Rightarrow> did" where
  "demo_long c = demo_did c @ '':zabcdef''"

definition demo_A :: did where "demo_A = demo_did CHR ''A''"
definition demo_B :: did where "demo_B = demo_did CHR ''B''"
definition demo_C :: did where "demo_C = demo_did CHR ''C''"
definition demo_D :: did where "demo_D = demo_did CHR ''D''"
definition demo_R :: did where "demo_R = demo_did CHR ''R''"

definition demo_mediator :: did where "demo_mediator = ''did:web:m''"
definition demo_alice :: did where "demo_alice = ''did:web:alice''"

definition demo_options :: store_options where
  "demo_options = \<lparr>ttlMs = 10000, maxMessages = 2\<rparr>"

definition demo_replica :: "char \<Rightarrow> ReplicaAddition" where
  "demo_replica c = \<lparr>add_accountDid = demo_A, add_mediator = demo_mediator, add_replicaDid = demo_did c,
     add_replicaLongForm = demo_long c, add_grant = [c], add_maxReplicas = 3\<rparr>"

definition demo_ids :: "nat \<Rightarrow> string" where
  "demo_ids i = CHR ''d'' # replicate i CHR ''x''"

definition demo_bounds :: PackageBounds where
  "demo_bounds = \<lparr>bounds_deadline = None, bounds_maxRetainedBytes = 100\<rparr>"

definition demo_registration :: "did \<Rightarrow> ExecutionRegistration" where
  "demo_registration d = \<lparr>reg_replicaDid = d, reg_mediator = demo_mediator, reg_executionId = ''run'',
     reg_policy = \<lparr>policy_retainSeconds = 60, policy_maxRetained = 4, policy_maxReplicas = 4\<rparr>\<rparr>"

definition demo_keep :: "did \<Rightarrow> string \<Rightarrow> BlobKeep" where
  "demo_keep owner bid = \<lparr>keep_id = bid, keep_ownerDid = owner, keep_hash = ''hash'', keep_size = 5,
     keep_retainUntil = 20000\<rparr>"

lemma demo_distinct [simp]:
  "demo_did c = demo_did d \<longleftrightarrow> c = d" "demo_did c \<noteq> demo_long d" "demo_long d \<noteq> demo_did c"
  "demo_did c \<noteq> ''did:web:alice''" "''did:web:alice'' \<noteq> demo_did c"
  "demo_did c \<noteq> ''did:web:pen''" "''did:web:pen'' \<noteq> demo_did c"
  "demo_long c \<noteq> ''did:web:alice''" "''did:web:alice'' \<noteq> demo_long c"
  "demo_long c \<noteq> ''did:web:pen''" "''did:web:pen'' \<noteq> demo_long c"
  by (auto simp: demo_did_def demo_long_def dest: arg_cong [where f = length])

lemma demo_forms [simp]:
  "long_form_of (demo_did CHR ''A'') (demo_long CHR ''A'')" "long_form_of (demo_did CHR ''B'') (demo_long CHR ''B'')"
  "long_form_of (demo_did CHR ''C'') (demo_long CHR ''C'')" "long_form_of (demo_did CHR ''D'') (demo_long CHR ''D'')"
  "long_form_of (demo_did CHR ''R'') (demo_long CHR ''R'')"
  by code_simp+

lemma demo_canonical [simp]:
  "canonicalDid ''did:web:alice'' = ''did:web:alice''" "canonicalDid ''did:web:pen'' = ''did:web:pen''"
  by code_simp+

lemmas demo_run = state_defs insert_replica_def without_replica_def mark_removed_def end_blobs_def end_deliveries_def
  delete_deliveries_def delete_ending_packages_def guard_defs unbound_def spellings_def isMediated_def
  waiting_messages_def replicas_of_def active_replicas_def is_active_def recipients_of_def enrolled_def held_by_def
  is_enrolled_def holdsBlobs_def row_of_def fresh_mail_def fresh_blob_def routed_account_def has_room_def retained_def
  expiry_def targets_def package_for_def deliveries_for_def member_account_def execution_of_def executions_of_def
  new_execution_def listing_for_def listings_of_def listed_replicas_def blobOf_def room_def blobUsage_def
  live_blobs_def new_blob_def sum_col_def demo_A_def demo_B_def demo_C_def demo_D_def demo_R_def demo_mediator_def demo_alice_def
  demo_options_def demo_replica_def demo_ids_def demo_bounds_def demo_registration_def demo_keep_def

definition demo_calls :: "store_call list" where
  "demo_calls =
    [InitIdentity ''keys'',
     GrantMediation 1000 demo_alice,
     AddRecipient 1001 demo_alice ''did:web:pen'',
     StoreMessage demo_options ''m1'' 1002 demo_alice ''letter'',
     KeepBlob 1003 (demo_keep demo_alice ''blob-1'') 10,
     RegisterReplicaAccount ''reg-1'' 2000 \<lparr>ra_accountDid = demo_A, ra_accountLongForm = demo_long CHR ''A'',
        ra_mediator = demo_mediator, ra_create = True\<rparr>,
     AddReplica 3000 (demo_replica CHR ''B''),
     AddReplica 4000 (demo_replica CHR ''C''),
     AddReplica 5000 (demo_replica CHR ''D''),
     RemoveReplica 6000 demo_A demo_mediator demo_D,
     AddSharedRecipient 6001 \<lparr>share_accountDid = demo_A, share_mediator = demo_mediator, share_recipientDid = demo_R,
        share_recipientLongForm = demo_long CHR ''R'', share_maxRecipients = 5\<rparr>,
     FanOut demo_options ''p1'' demo_ids 6002 demo_R ''parcel'' demo_bounds,
     RegisterExecution ''x1'' 6003 (demo_registration demo_B),
     KeepBlob 6004 (demo_keep demo_B ''blob-2'') 10]"

definition demo_row :: "char \<Rightarrow> nat \<Rightarrow> time \<Rightarrow> time option \<Rightarrow> replica_row" where
  "demo_row c n added removed = \<lparr>replicas_did = demo_did c, replicas_account_did = demo_A, replicas_ordinal = n,
     replicas_long_form = demo_long c, replicas_grant_jws = [c], replicas_registered_at = added,
     replicas_removed_at = removed\<rparr>"

definition demo_blob :: "string \<Rightarrow> did \<Rightarrow> time \<Rightarrow> blob_row" where
  "demo_blob bid owner created = \<lparr>blobs_id = bid, blobs_owner_did = owner, blobs_hash = ''hash'', blobs_size = 5,
     blobs_created_at = created, blobs_uploaded_at = None, blobs_retain_until = 20000\<rparr>"

text \<open>The database the run ends in.\<close>

definition demo_db :: db where
  "demo_db =
    \<lparr>accounts = [\<lparr>accounts_did = demo_alice, accounts_created_at = 1000\<rparr>],
     keylist = [\<lparr>keylist_recipient_did = ''did:web:pen'', keylist_owner_did = demo_alice, keylist_created_at = 1001\<rparr>],
     messages = [\<lparr>messages_id = ''m1'', messages_owner_did = demo_alice, messages_packed = ''letter'',
       messages_created_at = 1002, messages_expires_at = 11002\<rparr>],
     blobs = [demo_blob ''blob-1'' demo_alice 1003, demo_blob ''blob-2'' demo_B 6004],
     blob_uploads = [], ended_blobs = [],
     replica_accounts = [\<lparr>raccounts_did = demo_A, raccounts_mediator = demo_mediator,
       raccounts_long_form = demo_long CHR ''A'', raccounts_created_at = 2000, raccounts_registration = ''reg-1''\<rparr>],
     replicas = [demo_row CHR ''B'' 1 3 None, demo_row CHR ''C'' 2 4 None, demo_row CHR ''D'' 3 5 (Some 6)],
     replica_recipients = [\<lparr>recipients_did = demo_R, recipients_account_did = demo_A,
       recipients_long_form = demo_long CHR ''R'', recipients_created_at = 6001\<rparr>],
     replica_packages = [\<lparr>packages_id = ''p1'', packages_account_did = demo_A, packages_next_did = demo_R,
       packages_packed = ''parcel'', packages_bytes = 6, packages_created_at = 6002, packages_expires_at = 16002\<rparr>],
     replica_deliveries = [
       \<lparr>deliveries_id = ''d'', deliveries_package_id = ''p1'', deliveries_replica_did = demo_B\<rparr>,
       \<lparr>deliveries_id = ''dx'', deliveries_package_id = ''p1'', deliveries_replica_did = demo_C\<rparr>],
     replica_executions = [\<lparr>executions_registration_id = ''x1'', executions_account_did = demo_A,
       executions_execution_id = ''run'', executions_created_time = 6, executions_retain_until = 66\<rparr>],
     replica_execution_registrations = [
       \<lparr>listings_registration_id = ''x1'', listings_replica_did = demo_B, listings_ordinal = 1\<rparr>],
     identity = Some ''keys''\<rparr>"

fun ok_after :: "store_call list \<Rightarrow> db \<Rightarrow> bool" where
  "ok_after [] s = True"
| "ok_after (c # cs) s = (call_ok c s \<and> ok_after cs (after_call c s))"

fun run_after :: "store_call list \<Rightarrow> db \<Rightarrow> db" where
  "run_after [] s = s"
| "run_after (c # cs) s = run_after cs (after_call c s)"

lemma run_after_eq: "db_inv s \<Longrightarrow> ok_after cs s \<Longrightarrow> calls_ok cs s \<and> run_calls cs s = run_after cs s"
proof (induction cs arbitrary: s)
  case (Cons c cs)
  then have "db_inv (after_call c s)" using perform_inv [of s c] perform_after [of s c] by simp
  then show ?case using Cons by (simp add: perform_after)
qed simp

lemma demo_ok: "ok_after demo_calls empty_db"
  by (simp add: demo_calls_def demo_run empty_db_def)

lemma demo_run_after: "run_after demo_calls empty_db = demo_db"
  by (simp add: demo_calls_def demo_run demo_db_def demo_row_def demo_blob_def empty_db_def)

lemma demo_run_calls: "calls_ok demo_calls empty_db" "run_calls demo_calls empty_db = demo_db"
  using run_after_eq [OF db_inv_empty demo_ok] demo_run_after by simp_all

lemma demo_reachable: "reachable demo_db"
  using run_reachable [OF demo_run_calls(1)] unfolding demo_run_calls(2) .

lemma demo_inv: "db_inv demo_db"
  by (rule reachable_inv [OF demo_reachable])

lemmas demo_simps = demo_run demo_db_def demo_row_def demo_blob_def

end
