(* ===== verification/Mediator_Guarantees.thy ===== *)
theory Mediator_Guarantees
  imports Mediator_Store Mediator_Example "HOL-Library.Multiset"
begin

text \<open>
  The guarantees of the store, each over every database its calls can reach,
  with a concrete instance at the database of \<open>Mediator_Example\<close>.
\<close>

section \<open>The store as a whole\<close>

text \<open>
  C1: Whatever sequence of allowed calls (\<open>call_ok\<close>: identifiers drawn afresh,
  and what each method documents of its arguments) is made on an empty store, the database keeps
  its invariant: keys unique, foreign keys whole, ordinary and replica
  mediation never binding the same DID, rosters and listings numbered without
  gaps, deliveries waiting only for active replicas of the package's account,
  and blobs held only by a mediation that has not ended.
\<close>

theorem store_invariant: "reachable s \<Longrightarrow> db_inv s"
  by (rule reachable_inv)

theorem store_invariant_witness: "db_inv demo_db"
  by (rule store_invariant [OF demo_reachable])

text \<open>
  C2: No call fails: in every reachable database, the batch of every allowed
  call commits, none violating a unique or a foreign key.
\<close>

theorem store_never_fails: "reachable s \<Longrightarrow> call_ok c s \<Longrightarrow> \<not> fst (perform c s)"
  using perform_answers reachable_inv by blast

theorem store_never_fails_witness:
  "\<not> fst (perform (AddReplica 7000 (demo_replica CHR ''R'')) demo_db)"
  by (rule store_never_fails [OF demo_reachable]) (simp add: demo_simps)

text \<open>
  C3: A DID replica mediation binds has exactly one role there (account, replica
  or shared recipient), its long form is one of that DID, and ordinary
  mediation binds neither spelling, as an account or as a recipient.
\<close>

theorem bindings_exclusive:
  assumes "reachable s" and "(d, l) \<in> roles s"
  shows "longToShort l = Some d \<and> {d, l} \<inter> ordinary_names s = {} \<and>
     of_bool (has_key raccounts_did d (replica_accounts s)) + of_bool (has_key replicas_did d (replicas s)) +
     of_bool (has_key recipients_did d (replica_recipients s)) = (1::nat)"
proof -
  note n = names_okD [OF db_invD(3) [OF reachable_inv [OF assms(1)]]]
  have "d \<in> fst ` roles s" using assms(2) by force
  then have "d \<in> raccounts_did ` set (replica_accounts s) \<or> d \<in> replicas_did ` set (replicas s) \<or>
      d \<in> recipients_did ` set (replica_recipients s)" by (auto simp: fst_roles)
  moreover have "longToShort l = Some d" "d \<notin> ordinary_names s" "l \<notin> ordinary_names s"
    using n(1) [OF assms(2)] by (auto simp: apart_def long_form_of_def)
  ultimately show ?thesis using n(2-4) by auto
qed

theorem bindings_exclusive_witness: "longToShort (demo_long CHR ''B'') = Some demo_B \<and> demo_B \<notin> ordinary_names demo_db"
proof -
  have "(demo_B, demo_long CHR ''B'') \<in> roles demo_db" by (simp add: demo_simps role_names)
  from bindings_exclusive [OF demo_reachable this] show ?thesis by simp
qed

section \<open>Rosters\<close>

text \<open>
  C4: While no account is deleted, a roster only grows: after any further calls
  its replicas are those there were, in their order, with their grants and
  ordinals, then the new ones; the time of a removal, once set, stays.
\<close>

theorem roster_append_only:
  assumes "reachable s" and "calls_ok cs s" and "list_all (\<lambda>c. \<not> deletes_account c) cs"
  shows "roster_grows s (run_calls cs s)"
  using run_roster_grows [OF reachable_inv [OF assms(1)] assms(2)] assms(3) by (simp add: list_all_iff)

theorem roster_append_only_witness:
  "roster_grows demo_db (run_calls [RemoveReplica 7000 demo_A demo_mediator demo_B] demo_db)"
  by (rule roster_append_only [OF demo_reachable]) simp_all

text \<open>
  C5: A replica its account removed is never active again while no account is
  deleted, whatever is called.
\<close>

theorem removal_is_final:
  assumes "reachable s" and "replicaState d s = Some RemovedState"
    and "calls_ok cs s" and "list_all (\<lambda>c. \<not> deletes_account c) cs"
  shows "replicaState d (run_calls cs s) = Some RemovedState"
proof -
  note s = reachable_inv [OF assms(1)]
  obtain r where r: "r \<in> set (replicas s)" "replicas_did r = d" "\<not> is_active r"
    using assms(2) replicaState_iff(1) [OF db_invD(1) [OF s]] by blast
  have "roster_grows s (run_calls cs s)"
    using run_roster_grows [OF s assms(3)] assms(4) by (simp add: list_all_iff)
  then obtain r' where r': "r' \<in> set (replicas (run_calls cs s))" "later_row r r'"
    using roster_grows_row r(1) by blast
  then have "replicas_did r' = d" "\<not> is_active r'"
    using r(2,3) later_row_cols [OF r'(2)] by (auto simp: later_row_def is_active_def)
  then show ?thesis
    using r'(1) replicaState_iff(1) [OF db_invD(1) [OF run_inv [OF s assms(3)]]] by blast
qed

theorem removal_is_final_witness:
  "replicaState demo_D (run_calls [AddReplica 7000 (demo_replica CHR ''D'')] demo_db) = Some RemovedState"
  by (rule removal_is_final [OF demo_reachable]) (simp_all add: demo_simps replicaState_def)

text \<open>
  A page of a roster is a slice of it: the replicas after the ordinal given,
  up to the one the listing goes through, at most as many as asked, in the
  order they were enrolled, and the size is that of the whole roster.
\<close>

theorem roster_page:
  assumes "reachable s" and "bound_account a m s"
  shows "\<exists>registration. replicaRoster a m after through limit s =
     Some \<lparr>roster_registration = registration, roster_size = length (replicas_of a s),
       roster_entries = map roster_entry (take limit (drop after (first_of through (replicas_of a s))))\<rparr>"
  by (rule replicaRoster_page [OF reachable_inv [OF assms(1)] assms(2)])

theorem roster_page_witness:
  "\<exists>registration. replicaRoster demo_A demo_mediator 1 (Some 3) 1 demo_db =
     Some \<lparr>roster_registration = registration, roster_size = 3,
       roster_entries = [\<lparr>entry_ordinal = 2, entry_grant = ''C'', entry_addedTime = 4, entry_removedTime = None\<rparr>]\<rparr>"
proof -
  have "bound_account demo_A demo_mediator demo_db" by (simp add: demo_simps)
  from roster_page [OF demo_reachable this, of 1 "Some 3" 1]
  have "\<exists>registration. replicaRoster demo_A demo_mediator 1 (Some 3) 1 demo_db =
      Some \<lparr>roster_registration = registration, roster_size = length (replicas_of demo_A demo_db),
        roster_entries = map roster_entry (take 1 (drop 1 (first_of (Some 3) (replicas_of demo_A demo_db))))\<rparr>" .
  moreover have "length (replicas_of demo_A demo_db) = 3"
    "map roster_entry (take 1 (drop 1 (first_of (Some 3) (replicas_of demo_A demo_db)))) =
      [\<lparr>entry_ordinal = 2, entry_grant = ''C'', entry_addedTime = 4, entry_removedTime = None\<rparr>]"
    by (simp_all add: demo_simps first_of_def roster_entry_def)
  ultimately show ?thesis by simp
qed

section \<open>Mail\<close>

text \<open>
  C6: A package forwarded to a shared recipient, when there is room and it has
  not lapsed, is queued for exactly the active replicas of the recipient's
  account, each once, whatever order the database lists them in, and with the
  envelope it was given: until it lapses each of them finds one more delivery
  waiting, and every other replica finds what it found before.
\<close>

theorem fan_out_reaches_active:
  assumes "reachable s" and "fresh_mail pid ids s"
    and "row_of recipients_did nxt (replica_recipients s) = Some c"
    and "now < expiry opts now (bounds_deadline bounds)"
    and "has_room opts now (int (length packed)) (bounds_maxRetainedBytes bounds) s (recipients_account_did c)"
    and "t < expiry opts now (bounds_deadline bounds)"
  shows "\<exists>ds s'. fanOut opts pid ids now nxt packed bounds s = (Inr (FanStored ds), s') \<and>
     mset (map delivery_replicaDid ds) = mset (map replicas_did (active_replicas (recipients_account_did c) s)) \<and>
     distinct (map delivery_replicaDid ds) \<and> (\<forall>d \<in> set ds. stored_packed (delivery_message d) = packed) \<and>
     deliveryCount t r None s' = deliveryCount t r None s +
       of_bool (r \<in> replicas_did ` set (active_replicas (recipients_account_did c) s))"
proof -
  note s = reachable_inv [OF assms(1)]
  let ?a = "recipients_account_did c"
  let ?s = "fanned opts pid ids now nxt packed bounds ?a s"
  have ra: "routed_account nxt s = Some ?a" using assms(3) by (simp add: routed_account_def)
  have t: "targets nxt s = active_replicas ?a s" by (rule targets_shared [OF s assms(3)])
  have d: "distinct (map replicas_did (active_replicas ?a s))"
    using db_invD(1) [OF s] by (simp add: uniq_ok_def active_replicas_def replicas_of_def)
  have "length (filter (\<lambda>d. deliveries_replica_did d = r) (deliveries_for ids pid (active_replicas ?a s))) =
      of_bool (r \<in> replicas_did ` set (active_replicas ?a s))"
    using arg_cong [OF deliveries_for_replica [OF d, of r ids pid], of length] by simp
  then have "deliveryCount t r None ?s = deliveryCount t r None s +
      of_bool (r \<in> replicas_did ` set (active_replicas ?a s))"
    by (simp add: deliveryCount_def waiting_fanned [OF s assms(2,6)] t)
  moreover have m: "mset (map deliveries_replica_did (sort_key deliveries_replica_did (deliveries_for ids pid (targets nxt s)))) =
      mset (map replicas_did (active_replicas ?a s))"
    using arg_cong [OF deliveries_for_cols(2) [of ids pid "targets nxt s"], of mset] unfolding mset_map mset_sort t .
  moreover have "distinct (map deliveries_replica_did (sort_key deliveries_replica_did (deliveries_for ids pid (targets nxt s))))"
    using mset_eq_imp_distinct_iff [OF m] d by simp
  ultimately show ?thesis using fanOut_run [OF s assms(4,2)] ra assms(5) by (simp add: comp_def multiset.map_comp)
qed

theorem fan_out_reaches_active_witness:
  "\<exists>ds s'. fanOut demo_options ''p2'' (\<lambda>i. CHR ''e'' # replicate i CHR ''x'') 7000 demo_R ''second'' demo_bounds demo_db =
       (Inr (FanStored ds), s') \<and>
     mset (map delivery_replicaDid ds) = mset (map replicas_did (active_replicas demo_A demo_db)) \<and>
     distinct (map delivery_replicaDid ds) \<and> (\<forall>d \<in> set ds. stored_packed (delivery_message d) = ''second'') \<and>
     deliveryCount 7001 demo_C None s' = deliveryCount 7001 demo_C None demo_db +
       of_bool (demo_C \<in> replicas_did ` set (active_replicas demo_A demo_db))"
proof -
  let ?c = "\<lparr>recipients_did = demo_R, recipients_account_did = demo_A,
       recipients_long_form = demo_long CHR ''R'', recipients_created_at = 6001\<rparr>"
  have "fresh_mail ''p2'' (\<lambda>i. CHR ''e'' # replicate i CHR ''x'') demo_db"
    "row_of recipients_did demo_R (replica_recipients demo_db) = Some ?c"
    "7000 < expiry demo_options 7000 (bounds_deadline demo_bounds)"
    "has_room demo_options 7000 (int (length ''second'')) (bounds_maxRetainedBytes demo_bounds) demo_db
       (recipients_account_did ?c)"
    "7001 < expiry demo_options 7000 (bounds_deadline demo_bounds)"
    by (simp_all add: demo_simps)
  from fan_out_reaches_active [OF demo_reachable this, where r = demo_C] show ?thesis by simp
qed

text \<open>
  A replica acknowledges only its own deliveries: those named leave its
  queue, no other replica's queue changes, and a package is kept exactly while
  a delivery of it still waits or if it had none to begin with.
\<close>

theorem acknowledge_own_only:
  assumes "reachable s" and "acknowledgeDeliveries r ids s = (Inr (), s')"
  shows "waiting_deliveries t q nxt s' =
       (if q = r then filter (\<lambda>dp. deliveries_id (fst dp) \<notin> set ids) (waiting_deliveries t r nxt s)
        else waiting_deliveries t q nxt s) \<and>
     (p \<in> set (replica_packages s') \<longleftrightarrow> p \<in> set (replica_packages s) \<and>
       ((\<exists>d\<in>set (replica_deliveries s'). deliveries_package_id d = packages_id p) \<or>
        \<not> (\<exists>d\<in>set (replica_deliveries s). deliveries_package_id d = packages_id p)))"
proof -
  note s = reachable_inv [OF assms(1)]
  let ?w = "\<lambda>d. deliveries_replica_did d = r \<and> deliveries_id d \<in> set ids"
  have s': "s' = end_deliveries ?w s" using acknowledgeDeliveries_run [OF s] assms(2) by simp
  have "filter (\<lambda>dp. \<not> ?w (fst dp)) (waiting_deliveries t q nxt s) =
      (if q = r then filter (\<lambda>dp. deliveries_id (fst dp) \<notin> set ids) (waiting_deliveries t r nxt s)
        else waiting_deliveries t q nxt s)"
    using waiting_deliveries_replica [of _ t q nxt s] by (auto intro!: filter_cong simp: filter_id_conv)
  then have "waiting_deliveries t q nxt s' =
      (if q = r then filter (\<lambda>dp. deliveries_id (fst dp) \<notin> set ids) (waiting_deliveries t r nxt s)
        else waiting_deliveries t q nxt s)"
    unfolding s' waiting_end_deliveries [OF s] .
  moreover have "distinct (map deliveries_id (replica_deliveries s))"
    using db_invD(1) [OF s] by (simp add: uniq_ok_def)
  from end_deliveries_package [OF this, of p ?w]
  have "p \<in> set (replica_packages s') \<longleftrightarrow> p \<in> set (replica_packages s) \<and>
       ((\<exists>d\<in>set (replica_deliveries s'). deliveries_package_id d = packages_id p) \<or>
        \<not> (\<exists>d\<in>set (replica_deliveries s). deliveries_package_id d = packages_id p))"
    unfolding s' by auto
  ultimately show ?thesis by blast
qed

theorem acknowledge_own_only_witness:
  "\<exists>s'. acknowledgeDeliveries demo_B [''d''] demo_db = (Inr (), s') \<and>
     waiting_deliveries 7000 demo_C None s' = waiting_deliveries 7000 demo_C None demo_db"
proof -
  obtain s' where s': "acknowledgeDeliveries demo_B [''d''] demo_db = (Inr (), s')"
    using acknowledgeDeliveries_run [OF demo_inv] by blast
  have "demo_C \<noteq> demo_B" by (simp add: demo_simps)
  with acknowledge_own_only [OF demo_reachable s', of 7000 demo_C None] s' show ?thesis by auto
qed

section \<open>Quotas\<close>

text \<open>
  An account never has more messages waiting than it may: storing one more
  is refused, and changes nothing, exactly when that many wait already.
\<close>

theorem message_quota:
  assumes "reachable s" and "isMediated owner s" and "mid \<notin> messages_id ` set (messages s)"
    and "messageCount now owner s \<le> maxMessages opts" and "0 < ttlMs opts"
    and "storeMessage opts mid now owner packed s = (Inr outcome, s')"
  shows "messageCount now owner s' \<le> maxMessages opts \<and>
     (outcome = Full \<longleftrightarrow> messageCount now owner s = maxMessages opts) \<and> (outcome = Full \<longrightarrow> s' = s) \<and>
     (outcome \<noteq> Full \<longrightarrow> messageCount now owner s' = messageCount now owner s + 1)"
proof -
  note run = storeMessage_run [OF reachable_inv [OF assms(1)] assms(2,3), of opts now packed]
  then have "outcome = (if messageCount now owner s < maxMessages opts
      then Stored \<lparr>stored_id = mid, stored_packed = packed, stored_createdAt = now\<rparr> else Full)"
    and "s' = insert_message opts mid now owner packed s"
    using assms(6) by simp_all
  then show ?thesis
    using assms(4,5) by (auto simp: insert_message_def messageCount_def waiting_messages_def)
qed

theorem message_quota_witness:
  "\<exists>s'. storeMessage demo_options ''m2'' 1500 demo_alice ''reply'' demo_db =
       (Inr (Stored \<lparr>stored_id = ''m2'', stored_packed = ''reply'', stored_createdAt = 1500\<rparr>), s') \<and>
     messageCount 1500 demo_alice s' = messageCount 1500 demo_alice demo_db + 1"
proof -
  have h: "isMediated demo_alice demo_db" "''m2'' \<notin> messages_id ` set (messages demo_db)"
    "messageCount 1500 demo_alice demo_db \<le> maxMessages demo_options" "0 < ttlMs demo_options"
    by (simp_all add: demo_simps messageCount_def)
  have c: "messageCount 1500 demo_alice demo_db < maxMessages demo_options"
    by (simp add: demo_simps messageCount_def)
  from storeMessage_run [OF demo_inv h(1,2), of demo_options 1500 "''reply''"] c
  obtain s' where s': "storeMessage demo_options ''m2'' 1500 demo_alice ''reply'' demo_db =
      (Inr (Stored \<lparr>stored_id = ''m2'', stored_packed = ''reply'', stored_createdAt = 1500\<rparr>), s')"
    by simp
  with message_quota [OF demo_reachable h s'] show ?thesis by simp
qed

text \<open>
  An account never has more active replicas than it may. A replica newly
  enrolled is last in the roster, its ordinal the roster's new size.
\<close>

theorem replica_quota:
  assumes "reachable s" and "long_form_of (add_replicaDid x) (add_replicaLongForm x)"
    and "length (active_replicas (add_accountDid x) s) \<le> add_maxReplicas x"
    and "addReplica now x s = (Inr outcome, s')"
  shows "length (active_replicas (add_accountDid x) s') \<le> add_maxReplicas x \<and>
     (s' = s \<or> (\<exists>r. replicas_of (add_accountDid x) s' = replicas_of (add_accountDid x) s @ [r] \<and> is_active r \<and>
        replicas_did r = add_replicaDid x \<and> replicas_ordinal r = length (replicas_of (add_accountDid x) s')))"
proof -
  have s': "s' = insert_replica now x s"
    using addReplica_run [OF reachable_inv [OF assms(1)] assms(2)] assms(4) by simp
  show ?thesis
  proof (cases "s' = s")
    case True
    then show ?thesis using assms(3) by simp
  next
    case False
    then have "length (active_replicas (add_accountDid x) s) < add_maxReplicas x"
      and "replicas s' = replicas s @ [\<lparr>replicas_did = add_replicaDid x, replicas_account_did = add_accountDid x,
        replicas_ordinal = length (replicas_of (add_accountDid x) s) + 1, replicas_long_form = add_replicaLongForm x,
        replicas_grant_jws = add_grant x, replicas_registered_at = now div 1000, replicas_removed_at = None\<rparr>]"
      unfolding s' by (auto simp: insert_replica_def Let_def split: if_splits)
    then show ?thesis by (simp add: active_replicas_def replicas_of_def is_active_def)
  qed
qed

theorem replica_quota_witness:
  "\<exists>outcome s'. addReplica 7000 (demo_replica CHR ''D'') demo_db = (Inr outcome, s') \<and>
     length (active_replicas demo_A s') \<le> 3"
proof -
  have h: "long_form_of (add_replicaDid (demo_replica CHR ''D'')) (add_replicaLongForm (demo_replica CHR ''D''))"
    "length (active_replicas (add_accountDid (demo_replica CHR ''D'')) demo_db) \<le> add_maxReplicas (demo_replica CHR ''D'')"
    by (simp_all add: demo_simps)
  obtain outcome s' where s': "addReplica 7000 (demo_replica CHR ''D'') demo_db = (Inr outcome, s')"
    using addReplica_run [OF demo_inv h(1)] by blast
  with replica_quota [OF demo_reachable h s'] show ?thesis by (simp add: demo_replica_def)
qed

text \<open>
  C11: A mediation's live blob bytes never grow past its quota.
\<close>

theorem blob_quota:
  assumes "reachable s" and "fresh_blob k s" and "blobUsage now (keep_ownerDid k) s \<le> q"
  shows "blobUsage now (keep_ownerDid k) (snd (keepBlob now k q s)) \<le> q"
  using keepBlob_run [OF reachable_inv [OF assms(1)], of k now q] assms(2,3)
    keep_blob_usage [OF db_invD(1) [OF reachable_inv [OF assms(1)]], of now k q]
  by (simp add: fresh_blob_def)

theorem blob_quota_witness: "blobUsage 7000 demo_B (snd (keepBlob 7000 (demo_keep demo_B ''blob-3'') 10 demo_db)) \<le> 10"
  using blob_quota [OF demo_reachable, of "demo_keep demo_B ''blob-3''" 7000 10] by (simp add: demo_simps)

section \<open>What each call answers\<close>

text \<open>
  C10: \<open>keepBlob\<close> implements its contract on every branch: a mediation that ended
  keeps nothing, another size is a mismatch, a new or lapsed blob needs room,
  and the retention of one kept is never shortened.
\<close>

theorem keepBlob_refines:
  assumes "reachable s" and "fresh_blob k s"
  shows "keepBlob now k q s = map_prod Inr id (keep_blob now k q s) \<and>
     (b \<in> set (blobs s) \<longrightarrow> (\<exists>b'\<in>set (blobs (snd (keepBlob now k q s))).
        blobs_id b' = blobs_id b \<and> blobs_size b' = blobs_size b \<and> blobs_retain_until b \<le> blobs_retain_until b'))"
proof -
  note s = reachable_inv [OF assms(1)]
  have "keepBlob now k q s = map_prod Inr id (keep_blob now k q s)"
    using keepBlob_run [OF s] assms(2) by (simp add: fresh_blob_def)
  moreover have "\<exists>b'\<in>set (blobs (snd (keep_blob now k q s))).
      blobs_id b' = blobs_id b \<and> blobs_size b' = blobs_size b \<and> blobs_retain_until b \<le> blobs_retain_until b'"
    if "b \<in> set (blobs s)"
    using retention_grows [OF db_invD(1) [OF s] that, of now k q] by blast
  ultimately show ?thesis by simp
qed

theorem keepBlob_refines_witness:
  "keepBlob 7000 (demo_keep demo_B ''blob-3'') 10 demo_db =
     map_prod Inr id (keep_blob 7000 (demo_keep demo_B ''blob-3'') 10 demo_db)"
proof -
  have "fresh_blob (demo_keep demo_B ''blob-3'') demo_db" by (simp add: demo_simps)
  from keepBlob_refines [OF demo_reachable this] show ?thesis by blast
qed

text \<open>
  C9: \<open>registerExecution\<close> implements its contract: a stranger is unknown, the
  first replica to name an execution opens its registration, each later one is
  listed after those before it, a repeat changes nothing, and the limits on
  registrations and on the replicas of one are kept.
\<close>

theorem registerExecution_refines:
  assumes "reachable s" and "rid \<notin> executions_registration_id ` set (replica_executions s)"
    and "1 \<le> policy_maxReplicas (reg_policy g)"
  shows "registerExecution rid nowMs g s = map_prod Inr id (register_execution rid (nowMs div 1000) g s)"
  by (rule registerExecution_run(1) [OF reachable_inv [OF assms(1)] assms(2,3)])

theorem registerExecution_refines_witness:
  "fst (registerExecution ''x2'' 7000 (demo_registration demo_C) demo_db) =
     Inr (ExecutionRegistered \<lparr>snap_executionId = ''run'', snap_registrationId = ''x1'', snap_createdTime = 6,
       snap_retainUntil = 66, snap_replicas = [demo_B, demo_C]\<rparr>)"
  using registerExecution_refines [OF demo_reachable, of "''x2''" "demo_registration demo_C" 7000]
  by (simp add: demo_simps snapshot_def)

text \<open>
  The identity is written once: whoever writes second is answered the first
  one's secrets, which stay.
\<close>

theorem identity_first_wins:
  "fst (initIdentity b (snd (initIdentity a s))) = fst (initIdentity a s) \<and>
   snd (initIdentity b (snd (initIdentity a s))) = snd (initIdentity a s)"
  by (simp add: initIdentity_def Let_def loadIdentity_def split: option.split)

section \<open>What ends\<close>

text \<open>
  C7: Deleting an account forgets everything of it: no replica, recipient,
  package, execution registration or delivery of it is left, each of its
  replicas is a stranger, and the blobs they held are recorded as ended.
\<close>

theorem account_forgotten:
  assumes "reachable s" and "bound_account a m s" and "deleteReplicaAccount a m s = (outcome, s')"
  shows "outcome = Inr True \<and> \<not> isReplicaAccount a s' \<and> replicas_of a s' = [] \<and> recipients_of a s' = [] \<and>
     executions_of a s' = [] \<and> a \<notin> packages_account_did ` set (replica_packages s') \<and>
     (r \<in> set (replicas_of a s) \<longrightarrow> replicaState (replicas_did r) s' = None \<and>
        waiting_deliveries t (replicas_did r) nxt s' = [] \<and>
        (\<forall>b\<in>set (blobs s). blobs_owner_did b = replicas_did r \<longrightarrow> blobs_id b \<in> blob_ids s' - blobs_id ` set (blobs s')))"
proof -
  note s = reachable_inv [OF assms(1)]
  have s': "s' = without_account a s" and o: "outcome = Inr True"
    using deleteReplicaAccount_bound [OF s assms(2)] assms(3) by simp_all
  have "replicaState (replicas_did r) s' = None" "waiting_deliveries t (replicas_did r) nxt s' = []"
    "\<forall>b\<in>set (blobs s). blobs_owner_did b = replicas_did r \<longrightarrow> blobs_id b \<in> blob_ids s' - blobs_id ` set (blobs s')"
    if r: "r \<in> set (replicas_of a s)"
  proof -
    have rr: "r \<in> set (replicas s)" "replicas_account_did r = a" using r by (auto simp: replicas_of_def)
    have du: "distinct (map replicas_did (replicas s))" "distinct (map blobs_id (blobs s))"
      using db_invD(1) [OF s] by (simp_all add: uniq_ok_def)
    have "replicas_did r \<notin> replicas_did ` set (replicas s')"
      using same_key_same_row [OF du(1) rr(1)] rr(2) by (auto simp: s' without_account_tables)
    then show "replicaState (replicas_did r) s' = None" by (simp add: replicaState_def row_of_None)
    have "deliveries_replica_did d \<noteq> replicas_did r" if "d \<in> set (replica_deliveries s')" for d
      using that r by (auto simp: s' without_account_tables cleared_mail_deliveries [OF s])
    then show "waiting_deliveries t (replicas_did r) nxt s' = []"
      by (auto simp: waiting_deliveries_def filter_empty_conv)
    show "\<forall>b\<in>set (blobs s). blobs_owner_did b = replicas_did r \<longrightarrow> blobs_id b \<in> blob_ids s' - blobs_id ` set (blobs s')"
    proof (intro ballI impI)
      fix b assume b: "b \<in> set (blobs s)" "blobs_owner_did b = replicas_did r"
      then have "account_blob a s b" using rr by (auto simp: account_blob_def)
      then have "blobs_id b \<notin> blobs_id ` set (blobs s')"
        using same_key_same_row [OF du(2) b(1)] by (auto simp: s' without_account_tables)
      moreover have "blobs_id b \<in> blob_ids s'" using b(1) by (simp add: s' blob_ids_def [of s])
      ultimately show "blobs_id b \<in> blob_ids s' - blobs_id ` set (blobs s')" by blast
    qed
  qed
  moreover have "\<not> isReplicaAccount a s'" "replicas_of a s' = []" "recipients_of a s' = []" "executions_of a s' = []"
    "a \<notin> packages_account_did ` set (replica_packages s')"
    by (auto simp: s' isReplicaAccount_def replicas_of_def recipients_of_def executions_of_def without_account_tables
        filter_empty_conv)
  ultimately show ?thesis using o by blast
qed

theorem account_forgotten_witness:
  "\<exists>s'. deleteReplicaAccount demo_A demo_mediator demo_db = (Inr True, s') \<and> \<not> isReplicaAccount demo_A s'"
proof -
  have b: "bound_account demo_A demo_mediator demo_db" by (simp add: demo_simps)
  obtain outcome s' where s': "deleteReplicaAccount demo_A demo_mediator demo_db = (outcome, s')" by force
  from account_forgotten [OF demo_reachable b s'] s' show ?thesis by blast
qed

text \<open>
  Deleting an account touches no other: the rosters, recipients, execution
  registrations and waiting mail of every other account, and all of ordinary
  mediation, are as they were.
\<close>

theorem account_deletion_isolated:
  assumes "reachable s" and "bound_account a m s" and "deleteReplicaAccount a m s = (outcome, s')" and "b \<noteq> a"
  shows "replicas_of b s' = replicas_of b s \<and> recipients_of b s' = recipients_of b s \<and>
     executions_of b s' = executions_of b s \<and>
     (r \<in> set (replicas_of b s) \<longrightarrow> waiting_deliveries t (replicas_did r) nxt s' = waiting_deliveries t (replicas_did r) nxt s) \<and>
     accounts s' = accounts s \<and> keylist s' = keylist s \<and> messages s' = messages s"
proof -
  note s = reachable_inv [OF assms(1)]
  have s': "s' = without_account a s"
    using deleteReplicaAccount_bound [OF s assms(2)] assms(3) by simp
  have "waiting_deliveries t (replicas_did r) nxt s' = waiting_deliveries t (replicas_did r) nxt s"
    if r: "r \<in> set (replicas_of b s)"
  proof -
    have rr: "r \<in> set (replicas s)" "replicas_account_did r = b" using r by (auto simp: replicas_of_def)
    let ?Q = "\<lambda>p. t < packages_expires_at p \<and> (case nxt of None \<Rightarrow> True | Some n \<Rightarrow> packages_next_did p = n)"
    let ?f = "\<lambda>p. map (\<lambda>d. (d, p)) (filter (\<lambda>d. deliveries_package_id d = packages_id p \<and>
        deliveries_replica_did d = replicas_did r) (replica_deliveries s))"
    have du: "distinct (map replicas_did (replicas s))" using db_invD(1) [OF s] by (simp add: uniq_ok_def)
    have "replicas_did r \<notin> replicas_did ` set (replicas_of a s)"
      using same_key_same_row [OF du rr(1)] rr(2) assms(4) by (auto simp: replicas_of_def)
    then have eq: "filter (\<lambda>d. deliveries_package_id d = packages_id p \<and> deliveries_replica_did d = replicas_did r)
        (replica_deliveries s') = filter (\<lambda>d. deliveries_package_id d = packages_id p \<and>
          deliveries_replica_did d = replicas_did r) (replica_deliveries s)" for p
      unfolding s' without_account_tables cleared_mail_deliveries [OF s] filter_filter
      by (intro filter_cong [OF refl]) metis
    have "waiting_deliveries t (replicas_did r) nxt s' =
        concat (map ?f (filter (\<lambda>p. packages_account_did p \<noteq> a) (filter ?Q (replica_packages s))))"
      unfolding waiting_deliveries_def eq by (simp add: s' without_account_tables conj_ac)
    also have "\<dots> = concat (map ?f (filter ?Q (replica_packages s)))"
    proof (rule concat_map_filter)
      fix p assume p: "p \<in> set (filter ?Q (replica_packages s))" "\<not> packages_account_did p \<noteq> a"
      show "?f p = []"
        using delivery_of_account(1) [OF s _ rr(1)] p rr(2) assms(4) by (auto simp: filter_empty_conv)
    qed
    finally show ?thesis by (simp add: waiting_deliveries_def)
  qed
  moreover have "replicas_of b s' = replicas_of b s" "recipients_of b s' = recipients_of b s"
    "executions_of b s' = executions_of b s"
    using assms(4) by (auto simp: s' replicas_of_def recipients_of_def executions_of_def without_account_tables
        intro!: filter_cong)
  ultimately show ?thesis by (simp add: s' without_account_tables)
qed

theorem account_deletion_isolated_witness:
  "\<exists>s'. snd (deleteReplicaAccount demo_A demo_mediator demo_db) = s' \<and> messages s' = messages demo_db"
proof -
  have b: "bound_account demo_A demo_mediator demo_db" by (simp add: demo_simps)
  have ne: "demo_B \<noteq> demo_A" by (simp add: demo_simps)
  obtain outcome s' where s': "deleteReplicaAccount demo_A demo_mediator demo_db = (outcome, s')" by force
  from account_deletion_isolated [OF demo_reachable b s' ne] s' show ?thesis by simp
qed

text \<open>
  Revoking an ordinary mediation ends its account, its bindings, its waiting
  mail and its blobs, whose ids are recorded for their bytes to be deleted,
  and leaves every other account's as they were.
\<close>

theorem revocation_ends:
  assumes "reachable s" and "revokeMediation d s = (outcome, s')"
  shows "outcome = Inr () \<and> \<not> isMediated d s' \<and> keylist_of d s' = [] \<and> waiting_messages t d s' = [] \<and>
     (isMediated d s \<longrightarrow> (\<forall>b\<in>set (blobs s). blobs_owner_did b = d \<longrightarrow> blobs_id b \<in> set (ended_blobs s'))) \<and>
     (e \<noteq> d \<longrightarrow> isMediated e s' = isMediated e s \<and> keylist_of e s' = keylist_of e s \<and>
        waiting_messages t e s' = waiting_messages t e s)"
proof -
  note s = reachable_inv [OF assms(1)]
  have s': "s' = revoked d s" and o: "outcome = Inr ()" using revokeMediation_run [OF s] assms(2) by simp_all
  have fk: "keylist_owner_did k \<in> accounts_did ` set (accounts s)" if "k \<in> set (keylist s)" for k
    by (rule fk_okD(1) [OF db_invD(2) [OF s] that])
  have fm: "messages_owner_did x \<in> accounts_did ` set (accounts s)" if "x \<in> set (messages s)" for x
    by (rule fk_okD(2) [OF db_invD(2) [OF s] that])
  have k: "keylist s' = filter (\<lambda>k. keylist_owner_did k \<noteq> d) (keylist s)"
    using fk by (force simp: s' revoked_def delete_accounts_def end_blobs_def delete_blobs_def Let_def intro!: filter_cong)
  have m: "messages s' = filter (\<lambda>x. messages_owner_did x \<noteq> d) (messages s)"
    using fm by (force simp: s' revoked_def delete_accounts_def end_blobs_def delete_blobs_def Let_def intro!: filter_cong)
  have a: "accounts s' = filter (\<lambda>x. accounts_did x \<noteq> d) (accounts s)"
    and b: "ended_blobs s' = ended_blobs s @ map blobs_id (filter (\<lambda>b. blobs_owner_did b = d \<and> isMediated d s) (blobs s))"
    by (simp_all add: s' revoked_def delete_accounts_def end_blobs_def delete_blobs_def Let_def)
  have "isMediated e s' = isMediated e s" "keylist_of e s' = keylist_of e s"
    "waiting_messages t e s' = waiting_messages t e s" if "e \<noteq> d"
    using that by (auto simp: isMediated_def keylist_of_def waiting_messages_def k m a intro!: filter_cong)
  moreover have "\<not> isMediated d s'" "keylist_of d s' = []" "waiting_messages t d s' = []"
    by (auto simp: isMediated_def keylist_of_def waiting_messages_def k m a filter_empty_conv)
  ultimately show ?thesis using o by (simp add: b)
qed

theorem revocation_ends_witness:
  "\<exists>s'. revokeMediation demo_alice demo_db = (Inr (), s') \<and> ''blob-1'' \<in> set (ended_blobs s')"
proof -
  obtain outcome s' where s': "revokeMediation demo_alice demo_db = (outcome, s')" by force
  from revocation_ends [OF demo_reachable s'] s' show ?thesis by (auto simp: demo_simps)
qed

text \<open>
  C8: No blob's bytes are orphaned and none is handed over twice: after any
  call, the id of every blob is still with the live or the ended ones, or the
  call just handed it to its caller, and then it is with neither.
\<close>

theorem blobs_accounted:
  assumes "reachable s" and "call_ok c s"
  shows "blob_ids s \<subseteq> blob_ids (snd (perform c s)) \<union> handed_over c s \<and>
     handed_over c s \<inter> blob_ids (snd (perform c s)) = {}"
  using blob_ids_after [OF reachable_inv [OF assms(1)]] handed_over_gone [OF reachable_inv [OF assms(1)]]
  unfolding perform_after [OF reachable_inv [OF assms(1)] assms(2)] by blast

theorem blobs_accounted_witness:
  "''blob-2'' \<in> blob_ids (snd (perform (RemoveReplica 7000 demo_A demo_mediator demo_B) demo_db))"
  using blobs_accounted [OF demo_reachable, of "RemoveReplica 7000 demo_A demo_mediator demo_B"]
  by (auto simp: demo_simps blob_ids_def [of "\<lparr>accounts = _, keylist = _, messages = _, blobs = _, blob_uploads = _,
     ended_blobs = _, replica_accounts = _, replicas = _, replica_recipients = _, replica_packages = _,
     replica_deliveries = _, replica_executions = _, replica_execution_registrations = _, identity = _\<rparr>"])

end
