(* ===== verification/Json.thy ===== *)
theory Json
  imports Complex_Main
begin

text \<open>
  A JSON value as the protocol handlers meet it: what a message's body holds
  and what a reply's body is. A number is the rational number it denotes (a
  parsed JSON number is finite); an object is its members in order, each name
  once. \<open>field\<close> reads a member as the code's property access does, \<open>None\<close>
  being \<open>undefined\<close>.
\<close>

datatype json =
    JNull
  | JBool bool
  | JNum rat
  | JStr string
  | JArr "json list"
  | JObj "(string \<times> json) list"

type_synonym json_object = "(string \<times> json) list"

definition field :: "json_object \<Rightarrow> string \<Rightarrow> json option" where
  "field members name = map_of members name"

fun as_string :: "json option \<Rightarrow> string option" where
  "as_string (Some (JStr s)) = Some s"
| "as_string _ = None"

fun as_object :: "json option \<Rightarrow> json_object option" where
  "as_object (Some (JObj ms)) = Some ms"
| "as_object _ = None"

fun as_array :: "json option \<Rightarrow> json list option" where
  "as_array (Some (JArr xs)) = Some xs"
| "as_array _ = None"

text \<open>\<open>Number.isSafeInteger(value)\<close>, and the integer.\<close>

definition max_safe :: int where
  "max_safe = 9007199254740991"

fun as_safe_integer :: "json option \<Rightarrow> int option" where
  "as_safe_integer (Some (JNum q)) =
     (if of_int \<lfloor>q\<rfloor> = q \<and> \<bar>\<lfloor>q\<rfloor>\<bar> \<le> max_safe then Some \<lfloor>q\<rfloor> else None)"
| "as_safe_integer _ = None"

definition JNat :: "nat \<Rightarrow> json" where
  "JNat n = JNum (of_nat n)"

definition JInt :: "int \<Rightarrow> json" where
  "JInt i = JNum (of_int i)"

text \<open>
  A page size asked for: a positive number, rounded down, at most the limit;
  the limit when it is anything else.
\<close>

fun page_limit :: "nat \<Rightarrow> json option \<Rightarrow> nat" where
  "page_limit most (Some (JNum q)) = (if 0 < q then min (nat \<lfloor>q\<rfloor>) most else most)"
| "page_limit most _ = most"

lemma page_limit_le: "page_limit most r \<le> most"
  by (induction most r rule: page_limit.induct) auto

lemma page_limit_zero: "page_limit most r = 0 \<longleftrightarrow> most = 0 \<or> (\<exists>q. r = Some (JNum q) \<and> 0 < q \<and> q < 1)"
  by (induction most r rule: page_limit.induct) (auto simp: floor_le_iff min_def less_le_not_le split: if_splits)

end
