(* ===== verification/Mediator_Inbox.thy ===== *)
theory Mediator_Inbox
  imports Mediator_Store Json
begin

text \<open>
  The queue a sender picks its mail up from, \<open>interface Inbox\<close> of
  \<^verbatim>\<open>mediator/src/protocols/pickup.ts\<close>: an object of three closures. The locale
  \<open>inbox\<close> is what pickup relies on: the three read and shorten one queue of
  messages. It is interpreted for the two inboxes the code builds, an ordinary
  account's messages and a replica's deliveries, and a client that asks for
  pages and acknowledges them is shown, once for both, to be handed the whole
  queue, in order, each message once.
\<close>

record Inbox =
  inbox_count :: "json option \<Rightarrow> db \<Rightarrow> nat"
  inbox_waiting :: "nat \<Rightarrow> json option \<Rightarrow> db \<Rightarrow> StoredMessage list"
  inbox_acknowledge :: "string list \<Rightarrow> db \<Rightarrow> (sql_error + unit) \<times> db"

definition forwardedTo :: "json option \<Rightarrow> did option" where
  "forwardedTo recipientDid = map_option canonicalDid (as_string recipientDid)"

definition replica_inbox :: "time \<Rightarrow> did \<Rightarrow> Inbox" where
  "replica_inbox now did =
     \<lparr>inbox_count = (\<lambda>recipientDid. deliveryCount now did (forwardedTo recipientDid)),
      inbox_waiting = (\<lambda>limit recipientDid. deliveriesFor now did limit (forwardedTo recipientDid)),
      inbox_acknowledge = acknowledgeDeliveries did\<rparr>"

definition account_inbox :: "time \<Rightarrow> did \<Rightarrow> Inbox" where
  "account_inbox now sender =
     \<lparr>inbox_count = (\<lambda>_. messageCount now sender),
      inbox_waiting = (\<lambda>limit _. messagesFor now sender limit),
      inbox_acknowledge = (\<lambda>ids s. case deleteMessages sender ids s of (r, s') \<Rightarrow> (map_sum id (\<lambda>_. ()) r, s'))\<rparr>"

text \<open>A client: it asks for a page, acknowledges what it was handed, and asks again, for some rounds.\<close>

fun drain :: "Inbox \<Rightarrow> nat \<Rightarrow> json option \<Rightarrow> nat \<Rightarrow> db \<Rightarrow> StoredMessage list \<times> db" where
  "drain box limit r 0 s = ([], s)"
| "drain box limit r (Suc rounds) s =
     (let page = inbox_waiting box limit r s in
      if page = [] then ([], s)
      else let s' = snd (inbox_acknowledge box (map stored_id page) s);
               (rest, s'') = drain box limit r rounds s'
           in (page @ rest, s''))"

locale inbox =
  fixes box :: Inbox and queue :: "json option \<Rightarrow> db \<Rightarrow> StoredMessage list"
  assumes count_law: "db_inv s \<Longrightarrow> inbox_count box r s = length (queue r s)"
    and waiting_law: "db_inv s \<Longrightarrow> inbox_waiting box n r s = take n (queue r s)"
    and distinct_law: "db_inv s \<Longrightarrow> distinct (map stored_id (queue r s))"
    and acknowledge_law: "db_inv s \<Longrightarrow> \<exists>s'. inbox_acknowledge box ids s = (Inr (), s') \<and> db_inv s' \<and>
      (\<forall>r. queue r s' = filter (\<lambda>m. stored_id m \<notin> set ids) (queue r s))"
begin

lemma acknowledge_page:
  assumes "db_inv s"
  shows "\<exists>s'. inbox_acknowledge box (map stored_id (take n (queue r s))) s = (Inr (), s') \<and> db_inv s' \<and>
     queue r s' = drop n (queue r s)"
proof -
  obtain s' where s': "inbox_acknowledge box (map stored_id (take n (queue r s))) s = (Inr (), s')" "db_inv s'"
    "queue r s' = filter (\<lambda>m. stored_id m \<notin> set (map stored_id (take n (queue r s)))) (queue r s)"
    using acknowledge_law [OF assms] by blast
  have d: "distinct (map stored_id (take n (queue r s) @ drop n (queue r s)))"
    using distinct_law [OF assms] by simp
  then have "filter (\<lambda>m. stored_id m \<notin> set (map stored_id (take n (queue r s)))) (drop n (queue r s)) = drop n (queue r s)"
    unfolding map_append distinct_append by (intro filter_True) fastforce
  moreover have "filter (\<lambda>m. stored_id m \<notin> set (map stored_id (take n (queue r s)))) (take n (queue r s)) = []"
    by (auto simp: filter_empty_conv)
  ultimately have "queue r s' = drop n (queue r s)"
    unfolding s'(3) by (metis append_Nil append_take_drop_id filter_append)
  with s'(1,2) show ?thesis by blast
qed

lemma drains:
  assumes "db_inv s" and "0 < n" and "length (queue r s) \<le> rounds * n"
  shows "fst (drain box n r rounds s) = queue r s \<and> queue r (snd (drain box n r rounds s)) = [] \<and>
     db_inv (snd (drain box n r rounds s))"
  using assms(1,3)
proof (induction rounds arbitrary: s)
  case (Suc rounds)
  show ?case
  proof (cases "queue r s = []")
    case True
    then show ?thesis using Suc.prems(1) by (simp add: waiting_law)
  next
    case False
    obtain s' where s': "inbox_acknowledge box (map stored_id (take n (queue r s))) s = (Inr (), s')" "db_inv s'"
      "queue r s' = drop n (queue r s)"
      using acknowledge_page [OF Suc.prems(1)] by blast
    have "length (queue r s') \<le> rounds * n" using Suc.prems(2) by (simp add: s'(3))
    note IH = Suc.IH [OF s'(2) this]
    have page: "inbox_waiting box n r s = take n (queue r s)" by (rule waiting_law [OF Suc.prems(1)])
    have "take n (queue r s) \<noteq> []" using False assms(2) by simp
    then have "drain box n r (Suc rounds) s =
        (take n (queue r s) @ fst (drain box n r rounds s'), snd (drain box n r rounds s'))"
      by (simp add: page s'(1) Let_def case_prod_beta)
    then show ?thesis using IH by (simp add: s'(3))
  qed
qed simp

lemma unknown_ids_ignored:
  assumes "db_inv s" and "set ids \<inter> stored_id ` set (queue r s) = {}"
  shows "\<exists>s'. inbox_acknowledge box ids s = (Inr (), s') \<and> queue r s' = queue r s"
proof -
  have "filter (\<lambda>m. stored_id m \<notin> set ids) (queue r s) = queue r s"
    using assms(2) by (intro filter_True) auto
  then show ?thesis using acknowledge_law [OF assms(1), of ids] by metis
qed

end

section \<open>An ordinary account's inbox\<close>

definition account_queue :: "time \<Rightarrow> did \<Rightarrow> json option \<Rightarrow> db \<Rightarrow> StoredMessage list" where
  "account_queue now sender _ s = map stored_message (sort_key messages_created_at (waiting_messages now sender s))"

interpretation account: inbox "account_inbox now sender" "account_queue now sender" for now sender
proof unfold_locales
  fix s r n ids
  assume s: "db_inv s"
  show "inbox_count (account_inbox now sender) r s = length (account_queue now sender r s)"
    by (simp add: account_inbox_def account_queue_def messageCount_def)
  show "inbox_waiting (account_inbox now sender) n r s = take n (account_queue now sender r s)"
    by (simp add: account_inbox_def account_queue_def messagesFor_def take_map)
  have id: "stored_id (stored_message m) = messages_id m" for m by (simp add: stored_message_def)
  have "distinct (map messages_id (sort_key messages_created_at (waiting_messages now sender s)))"
    using db_invD(1) [OF s] by (simp add: uniq_ok_def distinct_map waiting_messages_def inj_on_def)
  then show "distinct (map stored_id (account_queue now sender r s))"
    by (simp add: account_queue_def comp_def id)
  obtain gone where g: "deleteMessages sender ids s = (Inr gone, without_messages sender (set ids) s)"
    and inv: "db_inv (without_messages sender (set ids) s)"
    by (rule deleteMessages_run [OF s])
  have "waiting_messages now sender (without_messages sender (set ids) s) =
      filter (\<lambda>m. messages_id m \<notin> set ids) (waiting_messages now sender s)"
    by (auto simp: waiting_messages_def without_messages_def intro!: filter_cong)
  then have "account_queue now sender r (without_messages sender (set ids) s) =
      filter (\<lambda>m. stored_id m \<notin> set ids) (account_queue now sender r s)" for r
    by (simp add: account_queue_def filter_map comp_def id filter_sort)
  then show "\<exists>s'. inbox_acknowledge (account_inbox now sender) ids s = (Inr (), s') \<and> db_inv s' \<and>
      (\<forall>r. account_queue now sender r s' = filter (\<lambda>m. stored_id m \<notin> set ids) (account_queue now sender r s))"
    using g inv by (simp add: account_inbox_def)
qed

section \<open>A replica's inbox\<close>

definition replica_queue :: "time \<Rightarrow> did \<Rightarrow> json option \<Rightarrow> db \<Rightarrow> StoredMessage list" where
  "replica_queue now did r s = map delivered_message (sort_key (\<lambda>dp. packages_created_at (snd dp))
     (waiting_deliveries now did (forwardedTo r) s))"

lemma waiting_deliveries_distinct:
  assumes "uniq_ok s"
  shows "distinct (map (\<lambda>dp. deliveries_id (fst dp)) (waiting_deliveries now did nxt s))"
proof -
  have ds: "distinct (map deliveries_id (replica_deliveries s))" and ps: "distinct (map packages_id (replica_packages s))"
    using assms by (simp_all add: uniq_ok_def)
  let ?f = "\<lambda>p. filter (\<lambda>d. deliveries_package_id d = packages_id p \<and> deliveries_replica_did d = did) (replica_deliveries s)"
  have ids: "map (\<lambda>dp. deliveries_id (fst dp)) (concat (map (\<lambda>p. map (\<lambda>d. (d, p)) (?f p)) qs)) =
      concat (map (\<lambda>p. map deliveries_id (?f p)) qs)" for qs
    by (induction qs) (simp_all add: comp_def)
  have "distinct (concat (map (\<lambda>p. map deliveries_id (?f p)) qs))" if "distinct (map packages_id qs)" for qs
    using that
  proof (induction qs)
    case (Cons q qs)
    have "set (map deliveries_id (?f q)) \<inter> set (concat (map (\<lambda>p. map deliveries_id (?f p)) qs)) = {}"
    proof (rule ccontr)
      assume "\<not> ?thesis"
      then obtain d d' p where "d \<in> set (replica_deliveries s)" "d' \<in> set (replica_deliveries s)"
        "deliveries_id d = deliveries_id d'" "p \<in> set qs"
        "deliveries_package_id d = packages_id q" "deliveries_package_id d' = packages_id p"
        by auto
      moreover from this have "packages_id q = packages_id p" using same_key_same_row [OF ds] by metis
      ultimately show False using Cons.prems by force
    qed
    then show ?case using Cons ds by simp
  qed simp
  from this [OF distinct_map_filter_rows [OF ps]] show ?thesis unfolding waiting_deliveries_def ids .
qed

interpretation replica: inbox "replica_inbox now did" "replica_queue now did" for now did
proof unfold_locales
  fix s r n ids
  assume s: "db_inv s"
  show "inbox_count (replica_inbox now did) r s = length (replica_queue now did r s)"
    by (simp add: replica_inbox_def replica_queue_def deliveryCount_def)
  show "inbox_waiting (replica_inbox now did) n r s = take n (replica_queue now did r s)"
    by (simp add: replica_inbox_def replica_queue_def deliveriesFor_def take_map)
  have id: "stored_id (delivered_message dp) = deliveries_id (fst dp)" for dp by (simp add: delivered_message_def)
  let ?q = "\<lambda>r s. sort_key (\<lambda>dp. packages_created_at (snd dp)) (waiting_deliveries now did (forwardedTo r) s)"
  have "distinct (map (\<lambda>dp. deliveries_id (fst dp)) (?q r s))"
    using waiting_deliveries_distinct [OF db_invD(1) [OF s]] by (simp add: distinct_map)
  then show "distinct (map stored_id (replica_queue now did r s))"
    by (simp add: replica_queue_def comp_def id)
  let ?w = "\<lambda>d. deliveries_replica_did d = did \<and> deliveries_id d \<in> set ids"
  have "filter (\<lambda>dp. \<not> ?w (fst dp)) (waiting_deliveries now did nxt s) =
      filter (\<lambda>dp. deliveries_id (fst dp) \<notin> set ids) (waiting_deliveries now did nxt s)" for nxt
    using waiting_deliveries_replica by (intro filter_cong) auto
  then have "replica_queue now did r (end_deliveries ?w s) =
      filter (\<lambda>m. stored_id m \<notin> set ids) (replica_queue now did r s)" for r
    by (simp add: replica_queue_def filter_map comp_def id filter_sort waiting_end_deliveries [OF s])
  then show "\<exists>s'. inbox_acknowledge (replica_inbox now did) ids s = (Inr (), s') \<and> db_inv s' \<and>
      (\<forall>r. replica_queue now did r s' = filter (\<lambda>m. stored_id m \<notin> set ids) (replica_queue now did r s))"
    using acknowledgeDeliveries_run [OF s, of did ids] end_deliveries_inv [OF s] by (simp add: replica_inbox_def)
qed

end
