(* ===== verification/Utf8.thy ===== *)
theory Utf8
  imports Main
begin

text \<open>
  Well-formed UTF-8, as \<open>TextDecoder\<close> with \<open>fatal\<close> accepts it. A text is its
  UTF-8 bytes, so decoding one is checking them.
\<close>

text \<open>\<open>TextDecoder("utf-8", { fatal: true })\<close>: well-formed UTF-8 or nothing, less a leading byte order mark.\<close>

definition in_range :: "nat \<Rightarrow> nat \<Rightarrow> char \<Rightarrow> bool" where
  "in_range lo hi c = (lo \<le> (of_char c :: nat) \<and> (of_char c :: nat) \<le> hi)"

fun utf8_ok :: "string \<Rightarrow> bool" where
  "utf8_ok [] = True"
| "utf8_ok (a # rest) =
     (if in_range 0 127 a then utf8_ok rest
      else case rest of [] \<Rightarrow> False | b # rest2 \<Rightarrow>
        if in_range 194 223 a then in_range 128 191 b \<and> utf8_ok rest2
        else case rest2 of [] \<Rightarrow> False | c # rest3 \<Rightarrow>
          if in_range 224 239 a
          then in_range (if in_range 224 224 a then 160 else 128) (if in_range 237 237 a then 159 else 191) b \<and>
               in_range 128 191 c \<and> utf8_ok rest3
          else case rest3 of [] \<Rightarrow> False | d # rest4 \<Rightarrow>
            in_range 240 244 a \<and>
            in_range (if in_range 240 240 a then 144 else 128) (if in_range 244 244 a then 143 else 191) b \<and>
            in_range 128 191 c \<and> in_range 128 191 d \<and> utf8_ok rest4)"

definition decode_utf8 :: "string \<Rightarrow> string option" where
  "decode_utf8 bytes =
     (if \<not> utf8_ok bytes then None
      else Some (if take 3 bytes = map char_of [239, 187, 191 :: nat] then drop 3 bytes else bytes))"

end
