(* ===== verification/Did_Url.thy ===== *)
theory Did_Url
  imports Did_Peer4
begin

text \<open>
  The spellings of a DID and of a DID URL, \<^verbatim>\<open>packages/did-peer/src/did-url.ts\<close>: its
  two regular expressions as recognisers. A character escaped as \<open>%XX\<close> counts
  as one, so \<open>spelled\<close> reads a text as a run of allowed characters and escapes.
\<close>

text \<open>\<open>t.startsWith(pre)\<close>.\<close>

definition starts_with :: "string \<Rightarrow> string \<Rightarrow> bool" where
  "starts_with t pre = (take (length pre) t = pre)"

definition lower_or_digit :: "char \<Rightarrow> bool" where
  "lower_or_digit c = (c \<in> set ''abcdefghijklmnopqrstuvwxyz0123456789'')"

definition id_char :: "char \<Rightarrow> bool" where
  "id_char c = (c \<in> set ''ABCDEFGHIJKLMNOPQRSTUVWXYZabcdefghijklmnopqrstuvwxyz0123456789._-'')"

definition p_char :: "char \<Rightarrow> bool" where
  "p_char c = (id_char c \<or> c \<in> set ''~!$&'()*+,;=:@'')"

definition hex_digit :: "char \<Rightarrow> bool" where
  "hex_digit c = (c \<in> set ''0123456789ABCDEFabcdef'')"

fun spelled :: "(char \<Rightarrow> bool) \<Rightarrow> string \<Rightarrow> bool" where
  "spelled ok [] = True"
| "spelled ok (c # t) =
     (if c = CHR ''%'' then (case t of a # b # rest \<Rightarrow> hex_digit a \<and> hex_digit b \<and> spelled ok rest | _ \<Rightarrow> False)
      else ok c \<and> spelled ok t)"

text \<open>\<open>did:\<close>, a method name, then colon-separated segments of which the last is not empty.\<close>

definition isDid :: "string \<Rightarrow> bool" where
  "isDid t =
     (take 4 t = ''did:'' \<and>
      (let method = takeWhile (\<lambda>c. c \<noteq> CHR '':'') (drop 4 t);
           rest = dropWhile (\<lambda>c. c \<noteq> CHR '':'') (drop 4 t) in
       method \<noteq> [] \<and> list_all lower_or_digit method \<and> 2 \<le> length rest \<and>
       spelled (\<lambda>c. id_char c \<or> c = CHR '':'') (tl rest) \<and> last rest \<noteq> CHR '':''))"

definition delimiter :: "char \<Rightarrow> bool" where
  "delimiter c = (c \<in> set ''/?#'')"

definition splitDidUrl :: "string \<Rightarrow> string \<times> string" where
  "splitDidUrl url = (takeWhile (\<lambda>c. \<not> delimiter c) url, dropWhile (\<lambda>c. \<not> delimiter c) url)"

definition path_ok :: "string \<Rightarrow> bool" where
  "path_ok t = (t = [] \<or> hd t = CHR ''/'' \<and> spelled (\<lambda>c. p_char c \<or> c = CHR ''/'') t)"

definition query_ok :: "string \<Rightarrow> bool" where
  "query_ok = spelled (\<lambda>c. p_char c \<or> c = CHR ''/'' \<or> c = CHR ''?'')"

definition fragment_ok :: "string \<Rightarrow> bool" where
  "fragment_ok t = (t = [] \<or> query_ok (tl t))"

text \<open>A DID, a path, a query introduced by the first \<open>?\<close> before any \<open>#\<close>, and a fragment.\<close>

definition isDidUrl :: "string \<Rightarrow> bool" where
  "isDidUrl url =
     (let (did, rest) = splitDidUrl url;
          hier = takeWhile (\<lambda>c. c \<noteq> CHR ''#'') rest;
          fragment = dropWhile (\<lambda>c. c \<noteq> CHR ''#'') rest;
          path = takeWhile (\<lambda>c. c \<noteq> CHR ''?'') hier;
          query = dropWhile (\<lambda>c. c \<noteq> CHR ''?'') hier in
      isDid did \<and> path_ok path \<and> (query = [] \<or> query_ok (tl query)) \<and> fragment_ok fragment)"

lemma splitDidUrl_append: "fst (splitDidUrl url) @ snd (splitDidUrl url) = url"
  by (simp add: splitDidUrl_def)

lemma isDidUrl_did: "isDidUrl url \<Longrightarrow> isDid (fst (splitDidUrl url))"
  by (simp add: isDidUrl_def split_beta Let_def)

lemma spelled_chars: "spelled ok t \<Longrightarrow> c \<in> set t \<Longrightarrow> ok c \<or> c = CHR ''%'' \<or> hex_digit c"
  by (induction ok t rule: spelled.induct) (auto split: if_splits list.splits)

lemma isDid_no_delimiter:
  assumes "isDid t" and "c \<in> set t"
  shows "\<not> delimiter c"
proof -
  let ?m = "takeWhile (\<lambda>c. c \<noteq> CHR '':'') (drop 4 t)" and ?r = "dropWhile (\<lambda>c. c \<noteq> CHR '':'') (drop 4 t)"
  have parts: "t = ''did:'' @ ?m @ ?r" using assms(1) append_take_drop_id [of 4 t] by (simp add: isDid_def Let_def)
  have m: "list_all lower_or_digit ?m" and r: "spelled (\<lambda>c. id_char c \<or> c = CHR '':'') (tl ?r)" and "2 \<le> length ?r"
    using assms(1) by (simp_all add: isDid_def Let_def)
  then have "?r \<noteq> []" by (metis list.size(3) not_numeral_le_zero)
  from hd_dropWhile [OF this] have "hd ?r = CHR '':''" by simp
  with \<open>?r \<noteq> []\<close> have r': "?r = CHR '':'' # tl ?r" by (metis list.collapse)
  have "c \<in> set ''did:'' \<or> c \<in> set ?m \<or> c = CHR '':'' \<or> c \<in> set (tl ?r)"
    using assms(2) parts r' by (metis Un_iff set_append set_ConsD)
  then show ?thesis
  proof (elim disjE)
    assume "c \<in> set ?m"
    then have "lower_or_digit c" using m by (simp only: list_all_iff)
    then show ?thesis by (auto simp: lower_or_digit_def delimiter_def)
  next
    assume "c \<in> set (tl ?r)"
    then have "id_char c \<or> c = CHR '':'' \<or> c = CHR ''%'' \<or> hex_digit c" using spelled_chars [OF r] by blast
    then show ?thesis by (auto simp: id_char_def hex_digit_def delimiter_def)
  qed (auto simp: delimiter_def)
qed

text \<open>A DID's own URL with a fragment or query splits into the DID and that.\<close>

lemma splitDidUrl_relative:
  assumes "isDid did" and "delimiter c"
  shows "splitDidUrl (did @ c # rest) = (did, c # rest)"
  using isDid_no_delimiter [OF assms(1)] assms(2)
  by (simp add: splitDidUrl_def takeWhile_append dropWhile_append)

end
