(* ===== verification/Results.thy ===== *)
theory Results
  imports Main
begin

text \<open>
  Code that may throw, as a value of a sum: \<open>Inl\<close> what was thrown, \<open>Inr\<close> what
  was returned. \<open>and_then\<close> goes on unless something was thrown, \<open>each\<close> goes
  through a list in order, \<open>caught\<close> is a \<open>try\<close> that answers \<open>null\<close>.
\<close>

fun and_then :: "'e + 'a \<Rightarrow> ('a \<Rightarrow> 'e + 'b) \<Rightarrow> 'e + 'b" where
  "and_then (Inl e) f = Inl e"
| "and_then (Inr a) f = f a"

fun each :: "('a \<Rightarrow> 'e + 'b) \<Rightarrow> 'a list \<Rightarrow> 'e + 'b list" where
  "each f [] = Inr []"
| "each f (x # xs) = and_then (f x) (\<lambda>y. and_then (each f xs) (\<lambda>ys. Inr (y # ys)))"

text \<open>A loop that carries a state through a list, left by the first throw.\<close>

fun sweep :: "('s \<Rightarrow> 'a \<Rightarrow> 'e + 's) \<Rightarrow> 's \<Rightarrow> 'a list \<Rightarrow> 'e + 's" where
  "sweep f s [] = Inr s"
| "sweep f s (x # xs) = and_then (f s x) (\<lambda>s'. sweep f s' xs)"

definition caught :: "'e + 'a \<Rightarrow> 'a option" where
  "caught r = (case r of Inl e \<Rightarrow> None | Inr a \<Rightarrow> Some a)"

definition or_throw :: "'a option \<Rightarrow> 'e \<Rightarrow> 'e + 'a" where
  "or_throw a e = (case a of None \<Rightarrow> Inl e | Some a \<Rightarrow> Inr a)"

lemma and_then_Inr [simp]: "and_then r f = Inr b \<longleftrightarrow> (\<exists>a. r = Inr a \<and> f a = Inr b)"
  by (cases r) auto

lemma caught_Some [simp]: "caught r = Some a \<longleftrightarrow> r = Inr a"
  by (cases r) (auto simp: caught_def)

lemma or_throw_Inr [simp]: "or_throw a e = Inr b \<longleftrightarrow> a = Some b"
  by (cases a) (auto simp: or_throw_def)

lemma each_Inr: "each f xs = Inr ys \<longleftrightarrow> list_all2 (\<lambda>x y. f x = Inr y) xs ys"
  by (induction xs arbitrary: ys) (auto simp: list_all2_Cons1)

text \<open>What each turn of a loop keeps, the loop keeps.\<close>

lemma sweep_invariant:
  assumes "sweep f s xs = Inr s'" and "P s"
    and "\<And>s x t. P s \<Longrightarrow> x \<in> set xs \<Longrightarrow> f s x = Inr t \<Longrightarrow> P t"
  shows "P s'"
  using assms
proof (induction xs arbitrary: s)
  case (Cons x xs)
  obtain t where t: "f s x = Inr t" "sweep f t xs = Inr s'" using Cons.prems(1) by auto
  show ?case
  proof (rule Cons.IH [OF t(2)])
    show "P t" by (rule Cons.prems(3) [of s x]) (use Cons.prems(2) t(1) in simp_all)
    show "P v" if "P u" "y \<in> set xs" "f u y = Inr v" for u y v by (rule Cons.prems(3) [of u y]) (use that in simp_all)
  qed
qed simp

end
