(* ===== verification/Did_Document.thy ===== *)
theory Did_Document
  imports Did_Url Json Results
begin

text \<open>
  What a DID document authorizes, \<^verbatim>\<open>packages/did-peer/src/document.ts\<close>. What the
  package takes from the platform and from its dependencies is the record
  \<open>codec\<close>: SHA-256, base58, the JSON text of a value and the value of a text,
  the decoding of bytes to text, and \<open>canonicalize\<close>, which may throw. A text
  is its UTF-8 bytes. A \<open>Map\<close> is its entries in insertion order.
\<close>

record codec =
  sha256 :: "string \<Rightarrow> string"
  bs58_encode :: "string \<Rightarrow> string"
  bs58_decode :: "string \<Rightarrow> string option"
  json_text :: "json \<Rightarrow> string"
  json_of_text :: "string \<Rightarrow> json option"
  text_of_bytes :: "string \<Rightarrow> string"
  canonicalize :: "json \<Rightarrow> string option"

datatype did_error =
  PeerDID4Error | PeerDID2Error | DIDDocumentError | DIDDocConversionError | SyntaxError | Base58Error

type_synonym 'a did_result = "did_error + 'a"

text \<open>\<open>{ ...members, [name]: value }\<close>: a member already there keeps its place.\<close>

definition put :: "json_object \<Rightarrow> string \<Rightarrow> json \<Rightarrow> json_object" where
  "put members name v =
     (if name \<in> fst ` set members then map (\<lambda>(n, w). if n = name then (n, v) else (n, w)) members
      else members @ [(name, v)])"

lemma map_of_replace:
  "map_of (map (\<lambda>(n, w). if n = name then (n, v) else (n, w)) ms) other =
     (if other = name then (if name \<in> fst ` set ms then Some v else None) else map_of ms other)"
proof (induction ms)
  case (Cons m ms)
  then show ?case by (cases m; cases "other = name") simp_all
qed simp

lemma field_put [simp]: "field (put ms name v) other = (if other = name then Some v else field ms other)"
proof (cases "name \<in> fst ` set ms")
  case False
  then have "map_of ms name = None" by (simp add: map_of_eq_None_iff)
  with False show ?thesis by (simp add: put_def field_def map_add_def split: option.split)
qed (simp add: put_def field_def map_of_replace)

definition VERIFICATION_RELATIONSHIPS :: "string list" where
  "VERIFICATION_RELATIONSHIPS =
     [''authentication'', ''assertionMethod'', ''keyAgreement'', ''capabilityDelegation'', ''capabilityInvocation'']"

definition documentId :: "json_object \<Rightarrow> string did_result" where
  "documentId document =
     (case as_string (field document ''id'') of
        Some i \<Rightarrow> if isDid i then Inr i else Inl DIDDocumentError
      | None \<Rightarrow> Inl DIDDocumentError)"

definition relative :: "string \<Rightarrow> bool" where
  "relative reference = (reference \<noteq> [] \<and> (hd reference = CHR ''#'' \<or> hd reference = CHR ''?''))"

definition resolved :: "string \<Rightarrow> string \<Rightarrow> string" where
  "resolved reference base = (if relative reference then base @ reference else reference)"

definition absolute :: "json option \<Rightarrow> string \<Rightarrow> string did_result" where
  "absolute reference base =
     (case as_string reference of
        None \<Rightarrow> Inl DIDDocumentError
      | Some r \<Rightarrow> let url = resolved r base in if isDidUrl url then Inr url else Inl DIDDocumentError)"

definition entriesOf :: "json_object \<Rightarrow> string \<Rightarrow> json list did_result" where
  "entriesOf document member =
     (case field document member of
        None \<Rightarrow> Inr []
      | Some (JArr entries) \<Rightarrow> Inr entries
      | Some _ \<Rightarrow> Inl DIDDocumentError)"

definition comparable :: "codec \<Rightarrow> json_object \<Rightarrow> string did_result" where
  "comparable c d = or_throw (canonicalize c (JObj d)) DIDDocumentError"

type_synonym methods = "(string \<times> json_object) list"

text \<open>The closure \<open>define\<close> of \<open>definedMethods\<close>.\<close>

definition define_method :: "codec \<Rightarrow> string \<Rightarrow> methods \<Rightarrow> json_object \<Rightarrow> methods did_result" where
  "define_method c base methods entry =
     and_then (absolute (field entry ''id'') base) (\<lambda>i.
       let d = put entry ''id'' (JStr i) in
       case map_of methods i of
         None \<Rightarrow> Inr (methods @ [(i, d)])
       | Some known \<Rightarrow>
           and_then (comparable c known) (\<lambda>k. and_then (comparable c d) (\<lambda>n.
           if k \<noteq> n then Inl DIDDocumentError else Inr methods)))"

definition define_listed :: "codec \<Rightarrow> string \<Rightarrow> methods \<Rightarrow> json \<Rightarrow> methods did_result" where
  "define_listed c base methods entry =
     (case as_object (Some entry) of None \<Rightarrow> Inl DIDDocumentError | Some e \<Rightarrow> define_method c base methods e)"

definition define_embedded :: "codec \<Rightarrow> string \<Rightarrow> methods \<Rightarrow> json \<Rightarrow> methods did_result" where
  "define_embedded c base methods entry =
     (case as_object (Some entry) of None \<Rightarrow> Inr methods | Some e \<Rightarrow> define_method c base methods e)"

definition define_relationship :: "codec \<Rightarrow> string \<Rightarrow> json_object \<Rightarrow> methods \<Rightarrow> string \<Rightarrow> methods did_result" where
  "define_relationship c base document methods relationship =
     and_then (entriesOf document relationship) (\<lambda>entries. sweep (define_embedded c base) methods entries)"

definition definedMethods :: "codec \<Rightarrow> json_object \<Rightarrow> methods did_result" where
  "definedMethods c document =
     and_then (documentId document) (\<lambda>base.
     and_then (entriesOf document ''verificationMethod'') (\<lambda>listed.
     and_then (sweep (define_listed c base) [] listed) (\<lambda>methods.
     sweep (define_relationship c base document) methods VERIFICATION_RELATIONSHIPS)))"

text \<open>A \<open>Set\<close> in insertion order.\<close>

definition add_once :: "'a list \<Rightarrow> 'a \<Rightarrow> 'a list" where
  "add_once xs x = (if x \<in> set xs then xs else xs @ [x])"

definition authorize_entry :: "string \<Rightarrow> methods \<Rightarrow> string list \<Rightarrow> json \<Rightarrow> string list did_result" where
  "authorize_entry base defined ids entry =
     (case entry of
        JStr r \<Rightarrow>
          and_then (absolute (Some (JStr r)) base) (\<lambda>i.
          if fst (splitDidUrl i) = base \<and> i \<notin> fst ` set defined then Inl DIDDocumentError
          else Inr (add_once ids i))
      | JObj e \<Rightarrow> and_then (absolute (field e ''id'') base) (\<lambda>i. Inr (add_once ids i))
      | _ \<Rightarrow> Inl DIDDocumentError)"

definition authorizedMethodIds :: "codec \<Rightarrow> json_object \<Rightarrow> string \<Rightarrow> string list did_result" where
  "authorizedMethodIds c document relationship =
     and_then (documentId document) (\<lambda>base.
     and_then (definedMethods c document) (\<lambda>defined.
     and_then (entriesOf document relationship) (\<lambda>entries.
     sweep (authorize_entry base defined) [] entries)))"

definition definedMethod :: "codec \<Rightarrow> json_object \<Rightarrow> string \<Rightarrow> json_object did_result" where
  "definedMethod c document i =
     and_then (definedMethods c document) (\<lambda>methods. or_throw (map_of methods i) DIDDocumentError)"

text \<open>\<open>/^[A-Za-z][A-Za-z0-9+.-]*:/\<close>.\<close>

definition has_scheme :: "string \<Rightarrow> bool" where
  "has_scheme t =
     (let name = takeWhile (\<lambda>c. c \<noteq> CHR '':'') t;
          letters = ''ABCDEFGHIJKLMNOPQRSTUVWXYZabcdefghijklmnopqrstuvwxyz'' in
      CHR '':'' \<in> set t \<and> name \<noteq> [] \<and> hd name \<in> set letters \<and>
      list_all (\<lambda>c. c \<in> set letters \<or> c \<in> set ''0123456789+.-'') name)"

definition service_entry :: "string \<Rightarrow> string list \<Rightarrow> json \<Rightarrow> string list did_result" where
  "service_entry base ids service =
     (case as_object (Some service) of
        None \<Rightarrow> Inl DIDDocumentError
      | Some e \<Rightarrow>
          (case as_string (field e ''id'') of
             None \<Rightarrow> Inl DIDDocumentError
           | Some reference \<Rightarrow>
               let i = resolved reference base in
               if \<not> has_scheme i \<or> i \<in> set ids then Inl DIDDocumentError else Inr (ids @ [i])))"

definition serviceIds :: "json_object \<Rightarrow> string list did_result" where
  "serviceIds document =
     and_then (documentId document) (\<lambda>base.
     and_then (entriesOf document ''service'') (\<lambda>entries. sweep (service_entry base) [] entries))"

section \<open>What is defined\<close>

text \<open>Every method under its own absolute ID, one method an ID.\<close>

definition methods_ok :: "methods \<Rightarrow> bool" where
  "methods_ok methods \<longleftrightarrow> distinct (map fst methods) \<and>
     (\<forall>(i, d) \<in> set methods. isDidUrl i \<and> field d ''id'' = Some (JStr i))"

lemma absolute_url: "absolute r base = Inr i \<Longrightarrow> isDidUrl i"
  by (auto simp: absolute_def Let_def split: option.splits if_splits)

lemma define_method_ok:
  assumes "define_method c base methods e = Inr methods'" and "methods_ok methods"
  shows "methods_ok methods'" and "set (map fst methods) \<subseteq> set (map fst methods')"
    and "\<exists>i. absolute (field e ''id'') base = Inr i \<and> i \<in> fst ` set methods'"
proof -
  obtain i where i: "absolute (field e ''id'') base = Inr i" using assms(1) by (auto simp: define_method_def)
  have new: "methods' = methods @ [(i, put e ''id'' (JStr i))] \<and> i \<notin> fst ` set methods \<or>
      methods' = methods \<and> i \<in> fst ` set methods"
    using assms(1) i
    by (auto simp: define_method_def Let_def map_of_eq_None_iff dest!: map_of_SomeD intro: rev_image_eqI
        split: option.splits if_splits)
  then show "methods_ok methods'" using assms(2) absolute_url [OF i] by (auto simp: methods_ok_def)
  show "set (map fst methods) \<subseteq> set (map fst methods')" using new by auto
  show "\<exists>i. absolute (field e ''id'') base = Inr i \<and> i \<in> fst ` set methods'" using new i by auto
qed

text \<open>A loop of definitions: what was defined stays, and what an entry embeds is defined.\<close>

definition embeds :: "string \<Rightarrow> json list \<Rightarrow> string set \<Rightarrow> bool" where
  "embeds base entries ids \<longleftrightarrow>
     (\<forall>e. JObj e \<in> set entries \<longrightarrow> (\<exists>i\<in>ids. absolute (field e ''id'') base = Inr i))"

lemma embeds_mono: "embeds base entries ids \<Longrightarrow> ids \<subseteq> ids' \<Longrightarrow> embeds base entries ids'"
  unfolding embeds_def by blast

lemma embeds_Cons:
  "embeds base (entry # entries) ids \<longleftrightarrow> embeds base [entry] ids \<and> embeds base entries ids"
  by (auto simp: embeds_def)

definition grows :: "methods \<Rightarrow> methods \<Rightarrow> bool" where
  "grows methods methods' \<longleftrightarrow> methods_ok methods' \<and> fst ` set methods \<subseteq> fst ` set methods'"

lemma grows_trans: "grows a b \<Longrightarrow> grows b c \<Longrightarrow> grows a c"
  by (auto simp: grows_def)

lemma define_embedded_one:
  assumes "define_embedded c base methods entry = Inr methods'" and "methods_ok methods"
  shows "grows methods methods'" and "embeds base [entry] (fst ` set methods')"
proof -
  have "grows methods methods' \<and> embeds base [entry] (fst ` set methods')"
  proof (cases entry)
    case (JObj e)
    then have "define_method c base methods e = Inr methods'" using assms(1) by (simp add: define_embedded_def)
    from define_method_ok [OF this assms(2)] JObj show ?thesis by (auto simp: grows_def embeds_def)
  qed (use assms in \<open>auto simp: define_embedded_def grows_def embeds_def\<close>)
  then show "grows methods methods'" and "embeds base [entry] (fst ` set methods')" by blast+
qed

lemma define_embedded_through:
  assumes "sweep (define_embedded c base) methods entries = Inr methods'" and "methods_ok methods"
  shows "grows methods methods' \<and> embeds base entries (fst ` set methods')"
  using assms
proof (induction entries arbitrary: methods)
  case Nil
  then show ?case by (simp add: grows_def embeds_def)
next
  case (Cons entry entries)
  obtain m where m: "define_embedded c base methods entry = Inr m" "sweep (define_embedded c base) m entries = Inr methods'"
    using Cons.prems(1) by auto
  note one = define_embedded_one [OF m(1) Cons.prems(2)]
  have rest: "grows m methods'" "embeds base entries (fst ` set methods')"
    using Cons.IH [OF m(2)] one(1) by (simp_all add: grows_def)
  have "embeds base [entry] (fst ` set methods')" using embeds_mono [OF one(2)] rest(1) by (simp add: grows_def)
  with rest grows_trans [OF one(1) rest(1)] show ?case using iffD2 [OF embeds_Cons] by blast
qed

definition relationship_defined :: "json_object \<Rightarrow> string \<Rightarrow> string set \<Rightarrow> string \<Rightarrow> bool" where
  "relationship_defined document base ids r \<longleftrightarrow> (\<exists>entries. entriesOf document r = Inr entries \<and> embeds base entries ids)"

lemma relationship_defined_mono:
  "relationship_defined document base ids r \<Longrightarrow> ids \<subseteq> ids' \<Longrightarrow> relationship_defined document base ids' r"
  unfolding relationship_defined_def using embeds_mono by blast

lemma define_relationships_through:
  assumes "sweep (define_relationship c base document) methods rels = Inr methods'" and "methods_ok methods"
  shows "grows methods methods' \<and> list_all (relationship_defined document base (fst ` set methods')) rels"
  using assms
proof (induction rels arbitrary: methods)
  case Nil
  then show ?case by (simp add: grows_def)
next
  case (Cons rel rels)
  obtain m where m: "define_relationship c base document methods rel = Inr m"
    "sweep (define_relationship c base document) m rels = Inr methods'"
    using Cons.prems(1) by auto
  obtain entries where e: "entriesOf document rel = Inr entries" "sweep (define_embedded c base) methods entries = Inr m"
    using m(1) by (auto simp: define_relationship_def)
  have one: "grows methods m" "relationship_defined document base (fst ` set m) rel"
    using define_embedded_through [OF e(2) Cons.prems(2)] e(1) by (simp_all add: relationship_defined_def)
  have rest: "grows m methods'" "list_all (relationship_defined document base (fst ` set methods')) rels"
    using Cons.IH [OF m(2)] one(1) by (simp_all add: grows_def)
  have "relationship_defined document base (fst ` set methods') rel"
    using relationship_defined_mono [OF one(2)] rest(1) by (simp add: grows_def)
  with rest grows_trans [OF one(1) rest(1)] show ?case by simp
qed

lemma define_listed_ok:
  assumes "sweep (define_listed c base) [] listed = Inr methods"
  shows "methods_ok methods"
proof (rule sweep_invariant [OF assms, of methods_ok])
  show "methods_ok []" by (simp add: methods_ok_def)
  show "methods_ok t" if "methods_ok s" "define_listed c base s x = Inr t" for s x t
    using that define_method_ok(1) by (auto simp: define_listed_def split: option.splits)
qed

lemma definedMethods_ok:
  assumes "definedMethods c document = Inr methods" and "documentId document = Inr base"
  shows "methods_ok methods"
    and "list_all (relationship_defined document base (fst ` set methods)) VERIFICATION_RELATIONSHIPS"
proof -
  obtain listed m where d: "sweep (define_listed c base) [] listed = Inr m"
    "sweep (define_relationship c base document) m VERIFICATION_RELATIONSHIPS = Inr methods"
    using assms by (auto simp: definedMethods_def)
  note all = define_relationships_through [OF d(2) define_listed_ok [OF d(1)]]
  show "methods_ok methods" and "list_all (relationship_defined document base (fst ` set methods)) VERIFICATION_RELATIONSHIPS"
    using all by (simp_all add: grows_def)
qed

section \<open>What is authorized\<close>

lemma set_add_once [simp]: "set (add_once xs x) = insert x (set xs)"
  by (auto simp: add_once_def)

lemma distinct_add_once: "distinct xs \<Longrightarrow> distinct (add_once xs x)"
  by (simp add: add_once_def)

text \<open>
  What a relationship of a DID document authorizes is a list of absolute DID
  URLs, each once, and each that belongs to the document's own DID is a method
  the document defines, under that ID, with one definition an ID.
\<close>

lemma authorized_methods_defined:
  assumes "authorizedMethodIds c document relationship = Inr ids"
    and "relationship \<in> set VERIFICATION_RELATIONSHIPS"
  shows "\<exists>base methods. documentId document = Inr base \<and> definedMethods c document = Inr methods \<and>
     distinct ids \<and> distinct (map fst methods) \<and>
     (\<forall>i\<in>set ids. isDidUrl i \<and>
        (fst (splitDidUrl i) = base \<longrightarrow> (\<exists>d. definedMethod c document i = Inr d \<and> field d ''id'' = Some (JStr i))))"
proof -
  obtain base methods entries where a: "documentId document = Inr base" "definedMethods c document = Inr methods"
    "entriesOf document relationship = Inr entries" "sweep (authorize_entry base methods) [] entries = Inr ids"
    using assms(1) by (auto simp: authorizedMethodIds_def)
  note m = definedMethods_ok [OF a(2,1)]
  have embedded: "i \<in> fst ` set methods" if "JObj e \<in> set entries" "absolute (field e ''id'') base = Inr i" for e i
  proof -
    have "relationship_defined document base (fst ` set methods) relationship"
      using m(2) assms(2) by (simp add: list_all_iff)
    then have "embeds base entries (fst ` set methods)" using a(3) by (simp add: relationship_defined_def)
    with that show ?thesis unfolding embeds_def by force
  qed
  let ?P = "\<lambda>ids. distinct ids \<and> (\<forall>i\<in>set ids. isDidUrl i \<and> (fst (splitDidUrl i) = base \<longrightarrow> i \<in> fst ` set methods))"
  have "?P ids"
  proof (rule sweep_invariant [OF a(4), of ?P])
    fix s x t
    assume s: "?P s" "x \<in> set entries" "authorize_entry base methods s x = Inr t"
    then obtain i where "t = add_once s i" "isDidUrl i" "fst (splitDidUrl i) = base \<longrightarrow> i \<in> fst ` set methods"
    proof (cases x)
      case (JStr r)
      then show ?thesis using s(3) that absolute_url by (auto simp: authorize_entry_def split: if_splits)
    next
      case (JObj e)
      then obtain i where i: "absolute (field e ''id'') base = Inr i" "t = add_once s i"
        using s(3) by (auto simp: authorize_entry_def)
      have "i \<in> fst ` set methods" using embedded [of e i] s(2) JObj i(1) by simp
      then show ?thesis using that [of i] absolute_url [OF i(1)] i(2) by simp
    qed (use s(3) in \<open>auto simp: authorize_entry_def\<close>)
    with s(1) show "?P t" by (simp add: distinct_add_once)
  qed simp
  moreover have "\<exists>d. definedMethod c document i = Inr d \<and> field d ''id'' = Some (JStr i)" if i: "i \<in> fst ` set methods" for i
  proof -
    obtain d where d: "map_of methods i = Some d" using i by (cases "map_of methods i") (auto simp: map_of_eq_None_iff)
    then have "field d ''id'' = Some (JStr i)" using m(1) map_of_SomeD [OF d] by (auto simp: methods_ok_def)
    with d show ?thesis by (simp add: definedMethod_def a(2))
  qed
  ultimately show ?thesis using a(1,2) m(1) by (auto simp: methods_ok_def)
qed

text \<open>The IDs of the services are distinct and each begins with a scheme.\<close>

lemma serviceIds_distinct:
  assumes "serviceIds document = Inr ids"
  shows "distinct ids \<and> list_all has_scheme ids"
proof -
  obtain base entries where e: "sweep (service_entry base) [] entries = Inr ids"
    using assms by (auto simp: serviceIds_def)
  show ?thesis
    by (rule sweep_invariant [OF e, of "\<lambda>ids. distinct ids \<and> list_all has_scheme ids"])
      (auto simp: service_entry_def Let_def split: option.splits if_splits)
qed

end
