(* ===== verification/Peer4_Documents.thy ===== *)
theory Peer4_Documents
  imports Did_Document
begin

text \<open>
  The documents of did:peer:4, \<^verbatim>\<open>packages/did-peer/src/did-peer-4.ts\<close>: a document is
  written into its own DID, which commits to it by a hash, and read back from
  it. \<open>decode\<close> is taken without its memory, which \<^verbatim>\<open>Remembered.thy\<close> shows to
  change no answer; freezing is not modelled, as no value here is ever changed in place.
\<close>

definition MULTICODEC_JSON :: string where
  "MULTICODEC_JSON = map char_of [0x80, 0x04 :: nat]"

definition MULTIHASH_SHA2_256 :: string where
  "MULTIHASH_SHA2_256 = map char_of [0x12, 0x20 :: nat]"

definition toMultibaseB58 :: "codec \<Rightarrow> string \<Rightarrow> string" where
  "toMultibaseB58 c input = CHR ''z'' # bs58_encode c input"

definition fromMultibaseB58 :: "codec \<Rightarrow> string \<Rightarrow> string did_result" where
  "fromMultibaseB58 c input =
     (if \<not> starts_with input ''z'' then Inl PeerDID4Error else or_throw (bs58_decode c (drop 1 input)) Base58Error)"

definition encodeDocument :: "codec \<Rightarrow> json_object \<Rightarrow> string" where
  "encodeDocument c document = toMultibaseB58 c (MULTICODEC_JSON @ json_text c (JObj document))"

definition decodeDocument :: "codec \<Rightarrow> string \<Rightarrow> json_object did_result" where
  "decodeDocument c encodedDocument =
     and_then (fromMultibaseB58 c encodedDocument) (\<lambda>bytes.
       if take 2 bytes \<noteq> MULTICODEC_JSON then Inl PeerDID4Error
       else case json_of_text c (text_of_bytes c (drop 2 bytes)) of
         None \<Rightarrow> Inl SyntaxError
       | Some parsed \<Rightarrow> or_throw (as_object (Some parsed)) PeerDID4Error)"

definition hashDocument :: "codec \<Rightarrow> string \<Rightarrow> string" where
  "hashDocument c encodedDocument = toMultibaseB58 c (MULTIHASH_SHA2_256 @ sha256 c encodedDocument)"

fun split_on :: "char \<Rightarrow> string \<Rightarrow> string list" where
  "split_on sep [] = [[]]"
| "split_on sep (c # t) =
     (if c = sep then [] # split_on sep t
      else case split_on sep t of [] \<Rightarrow> [[c]] | p # ps \<Rightarrow> (c # p) # ps)"

definition decodeAnew :: "codec \<Rightarrow> did \<Rightarrow> json_object did_result" where
  "decodeAnew c did =
     (case split_on CHR '':'' (drop 10 did) of
        hash # encodedDocument # _ \<Rightarrow>
          if hash \<noteq> hashDocument c encodedDocument then Inl PeerDID4Error else decodeDocument c encodedDocument
      | _ \<Rightarrow> Inl PeerDID4Error)"

definition assertNotAbsolute :: "json option \<Rightarrow> unit did_result" where
  "assertNotAbsolute i =
     (case as_string i of
        Some t \<Rightarrow> if starts_with t ''did:'' then Inl PeerDID4Error else Inr ()
      | None \<Rightarrow> Inr ())"

text \<open>The objects among a member's entries, when it is an array.\<close>

definition objects_of :: "json_object \<Rightarrow> string \<Rightarrow> json_object list" where
  "objects_of document member =
     (case as_array (field document member) of
        None \<Rightarrow> [] | Some entries \<Rightarrow> List.map_filter (\<lambda>e. as_object (Some e)) entries)"

definition validateInputDocument :: "json_object \<Rightarrow> unit did_result" where
  "validateInputDocument document =
     (if field document ''id'' \<noteq> None then Inl PeerDID4Error
      else and_then (each (\<lambda>m. assertNotAbsolute (field m ''id''))
        (concat (map (objects_of document) (''verificationMethod'' # VERIFICATION_RELATIONSHIPS @ [''service''])))) (\<lambda>_. Inr ()))"

definition encodeLongForm :: "codec \<Rightarrow> json_object \<Rightarrow> did" where
  "encodeLongForm c document =
     (let encodedDocument = encodeDocument c document in
      ''did:peer:4'' @ hashDocument c encodedDocument @ '':'' @ encodedDocument)"

definition encodeShortForm :: "codec \<Rightarrow> json_object \<Rightarrow> did" where
  "encodeShortForm c document = ''did:peer:4'' @ hashDocument c (encodeDocument c document)"

definition isPeerDID4 :: "did \<Rightarrow> bool" where
  "isPeerDID4 did = starts_with did ''did:peer:4''"

definition decode :: "codec \<Rightarrow> did \<Rightarrow> json_object did_result" where
  "decode c did =
     (if \<not> isPeerDID4 did then Inl PeerDID4Error
      else if isShortForm did then Inl PeerDID4Error
      else if \<not> isLongForm did then Inl PeerDID4Error
      else decodeAnew c did)"

section \<open>Documents in context\<close>

definition map_objects :: "(json_object \<Rightarrow> json_object) \<Rightarrow> json list \<Rightarrow> json list" where
  "map_objects f = map (\<lambda>e. case e of JObj ms \<Rightarrow> JObj (f ms) | _ \<Rightarrow> e)"

text \<open>Rewrites a member that is an array; any other is left alone.\<close>

definition map_member :: "(json list \<Rightarrow> json list) \<Rightarrow> string \<Rightarrow> json_object \<Rightarrow> json_object" where
  "map_member f member document =
     (case as_array (field document member) of None \<Rightarrow> document | Some entries \<Rightarrow> put document member (JArr (f entries)))"

definition mapVerificationMethods :: "json_object \<Rightarrow> (json_object \<Rightarrow> json_object) \<Rightarrow> json_object" where
  "mapVerificationMethods document callback =
     fold (map_member (map_objects callback)) (''verificationMethod'' # VERIFICATION_RELATIONSHIPS) document"

definition with_controller :: "did \<Rightarrow> json_object \<Rightarrow> json_object" where
  "with_controller did m = (if field m ''controller'' = None then put m ''controller'' (JStr did) else m)"

definition contextualizeDocument :: "did \<Rightarrow> json_object \<Rightarrow> json_object" where
  "contextualizeDocument did document = mapVerificationMethods (put document ''id'' (JStr did)) (with_controller did)"

definition absolutize :: "string \<Rightarrow> did \<Rightarrow> string" where
  "absolutize reference did =
     (if starts_with reference ''#'' \<or> starts_with reference ''?'' then did @ reference else reference)"

definition map_strings :: "(string \<Rightarrow> string) \<Rightarrow> json list \<Rightarrow> json list" where
  "map_strings f = map (\<lambda>e. case e of JStr t \<Rightarrow> JStr (f t) | _ \<Rightarrow> e)"

definition absolutize_id :: "did \<Rightarrow> json_object \<Rightarrow> json_object" where
  "absolutize_id did m = (case as_string (field m ''id'') of None \<Rightarrow> m | Some t \<Rightarrow> put m ''id'' (JStr (absolutize t did)))"

definition absolutizeEndpoint :: "did \<Rightarrow> json \<Rightarrow> json" where
  "absolutizeEndpoint did endpoint =
     (case as_object (Some endpoint) of
        None \<Rightarrow> endpoint
      | Some e \<Rightarrow> JObj (map_member (map_strings (\<lambda>t. absolutize t did)) ''routingKeys'' e))"

definition absolutizeService :: "did \<Rightarrow> json_object \<Rightarrow> json_object" where
  "absolutizeService did service =
     (let result = absolutize_id did service in
      case field result ''serviceEndpoint'' of
        None \<Rightarrow> result
      | Some (JArr entries) \<Rightarrow> put result ''serviceEndpoint'' (JArr (map (absolutizeEndpoint did) entries))
      | Some endpoint \<Rightarrow> put result ''serviceEndpoint'' (absolutizeEndpoint did endpoint))"

definition absolutizeReferences :: "json_object \<Rightarrow> json_object" where
  "absolutizeReferences document =
     (case as_string (field document ''id'') of
        None \<Rightarrow> document
      | Some did \<Rightarrow>
          map_member (map_objects (absolutizeService did)) ''service''
            (fold (map_member (map_strings (\<lambda>t. absolutize t did))) VERIFICATION_RELATIONSHIPS
              (mapVerificationMethods document (absolutize_id did))))"

definition withAlsoKnownAs :: "json_object \<Rightarrow> string \<Rightarrow> json_object" where
  "withAlsoKnownAs document alias =
     (let aliases = (case as_array (field document ''alsoKnownAs'') of None \<Rightarrow> [] | Some xs \<Rightarrow> xs) in
      put document ''alsoKnownAs'' (JArr (if JStr alias \<in> set aliases then aliases else aliases @ [JStr alias])))"

definition resolveLongForm :: "codec \<Rightarrow> did \<Rightarrow> json_object did_result" where
  "resolveLongForm c did =
     and_then (decode c did) (\<lambda>document.
     and_then (or_throw (longToShort did) PeerDID4Error) (\<lambda>short.
     Inr (withAlsoKnownAs (contextualizeDocument did document) short)))"

definition resolveShortForm :: "codec \<Rightarrow> did \<Rightarrow> json_object did_result" where
  "resolveShortForm c longFormDid =
     and_then (or_throw (longToShort longFormDid) PeerDID4Error) (\<lambda>short.
     and_then (decode c longFormDid) (\<lambda>document.
     Inr (withAlsoKnownAs (contextualizeDocument short document) longFormDid)))"

definition resolveShortFormFromDocument :: "codec \<Rightarrow> json_object \<Rightarrow> did option \<Rightarrow> json_object did_result" where
  "resolveShortFormFromDocument c document did =
     (let longForm = encodeLongForm c document in
      and_then (or_throw (longToShort longForm) PeerDID4Error) (\<lambda>short.
      if (case did of Some d \<Rightarrow> d \<noteq> short | None \<Rightarrow> False) then Inl PeerDID4Error else resolveShortForm c longForm))"

section \<open>Splitting a long form\<close>

lemma split_on_none: "sep \<notin> set t \<Longrightarrow> split_on sep t = [t]"
  by (induction t) auto

lemma split_on_append: "sep \<notin> set t \<Longrightarrow> split_on sep (t @ sep # rest) = t # split_on sep rest"
  by (induction t) auto

lemma peer4_prefix_drop: "isShortForm did \<Longrightarrow> did = ''did:peer:4'' @ drop 10 did"
proof -
  assume "isShortForm did"
  then have "take 10 (take 13 did) = take 10 peer4_prefix" by (simp add: isShortForm_def)
  then have "take 10 did = ''did:peer:4''" by (simp add: peer4_prefix_def)
  then show ?thesis by (metis append_take_drop_id)
qed

lemma isShortForm_no_colon:
  assumes "isShortForm did"
  shows "CHR '':'' \<notin> set (drop 10 did)"
proof -
  have p: "take 13 did = peer4_prefix" "isB58 (drop 13 did)" using assms by (simp_all add: isShortForm_def)
  have "drop 10 did = drop 10 (take 13 did @ drop 13 did)" by simp
  also have "\<dots> = ''zQm'' @ drop 13 did" unfolding p(1) by (simp add: peer4_prefix_def)
  finally show ?thesis using isB58_no_colon [OF p(2)] by simp
qed

text \<open>A long form is a short form, a colon and an encoded document without colons.\<close>

lemma isLongForm_parts:
  assumes "isLongForm did"
  obtains short e where "did = short @ CHR '':'' # CHR ''z'' # e" "isShortForm short" "isB58 e" "6 \<le> length e"
    "longToShort did = Some short"
proof -
  have l: "isShortForm (take 57 did)" "take 2 (drop 57 did) = '':z''" "6 \<le> length (drop 59 did)" "isB58 (drop 59 did)"
    using assms by (simp_all add: isLongForm_def)
  have "take 2 (drop 57 did) @ drop 2 (drop 57 did) = drop 57 did" by (rule append_take_drop_id)
  moreover have "drop 2 (drop 57 did) = drop 59 did" by simp
  ultimately have "drop 57 did = CHR '':'' # CHR ''z'' # drop 59 did" using l(2) by simp
  then have "did = take 57 did @ CHR '':'' # CHR ''z'' # drop 59 did" by (metis append_take_drop_id)
  from that [OF this l(1,4,3) longToShort_take [OF assms]] show ?thesis .
qed

lemma isLongForm_intro:
  assumes "isShortForm short" and "isB58 e" and "6 \<le> length e"
  shows "isLongForm (short @ CHR '':'' # CHR ''z'' # e)" and "longToShort (short @ CHR '':'' # CHR ''z'' # e) = Some short"
proof -
  have n: "length short = 57" using assms(1) by (simp add: isShortForm_def)
  then show l: "isLongForm (short @ CHR '':'' # CHR ''z'' # e)" using assms by (simp add: isLongForm_def)
  show "longToShort (short @ CHR '':'' # CHR ''z'' # e) = Some short" using longToShort_take [OF l] n by simp
qed

lemma decodeAnew_parts:
  assumes "isShortForm short" and "isB58 e"
  shows "decodeAnew c (short @ CHR '':'' # CHR ''z'' # e) =
     (if drop 10 short \<noteq> hashDocument c (CHR ''z'' # e) then Inl PeerDID4Error else decodeDocument c (CHR ''z'' # e))"
proof -
  have "10 \<le> length short" using assms(1) by (simp add: isShortForm_def)
  then have "drop 10 (short @ CHR '':'' # CHR ''z'' # e) = drop 10 short @ CHR '':'' # CHR ''z'' # e" by simp
  moreover have "CHR '':'' \<notin> set (CHR ''z'' # e)" using isB58_no_colon [OF assms(2)] by simp
  ultimately show ?thesis
    using split_on_append [OF isShortForm_no_colon [OF assms(1)], of "CHR ''z'' # e"]
      split_on_none [of "CHR '':''" "CHR ''z'' # e"]
    by (simp add: decodeAnew_def)
qed


section \<open>Whose document it is\<close>

lemma field_map_member [simp]: "member \<noteq> name \<Longrightarrow> field (map_member f member document) name = field document name"
  by (auto simp: map_member_def split: option.split)

lemma mapVerificationMethods_id [simp]: "field (mapVerificationMethods document callback) ''id'' = field document ''id''"
  by (simp add: mapVerificationMethods_def VERIFICATION_RELATIONSHIPS_def)

lemma resolveLongForm_id: "resolveLongForm c did = Inr document \<Longrightarrow> field document ''id'' = Some (JStr did)"
  by (auto simp: resolveLongForm_def withAlsoKnownAs_def contextualizeDocument_def Let_def)

section \<open>Properties\<close>

text \<open>
  What the platform and base58 do for one document: its text parses back to
  it, base58 of its bytes is base58 text that decodes to them and is not
  short, and base58 of the tagged hash is \<open>Qm\<close> and 44 more characters.
\<close>

definition codec_serves :: "codec \<Rightarrow> json_object \<Rightarrow> bool" where
  "codec_serves c document =
     (let bytes = MULTICODEC_JSON @ json_text c (JObj document);
          e = bs58_encode c bytes;
          h = bs58_encode c (MULTIHASH_SHA2_256 @ sha256 c (CHR ''z'' # e)) in
      json_of_text c (text_of_bytes c (json_text c (JObj document))) = Some (JObj document) \<and>
      bs58_decode c e = Some bytes \<and> isB58 e \<and> 6 \<le> length e \<and>
      take 2 h = ''Qm'' \<and> length h = 46 \<and> isB58 h)"

lemma encodeShortForm_short:
  assumes "codec_serves c document"
  shows "isShortForm (encodeShortForm c document)"
proof -
  let ?e = "bs58_encode c (MULTICODEC_JSON @ json_text c (JObj document))"
  let ?h = "bs58_encode c (MULTIHASH_SHA2_256 @ sha256 c (CHR ''z'' # ?e))"
  have h: "take 2 ?h = ''Qm''" "length ?h = 46" "isB58 ?h" using assms by (simp_all add: codec_serves_def Let_def)
  then obtain r where r: "?h = ''Qm'' @ r" by (metis append_take_drop_id)
  then have "length r = 44" "isB58 r" using h by (simp_all add: isB58_def)
  moreover have "encodeShortForm c document = ''did:peer:4zQm'' @ r"
    by (simp add: encodeShortForm_def hashDocument_def encodeDocument_def toMultibaseB58_def r)
  ultimately show ?thesis by (simp add: isShortForm_def peer4_prefix_def)
qed

text \<open>
  C39: A document written into a did:peer:4 reads back: the long form is a long
  form, it decodes to the document it was made of, and the short form cut from
  it is the one derived from the document.
\<close>

theorem long_form_round_trip:
  assumes "codec_serves c document"
  shows "isLongForm (encodeLongForm c document) \<and> decode c (encodeLongForm c document) = Inr document \<and>
     longToShort (encodeLongForm c document) = Some (encodeShortForm c document)"
proof -
  let ?bytes = "MULTICODEC_JSON @ json_text c (JObj document)"
  let ?e = "bs58_encode c ?bytes" and ?short = "encodeShortForm c document"
  have e: "isB58 ?e" "6 \<le> length ?e" "bs58_decode c ?e = Some ?bytes"
    "json_of_text c (text_of_bytes c (json_text c (JObj document))) = Some (JObj document)"
    using assms by (simp_all add: codec_serves_def Let_def)
  note s = encodeShortForm_short [OF assms]
  have long: "encodeLongForm c document = ?short @ CHR '':'' # CHR ''z'' # ?e"
    by (simp add: encodeLongForm_def encodeShortForm_def encodeDocument_def toMultibaseB58_def Let_def)
  have "drop 10 ?short = hashDocument c (CHR ''z'' # ?e)"
    by (simp add: encodeShortForm_def encodeDocument_def toMultibaseB58_def)
  then have "decodeAnew c (encodeLongForm c document) = decodeDocument c (CHR ''z'' # ?e)"
    unfolding long decodeAnew_parts [OF s e(1)] by simp
  also have "\<dots> = Inr document"
    using e(3,4) by (simp add: decodeDocument_def fromMultibaseB58_def starts_with_def or_throw_def MULTICODEC_JSON_def)
  finally have d: "decodeAnew c (encodeLongForm c document) = Inr document" .
  note l = isLongForm_intro [OF s e(1,2)]
  have "isPeerDID4 (encodeLongForm c document)" by (simp add: isPeerDID4_def encodeLongForm_def starts_with_def Let_def)
  moreover have "\<not> isShortForm (encodeLongForm c document)" using l(1) short_not_long unfolding long by blast
  ultimately show ?thesis using d l unfolding long by (simp add: decode_def)
qed

text \<open>What a long form carries after its short form and a colon, as \<open>decodeAnew\<close> reads it: the encoded document.\<close>

definition encoded_part :: "did \<Rightarrow> string" where
  "encoded_part did = split_on CHR '':'' (drop 10 did) ! 1"

text \<open>The hash a long form is read under is that of the document it carries.\<close>

lemma decode_parts:
  assumes "decode c did = Inr document"
  obtains short where "did = short @ CHR '':'' # encoded_part did" "longToShort did = Some short"
    "short = ''did:peer:4'' @ hashDocument c (encoded_part did)" "decodeDocument c (encoded_part did) = Inr document"
proof -
  have l: "isLongForm did" "decodeAnew c did = Inr document" using assms by (auto simp: decode_def split: if_splits)
  obtain short e where p: "did = short @ CHR '':'' # CHR ''z'' # e" "isShortForm short" "isB58 e" "longToShort did = Some short"
    by (rule isLongForm_parts [OF l(1)])
  have "drop 10 did = drop 10 short @ CHR '':'' # CHR ''z'' # e" using p(2) by (simp add: p(1) isShortForm_def)
  then have e: "encoded_part did = CHR ''z'' # e"
    using split_on_append [OF isShortForm_no_colon [OF p(2)]] split_on_none [of "CHR '':''" "CHR ''z'' # e"] isB58_no_colon [OF p(3)]
    by (simp add: encoded_part_def)
  have "drop 10 short = hashDocument c (CHR ''z'' # e)" "decodeDocument c (CHR ''z'' # e) = Inr document"
    using l(2) unfolding p(1) decodeAnew_parts [OF p(2,3)] by (simp_all split: if_splits)
  with peer4_prefix_drop [OF p(2)] that [OF _ p(4)] p(1) show ?thesis unfolding e by metis
qed

text \<open>
  C40: A did:peer:4 certifies itself: two long forms that decode have one short form exactly when SHA-256 gives the
  encoded documents they carry one digest, so what a short form stands for changes only with a collision between the
  two documents at hand; and where they carry one encoded document, they are one DID with one document.
\<close>

theorem short_form_commits:
  assumes "decode c did = Inr document" and "decode c did' = Inr document'" and "inj (bs58_encode c)"
  shows "(longToShort did = longToShort did' \<longleftrightarrow> sha256 c (encoded_part did) = sha256 c (encoded_part did')) \<and>
     (encoded_part did = encoded_part did' \<longrightarrow> did = did' \<and> document = document')"
proof -
  obtain short where p: "did = short @ CHR '':'' # encoded_part did" "longToShort did = Some short"
    "short = ''did:peer:4'' @ hashDocument c (encoded_part did)" "decodeDocument c (encoded_part did) = Inr document"
    by (rule decode_parts [OF assms(1)])
  obtain short' where p': "did' = short' @ CHR '':'' # encoded_part did'" "longToShort did' = Some short'"
    "short' = ''did:peer:4'' @ hashDocument c (encoded_part did')" "decodeDocument c (encoded_part did') = Inr document'"
    by (rule decode_parts [OF assms(2)])
  have "longToShort did = longToShort did' \<longleftrightarrow> sha256 c (encoded_part did) = sha256 c (encoded_part did')"
    unfolding p(2) p'(2) p(3) p'(3) using assms(3) by (simp add: hashDocument_def toMultibaseB58_def inj_eq)
  moreover have "did = did' \<and> document = document'" if "encoded_part did = encoded_part did'"
    using p(1,3,4) p'(1,3,4) that by simp
  ultimately show ?thesis by blast
qed

section \<open>At an example\<close>

text \<open>
  A codec for one document, its base58 a transposition that gives the tagged
  hash and the document's bytes base58 spellings.
\<close>

definition demo_hash_text :: string where
  "demo_hash_text = ''Qm'' @ replicate 44 CHR ''A''"

definition demo_peer_document :: json_object where
  "demo_peer_document = [(''authentication'', JArr [])]"

definition demo_peer_bytes :: string where
  "demo_peer_bytes = MULTICODEC_JSON @ ''doc''"

definition demo_digest_bytes :: string where
  "demo_digest_bytes = MULTIHASH_SHA2_256 @ ''digest''"

definition demo_swap :: "string \<Rightarrow> string" where
  "demo_swap t = (if t = demo_peer_bytes then ''abcdef'' else if t = ''abcdef'' then demo_peer_bytes
     else if t = demo_digest_bytes then demo_hash_text else if t = demo_hash_text then demo_digest_bytes else t)"

definition demo_peer_codec :: codec where
  "demo_peer_codec = \<lparr>sha256 = (\<lambda>_. ''digest''), bs58_encode = demo_swap, bs58_decode = (\<lambda>t. Some (demo_swap t)),
     json_text = (\<lambda>_. ''doc''), json_of_text = (\<lambda>_. Some (JObj demo_peer_document)), text_of_bytes = (\<lambda>t. t),
     canonicalize = (\<lambda>_. Some ''doc'')\<rparr>"

lemma demo_codec_serves: "codec_serves demo_peer_codec demo_peer_document"
  by code_simp

lemma demo_swap_distinct: "distinct [demo_peer_bytes, ''abcdef'', demo_digest_bytes, demo_hash_text]"
  by code_simp

lemma demo_swap_swap: "demo_swap (demo_swap t) = t"
  using demo_swap_distinct by (auto simp: demo_swap_def)

theorem long_form_round_trip_witness:
  "decode demo_peer_codec (encodeLongForm demo_peer_codec demo_peer_document) = Inr demo_peer_document"
  using long_form_round_trip [OF demo_codec_serves] by blast

text \<open>A second document beside the first, with bytes, a digest and base58 spellings of its own.\<close>

definition other_document :: json_object where
  "other_document = [(''service'', JArr [])]"

definition other_hash_text :: string where
  "other_hash_text = ''Qm'' @ replicate 44 CHR ''B''"

definition pair_swap :: "string \<Rightarrow> string" where
  "pair_swap t = (if t = MULTICODEC_JSON @ ''two'' then ''ghijkm'' else if t = ''ghijkm'' then MULTICODEC_JSON @ ''two''
     else if t = MULTIHASH_SHA2_256 @ ''second'' then other_hash_text
     else if t = other_hash_text then MULTIHASH_SHA2_256 @ ''second'' else demo_swap t)"

definition pair_codec :: codec where
  "pair_codec = demo_peer_codec\<lparr>sha256 := (\<lambda>t. if t = ''zghijkm'' then ''second'' else ''digest''),
     bs58_encode := pair_swap, bs58_decode := (\<lambda>t. Some (pair_swap t)),
     json_text := (\<lambda>v. if v = JObj other_document then ''two'' else ''doc''),
     json_of_text := (\<lambda>t. Some (JObj (if t = ''two'' then other_document else demo_peer_document)))\<rparr>"

lemma pair_swap_distinct:
  "distinct [MULTICODEC_JSON @ ''two'', ''ghijkm'', MULTIHASH_SHA2_256 @ ''second'', other_hash_text,
     demo_peer_bytes, ''abcdef'', demo_digest_bytes, demo_hash_text]"
  by code_simp

lemma pair_swap_swap: "pair_swap (pair_swap t) = t"
proof (cases "t \<in> {MULTICODEC_JSON @ ''two'', ''ghijkm'', MULTIHASH_SHA2_256 @ ''second'', other_hash_text}")
  case True
  then show ?thesis using pair_swap_distinct by (auto simp: pair_swap_def)
next
  case False
  then have "pair_swap t = demo_swap t" by (simp add: pair_swap_def)
  moreover have "demo_swap t \<notin> {MULTICODEC_JSON @ ''two'', ''ghijkm'', MULTIHASH_SHA2_256 @ ''second'', other_hash_text}"
    using False pair_swap_distinct by (auto simp: demo_swap_def)
  ultimately show ?thesis using demo_swap_swap [of t] by (simp add: pair_swap_def)
qed

lemma pair_decodes:
  "decode pair_codec (encodeLongForm pair_codec demo_peer_document) = Inr demo_peer_document"
  "decode pair_codec (encodeLongForm pair_codec other_document) = Inr other_document"
  by code_simp+

theorem short_form_commits_witness:
  "longToShort (encodeLongForm pair_codec demo_peer_document) \<noteq> longToShort (encodeLongForm pair_codec other_document)"
proof -
  have "inj (bs58_encode pair_codec)"
    by (rule inj_on_inverseI [of _ pair_swap]) (simp add: pair_codec_def pair_swap_swap)
  from short_form_commits [OF pair_decodes this]
  have "longToShort (encodeLongForm pair_codec demo_peer_document) = longToShort (encodeLongForm pair_codec other_document) \<longleftrightarrow>
      sha256 pair_codec (encoded_part (encodeLongForm pair_codec demo_peer_document)) =
      sha256 pair_codec (encoded_part (encodeLongForm pair_codec other_document))" by blast
  moreover have "sha256 pair_codec (encoded_part (encodeLongForm pair_codec demo_peer_document)) \<noteq>
      sha256 pair_codec (encoded_part (encodeLongForm pair_codec other_document))" by code_simp
  ultimately show ?thesis by blast
qed

end
