(* ===== verification/Base64url.thy ===== *)
theory Base64url
  imports Main
begin

text \<open>
  base64url as JOSE writes it (RFC 7515, no padding), which the mediator uses
  for attachments and cursors: a text's bytes as \<open>Buffer.from(t).toString("base64url")\<close>
  spells them, the predicate \<open>isBase64url\<close> of \<^verbatim>\<open>mediator/src/protocols/routing.ts\<close>,
  and what \<open>Buffer.from(t, "base64url")\<close> gives for a text of that alphabet.
  A string is its UTF-8 bytes.
\<close>

definition b64_alphabet :: string where
  "b64_alphabet = ''ABCDEFGHIJKLMNOPQRSTUVWXYZabcdefghijklmnopqrstuvwxyz0123456789-_''"

definition b64_char :: "nat \<Rightarrow> char" where
  "b64_char n = b64_alphabet ! n"

fun position :: "'a \<Rightarrow> 'a list \<Rightarrow> nat" where
  "position x [] = 0"
| "position x (y # ys) = (if x = y then 0 else Suc (position x ys))"

definition b64_value :: "char \<Rightarrow> nat" where
  "b64_value c = position c b64_alphabet"

definition byte :: "nat \<Rightarrow> char" where
  "byte n = char_of n"

fun base64url :: "string \<Rightarrow> string" where
  "base64url [] = []"
| "base64url [a] = (let x = of_char a in [b64_char (x div 4), b64_char (x mod 4 * 16)])"
| "base64url [a, b] = (let x = of_char a; y = of_char b in
     [b64_char (x div 4), b64_char (x mod 4 * 16 + y div 16), b64_char (y mod 16 * 4)])"
| "base64url (a # b # c # rest) = (let x = of_char a; y = of_char b; z = of_char c in
     b64_char (x div 4) # b64_char (x mod 4 * 16 + y div 16) # b64_char (y mod 16 * 4 + z div 64) #
     b64_char (z mod 64) # base64url rest)"

fun base64url_decode :: "string \<Rightarrow> string" where
  "base64url_decode [] = []"
| "base64url_decode [a] = []"
| "base64url_decode [a, b] = [byte (b64_value a * 4 + b64_value b div 16)]"
| "base64url_decode [a, b, c] =
     [byte (b64_value a * 4 + b64_value b div 16), byte (b64_value b mod 16 * 16 + b64_value c div 4)]"
| "base64url_decode (a # b # c # d # rest) =
     byte (b64_value a * 4 + b64_value b div 16) # byte (b64_value b mod 16 * 16 + b64_value c div 4) #
     byte (b64_value c mod 4 * 64 + b64_value d) # base64url_decode rest"

definition isBase64url :: "string \<Rightarrow> bool" where
  "isBase64url t = (t \<noteq> [] \<and> list_all (\<lambda>c. c \<in> set b64_alphabet) t \<and> length t mod 4 \<noteq> 1)"

lemma alphabet_length: "length b64_alphabet = 64"
  by (simp add: b64_alphabet_def)

lemma alphabet_distinct: "distinct b64_alphabet"
  by (simp add: b64_alphabet_def)

lemma position_nth: "distinct xs \<Longrightarrow> n < length xs \<Longrightarrow> position (xs ! n) xs = n"
proof (induction xs arbitrary: n)
  case (Cons x xs)
  then show ?case by (cases n) auto
qed simp

lemma b64_value_char [simp]: "n < 64 \<Longrightarrow> b64_value (b64_char n) = n"
  by (simp add: b64_value_def b64_char_def position_nth alphabet_distinct alphabet_length)

lemma b64_char_in [simp]: "n < 64 \<Longrightarrow> b64_char n \<in> set b64_alphabet"
  by (simp add: b64_char_def alphabet_length)

lemma of_char_lt [simp]: "(of_char c :: nat) < 256"
  by (metis mod_less_divisor of_char_mod_256 zero_less_numeral)

lemma digit_join: "k < n \<Longrightarrow> (m * n + k) div n = m" "k < n \<Longrightarrow> (m * n + k) mod n = k" for m n k :: nat
  by simp_all

lemma char_parts:
  fixes x y z :: nat
  assumes "x < 256" and "y < 256" and "z < 256"
  shows "x div 4 < 64" and "x mod 4 * 16 < 64" and "x mod 4 * 16 + y div 16 < 64" and "y mod 16 * 4 < 64"
    and "y mod 16 * 4 + z div 64 < 64" and "z mod 64 < 64" and "y div 16 < 16" and "z div 64 < 4"
proof -
  have "x mod 4 < 4" "y mod 16 < 16" by simp_all
  moreover show "x div 4 < 64" and d: "y div 16 < 16" "z div 64 < 4"
    using assms by (simp_all add: less_mult_imp_div_less)
  ultimately show "x mod 4 * 16 < 64" and "x mod 4 * 16 + y div 16 < 64" and "y mod 16 * 4 < 64"
    and "y mod 16 * 4 + z div 64 < 64" and "z mod 64 < 64"
    by (linarith | simp)+
qed

lemma join_bytes:
  fixes x y z :: nat
  assumes "x < 256" and "y < 256" and "z < 256"
  shows "x div 4 * 4 + (x mod 4 * 16 + y div 16) div 16 = x"
    and "(x mod 4 * 16 + y div 16) mod 16 * 16 + (y mod 16 * 4 + z div 64) div 4 = y"
    and "(y mod 16 * 4 + z div 64) mod 4 * 64 + z mod 64 = z"
  by (simp_all only: digit_join char_parts [OF assms] div_mult_mod_eq)

lemma byte_of_char [simp]: "byte (of_char c) = c"
  by (simp add: byte_def)

lemma base64url_round_trip: "base64url_decode (base64url t) = t"
proof (induction t rule: base64url.induct)
  case (2 a)
  note j = join_bytes(1) [of "of_char a" 0 0, simplified]
  show ?case using char_parts [of "of_char a" 0 0] j by (simp add: Let_def)
next
  case (3 a b)
  let ?x = "of_char a :: nat" and ?y = "of_char b :: nat"
  have j: "?x div 4 * 4 + (?x mod 4 * 16 + ?y div 16) div 16 = ?x"
    "(?x mod 4 * 16 + ?y div 16) mod 16 * 16 + ?y mod 16 * 4 div 4 = ?y"
    using join_bytes(1,2) [of ?x ?y 0] by simp_all
  show ?case
    unfolding base64url.simps Let_def base64url_decode.simps
    by (simp only: b64_value_char char_parts(1-4) [of ?x ?y 0, simplified] j byte_of_char)
next
  case (4 a b c rest)
  let ?x = "of_char a :: nat" and ?y = "of_char b :: nat" and ?z = "of_char c :: nat"
  have "base64url_decode (base64url rest) = rest" using 4 by blast
  then show ?case
    unfolding base64url.simps Let_def base64url_decode.simps
    by (simp only: b64_value_char char_parts [of ?x ?y ?z, OF of_char_lt of_char_lt of_char_lt]
        join_bytes [of ?x ?y ?z, OF of_char_lt of_char_lt of_char_lt] byte_of_char)
qed simp

lemma base64url_alphabet: "list_all (\<lambda>c. c \<in> set b64_alphabet) (base64url t) \<and> length (base64url t) mod 4 \<noteq> 1"
proof (induction t rule: base64url.induct)
  case (2 a)
  then show ?case using char_parts [of "of_char a" 0 0] by (simp add: Let_def)
next
  case (3 a b)
  then show ?case using char_parts [of "of_char a" "of_char b" 0] by (simp add: Let_def)
next
  case (4 a b c rest)
  have "length (base64url rest) mod 4 \<noteq> 1 \<Longrightarrow> Suc (Suc (Suc (Suc (length (base64url rest))))) mod 4 \<noteq> 1" by presburger
  with 4 show ?case using char_parts [of "of_char a" "of_char b" "of_char c"] by (simp add: Let_def)
qed simp

lemma base64url_valid: "t \<noteq> [] \<Longrightarrow> isBase64url (base64url t)"
  using base64url_alphabet [of t] by (cases t rule: base64url.cases) (auto simp: isBase64url_def Let_def)

end
