(* ===== verification/Dates.thy ===== *)
theory Dates
  imports Estoc_Prelude
begin

text \<open>
  Numbers and dates as JavaScript writes them: the decimal digits of a number, and
  the ISO 8601 text of a time in milliseconds.
\<close>

fun decimal :: "nat \<Rightarrow> string" where
  "decimal n = (if n < 10 then [char_of (48 + n)] else decimal (n div 10) @ [char_of (48 + n mod 10)])"

declare decimal.simps [simp del]

text \<open>
  \<open>new Date(ms).toISOString()\<close>: the proleptic Gregorian date of a day counted from
  1970-01-01 (years taken from March, in eras of 400 years), and \<open>None\<close>, a \<open>RangeError\<close>, beyond the times a
  \<open>Date\<close> holds.
\<close>

definition civil :: "int \<Rightarrow> int \<times> int \<times> int" where
  "civil day =
     (let z = day + 719468; era = z div 146097; doe = z mod 146097;
          yoe = (doe - doe div 1460 + doe div 36524 - doe div 146096) div 365;
          doy = doe - (365 * yoe + yoe div 4 - yoe div 100);
          mp = (5 * doy + 2) div 153;
          m = (if mp < 10 then mp + 3 else mp - 9) in
      (yoe + era * 400 + (if m \<le> 2 then 1 else 0), m, doy - (153 * mp + 2) div 5 + 1))"

definition padded :: "nat \<Rightarrow> int \<Rightarrow> string" where
  "padded width n = (let ds = decimal (nat n) in replicate (width - length ds) CHR ''0'' @ ds)"

definition toISOString :: "time \<Rightarrow> string option" where
  "toISOString ms =
     (if 8640000000000000 < \<bar>ms\<bar> then None
      else case civil (ms div 86400000) of (y, m, d) \<Rightarrow>
        let t = ms mod 86400000 in
        Some ((if 0 \<le> y \<and> y \<le> 9999 then padded 4 y
               else (if y < 0 then CHR ''-'' else CHR ''+'') # padded 6 \<bar>y\<bar>) @ ''-'' @ padded 2 m @ ''-'' @ padded 2 d @ ''T'' @
          padded 2 (t div 3600000) @ '':'' @ padded 2 (t div 60000 mod 60) @ '':'' @ padded 2 (t div 1000 mod 60) @ ''.'' @
          padded 3 (t mod 1000) @ ''Z''))"

lemma iso_samples:
  "toISOString 0 = Some ''1970-01-01T00:00:00.000Z''" "toISOString 951782400000 = Some ''2000-02-29T00:00:00.000Z''"
  "toISOString 1735689599999 = Some ''2024-12-31T23:59:59.999Z''" "toISOString (- 1) = Some ''1969-12-31T23:59:59.999Z''"
  "toISOString (- 62198755200000) = Some ''-000001-01-01T00:00:00.000Z''"
  by code_simp+

end
