(* ===== verification/Didcomm_Documents.thy ===== *)
theory Didcomm_Documents
  imports Peer4_Documents Base64url Dates
begin

text \<open>
  Resolving a did:peer to the flat document didcomm reads: did:peer:2
  (\<^verbatim>\<open>packages/did-peer/src/did-peer-2.ts\<close>), the conversion of a document
  (\<^verbatim>\<open>packages/did-peer/src/did-doc.ts\<close>), the base64url of
  \<^verbatim>\<open>packages/did-peer/src/base64.ts\<close> and \<^verbatim>\<open>packages/did-peer/src/resolve.ts\<close>.
\<close>

section \<open>did:peer:2\<close>

text \<open>
  \<open>base64urlToBytes\<close>: \<open>atob\<close> of the text with \<open>-\<close> and \<open>_\<close> for \<open>+\<close> and \<open>/\<close>. \<open>atob\<close>
  drops ASCII white space, then up to two \<open>=\<close> of a text whose length is a
  multiple of four, and throws at any other character outside the alphabet and
  at a text one longer than a multiple of four.
\<close>

definition ascii_space :: "char \<Rightarrow> bool" where
  "ascii_space c = ((of_char c :: nat) \<in> {9, 10, 12, 13, 32})"

fun drop_padding :: "nat \<Rightarrow> string \<Rightarrow> string" where
  "drop_padding 0 t = t"
| "drop_padding (Suc n) t = (if t \<noteq> [] \<and> last t = CHR ''='' then drop_padding n (butlast t) else t)"

definition url_char :: "char \<Rightarrow> char" where
  "url_char c = (if c = CHR ''+'' then CHR ''-'' else if c = CHR ''/'' then CHR ''_'' else c)"

definition base64urlToBytes :: "string \<Rightarrow> string option" where
  "base64urlToBytes encoded =
     (let packed = filter (\<lambda>c. \<not> ascii_space c) encoded;
          t = map url_char (if length packed mod 4 = 0 then drop_padding 2 packed else packed) in
      if length t mod 4 = 1 \<or> \<not> list_all (\<lambda>c. c \<in> set b64_alphabet) t then None else Some (base64url_decode t))"

definition PURPOSE_RELATIONSHIPS :: "(char \<times> string) list" where
  "PURPOSE_RELATIONSHIPS =
     [(CHR ''A'', ''assertionMethod''), (CHR ''E'', ''keyAgreement''), (CHR ''V'', ''authentication''),
      (CHR ''I'', ''capabilityInvocation''), (CHR ''D'', ''capabilityDelegation'')]"

definition SERVICE_KEYS :: "(string \<times> string) list" where
  "SERVICE_KEYS = [(''t'', ''type''), (''s'', ''serviceEndpoint''), (''r'', ''routingKeys''), (''a'', ''accept'')]"

definition SERVICE_VALUES :: "(string \<times> string) list" where
  "SERVICE_VALUES = [(''dm'', ''DIDCommMessaging'')]"

text \<open>
  Both tables are object literals, so a name that is not in one is looked up on
  \<open>Object.prototype\<close>: it gives a function, or for \<open>__proto__\<close> that object itself. As a name
  such a value is written as text. As a value it is kept: \<open>Object.prototype\<close> has no
  entries of its own, and a function, which nothing here reads as a string, an array or an object,
  is \<open>inherited_function\<close>.
\<close>

definition INHERITED_FUNCTIONS :: "string list" where
  "INHERITED_FUNCTIONS = [''hasOwnProperty'', ''isPrototypeOf'', ''propertyIsEnumerable'', ''toLocaleString'', ''toString'',
     ''valueOf'', ''__defineGetter__'', ''__defineSetter__'', ''__lookupGetter__'', ''__lookupSetter__'']"

definition native_text :: "string \<Rightarrow> string" where
  "native_text f = ''function '' @ f @ ''() { [native code] }''"

definition inherited_function :: json where
  "inherited_function = JBool True"

definition expanded_key :: "string \<Rightarrow> string" where
  "expanded_key t =
     (case map_of SERVICE_KEYS t of
        Some full \<Rightarrow> full
      | None \<Rightarrow> if t = ''__proto__'' then ''[object Object]'' else if t = ''constructor'' then native_text ''Object''
          else if t \<in> set INHERITED_FUNCTIONS then native_text t else t)"

definition expanded_value :: "string \<Rightarrow> json" where
  "expanded_value t =
     (case map_of SERVICE_VALUES t of
        Some full \<Rightarrow> JStr full
      | None \<Rightarrow> if t = ''__proto__'' then JObj [] else if t \<in> set (''constructor'' # INHERITED_FUNCTIONS) then inherited_function
          else JStr t)"

text \<open>\<open>Object.fromEntries\<close>: of two entries of one name the later value, in the first's place.\<close>

definition from_entries :: "(string \<times> json) list \<Rightarrow> json_object" where
  "from_entries entries = foldl (\<lambda>ms (n, v). put ms n v) [] entries"

fun expand :: "json \<Rightarrow> json" where
  "expand (JArr xs) = JArr (map expand xs)"
| "expand (JObj ms) = JObj (from_entries (map (\<lambda>m. (expanded_key (fst m), expand (snd m))) ms))"
| "expand (JStr t) = expanded_value t"
| "expand v = v"

text \<open>A service whose type or endpoint reads \<open>constructor\<close> loses that text.\<close>

lemma inherited_names_expand: "expand (JStr ''constructor'') = inherited_function" "expanded_key ''constructor'' = native_text ''Object''"
  by (simp_all add: expanded_value_def expanded_key_def SERVICE_VALUES_def SERVICE_KEYS_def)

definition isPeerDID2 :: "did \<Rightarrow> bool" where
  "isPeerDID2 did = starts_with did ''did:peer:2''"

definition validateKey :: "codec \<Rightarrow> string \<Rightarrow> string did_result" where
  "validateKey c t =
     (if \<not> starts_with t ''z'' then Inl PeerDID2Error
      else case bs58_decode c (drop 1 t) of None \<Rightarrow> Inl PeerDID2Error | Some _ \<Rightarrow> Inr t)"

definition decodeService :: "codec \<Rightarrow> string \<Rightarrow> nat \<Rightarrow> json_object did_result" where
  "decodeService c t index =
     (case Option.bind (base64urlToBytes t) (\<lambda>bytes. json_of_text c (text_of_bytes c bytes)) of
        None \<Rightarrow> Inl PeerDID2Error
      | Some v \<Rightarrow>
          and_then (or_throw (as_object (Some (expand v))) PeerDID2Error) (\<lambda>e.
          let i = (if index = 0 then ''#service'' else ''#service-'' @ decimal index) in
          Inr (foldl (\<lambda>ms (n, w). put ms n w) [(''id'', JStr i)] e)))"

record peer2_state =
  p2_methods :: "json list"
  p2_relationships :: "(string \<times> json) list"
  p2_services :: "json list"

definition add_reference :: "(string \<times> json) list \<Rightarrow> string \<Rightarrow> string \<Rightarrow> (string \<times> json) list" where
  "add_reference rels relationship i =
     put rels relationship (JArr ((case as_array (field rels relationship) of None \<Rightarrow> [] | Some xs \<Rightarrow> xs) @ [JStr i]))"

definition resolve_element :: "codec \<Rightarrow> did \<Rightarrow> peer2_state \<Rightarrow> string \<Rightarrow> peer2_state did_result" where
  "resolve_element c did st element =
     (case element of
        [] \<Rightarrow> Inl PeerDID2Error
      | purpose # t \<Rightarrow>
          if t = [] then Inl PeerDID2Error
          else if purpose = CHR ''S'' then
            and_then (decodeService c t (length (p2_services st))) (\<lambda>s.
            Inr (st\<lparr>p2_services := p2_services st @ [JObj s]\<rparr>))
          else case map_of PURPOSE_RELATIONSHIPS purpose of
            None \<Rightarrow> Inl PeerDID2Error
          | Some relationship \<Rightarrow>
              let i = ''#key-'' @ decimal (length (p2_methods st) + 1) in
              and_then (validateKey c t) (\<lambda>key.
              Inr (st\<lparr>p2_methods := p2_methods st @ [JObj [(''id'', JStr i), (''controller'', JStr did),
                        (''type'', JStr ''Multikey''), (''publicKeyMultibase'', JStr key)]],
                     p2_relationships := add_reference (p2_relationships st) relationship i\<rparr>)))"

definition resolvePeer2 :: "codec \<Rightarrow> did \<Rightarrow> json_object did_result" where
  "resolvePeer2 c did =
     (if \<not> isPeerDID2 did then Inl PeerDID2Error
      else case split_on CHR ''.'' (drop 10 did) of
        [] # element # elements \<Rightarrow>
          and_then (sweep (resolve_element c did) \<lparr>p2_methods = [], p2_relationships = [], p2_services = []\<rparr>
            (element # elements)) (\<lambda>st.
          Inr ([(''@context'', JArr [JStr ''https://www.w3.org/ns/did/v1'', JStr ''https://w3id.org/security/multikey/v1'']),
                (''id'', JStr did)] @
               (if p2_methods st = [] then [] else [(''verificationMethod'', JArr (p2_methods st))]) @
               p2_relationships st @
               (if p2_services st = [] then [] else [(''service'', JArr (p2_services st))])))
      | _ \<Rightarrow> Inl PeerDID2Error)"

section \<open>The flat document\<close>

record VerificationMethod =
  vm_id :: string
  vm_type :: string
  vm_controller :: string
  vm_publicKeyJwk :: "json_object option"
  vm_publicKeyMultibase :: "string option"
  vm_publicKeyBase58 :: "string option"

record Service =
  sv_id :: string
  sv_uri :: string
  sv_routingKeys :: "string list"
  sv_accept :: "string list option"

record DIDDoc =
  doc_id :: did
  doc_keyAgreement :: "string list"
  doc_authentication :: "string list"
  doc_verificationMethod :: "VerificationMethod list"
  doc_service :: "Service list"

definition ED25519_PUB :: string where
  "ED25519_PUB = map char_of [0xed, 0x01 :: nat]"

definition X25519_PUB :: string where
  "X25519_PUB = map char_of [0xec, 0x01 :: nat]"

definition KNOWN_VERIFICATION_METHOD_TYPES :: "string list" where
  "KNOWN_VERIFICATION_METHOD_TYPES =
     [''JsonWebKey2020'', ''X25519KeyAgreementKey2019'', ''Ed25519VerificationKey2018'',
      ''EcdsaSecp256k1VerificationKey2019'', ''X25519KeyAgreementKey2020'', ''Ed25519VerificationKey2020'']"

definition multicodecPrefix :: "codec \<Rightarrow> string \<Rightarrow> string option" where
  "multicodecPrefix c t =
     (if \<not> starts_with t ''z'' then None
      else case bs58_decode c (drop 1 t) of
        None \<Rightarrow> None | Some bytes \<Rightarrow> if 2 \<le> length bytes then Some (take 2 bytes) else None)"

definition normalizeType :: "codec \<Rightarrow> string \<Rightarrow> json_object \<Rightarrow> string" where
  "normalizeType c t m =
     (if t \<in> set KNOWN_VERIFICATION_METHOD_TYPES then t
      else case (if t = ''Multikey'' then as_string (field m ''publicKeyMultibase'') else None) of
        None \<Rightarrow> ''Other''
      | Some multibase \<Rightarrow>
          if multicodecPrefix c multibase = Some ED25519_PUB then ''Ed25519VerificationKey2020''
          else if multicodecPrefix c multibase = Some X25519_PUB then ''X25519KeyAgreementKey2020''
          else ''Other'')"

definition toVerificationMethod :: "codec \<Rightarrow> did \<Rightarrow> json_object \<Rightarrow> VerificationMethod option" where
  "toVerificationMethod c base m =
     (case (as_string (field m ''id''), as_string (field m ''type'')) of
        (Some i, Some t) \<Rightarrow>
          Some \<lparr>vm_id = i, vm_type = normalizeType c t m,
            vm_controller = (case as_string (field m ''controller'') of Some k \<Rightarrow> k | None \<Rightarrow> base),
            vm_publicKeyJwk = as_object (field m ''publicKeyJwk''),
            vm_publicKeyMultibase = as_string (field m ''publicKeyMultibase''),
            vm_publicKeyBase58 = as_string (field m ''publicKeyBase58'')\<rparr>
      | _ \<Rightarrow> None)"

definition firstEndpoint :: "json option \<Rightarrow> json option" where
  "firstEndpoint endpoint =
     (case as_array endpoint of None \<Rightarrow> endpoint | Some [] \<Rightarrow> None | Some (e # _) \<Rightarrow> Some e)"

definition strings_of :: "json list \<Rightarrow> string list" where
  "strings_of = List.map_filter (\<lambda>e. as_string (Some e))"

definition toService :: "json_object \<Rightarrow> Service option" where
  "toService service =
     (case as_string (field service ''id'') of
        None \<Rightarrow> None
      | Some i \<Rightarrow>
          if field service ''type'' \<noteq> Some (JStr ''DIDCommMessaging'') then None
          else case firstEndpoint (field service ''serviceEndpoint'') of
            Some (JStr uri) \<Rightarrow> Some \<lparr>sv_id = i, sv_uri = uri, sv_routingKeys = [], sv_accept = None\<rparr>
          | Some (JObj endpoint) \<Rightarrow>
              (case as_string (field endpoint ''uri'') of
                 None \<Rightarrow> None
               | Some uri \<Rightarrow> Some \<lparr>sv_id = i, sv_uri = uri,
                   sv_routingKeys = (case as_array (field endpoint ''routingKeys'') of None \<Rightarrow> [] | Some ks \<Rightarrow> strings_of ks),
                   sv_accept = map_option strings_of (as_array (field endpoint ''accept''))\<rparr>)
          | _ \<Rightarrow> None)"

text \<open>\<open>read\<close>: what the document cannot be read for is a failed conversion.\<close>

definition read_as :: "'a did_result \<Rightarrow> 'a did_result" where
  "read_as r = (case r of Inl DIDDocumentError \<Rightarrow> Inl DIDDocConversionError | _ \<Rightarrow> r)"

definition toDIDCommDIDDoc :: "codec \<Rightarrow> json_object \<Rightarrow> DIDDoc did_result" where
  "toDIDCommDIDDoc c document =
     (case as_string (field document ''id'') of
        None \<Rightarrow> Inl DIDDocConversionError
      | Some i \<Rightarrow>
          and_then (read_as (authorizedMethodIds c document ''authentication'')) (\<lambda>authentication.
          and_then (read_as (authorizedMethodIds c document ''keyAgreement'')) (\<lambda>keyAgreement.
          and_then (read_as (definedMethods c document)) (\<lambda>methods.
          Inr \<lparr>doc_id = i, doc_keyAgreement = keyAgreement, doc_authentication = authentication,
            doc_verificationMethod = List.map_filter (\<lambda>(_, m). toVerificationMethod c i m) methods,
            doc_service = List.map_filter toService (objects_of (absolutizeReferences document) ''service'')\<rparr>))))"

definition resolveDIDCommDoc :: "codec \<Rightarrow> did \<Rightarrow> DIDDoc option" where
  "resolveDIDCommDoc c did =
     (case (if isPeerDID2 did then caught (resolvePeer2 c did)
            else if isPeerDID4 did \<and> isLongForm did then caught (resolveLongForm c did) else None) of
        None \<Rightarrow> None
      | Some document \<Rightarrow> caught (toDIDCommDIDDoc c document))"


section \<open>Properties\<close>

lemma read_as_Inr [simp]: "read_as r = Inr a \<longleftrightarrow> r = Inr a"
  by (cases r) (auto simp: read_as_def split: did_error.splits)

lemma documentId_Inr: "documentId document = Inr i \<Longrightarrow> field document ''id'' = Some (JStr i)"
  by (cases "field document ''id''" rule: as_string.cases) (auto simp: documentId_def split: if_splits)

lemma resolveDIDCommDoc_id:
  assumes "resolveDIDCommDoc c did = Some doc" and "isLongForm did"
  shows "doc_id doc = did"
proof -
  have "isShortForm (take 57 did)" using assms(2) by (simp add: isLongForm_def)
  from arg_cong [OF peer4_prefix_drop [OF this], of "take 10"] have "take 10 did = ''did:peer:4''" by simp
  then have "\<not> isPeerDID2 did" by (simp add: isPeerDID2_def starts_with_def numeral_eq_Suc)
  then obtain document where "resolveLongForm c did = Inr document" "toDIDCommDIDDoc c document = Inr doc"
    using assms by (auto simp: resolveDIDCommDoc_def split: option.splits if_splits)
  then show ?thesis using resolveLongForm_id by (fastforce simp: toDIDCommDIDDoc_def)
qed

lemma filter_as_assoc:
  assumes "distinct (map fst methods)" and "map_of methods i = Some m"
    and "\<And>j d v. (j, d) \<in> set methods \<Longrightarrow> toVerificationMethod c base d = Some v \<Longrightarrow> vm_id v = j"
  shows "filter (\<lambda>v. vm_id v = i) (List.map_filter (\<lambda>(_, d). toVerificationMethod c base d) methods) =
     (case toVerificationMethod c base m of None \<Rightarrow> [] | Some v \<Rightarrow> [v])"
  using assms
proof (induction methods)
  case (Cons jd methods)
  obtain j d where jd: "jd = (j, d)" by (cases jd)
  have ids: "vm_id v = j'" if "(j', d') \<in> set methods" "toVerificationMethod c base d' = Some v" for j' d' v
    using Cons.prems(3) that by auto
  show ?case
  proof (cases "j = i")
    case True
    then have "i \<notin> fst ` set methods" and m: "m = d" using Cons.prems(1,2) jd by auto
    then have "filter (\<lambda>v. vm_id v = i) (List.map_filter (\<lambda>(_, d). toVerificationMethod c base d) methods) = []"
      using ids by (force simp: filter_empty_conv List.map_filter_def)
    then show ?thesis using Cons.prems(3) [of j d] True m jd
      by (auto simp: List.map_filter_def split: option.split)
  next
    case False
    then show ?thesis using Cons.IH Cons.prems(1,2) ids Cons.prems(3) [of j d] jd
      by (auto simp: List.map_filter_def split: option.split)
  qed
qed simp

text \<open>
  In a document converted for didcomm, a key of the document's own DID that it
  authorizes for authentication or key agreement is found where didcomm looks
  for it: the document defines it, and the flat list holds exactly one
  method under that ID (none only when its definition names no type), wherever
  the document embedded it and however it spelled the reference.
\<close>

theorem authorized_keys_found:
  assumes "toDIDCommDIDDoc c document = Inr doc"
    and "i \<in> set (doc_authentication doc) \<union> set (doc_keyAgreement doc)"
    and "fst (splitDidUrl i) = doc_id doc"
  shows "\<exists>m. definedMethod c document i = Inr m \<and>
     filter (\<lambda>v. vm_id v = i) (doc_verificationMethod doc) =
       (case as_string (field m ''type'') of None \<Rightarrow> []
        | Some t \<Rightarrow> [the (toVerificationMethod c (doc_id doc) m)])"
proof -
  obtain methods where d: "field document ''id'' = Some (JStr (doc_id doc))"
    "authorizedMethodIds c document ''authentication'' = Inr (doc_authentication doc)"
    "authorizedMethodIds c document ''keyAgreement'' = Inr (doc_keyAgreement doc)"
    "definedMethods c document = Inr methods"
    "doc_verificationMethod doc = List.map_filter (\<lambda>(_, m). toVerificationMethod c (doc_id doc) m) methods"
    using assms(1)
    by (cases "field document ''id''" rule: as_string.cases) (auto simp: toDIDCommDIDDoc_def)
  obtain base where b: "documentId document = Inr base" using d(4) by (auto simp: definedMethods_def)
  have base: "base = doc_id doc" using documentId_Inr [OF b] d(1) by simp
  have rels: "''authentication'' \<in> set VERIFICATION_RELATIONSHIPS" "''keyAgreement'' \<in> set VERIFICATION_RELATIONSHIPS"
    by (simp_all add: VERIFICATION_RELATIONSHIPS_def)
  have "\<exists>m. definedMethod c document i = Inr m \<and> field m ''id'' = Some (JStr i)"
    using authorized_methods_defined [OF d(2) rels(1)] authorized_methods_defined [OF d(3) rels(2)] assms(2,3) b base
    by fastforce
  then obtain m where m: "definedMethod c document i = Inr m" "field m ''id'' = Some (JStr i)" by blast
  note ok = definedMethods_ok(1) [OF d(4) b]
  have "vm_id v = j" if "(j, e) \<in> set methods" "toVerificationMethod c (doc_id doc) e = Some v" for j e v
    using that ok by (auto simp: methods_ok_def toVerificationMethod_def split: option.splits)
  then have "filter (\<lambda>v. vm_id v = i) (doc_verificationMethod doc) =
      (case toVerificationMethod c (doc_id doc) m of None \<Rightarrow> [] | Some v \<Rightarrow> [v])"
    unfolding d(5) using ok m(1) d(4) by (intro filter_as_assoc) (auto simp: methods_ok_def definedMethod_def)
  then show ?thesis using m by (auto simp: toVerificationMethod_def split: option.splits)
qed

definition demo_codec :: codec where
  "demo_codec = \<lparr>sha256 = (\<lambda>t. t), bs58_encode = (\<lambda>t. t), bs58_decode = Some, json_text = (\<lambda>_. ''{}''),
     json_of_text = (\<lambda>_. None), text_of_bytes = (\<lambda>t. t), canonicalize = (\<lambda>_. Some ''{}'')\<rparr>"

definition demo_document :: json_object where
  "demo_document = [(''id'', JStr ''did:web:m''), (''keyAgreement'', JArr []),
     (''authentication'', JArr [JStr ''#k'', JObj [(''id'', JStr ''did:web:m#k''), (''type'', JStr ''Multikey'')]])]"

definition demo_doc :: DIDDoc where
  "demo_doc = \<lparr>doc_id = ''did:web:m'', doc_keyAgreement = [], doc_authentication = [''did:web:m#k''],
     doc_verificationMethod = [\<lparr>vm_id = ''did:web:m#k'', vm_type = ''Other'', vm_controller = ''did:web:m'',
       vm_publicKeyJwk = None, vm_publicKeyMultibase = None, vm_publicKeyBase58 = None\<rparr>], doc_service = []\<rparr>"

lemma demo_converted: "toDIDCommDIDDoc demo_codec demo_document = Inr demo_doc"
  by code_simp

theorem authorized_keys_found_witness:
  "\<exists>m. definedMethod demo_codec demo_document ''did:web:m#k'' = Inr m"
proof -
  have "''did:web:m#k'' \<in> set (doc_authentication demo_doc) \<union> set (doc_keyAgreement demo_doc)"
    "fst (splitDidUrl ''did:web:m#k'') = doc_id demo_doc"
    by (simp_all add: demo_doc_def splitDidUrl_def delimiter_def)
  from authorized_keys_found [OF demo_converted this] show ?thesis by blast
qed

end
