(* ===== verification/Mediator_Context.thy ===== *)
theory Mediator_Context
  imports Mediator_Inbox Utf8 Didcomm_Documents
begin

text \<open>
  What the protocol handlers share, \<^verbatim>\<open>mediator/src/protocols/types.ts\<close>,
  \<^verbatim>\<open>mediator/src/didcomm/didcomm.ts\<close> and \<^verbatim>\<open>mediator/src/config.ts\<close>: the message
  as unpacked, the policy, the session it came on, the reply, and a handler's
  run, which reads and changes the store and the session, offers queued mail to
  whoever is listening, and may throw. The clock is read once for a request,
  and the identifiers the request draws are part of its context. What the
  handlers take from the platform and from packages the repository only calls
  is the record \<open>host\<close>: the codec of did:peer documents, jose's decoding of a
  protected header, its import of a key and its verification of a compact JWS
  (the payload, when the key signed it), the document a did:web resolves to, the text
  \<open>Buffer.from(t, "base64url").toString()\<close> gives for any text at all, multiformats' reading of a name
  as a multihash (its code, size and digest) and its name for a SHA-256 digest, and the didcomm library's sealing of a message.
  \<open>ctx_blobs\<close> is the public URL blobs are served under, when this deployment keeps any; \<open>w_files\<close> their bytes by id.
\<close>

section \<open>Messages, policy and session\<close>

text \<open>An attachment as didcomm unpacked it: \<open>data\<close> is an object, which the library's own type promises.\<close>

record Attachment =
  att_media_type :: "string option"
  att_data :: json_object

record Unpacked =
  in_id :: string
  in_type :: string
  in_from :: "string option"
  in_to :: "did list option"
  in_thid :: "string option"
  in_body :: json_object
  in_attachments :: "Attachment list"
  in_expires_time :: "int option"
  in_return_route :: "string option"
  in_encrypted :: bool
  in_authenticated :: bool
  in_encrypted_from_kid :: "string option"
  in_addressedTo :: "did option"

record MediatorPolicy =
  openRegistration :: bool
  messageTtlSeconds :: int
  maxMessagesPerAccount :: nat
  maxMessageBytes :: nat
  blobRetainSeconds :: int
  blobMaxBytes :: int
  blobQuotaBytes :: int
  replicaMediation :: bool
  maxActiveReplicas :: nat
  maxMembershipPage :: nat
  maxSharedRecipients :: nat
  maxRetainedBytes :: int
  executionRetainSeconds :: int
  maxRetainedExecutions :: nat
  maxExecutionRegistrations :: nat

record Session =
  session_did :: "did option"
  liveDelivery :: bool
  returnRoute :: bool

record Reply =
  reply_type :: string
  reply_body :: json_object
  reply_attachments :: "(string \<times> string) list"

text \<open>A message as \<open>dispatch\<close> hands it to be sealed; only a reply that is no reply at all has no type.\<close>

record Outgoing =
  out_id :: string
  out_type :: "string option"
  out_from :: did
  out_to :: did
  out_created_time :: int
  out_thid :: string
  out_pthid :: "string option"
  out_body :: "json_object option"
  out_attachments :: "(string \<times> string) list"

record host =
  host_codec :: codec
  host_protected_header :: "string \<Rightarrow> json_object option"
  host_jws_header :: "string \<Rightarrow> json_object option"
  host_import_jwk :: "json_object \<Rightarrow> string \<Rightarrow> bool"
  host_verify :: "string \<Rightarrow> json_object \<Rightarrow> string option"
  host_web_document :: "did \<Rightarrow> json_object option"
  host_base64_text :: "string \<Rightarrow> string"
  host_read_digest :: "string \<Rightarrow> (nat \<times> nat \<times> string) option"
  host_name_digest :: "string \<Rightarrow> string"
  host_pack :: "Outgoing \<Rightarrow> string option"

record HandlerContext =
  ctx_did :: did
  ctx_dids :: "did list"
  ctx_config :: MediatorPolicy
  ctx_sender :: "did option"
  ctx_now :: time
  ctx_uuid :: string
  ctx_delivery_ids :: "nat \<Rightarrow> string"
  ctx_host :: host
  ctx_pinned :: "DIDDoc list"
  ctx_blobs :: "string option"
  ctx_blob_id :: string
  ctx_token :: string

text \<open>The options the store was made with (\<open>new SqlStore(driver, options)\<close>).\<close>

definition options_of :: "MediatorPolicy \<Rightarrow> store_options" where
  "options_of policy = \<lparr>ttlMs = messageTtlSeconds policy * 1000, maxMessages = maxMessagesPerAccount policy\<rparr>"

definition PROBLEM_REPORT :: string where
  "PROBLEM_REPORT = ''https://didcomm.org/report-problem/2.0/problem-report''"

definition plain_reply :: "string \<Rightarrow> json_object \<Rightarrow> Reply" where
  "plain_reply t body = \<lparr>reply_type = t, reply_body = body, reply_attachments = []\<rparr>"

definition replicaProblem :: "string \<Rightarrow> Reply" where
  "replicaProblem problem =
     plain_reply PROBLEM_REPORT [(''code'', JStr (''e.estoc.replica-mediation.'' @ problem))]"

definition isAuthcrypted :: "Unpacked \<Rightarrow> bool" where
  "isAuthcrypted incoming = (in_encrypted incoming \<and> in_authenticated incoming \<and>
     (case in_encrypted_from_kid incoming of None \<Rightarrow> False | Some kid \<Rightarrow> kid \<noteq> []))"

text \<open>\<open>didOf\<close>: what precedes the first \<open>#\<close>; nothing for an empty or absent value.\<close>

definition didOf :: "string option \<Rightarrow> string option" where
  "didOf value = (case value of None \<Rightarrow> None
     | Some v \<Rightarrow> if v = [] then None else Some (takeWhile (\<lambda>c. c \<noteq> CHR ''#'') v))"

definition asOwnDid :: "HandlerContext \<Rightarrow> did option \<Rightarrow> did" where
  "asOwnDid ctx did = (case did of Some d \<Rightarrow> if d \<in> set (ctx_dids ctx) then d else ctx_did ctx | None \<Rightarrow> ctx_did ctx)"

text \<open>A string's \<open>length\<close>, in UTF-16 units: of its UTF-8 bytes, a lead byte is one unit, or two in a sequence of four.\<close>

definition utf16_units :: "char \<Rightarrow> nat" where
  "utf16_units c = (let n = (of_char c :: nat) in if n < 128 then 1 else if n < 192 then 0 else if n < 240 then 1 else 2)"

definition js_length :: "string \<Rightarrow> nat" where
  "js_length t = sum_list (map utf16_units t)"

text \<open>\<open>isMediatorOwnDid\<close> of \<^verbatim>\<open>coordinate-mediation.ts\<close>: one of the mediator's names, or the short form of one.\<close>

definition isMediatorOwnDid :: "did \<Rightarrow> did list \<Rightarrow> bool" where
  "isMediatorOwnDid did own = list_ex (\<lambda>o'. o' = did \<or> longToShort o' = Some did) own"

section \<open>A handler's run\<close>

record world =
  w_store :: db
  w_session :: "Session option"
  w_offers :: "(did \<times> StoredMessage) list"
  w_files :: "(string \<times> string) list"

datatype fault = StoreFault sql_error | ForwardRefused nat | TypeFault | RangeFault | PackFault

type_synonym 'a act = "world \<Rightarrow> (fault + 'a) \<times> world"

definition return_act :: "'a \<Rightarrow> 'a act" where
  "return_act a w = (Inr a, w)"

definition throw :: "fault \<Rightarrow> 'a act" where
  "throw f w = (Inl f, w)"

definition bind_act :: "'a act \<Rightarrow> ('a \<Rightarrow> 'b act) \<Rightarrow> 'b act" where
  "bind_act m f w = (case m w of (Inl e, w') \<Rightarrow> (Inl e, w') | (Inr a, w') \<Rightarrow> f a w')"

definition ask :: "(db \<Rightarrow> 'a) \<Rightarrow> 'a act" where
  "ask q w = (Inr (q (w_store w)), w)"

definition call_store :: "(db \<Rightarrow> (sql_error + 'a) \<times> db) \<Rightarrow> 'a act" where
  "call_store method w = (case method (w_store w) of
      (Inl e, s') \<Rightarrow> (Inl (StoreFault e), w\<lparr>w_store := s'\<rparr>)
    | (Inr a, s') \<Rightarrow> (Inr a, w\<lparr>w_store := s'\<rparr>))"

definition get_session :: "Session option act" where
  "get_session w = (Inr (w_session w), w)"

definition set_live_delivery :: "bool \<Rightarrow> unit act" where
  "set_live_delivery live w = (Inr (), w\<lparr>w_session := map_option (\<lambda>se. se\<lparr>liveDelivery := live\<rparr>) (w_session w)\<rparr>)"

text \<open>\<open>offer\<close>: the push to listeners; whatever becomes of it the handler goes on, so it is only recorded.\<close>

definition offer :: "did \<Rightarrow> StoredMessage \<Rightarrow> unit act" where
  "offer owner message w = (Inr (), w\<lparr>w_offers := w_offers w @ [(owner, message)]\<rparr>)"

named_theorems act_simps \<open>how a handler's run computes\<close>

lemma bind_return [act_simps]: "bind_act (return_act a) f w = f a w"
  by (simp add: bind_act_def return_act_def)

lemma bind_ask [act_simps]: "bind_act (ask q) f w = f (q (w_store w)) w"
  by (simp add: bind_act_def ask_def)

lemma bind_session [act_simps]: "bind_act get_session f w = f (w_session w) w"
  by (simp add: bind_act_def get_session_def)

lemma bind_offer [act_simps]: "bind_act (offer d msg) f w = f () (w\<lparr>w_offers := w_offers w @ [(d, msg)]\<rparr>)"
  by (simp add: bind_act_def offer_def)

lemma bind_live [act_simps]: "bind_act (set_live_delivery b) f w =
    f () (w\<lparr>w_session := map_option (\<lambda>se. se\<lparr>liveDelivery := b\<rparr>) (w_session w)\<rparr>)"
  by (simp add: bind_act_def set_live_delivery_def)

lemma bind_throw [act_simps]: "bind_act (throw e) f w = (Inl e, w)"
  by (simp add: bind_act_def throw_def)

lemma bind_call: "method (w_store w) = (Inr a, s') \<Longrightarrow> bind_act (call_store method) f w = f a (w\<lparr>w_store := s'\<rparr>)"
  by (simp add: bind_act_def call_store_def)

lemma return_act_run [act_simps]: "return_act a w = (Inr a, w)"
  by (simp add: return_act_def)

lemma throw_run [act_simps]: "throw e w = (Inl e, w)"
  by (simp add: throw_def)

end
