(* ===== verification/Mediator_Pickup.thy ===== *)
theory Mediator_Pickup
  imports Mediator_Context Mediator_Example
begin

text \<open>
  messagepickup 3.0, \<^verbatim>\<open>mediator/src/protocols/pickup.ts\<close>: whose queue a sender
  reads (\<open>inboxOf\<close>) and the four handlers. The properties are over both
  inboxes at once, through the locale \<open>inbox\<close>.
\<close>

definition STATUS :: string where
  "STATUS = ''https://didcomm.org/messagepickup/3.0/status''"

definition DELIVERY :: string where
  "DELIVERY = ''https://didcomm.org/messagepickup/3.0/delivery''"

definition DELIVERY_PAGE_LIMIT :: nat where
  "DELIVERY_PAGE_LIMIT = 10"

definition ANOTHERS_CONNECTION :: Reply where
  "ANOTHERS_CONNECTION = plain_reply PROBLEM_REPORT
     [(''code'', JStr ''e.p.msg.connection-bound''), (''comment'', JStr ''This connection belongs to another DID'')]"

datatype found = NoInbox | Refusal Reply | Found Inbox

text \<open>On a session another DID holds.\<close>

definition bound_to_other :: "Session option \<Rightarrow> did \<Rightarrow> bool" where
  "bound_to_other session did = (case session of None \<Rightarrow> False
     | Some se \<Rightarrow> (case session_did se of None \<Rightarrow> False | Some d \<Rightarrow> canonicalDid d \<noteq> did))"

definition inboxOf :: "Unpacked \<Rightarrow> HandlerContext \<Rightarrow> Session option \<Rightarrow> db \<Rightarrow> found" where
  "inboxOf incoming ctx session s =
     (case ctx_sender ctx of
        None \<Rightarrow> NoInbox
      | Some sender \<Rightarrow>
          let did = canonicalDid sender in
          if bound_to_other session did then Refusal ANOTHERS_CONNECTION
          else if isReplicaAccount did s then Refusal (replicaProblem ''replica-required'')
          else (case replicaState did s of
              Some state \<Rightarrow>
                if \<not> isAuthcrypted incoming then NoInbox
                else if state = RemovedState then Refusal (replicaProblem ''replica-removed'')
                else Found (replica_inbox (ctx_now ctx) did)
            | None \<Rightarrow> if isMediated sender s then Found (account_inbox (ctx_now ctx) sender) else NoInbox))"

text \<open>What a handler does with the inbox it found, and answers where it found none.\<close>

definition with_inbox :: "Unpacked \<Rightarrow> HandlerContext \<Rightarrow> (Inbox \<Rightarrow> Reply option act) \<Rightarrow> Reply option act" where
  "with_inbox incoming ctx f =
     bind_act get_session (\<lambda>session.
     bind_act (ask (inboxOf incoming ctx session)) (\<lambda>found.
     case found of NoInbox \<Rightarrow> return_act None | Refusal reply \<Rightarrow> return_act (Some reply) | Found box \<Rightarrow> f box))"

definition status :: "Inbox \<Rightarrow> json option \<Rightarrow> Reply option act" where
  "status box recipientDid =
     bind_act get_session (\<lambda>session.
     bind_act (ask (inbox_count box recipientDid)) (\<lambda>n.
     return_act (Some (plain_reply STATUS
       ([(''message_count'', JNat n),
         (''live_delivery'', JBool (case session of None \<Rightarrow> False | Some se \<Rightarrow> liveDelivery se))] @
        (case as_string recipientDid of None \<Rightarrow> [] | Some d \<Rightarrow> [(''recipient_did'', JStr d)]))))))"

definition statusRequest :: "Unpacked \<Rightarrow> HandlerContext \<Rightarrow> Reply option act" where
  "statusRequest incoming ctx =
     with_inbox incoming ctx (\<lambda>box. status box (field (in_body incoming) ''recipient_did''))"

definition toAttachment :: "StoredMessage \<Rightarrow> string \<times> string" where
  "toAttachment message = (stored_id message, base64url (stored_packed message))"

definition deliveryRequest :: "Unpacked \<Rightarrow> HandlerContext \<Rightarrow> Reply option act" where
  "deliveryRequest incoming ctx =
     with_inbox incoming ctx (\<lambda>box.
       let recipientDid = field (in_body incoming) ''recipient_did'';
           limit = page_limit DELIVERY_PAGE_LIMIT (field (in_body incoming) ''limit'')
       in bind_act (ask (inbox_waiting box limit recipientDid)) (\<lambda>messages.
          if messages = [] then status box recipientDid
          else return_act (Some \<lparr>reply_type = DELIVERY,
            reply_body = (case as_string recipientDid of None \<Rightarrow> [] | Some d \<Rightarrow> [(''recipient_did'', JStr d)]),
            reply_attachments = map toAttachment messages\<rparr>)))"

text \<open>The strings among the ids listed; nothing when it is no array.\<close>

definition received_ids :: "Unpacked \<Rightarrow> string list" where
  "received_ids incoming =
     (case as_array (field (in_body incoming) ''message_id_list'') of
        None \<Rightarrow> [] | Some xs \<Rightarrow> List.map_filter (\<lambda>j. as_string (Some j)) xs)"

definition messagesReceived :: "Unpacked \<Rightarrow> HandlerContext \<Rightarrow> Reply option act" where
  "messagesReceived incoming ctx =
     with_inbox incoming ctx (\<lambda>box.
       bind_act (call_store (inbox_acknowledge box (received_ids incoming))) (\<lambda>_.
       status box None))"

definition liveDeliveryChange :: "Unpacked \<Rightarrow> HandlerContext \<Rightarrow> Reply option act" where
  "liveDeliveryChange incoming ctx =
     with_inbox incoming ctx (\<lambda>box.
       bind_act get_session (\<lambda>session.
       if session = None
       then return_act (Some (plain_reply PROBLEM_REPORT
         [(''code'', JStr ''e.m.live-mode-not-supported''),
          (''comment'', JStr ''Live delivery requires a WebSocket connection'')]))
       else bind_act (set_live_delivery (field (in_body incoming) ''live_delivery'' = Some (JBool True))) (\<lambda>_.
         status box None)))"

section \<open>Whose queue\<close>

text \<open>The queue a sender's pickup reads, when it has one.\<close>

definition queue_of :: "Unpacked \<Rightarrow> HandlerContext \<Rightarrow> Session option \<Rightarrow> db \<Rightarrow> (json option \<Rightarrow> db \<Rightarrow> StoredMessage list) option" where
  "queue_of incoming ctx session s =
     (case ctx_sender ctx of
        None \<Rightarrow> None
      | Some sender \<Rightarrow>
          let did = canonicalDid sender in
          if bound_to_other session did \<or> isReplicaAccount did s then None
          else (case replicaState did s of
              Some Active \<Rightarrow> if isAuthcrypted incoming then Some (replica_queue (ctx_now ctx) did) else None
            | Some RemovedState \<Rightarrow> None
            | None \<Rightarrow> if isMediated sender s then Some (account_queue (ctx_now ctx) sender) else None))"

lemma found_queue:
  assumes "inboxOf incoming ctx session s = Found box"
  shows "\<exists>queue. queue_of incoming ctx session s = Some queue \<and> inbox box queue"
proof -
  obtain sender where sender: "ctx_sender ctx = Some sender"
    using assms by (cases "ctx_sender ctx") (auto simp: inboxOf_def)
  have guards: "\<not> bound_to_other session (canonicalDid sender)" "\<not> isReplicaAccount (canonicalDid sender) s"
    using assms sender by (auto simp: inboxOf_def Let_def split: if_splits)
  show ?thesis
  proof (cases "replicaState (canonicalDid sender) s")
    case None
    then have "box = account_inbox (ctx_now ctx) sender" "isMediated sender s"
      using assms sender guards by (auto simp: inboxOf_def Let_def split: if_splits)
    then show ?thesis
      using None sender guards account.inbox_axioms by (simp add: queue_of_def Let_def)
  next
    case (Some state)
    then have "box = replica_inbox (ctx_now ctx) (canonicalDid sender)" "isAuthcrypted incoming" "state = Active"
      using assms sender guards by (auto simp: inboxOf_def Let_def split: if_splits) (cases state; simp)
    then show ?thesis
      using Some sender guards replica.inbox_axioms by (simp add: queue_of_def Let_def)
  qed
qed

lemma queue_found:
  assumes "queue_of incoming ctx session s = Some queue"
  shows "\<exists>box. inboxOf incoming ctx session s = Found box \<and> inbox box queue"
proof -
  obtain sender where sender: "ctx_sender ctx = Some sender"
    using assms by (cases "ctx_sender ctx") (auto simp: queue_of_def)
  have guards: "\<not> bound_to_other session (canonicalDid sender)" "\<not> isReplicaAccount (canonicalDid sender) s"
    using assms sender by (auto simp: queue_of_def Let_def split: if_splits)
  show ?thesis
  proof (cases "replicaState (canonicalDid sender) s")
    case None
    then have "queue = account_queue (ctx_now ctx) sender" "isMediated sender s"
      using assms sender guards by (auto simp: queue_of_def Let_def split: if_splits)
    then show ?thesis using None sender guards account.inbox_axioms by (simp add: inboxOf_def Let_def)
  next
    case (Some state)
    then have "queue = replica_queue (ctx_now ctx) (canonicalDid sender)" "isAuthcrypted incoming" "state = Active"
      using assms sender guards by (auto simp: queue_of_def Let_def split: if_splits replica_state.splits)
    then show ?thesis using Some sender guards replica.inbox_axioms by (simp add: inboxOf_def Let_def)
  qed
qed

definition status_body :: "Session option \<Rightarrow> nat \<Rightarrow> json option \<Rightarrow> json_object" where
  "status_body session n recipientDid =
     [(''message_count'', JNat n),
      (''live_delivery'', JBool (case session of None \<Rightarrow> False | Some se \<Rightarrow> liveDelivery se))] @
     (case as_string recipientDid of None \<Rightarrow> [] | Some d \<Rightarrow> [(''recipient_did'', JStr d)])"

lemma status_run:
  "status box r w = (Inr (Some (plain_reply STATUS (status_body (w_session w) (inbox_count box r (w_store w)) r))), w)"
  by (simp add: status_def act_simps status_body_def)

lemma with_inbox_found:
  "inboxOf incoming ctx (w_session w) (w_store w) = Found box \<Longrightarrow> with_inbox incoming ctx f w = f box w"
  by (simp add: with_inbox_def act_simps)

text \<open>
  C21: A delivery request is answered the first messages of the sender's own
  queue, at most ten and at most as many as asked, in order, each with its
  text in base64url; with nothing to hand over it is answered the status, whose
  count is the queue's length. Nothing changes.
\<close>

theorem delivery_is_queue_prefix:
  assumes "db_inv (w_store w)" and "queue_of incoming ctx (w_session w) (w_store w) = Some queue"
  defines "r \<equiv> field (in_body incoming) ''recipient_did''"
    and "n \<equiv> page_limit DELIVERY_PAGE_LIMIT (field (in_body incoming) ''limit'')"
  shows "\<exists>reply. deliveryRequest incoming ctx w = (Inr (Some reply), w) \<and>
     (if take n (queue r (w_store w)) = []
      then reply = plain_reply STATUS (status_body (w_session w) (length (queue r (w_store w))) r)
      else reply_type reply = DELIVERY \<and> reply_attachments reply = map toAttachment (take n (queue r (w_store w)))) \<and>
     length (reply_attachments reply) \<le> 10"
proof -
  obtain box where box: "inboxOf incoming ctx (w_session w) (w_store w) = Found box" and i: "inbox box queue"
    using queue_found [OF assms(2)] by blast
  have "inbox_waiting box n r (w_store w) = take n (queue r (w_store w))"
    "inbox_count box r (w_store w) = length (queue r (w_store w))"
    using inbox.waiting_law [OF i assms(1)] inbox.count_law [OF i assms(1)] by blast+
  moreover have "n \<le> 10" using page_limit_le by (simp add: n_def DELIVERY_PAGE_LIMIT_def)
  ultimately show ?thesis
    using with_inbox_found [OF box]
    by (simp add: deliveryRequest_def Let_def act_simps status_run plain_reply_def min_def
        r_def [symmetric] n_def [symmetric])
qed

lemma account_acknowledge_others:
  assumes "db_inv s" and "inbox_acknowledge (account_inbox now sender) ids s = (Inr (), s')"
  shows "d \<noteq> sender \<Longrightarrow> account_queue t d r s' = account_queue t d r s"
    and "replica_queue t d r s' = replica_queue t d r s"
proof -
  have s': "s' = without_messages sender (set ids) s"
    using assms(2) deleteMessages_state [OF assms(1), of sender ids]
    by (auto simp: account_inbox_def split: prod.splits)
  show "replica_queue t d r s' = replica_queue t d r s"
    by (simp add: s' replica_queue_def waiting_deliveries_def without_messages_def)
  assume "d \<noteq> sender"
  then have "waiting_messages t d s' = waiting_messages t d s"
    by (auto simp: s' waiting_messages_def without_messages_def intro!: filter_cong)
  then show "account_queue t d r s' = account_queue t d r s" by (simp add: account_queue_def)
qed

lemma replica_acknowledge_others:
  assumes "db_inv s" and "inbox_acknowledge (replica_inbox now did) ids s = (Inr (), s')"
  shows "account_queue t d r s' = account_queue t d r s"
    and "d \<noteq> did \<Longrightarrow> replica_queue t d r s' = replica_queue t d r s"
proof -
  let ?w = "\<lambda>x. deliveries_replica_did x = did \<and> deliveries_id x \<in> set ids"
  have s': "s' = end_deliveries ?w s"
    using assms(2) acknowledgeDeliveries_run [OF assms(1)] by (simp add: replica_inbox_def)
  show "account_queue t d r s' = account_queue t d r s"
    by (simp add: s' account_queue_def waiting_messages_def end_deliveries_def delete_deliveries_def
        delete_ending_packages_def Let_def)
  assume "d \<noteq> did"
  then have "filter (\<lambda>dp. \<not> ?w (fst dp)) (waiting_deliveries t d nxt s) = waiting_deliveries t d nxt s" for nxt
    using waiting_deliveries_replica [of _ t d nxt s] by (intro filter_True) auto
  then show "replica_queue t d r s' = replica_queue t d r s"
    by (simp add: s' replica_queue_def waiting_end_deliveries [OF assms(1)])
qed

lemma acknowledge_others:
  assumes "db_inv s" and "inboxOf incoming ctx session s = Found box" and "ctx_sender ctx = Some sender"
    and "inbox_acknowledge box ids s = (Inr (), s')"
  shows "(d \<noteq> sender \<longrightarrow> account_queue t d r s' = account_queue t d r s) \<and>
     (d \<noteq> canonicalDid sender \<longrightarrow> replica_queue t d r s' = replica_queue t d r s)"
proof -
  consider "box = account_inbox (ctx_now ctx) sender" | "box = replica_inbox (ctx_now ctx) (canonicalDid sender)"
    using assms(2,3) by (auto simp: inboxOf_def Let_def split: if_splits option.splits)
  then show ?thesis
  proof cases
    case 1
    from account_acknowledge_others [OF assms(1) assms(4) [unfolded 1]] show ?thesis by blast
  next
    case 2
    from replica_acknowledge_others [OF assms(1) assms(4) [unfolded 2]] show ?thesis by blast
  qed
qed

text \<open>
  \<open>messages-received\<close> takes the messages named out of the sender's own queue
  and leaves every other account's and every other replica's queue as it was,
  whatever ids it names; it is answered how many messages still wait.
\<close>

theorem received_own_only:
  assumes "db_inv (w_store w)" and "queue_of incoming ctx (w_session w) (w_store w) = Some queue"
    and "ctx_sender ctx = Some sender"
  shows "\<exists>s'. messagesReceived incoming ctx w =
       (Inr (Some (plain_reply STATUS (status_body (w_session w) (length (queue None s')) None))), w\<lparr>w_store := s'\<rparr>) \<and>
     queue r s' = filter (\<lambda>m. stored_id m \<notin> set (received_ids incoming)) (queue r (w_store w)) \<and>
     (d \<noteq> sender \<longrightarrow> account_queue t d r s' = account_queue t d r (w_store w)) \<and>
     (d \<noteq> canonicalDid sender \<longrightarrow> replica_queue t d r s' = replica_queue t d r (w_store w))"
proof -
  obtain box where box: "inboxOf incoming ctx (w_session w) (w_store w) = Found box" and i: "inbox box queue"
    using queue_found [OF assms(2)] by blast
  obtain s' where s': "inbox_acknowledge box (received_ids incoming) (w_store w) = (Inr (), s')" "db_inv s'"
    "\<forall>r. queue r s' = filter (\<lambda>m. stored_id m \<notin> set (received_ids incoming)) (queue r (w_store w))"
    using inbox.acknowledge_law [OF i assms(1)] by blast
  have "messagesReceived incoming ctx w =
      (Inr (Some (plain_reply STATUS (status_body (w_session w) (length (queue None s')) None))), w\<lparr>w_store := s'\<rparr>)"
    using with_inbox_found [OF box] inbox.count_law [OF i s'(2)]
      bind_call [of "inbox_acknowledge box (received_ids incoming)" w, OF s'(1), of "\<lambda>_. status box None"]
    by (simp add: messagesReceived_def status_run)
  then show ?thesis
    using s'(3) acknowledge_others [OF assms(1) box assms(3) s'(1), of d t r] by blast
qed

text \<open>
  C22: Pickup loses nothing and repeats nothing: a client that asks for pages of
  its queue and acknowledges each is handed, in as many rounds as the queue
  needs, exactly the queue, in order, each message once, and leaves it empty.
\<close>

theorem pickup_drains_queue:
  assumes "db_inv s" and "inboxOf incoming ctx session s = Found box"
    and "queue_of incoming ctx session s = Some queue"
    and "0 < n" and "length (queue r s) \<le> rounds * n"
  shows "fst (drain box n r rounds s) = queue r s \<and> queue r (snd (drain box n r rounds s)) = [] \<and>
     distinct (map stored_id (fst (drain box n r rounds s)))"
proof -
  have i: "inbox box queue" using found_queue [OF assms(2)] assms(3) by auto
  show ?thesis
    using inbox.drains [OF i assms(1,4,5)] inbox.distinct_law [OF i assms(1)] by simp
qed

text \<open>
  On a connection another DID holds, every pickup is refused alike, and
  neither the store nor the session changes.
\<close>

theorem bound_connection_refused:
  assumes "ctx_sender ctx = Some sender" and "bound_to_other (w_session w) (canonicalDid sender)"
  shows "statusRequest incoming ctx w = (Inr (Some ANOTHERS_CONNECTION), w) \<and>
     deliveryRequest incoming ctx w = (Inr (Some ANOTHERS_CONNECTION), w) \<and>
     messagesReceived incoming ctx w = (Inr (Some ANOTHERS_CONNECTION), w) \<and>
     liveDeliveryChange incoming ctx w = (Inr (Some ANOTHERS_CONNECTION), w)"
  using assms by (simp add: statusRequest_def deliveryRequest_def messagesReceived_def liveDeliveryChange_def
      with_inbox_def act_simps inboxOf_def Let_def)

section \<open>Instances\<close>

definition demo_policy :: MediatorPolicy where
  "demo_policy = \<lparr>openRegistration = True, messageTtlSeconds = 10, maxMessagesPerAccount = 2, maxMessageBytes = 50,
     blobRetainSeconds = 100, blobMaxBytes = 8, blobQuotaBytes = 10,
     replicaMediation = True, maxActiveReplicas = 3, maxMembershipPage = 2, maxSharedRecipients = 5,
     maxRetainedBytes = 100, executionRetainSeconds = 60, maxRetainedExecutions = 4, maxExecutionRegistrations = 4\<rparr>"

definition demo_host :: host where
  "demo_host = \<lparr>host_codec = demo_codec, host_protected_header = (\<lambda>_. None), host_jws_header = (\<lambda>_. None),
     host_import_jwk = (\<lambda>_ _. True), host_verify = (\<lambda>_ _. None), host_web_document = (\<lambda>_. None),
     host_base64_text = base64url_decode, host_read_digest = (\<lambda>_. None), host_name_digest = (\<lambda>_. []),
     host_pack = (\<lambda>_. Some ''sealed'')\<rparr>"

definition demo_context :: "did \<Rightarrow> HandlerContext" where
  "demo_context sender = \<lparr>ctx_did = demo_mediator, ctx_dids = [demo_mediator], ctx_config = demo_policy,
     ctx_sender = Some sender, ctx_now = 7000, ctx_uuid = ''u1'', ctx_delivery_ids = (\<lambda>i. CHR ''e'' # replicate i CHR ''x''),
     ctx_host = demo_host, ctx_pinned = [], ctx_blobs = Some ''https://m'', ctx_blob_id = ''blob-3'', ctx_token = ''t1''\<rparr>"

definition demo_message :: "did \<Rightarrow> json_object \<Rightarrow> Unpacked" where
  "demo_message sender body = \<lparr>in_id = ''r1'', in_type = ''t'', in_from = Some sender, in_to = Some [demo_mediator],
     in_thid = None, in_body = body, in_attachments = [], in_expires_time = None, in_return_route = Some ''all'',
     in_encrypted = True, in_authenticated = True, in_encrypted_from_kid = Some ''k'', in_addressedTo = Some demo_mediator\<rparr>"

definition demo_world :: world where
  "demo_world = \<lparr>w_store = demo_db, w_session = None, w_offers = [], w_files = []\<rparr>"

lemma demo_canonical_did [simp]: "canonicalDid (demo_did CHR ''B'') = demo_did CHR ''B''"
  by code_simp

lemma demo_queue:
  "queue_of (demo_message demo_B body) (demo_context demo_B) None demo_db = Some (replica_queue 7000 demo_B)"
  by (simp add: queue_of_def demo_context_def demo_simps isReplicaAccount_def replicaState_def bound_to_other_def
      isAuthcrypted_def demo_message_def)

lemma demo_inbox:
  "inboxOf (demo_message demo_B body) (demo_context demo_B) None demo_db = Found (replica_inbox 7000 demo_B)"
  by (simp add: inboxOf_def demo_context_def demo_simps isReplicaAccount_def replicaState_def bound_to_other_def
      isAuthcrypted_def demo_message_def)

theorem delivery_is_queue_prefix_witness:
  "\<exists>reply. deliveryRequest (demo_message demo_B []) (demo_context demo_B) demo_world = (Inr (Some reply), demo_world) \<and>
     length (reply_attachments reply) \<le> 10"
proof -
  have "db_inv (w_store demo_world)" "queue_of (demo_message demo_B []) (demo_context demo_B) (w_session demo_world)
      (w_store demo_world) = Some (replica_queue 7000 demo_B)"
    using demo_inv demo_queue by (simp_all add: demo_world_def)
  from delivery_is_queue_prefix [OF this] show ?thesis by blast
qed

theorem received_own_only_witness:
  "\<exists>s'. snd (messagesReceived (demo_message demo_B [(''message_id_list'', JArr [JStr ''d''])]) (demo_context demo_B) demo_world) =
       demo_world\<lparr>w_store := s'\<rparr> \<and>
     replica_queue 7000 demo_C None s' = replica_queue 7000 demo_C None demo_db"
proof -
  let ?m = "demo_message demo_B [(''message_id_list'', JArr [JStr ''d''])]"
  have h: "db_inv (w_store demo_world)" "queue_of ?m (demo_context demo_B) (w_session demo_world)
      (w_store demo_world) = Some (replica_queue 7000 demo_B)" "ctx_sender (demo_context demo_B) = Some demo_B"
    using demo_inv demo_queue by (simp_all add: demo_world_def demo_context_def)
  have "demo_C \<noteq> canonicalDid demo_B" by (simp add: demo_simps)
  with received_own_only [OF h, of None demo_C 7000] show ?thesis by (auto simp: demo_world_def)
qed

theorem pickup_drains_queue_witness:
  "fst (drain (replica_inbox 7000 demo_B) 1 None 1 demo_db) =
     [\<lparr>stored_id = ''d'', stored_packed = ''parcel'', stored_createdAt = 6002\<rparr>]"
proof -
  have q: "replica_queue 7000 demo_B None demo_db = [\<lparr>stored_id = ''d'', stored_packed = ''parcel'', stored_createdAt = 6002\<rparr>]"
    by (simp add: replica_queue_def waiting_deliveries_def demo_simps forwardedTo_def delivered_message_def)
  have "length (replica_queue 7000 demo_B None demo_db) \<le> 1 * 1" by (simp add: q)
  from pickup_drains_queue [OF demo_inv demo_inbox demo_queue _ this] show ?thesis by (simp add: q)
qed

theorem bound_connection_refused_witness:
  "fst (statusRequest (demo_message demo_B []) (demo_context demo_B)
     (demo_world\<lparr>w_session := Some \<lparr>session_did = Some demo_C, liveDelivery = True, returnRoute = False\<rparr>\<rparr>)) =
   Inr (Some ANOTHERS_CONNECTION)"
proof -
  let ?w = "demo_world\<lparr>w_session := Some \<lparr>session_did = Some demo_C, liveDelivery = True, returnRoute = False\<rparr>\<rparr>"
  have c: "canonicalDid demo_C = demo_C" by code_simp
  have "ctx_sender (demo_context demo_B) = Some demo_B" "bound_to_other (w_session ?w) (canonicalDid demo_B)"
    by (simp_all add: demo_context_def bound_to_other_def c) (simp add: demo_simps)
  from bound_connection_refused [OF this] show ?thesis by simp
qed

end
