(* ===== verification/Mediator_Coordinate.thy ===== *)
theory Mediator_Coordinate
  imports Mediator_Pickup
begin

text \<open>
  coordinate-mediation 3.0, \<^verbatim>\<open>mediator/src/protocols/coordinate-mediation.ts\<close>:
  granting mediation, binding and unbinding recipients, and listing them.
\<close>

definition MEDIATE_GRANT :: string where
  "MEDIATE_GRANT = ''https://didcomm.org/coordinate-mediation/3.0/mediate-grant''"

definition MEDIATE_DENY :: string where
  "MEDIATE_DENY = ''https://didcomm.org/coordinate-mediation/3.0/mediate-deny''"

definition RECIPIENT_UPDATE_RESPONSE :: string where
  "RECIPIENT_UPDATE_RESPONSE = ''https://didcomm.org/coordinate-mediation/3.0/recipient-update-response''"

definition RECIPIENT :: string where
  "RECIPIENT = ''https://didcomm.org/coordinate-mediation/3.0/recipient''"

definition MAX_RECIPIENT_DID_LENGTH :: nat where
  "MAX_RECIPIENT_DID_LENGTH = 2048"

definition QUERY_PAGE_LIMIT :: nat where
  "QUERY_PAGE_LIMIT = 100"

definition mediateRequest :: "Unpacked \<Rightarrow> HandlerContext \<Rightarrow> Reply option act" where
  "mediateRequest incoming ctx =
     (case ctx_sender ctx of
        None \<Rightarrow> return_act (Some (plain_reply MEDIATE_DENY []))
      | Some sender \<Rightarrow>
          bind_act (ask (isMediated sender)) (\<lambda>mediated.
          if \<not> openRegistration (ctx_config ctx) \<and> \<not> mediated
          then return_act (Some (plain_reply MEDIATE_DENY []))
          else bind_act (call_store (grantMediation (ctx_now ctx) sender)) (\<lambda>granted.
            if \<not> granted then return_act (Some (plain_reply MEDIATE_DENY []))
            else return_act (Some (plain_reply MEDIATE_GRANT
              [(''routing_did'', JArr [JStr (asOwnDid ctx (in_addressedTo incoming))])])))))"

text \<open>\<open>updates(body)\<close>: the entries that are objects with a string \<open>recipient_did\<close> and a string \<open>action\<close>.\<close>

fun update_of :: "json \<Rightarrow> (did \<times> string) option" where
  "update_of (JObj ms) =
     (case (as_string (field ms ''recipient_did''), as_string (field ms ''action'')) of
        (Some d, Some a) \<Rightarrow> Some (d, a) | _ \<Rightarrow> None)"
| "update_of _ = None"

definition updates :: "json_object \<Rightarrow> (did \<times> string) list" where
  "updates body = (case as_array (field body ''updates'') of None \<Rightarrow> [] | Some xs \<Rightarrow> List.map_filter update_of xs)"

definition addDenialReason :: "did \<Rightarrow> did \<Rightarrow> HandlerContext \<Rightarrow> db \<Rightarrow> string option" where
  "addDenialReason recipientDid sender ctx s =
     (if \<not> starts_with recipientDid ''did:'' then Some ''not a DID''
      else if MAX_RECIPIENT_DID_LENGTH < js_length recipientDid then Some ''DID too long''
      else if isMediatorOwnDid recipientDid (ctx_dids ctx) then Some ''cannot bind the mediator's own DID''
      else if recipientDid \<noteq> sender \<and> isMediated recipientDid s then Some ''DID holds its own account here''
      else None)"

definition updated :: "did \<Rightarrow> string \<Rightarrow> string \<Rightarrow> json" where
  "updated recipientDid action result =
     JObj [(''recipient_did'', JStr recipientDid), (''action'', JStr action), (''result'', JStr result)]"

definition update_one :: "HandlerContext \<Rightarrow> did \<Rightarrow> did \<times> string \<Rightarrow> json act" where
  "update_one ctx sender u = (case u of (recipientDid, action) \<Rightarrow>
     if action = ''add'' then
       bind_act (ask (addDenialReason recipientDid sender ctx)) (\<lambda>denial.
       if denial \<noteq> None then return_act (updated recipientDid action ''client_error'')
       else bind_act (call_store (addRecipient (ctx_now ctx) sender recipientDid)) (\<lambda>result.
         return_act (updated recipientDid action
           (case result of Added \<Rightarrow> ''success'' | AlreadyYours \<Rightarrow> ''no_change'' | Taken \<Rightarrow> ''client_error''))))
     else if action = ''remove'' then
       bind_act (call_store (removeRecipient sender recipientDid)) (\<lambda>changed.
       return_act (updated recipientDid action (if changed then ''success'' else ''no_change'')))
     else return_act (updated recipientDid action ''client_error''))"

fun update_each :: "HandlerContext \<Rightarrow> did \<Rightarrow> (did \<times> string) list \<Rightarrow> json list act" where
  "update_each ctx sender [] = return_act []"
| "update_each ctx sender (u # us) =
     bind_act (update_one ctx sender u) (\<lambda>j. bind_act (update_each ctx sender us) (\<lambda>js. return_act (j # js)))"

definition recipientUpdate :: "Unpacked \<Rightarrow> HandlerContext \<Rightarrow> Reply option act" where
  "recipientUpdate incoming ctx =
     (case ctx_sender ctx of
        None \<Rightarrow> return_act None
      | Some sender \<Rightarrow>
          bind_act (ask (isMediated sender)) (\<lambda>mediated.
          if \<not> mediated then return_act None
          else bind_act (update_each ctx sender (updates (in_body incoming))) (\<lambda>js.
            return_act (Some (plain_reply RECIPIENT_UPDATE_RESPONSE [(''updated'', JArr js)])))))"

fun page_offset :: "json option \<Rightarrow> nat" where
  "page_offset (Some (JNum q)) = (if 0 < q then nat \<lfloor>q\<rfloor> else 0)"
| "page_offset _ = 0"

definition recipientQuery :: "Unpacked \<Rightarrow> HandlerContext \<Rightarrow> Reply option act" where
  "recipientQuery incoming ctx =
     (case ctx_sender ctx of
        None \<Rightarrow> return_act None
      | Some sender \<Rightarrow>
          bind_act (ask (isMediated sender)) (\<lambda>mediated.
          if \<not> mediated then return_act None
          else
            let paginate = (case as_object (field (in_body incoming) ''paginate'') of Some ms \<Rightarrow> ms | None \<Rightarrow> []);
                offset = page_offset (field paginate ''offset'');
                limit = page_limit QUERY_PAGE_LIMIT (field paginate ''limit'')
            in bind_act (ask (listRecipients sender offset limit)) (\<lambda>page.
               return_act (Some (plain_reply RECIPIENT
                 [(''dids'', JArr (map (\<lambda>d. JObj [(''recipient_did'', JStr d)]) (page_recipients page))),
                  (''pagination'', JObj [(''count'', JNat (length (page_recipients page))),
                     (''offset'', JNat offset), (''remaining'', JNat (page_remaining page))])])))))"

section \<open>What an update may bind\<close>

text \<open>
  What a run of updates by one sender leaves of the bindings: those of others
  untouched, and every new one the sender's own, for a DID that may be bound.
\<close>

definition bound_by :: "HandlerContext \<Rightarrow> did \<Rightarrow> db \<Rightarrow> db \<Rightarrow> bool" where
  "bound_by ctx sender s s' \<longleftrightarrow> accounts s' = accounts s \<and>
     (\<forall>k\<in>set (keylist s'). k \<in> set (keylist s) \<or>
        keylist_owner_did k = sender \<and> addDenialReason (keylist_recipient_did k) sender ctx s = None) \<and>
     (\<forall>owner. owner \<noteq> sender \<longrightarrow> keylist_of owner s' = keylist_of owner s)"

lemma bound_by_refl: "bound_by ctx sender s s"
  by (simp add: bound_by_def)

lemma bound_by_trans: "bound_by ctx sender s t \<Longrightarrow> bound_by ctx sender t u \<Longrightarrow> bound_by ctx sender s u"
proof -
  assume 1: "bound_by ctx sender s t" and 2: "bound_by ctx sender t u"
  then have "addDenialReason r sender ctx t = addDenialReason r sender ctx s" for r
    by (simp add: bound_by_def addDenialReason_def isMediated_def)
  with 1 2 show ?thesis unfolding bound_by_def by metis
qed

lemma bound_by_insert:
  "addDenialReason r sender ctx s = None \<Longrightarrow> bound_by ctx sender s (insert_recipient now sender r s)"
  by (auto simp: bound_by_def insert_recipient_def keylist_of_def)

lemma bound_by_remove:
  "bound_by ctx sender s (s\<lparr>keylist := filter (\<lambda>k. \<not> is_binding sender r k) (keylist s)\<rparr>)"
  by (auto simp: bound_by_def keylist_of_def is_binding_def intro!: filter_cong)

text \<open>The run of one update: its result names it, the invariant is kept, and only the store may change.\<close>

definition updates_ok :: "HandlerContext \<Rightarrow> did \<Rightarrow> world \<Rightarrow> world \<Rightarrow> bool" where
  "updates_ok ctx sender w w' \<longleftrightarrow> (\<exists>s'. w' = w\<lparr>w_store := s'\<rparr> \<and> db_inv s' \<and> bound_by ctx sender (w_store w) s')"

lemma updates_ok_refl: "db_inv (w_store w) \<Longrightarrow> updates_ok ctx sender w w"
  by (auto simp: updates_ok_def bound_by_refl intro!: exI [of _ "w_store w"])

lemma updates_ok_trans: "updates_ok ctx sender u v \<Longrightarrow> updates_ok ctx sender v w \<Longrightarrow> updates_ok ctx sender u w"
  unfolding updates_ok_def by (elim exE conjE) (auto intro!: exI intro: bound_by_trans)

lemma updates_ok_mediated: "updates_ok ctx sender w w' \<Longrightarrow> isMediated sender (w_store w') = isMediated sender (w_store w)"
  by (auto simp: updates_ok_def bound_by_def isMediated_def)

lemma call_run: "method (w_store w) = (Inr a, s') \<Longrightarrow> call_store method w = (Inr a, w\<lparr>w_store := s'\<rparr>)"
  by (simp add: call_store_def)

lemma update_one_run:
  assumes "db_inv (w_store w)" and "isMediated sender (w_store w)"
  shows "\<exists>result w'. update_one ctx sender (d, a) w = (Inr (updated d a result), w') \<and> updates_ok ctx sender w w'"
proof -
  let ?s = "w_store w"
  consider "a = ''add''" "addDenialReason d sender ctx ?s = None" | "a = ''remove''"
    | "a \<noteq> ''add''" "a \<noteq> ''remove''" | "a = ''add''" "addDenialReason d sender ctx ?s \<noteq> None" by blast
  then show ?thesis
  proof cases
    case 1
    obtain o' where o: "addRecipient (ctx_now ctx) sender d ?s = (Inr o', insert_recipient (ctx_now ctx) sender d ?s)"
      using addRecipient_run [OF assms] by blast
    have "updates_ok ctx sender w (w\<lparr>w_store := insert_recipient (ctx_now ctx) sender d ?s\<rparr>)"
      unfolding updates_ok_def using insert_recipient_inv [OF assms] bound_by_insert [OF 1(2)] by blast
    then show ?thesis using 1 o by (simp add: update_one_def act_simps bind_act_def call_store_def ask_def) blast
  next
    case 2
    let ?t = "?s\<lparr>keylist := filter (\<lambda>k. \<not> is_binding sender d k) (keylist ?s)\<rparr>"
    have r: "removeRecipient sender d ?s = (Inr (ownerOf d ?s = Some sender), ?t)" and i: "db_inv ?t"
      using removeRecipient_run [OF assms(1)] by blast+
    have "updates_ok ctx sender w (w\<lparr>w_store := ?t\<rparr>)"
      unfolding updates_ok_def using i bound_by_remove by blast
    then show ?thesis using 2 r by (simp add: update_one_def act_simps bind_act_def call_store_def) blast
  next
    case 3
    then show ?thesis using updates_ok_refl [OF assms(1)] by (simp add: update_one_def act_simps) blast
  next
    case 4
    then show ?thesis using updates_ok_refl [OF assms(1)] by (simp add: update_one_def act_simps) blast
  qed
qed

lemma update_each_run:
  assumes "db_inv (w_store w)" and "isMediated sender (w_store w)"
  shows "\<exists>js w'. update_each ctx sender us w = (Inr js, w') \<and> updates_ok ctx sender w w' \<and>
     list_all2 (\<lambda>u j. \<exists>result. j = updated (fst u) (snd u) result) us js"
  using assms
proof (induction us arbitrary: w)
  case Nil
  then show ?case using updates_ok_refl by (simp add: act_simps)
next
  case (Cons u us)
  obtain result w1 where 1: "update_one ctx sender u w = (Inr (updated (fst u) (snd u) result), w1)"
    "updates_ok ctx sender w w1"
    using update_one_run [OF Cons.prems, of ctx "fst u" "snd u"] by auto
  have "db_inv (w_store w1)" "isMediated sender (w_store w1)"
    using 1(2) Cons.prems(2) updates_ok_mediated [OF 1(2)] by (auto simp: updates_ok_def)
  then obtain js w2 where 2: "update_each ctx sender us w1 = (Inr js, w2)" "updates_ok ctx sender w1 w2"
    "list_all2 (\<lambda>u j. \<exists>result. j = updated (fst u) (snd u) result) us js"
    using Cons.IH by blast
  have "update_each ctx sender (u # us) w = (Inr (updated (fst u) (snd u) result # js), w2)"
    by (simp add: bind_act_def 1(1) 2(1) return_act_def)
  then show ?case using updates_ok_trans [OF 1(2) 2(2)] 2(3) by auto
qed

section \<open>Properties\<close>

text \<open>
  C23: Mediation is granted exactly to a proven sender that either holds an
  account already or finds registration open and is not bound by replica
  mediation in either spelling; the grant names the DID the sender addressed
  and leaves the sender an account, and a denial changes nothing.
\<close>

theorem mediation_granted_iff:
  assumes "db_inv (w_store w)"
  shows "\<exists>reply w'. mediateRequest incoming ctx w = (Inr (Some reply), w') \<and>
     (case ctx_sender ctx of
        None \<Rightarrow> reply_type reply = MEDIATE_DENY \<and> w' = w
      | Some sender \<Rightarrow>
          if isMediated sender (w_store w) \<or>
             openRegistration (ctx_config ctx) \<and> not_replica_mediation (spellings sender None) (w_store w)
          then reply = plain_reply MEDIATE_GRANT [(''routing_did'', JArr [JStr (asOwnDid ctx (in_addressedTo incoming))])] \<and>
               isMediated sender (w_store w') \<and> db_inv (w_store w')
          else reply_type reply = MEDIATE_DENY \<and> w' = w)"
proof (cases "ctx_sender ctx")
  case None
  then show ?thesis by (simp add: mediateRequest_def act_simps plain_reply_def)
next
  case (Some sender)
  let ?s = "w_store w" and ?t = "insert_account (ctx_now ctx) sender (w_store w)"
  have g: "grantMediation (ctx_now ctx) sender ?s = (Inr (isMediated sender ?t), ?t)"
    by (rule grantMediation_run [OF assms])
  have m: "isMediated sender ?t \<longleftrightarrow> isMediated sender ?s \<or> not_replica_mediation (spellings sender None) ?s"
    by (auto simp: insert_account_def isMediated_def)
  have same: "?t = ?s" if "\<not> isMediated sender ?t" using that by (auto simp: insert_account_def isMediated_def)
  show ?thesis
    using Some g m same insert_account_inv [OF assms, of "ctx_now ctx" sender]
    by (auto simp: mediateRequest_def act_simps bind_act_def call_store_def ask_def return_act_def plain_reply_def)
qed

theorem mediation_granted_iff_witness:
  "\<exists>reply w'. mediateRequest (demo_message demo_B []) (demo_context demo_B) demo_world = (Inr (Some reply), w') \<and>
     reply_type reply = MEDIATE_DENY \<and> w' = demo_world"
proof -
  have "db_inv (w_store demo_world)" using demo_inv by (simp add: demo_world_def)
  from mediation_granted_iff [OF this, of "demo_message demo_B []" "demo_context demo_B"] show ?thesis
    by (auto simp: demo_context_def demo_world_def demo_policy_def demo_simps split: if_splits)
qed

text \<open>
  Nobody can squat: an update leaves the bindings of every other account
  alone, and whatever it binds is bound to its own sender, is a DID of bounded
  length, is no name of the mediator in any spelling, and holds no account of
  its own unless it is the sender itself. It answers every well-formed update
  in order and never fails.
\<close>

theorem update_binds_own_only:
  assumes "db_inv (w_store w)" and "ctx_sender ctx = Some sender" and "isMediated sender (w_store w)"
  shows "\<exists>js s'. recipientUpdate incoming ctx w =
       (Inr (Some (plain_reply RECIPIENT_UPDATE_RESPONSE [(''updated'', JArr js)])), w\<lparr>w_store := s'\<rparr>) \<and>
     list_all2 (\<lambda>u j. \<exists>result. j = updated (fst u) (snd u) result) (updates (in_body incoming)) js \<and>
     (owner \<noteq> sender \<longrightarrow> keylist_of owner s' = keylist_of owner (w_store w)) \<and>
     (k \<in> set (keylist s') \<and> k \<notin> set (keylist (w_store w)) \<longrightarrow>
        keylist_owner_did k = sender \<and> starts_with (keylist_recipient_did k) ''did:'' \<and>
        js_length (keylist_recipient_did k) \<le> MAX_RECIPIENT_DID_LENGTH \<and>
        \<not> isMediatorOwnDid (keylist_recipient_did k) (ctx_dids ctx) \<and>
        (isMediated (keylist_recipient_did k) (w_store w) \<longrightarrow> keylist_recipient_did k = sender))"
proof -
  obtain js w' where run: "update_each ctx sender (updates (in_body incoming)) w = (Inr js, w')"
    "updates_ok ctx sender w w'"
    "list_all2 (\<lambda>u j. \<exists>result. j = updated (fst u) (snd u) result) (updates (in_body incoming)) js"
    using update_each_run [OF assms(1,3)] by blast
  obtain s' where s': "w' = w\<lparr>w_store := s'\<rparr>" "bound_by ctx sender (w_store w) s'"
    using run(2) by (auto simp: updates_ok_def)
  have "recipientUpdate incoming ctx w =
      (Inr (Some (plain_reply RECIPIENT_UPDATE_RESPONSE [(''updated'', JArr js)])), w\<lparr>w_store := s'\<rparr>)"
    using assms(2,3) run(1) s'(1) by (simp add: recipientUpdate_def bind_act_def ask_def return_act_def)
  moreover have "keylist_owner_did k = sender \<and> addDenialReason (keylist_recipient_did k) sender ctx (w_store w) = None"
    if "k \<in> set (keylist s')" "k \<notin> set (keylist (w_store w))"
    using s'(2) that by (auto simp: bound_by_def)
  moreover have "owner \<noteq> sender \<longrightarrow> keylist_of owner s' = keylist_of owner (w_store w)"
    using s'(2) by (simp add: bound_by_def)
  ultimately show ?thesis
    by (intro exI [of _ js] exI [of _ s']) (use run(3) in \<open>auto simp: addDenialReason_def split: if_splits\<close>)
qed

lemma demo_alice_mediated: "isMediated demo_alice demo_db"
  by (simp add: demo_simps)

theorem update_binds_own_only_witness:
  "\<exists>js s'. recipientUpdate (demo_message demo_alice [(''updates'', JArr [JObj [(''recipient_did'', JStr ''did:web:m''),
        (''action'', JStr ''add'')]])]) (demo_context demo_alice) demo_world =
       (Inr (Some (plain_reply RECIPIENT_UPDATE_RESPONSE [(''updated'', JArr js)])), demo_world\<lparr>w_store := s'\<rparr>) \<and>
     length js = 1 \<and> keylist_of demo_B s' = keylist_of demo_B demo_db"
proof -
  let ?m = "demo_message demo_alice [(''updates'', JArr [JObj [(''recipient_did'', JStr ''did:web:m''), (''action'', JStr ''add'')]])]"
  have h: "db_inv (w_store demo_world)" "ctx_sender (demo_context demo_alice) = Some demo_alice"
    "isMediated demo_alice (w_store demo_world)"
    using demo_inv demo_alice_mediated by (simp_all add: demo_world_def demo_context_def)
  have u: "updates (in_body ?m) = [(''did:web:m'', ''add'')]"
    by (simp add: demo_message_def updates_def field_def List.map_filter_def)
  have "demo_B \<noteq> demo_alice" by (simp add: demo_simps)
  with update_binds_own_only [OF h, of ?m demo_B] obtain js s' where run:
    "recipientUpdate ?m (demo_context demo_alice) demo_world =
       (Inr (Some (plain_reply RECIPIENT_UPDATE_RESPONSE [(''updated'', JArr js)])), demo_world\<lparr>w_store := s'\<rparr>)"
    "list_all2 (\<lambda>u j. \<exists>result. j = updated (fst u) (snd u) result) (updates (in_body ?m)) js"
    "keylist_of demo_B s' = keylist_of demo_B (w_store demo_world)" by blast
  have "length js = 1" using list_all2_lengthD [OF run(2)] unfolding u by simp
  with run(1,3) show ?thesis by (auto simp: demo_world_def)
qed

text \<open>
  A recipient query is answered a page of the sender's own recipients: of all
  of them, ordered by when each was bound and then by DID, those after the
  offset, at most as many as asked and at most a hundred, and how many are left
  after the page.
\<close>

theorem query_pages:
  fixes incoming :: Unpacked
  assumes "ctx_sender ctx = Some sender" and "isMediated sender (w_store w)"
  defines "all \<equiv> map keylist_recipient_did (sort_key (\<lambda>k. (keylist_created_at k, keylist_recipient_did k))
      (keylist_of sender (w_store w)))"
    and "paginate \<equiv> (case as_object (field (in_body incoming) ''paginate'') of Some ms \<Rightarrow> ms | None \<Rightarrow> [])"
  shows "\<exists>offset limit page. recipientQuery incoming ctx w =
     (Inr (Some (plain_reply RECIPIENT
        [(''dids'', JArr (map (\<lambda>d. JObj [(''recipient_did'', JStr d)]) page)),
         (''pagination'', JObj [(''count'', JNat (length page)), (''offset'', JNat offset),
            (''remaining'', JNat (length all - (offset + length page)))])])), w) \<and>
     page = take limit (drop offset all) \<and> offset = page_offset (field paginate ''offset'') \<and>
     limit = page_limit 100 (field paginate ''limit'') \<and> length page \<le> 100"
proof -
  show ?thesis
    using assms(1,2) page_limit_le [of 100 "field paginate ''limit''"]
    by (simp add: recipientQuery_def act_simps paginate_def [symmetric] all_def listRecipients_def Let_def
        QUERY_PAGE_LIMIT_def take_map drop_map min.coboundedI2)
qed

theorem query_pages_witness:
  "\<exists>reply. recipientQuery (demo_message demo_alice []) (demo_context demo_alice) demo_world = (Inr (Some reply), demo_world) \<and>
     reply_type reply = RECIPIENT"
proof -
  have h: "ctx_sender (demo_context demo_alice) = Some demo_alice" "isMediated demo_alice (w_store demo_world)"
    using demo_alice_mediated by (simp_all add: demo_world_def demo_context_def)
  from query_pages [OF h, of "demo_message demo_alice []"] show ?thesis by (auto simp: plain_reply_def)
qed

end
