(* ===== verification/Mediator_Routing.thy ===== *)
theory Mediator_Routing
  imports Mediator_Coordinate
begin

text \<open>
  routing 2.0, \<^verbatim>\<open>mediator/src/protocols/routing.ts\<close>: what envelope a forward
  carries, which queue it lands in, and how it is refused. A refusal is the
  fault \<open>ForwardRefused\<close> with the HTTP status the sender sees.
\<close>

definition FORWARD :: string where
  "FORWARD = ''https://didcomm.org/routing/2.0/forward''"

definition ownerFor :: "did \<Rightarrow> db \<Rightarrow> did option" where
  "ownerFor nxt s = (if isMediated nxt s then Some nxt else ownerOf nxt s)"

definition ENCRYPTED_MEDIA_TYPE :: string where
  "ENCRYPTED_MEDIA_TYPE = ''application/didcomm-encrypted+json''"

section \<open>The envelope\<close>

fun strip_padding :: "nat \<Rightarrow> string \<Rightarrow> string" where
  "strip_padding most [] = []"
| "strip_padding 0 t = t"
| "strip_padding (Suc most) t = (if last t = CHR ''='' then strip_padding most (butlast t) else t)"

definition carriedText :: "string \<Rightarrow> string option" where
  "carriedText base64 =
     (let unpadded = (if length base64 mod 4 = 0 then strip_padding 2 base64 else base64) in
      if \<not> isBase64url unpadded then None else decode_utf8 (base64url_decode unpadded))"

fun is_base64url_json :: "json option \<Rightarrow> bool" where
  "is_base64url_json (Some (JStr t)) = isBase64url t"
| "is_base64url_json _ = False"

definition isName :: "json option \<Rightarrow> bool" where
  "isName value = (case as_string value of None \<Rightarrow> False | Some t \<Rightarrow> t \<noteq> [])"

definition isJoseHeader :: "json_object list \<Rightarrow> bool" where
  "isJoseHeader parts =
     (let header = concat parts in
      distinct (map fst header) \<and> isName (field header ''alg'') \<and> isName (field header ''enc'') \<and>
      (field header ''epk'' = None \<or> as_object (field header ''epk'') \<noteq> None) \<and>
      list_all (\<lambda>name. field header name = None \<or> as_string (field header name) \<noteq> None) [''apu'', ''apv'', ''skid''])"

definition is_recipient :: "json_object \<Rightarrow> json_object \<Rightarrow> json \<Rightarrow> bool" where
  "is_recipient protectedHeader unprotected recipient =
     (case as_object (Some recipient) of None \<Rightarrow> False
      | Some r \<Rightarrow> is_base64url_json (field r ''encrypted_key'') \<and>
          (case as_object (field r ''header'') of None \<Rightarrow> False
           | Some header \<Rightarrow> isName (field header ''kid'') \<and> isJoseHeader [protectedHeader, unprotected, header]))"

definition isEncryptedMessage :: "host \<Rightarrow> json \<Rightarrow> bool" where
  "isEncryptedMessage h envelope =
     (case as_object (Some envelope) of None \<Rightarrow> False
      | Some e \<Rightarrow>
          list_all (\<lambda>name. is_base64url_json (field e name)) [''protected'', ''iv'', ''ciphertext'', ''tag''] \<and>
          (field e ''aad'' = None \<or> is_base64url_json (field e ''aad'')) \<and>
          (case (as_object (case field e ''unprotected'' of None \<Rightarrow> Some (JObj []) | Some u \<Rightarrow> Some u),
                 as_array (field e ''recipients''), as_string (field e ''protected'')) of
             (Some unprotected, Some recipients, Some protected) \<Rightarrow>
               recipients \<noteq> [] \<and>
               (case host_protected_header h protected of None \<Rightarrow> False
                | Some protectedHeader \<Rightarrow> list_all (is_recipient protectedHeader unprotected) recipients)
           | _ \<Rightarrow> False))"

definition carried :: "host \<Rightarrow> json_object \<Rightarrow> json option" where
  "carried h data =
     (if field data ''json'' \<noteq> None \<and> field data ''json'' \<noteq> Some JNull then field data ''json''
      else Option.bind (as_string (field data ''base64'')) (\<lambda>t. Option.bind (carriedText t) (json_of_text (host_codec h))))"

definition envelopeOf :: "HandlerContext \<Rightarrow> Unpacked \<Rightarrow> nat + string" where
  "envelopeOf ctx incoming =
     (case in_attachments incoming of
        [attachment] \<Rightarrow>
          (let data = att_data attachment;
               asJson = (field data ''json'' \<noteq> None \<and> field data ''json'' \<noteq> Some JNull);
               asBase64 = (as_string (field data ''base64'') \<noteq> None) in
           if (case att_media_type attachment of None \<Rightarrow> ENCRYPTED_MEDIA_TYPE | Some t \<Rightarrow> t) \<noteq> ENCRYPTED_MEDIA_TYPE
           then Inl 400
           else if asJson = asBase64 \<or> field data ''links'' \<noteq> None then Inl 400
           else case carried (ctx_host ctx) data of
             None \<Rightarrow> Inl 400
           | Some envelope \<Rightarrow>
               if \<not> isEncryptedMessage (ctx_host ctx) envelope then Inl 400
               else let packed = json_text (host_codec (ctx_host ctx)) envelope in
                 if maxMessageBytes (ctx_config ctx) < length packed then Inl 413 else Inr packed)
      | _ \<Rightarrow> Inl 400)"

section \<open>The forward\<close>

text \<open>A rejected call of the store, caught: no result.\<close>

definition catch_store :: "'a act \<Rightarrow> 'a option act" where
  "catch_store m w = (case m w of (Inl e, w') \<Rightarrow> (Inr None, w') | (Inr a, w') \<Rightarrow> (Inr (Some a), w'))"

fun offer_each :: "ReplicaDelivery list \<Rightarrow> unit act" where
  "offer_each [] = return_act ()"
| "offer_each (d # ds) = bind_act (offer (delivery_replicaDid d) (delivery_message d)) (\<lambda>_. offer_each ds)"

definition forward :: "Unpacked \<Rightarrow> HandlerContext \<Rightarrow> Reply option act" where
  "forward incoming ctx =
     (if \<not> in_encrypted incoming then throw (ForwardRefused 400)
      else case didOf (as_string (field (in_body incoming) ''next'')) of
        None \<Rightarrow> throw (ForwardRefused 400)
      | Some nxt \<Rightarrow>
          if \<not> starts_with nxt ''did:'' then throw (ForwardRefused 400)
          else case envelopeOf ctx incoming of
            Inl code \<Rightarrow> throw (ForwardRefused code)
          | Inr packed \<Rightarrow>
              bind_act (ask (ownerFor nxt)) (\<lambda>found.
              case found of
                None \<Rightarrow>
                  if \<not> replicaMediation (ctx_config ctx) then throw (ForwardRefused 422)
                  else bind_act (catch_store (call_store (fanOut (options_of (ctx_config ctx)) (ctx_uuid ctx)
                      (ctx_delivery_ids ctx) (ctx_now ctx) (canonicalDid nxt) packed
                      \<lparr>bounds_deadline = map_option (\<lambda>t. t * 1000) (in_expires_time incoming),
                       bounds_maxRetainedBytes = maxRetainedBytes (ctx_config ctx)\<rparr>))) (\<lambda>queued.
                    case queued of
                      Some (FanStored deliveries) \<Rightarrow> bind_act (offer_each deliveries) (\<lambda>_. return_act None)
                    | _ \<Rightarrow> throw (ForwardRefused 422))
              | Some owner \<Rightarrow>
                  bind_act (call_store (storeMessage (options_of (ctx_config ctx)) (ctx_uuid ctx) (ctx_now ctx) owner packed)) (\<lambda>stored.
                  case stored of
                    Full \<Rightarrow> throw (ForwardRefused 422)
                  | Stored message \<Rightarrow> bind_act (offer owner message) (\<lambda>_. return_act None))))"

section \<open>What a forward does\<close>

lemma envelopeOf_status: "envelopeOf ctx incoming = Inl code \<Longrightarrow> code = 400 \<or> code = 413"
  unfolding envelopeOf_def Let_def
  by (auto split: list.splits if_splits option.splits)

lemma offer_each_run:
  "offer_each ds w = (Inr (), w\<lparr>w_offers := w_offers w @ map (\<lambda>d. (delivery_replicaDid d, delivery_message d)) ds\<rparr>)"
  by (induction ds arbitrary: w) (simp_all add: act_simps)

lemma ownerFor_mediated: "db_inv s \<Longrightarrow> ownerFor nxt s = Some owner \<Longrightarrow> isMediated owner s"
  using fk_okD(1) [OF db_invD(2), of s]
  by (auto simp: ownerFor_def ownerOf_def isMediated_def split: if_splits dest!: row_of_SomeD)

text \<open>The row a message becomes, and the message it is offered as.\<close>

definition forwarded_message :: "HandlerContext \<Rightarrow> string \<Rightarrow> StoredMessage" where
  "forwarded_message ctx packed = \<lparr>stored_id = ctx_uuid ctx, stored_packed = packed, stored_createdAt = ctx_now ctx\<rparr>"

definition forward_bounds :: "HandlerContext \<Rightarrow> Unpacked \<Rightarrow> PackageBounds" where
  "forward_bounds ctx incoming = \<lparr>bounds_deadline = map_option (\<lambda>t. t * 1000) (in_expires_time incoming),
     bounds_maxRetainedBytes = maxRetainedBytes (ctx_config ctx)\<rparr>"


text \<open>A sound forward: the recipient it names and the envelope it carries.\<close>

definition sound_forward :: "HandlerContext \<Rightarrow> Unpacked \<Rightarrow> did \<Rightarrow> string \<Rightarrow> bool" where
  "sound_forward ctx incoming nxt packed \<longleftrightarrow> in_encrypted incoming \<and>
     didOf (as_string (field (in_body incoming) ''next'')) = Some nxt \<and> starts_with nxt ''did:'' \<and>
     envelopeOf ctx incoming = Inr packed"

lemma forward_unsound:
  assumes "\<nexists>nxt packed. sound_forward ctx incoming nxt packed"
  shows "forward incoming ctx w = (Inl (ForwardRefused 400), w) \<or> forward incoming ctx w = (Inl (ForwardRefused 413), w)"
  using assms envelopeOf_status
  by (auto simp: sound_forward_def forward_def act_simps split: option.splits sum.splits)

lemma forward_to_account:
  assumes "db_inv (w_store w)" and "ctx_uuid ctx \<notin> messages_id ` set (messages (w_store w))"
    and "sound_forward ctx incoming nxt packed" and "ownerFor nxt (w_store w) = Some owner"
  shows "forward incoming ctx w =
     (if messageCount (ctx_now ctx) owner (w_store w) < maxMessagesPerAccount (ctx_config ctx)
      then (Inr None, w\<lparr>w_store := insert_message (options_of (ctx_config ctx)) (ctx_uuid ctx) (ctx_now ctx) owner packed (w_store w),
             w_offers := w_offers w @ [(owner, forwarded_message ctx packed)]\<rparr>)
      else (Inl (ForwardRefused 422), w))"
proof -
  note run = storeMessage_run [OF assms(1) ownerFor_mediated [OF assms(1,4)] assms(2),
      of "options_of (ctx_config ctx)" "ctx_now ctx" packed]
  have "insert_message (options_of (ctx_config ctx)) (ctx_uuid ctx) (ctx_now ctx) owner packed (w_store w) = w_store w"
    if "\<not> messageCount (ctx_now ctx) owner (w_store w) < maxMessagesPerAccount (ctx_config ctx)"
    using that by (simp add: insert_message_def messageCount_def options_of_def)
  then show ?thesis
    using assms(3,4) run
    by (auto simp: sound_forward_def forward_def act_simps bind_call forwarded_message_def options_of_def)
qed

definition forwarded_deliveries :: "HandlerContext \<Rightarrow> did \<Rightarrow> string \<Rightarrow> db \<Rightarrow> (did \<times> StoredMessage) list" where
  "forwarded_deliveries ctx nxt packed s =
     map (\<lambda>d. (deliveries_replica_did d, \<lparr>stored_id = deliveries_id d, stored_packed = packed, stored_createdAt = ctx_now ctx\<rparr>))
       (sort_key deliveries_replica_did (deliveries_for (ctx_delivery_ids ctx) (ctx_uuid ctx) (targets (canonicalDid nxt) s)))"

lemma forward_to_replicas:
  assumes "db_inv (w_store w)" and "fresh_mail (ctx_uuid ctx) (ctx_delivery_ids ctx) (w_store w)"
    and "sound_forward ctx incoming nxt packed" and "ownerFor nxt (w_store w) = None"
  shows "forward incoming ctx w =
     (case (if replicaMediation (ctx_config ctx) \<and>
               ctx_now ctx < expiry (options_of (ctx_config ctx)) (ctx_now ctx) (bounds_deadline (forward_bounds ctx incoming))
            then routed_account (canonicalDid nxt) (w_store w) else None) of
        None \<Rightarrow> (Inl (ForwardRefused 422), w)
      | Some a \<Rightarrow>
          if has_room (options_of (ctx_config ctx)) (ctx_now ctx) (int (length packed)) (maxRetainedBytes (ctx_config ctx)) (w_store w) a
          then (Inr None, w\<lparr>w_store := fanned (options_of (ctx_config ctx)) (ctx_uuid ctx) (ctx_delivery_ids ctx) (ctx_now ctx)
                    (canonicalDid nxt) packed (forward_bounds ctx incoming) a (w_store w),
                 w_offers := w_offers w @ forwarded_deliveries ctx nxt packed (w_store w)\<rparr>)
          else (Inl (ForwardRefused 422), w))"
proof -
  let ?o = "options_of (ctx_config ctx)" and ?b = "forward_bounds ctx incoming"
  have b: "\<lparr>bounds_deadline = map_option (\<lambda>t. t * 1000) (in_expires_time incoming),
      bounds_maxRetainedBytes = maxRetainedBytes (ctx_config ctx)\<rparr> = ?b"
    "bounds_maxRetainedBytes ?b = maxRetainedBytes (ctx_config ctx)"
    by (simp_all add: forward_bounds_def)
  show ?thesis
  proof (cases "ctx_now ctx < expiry ?o (ctx_now ctx) (bounds_deadline ?b)")
    case False
    then have "fanOut ?o (ctx_uuid ctx) (ctx_delivery_ids ctx) (ctx_now ctx) (canonicalDid nxt) packed ?b (w_store w) =
        (Inr FanLapsed, w_store w)"
      by (intro fanOut_lapsed) simp
    then show ?thesis
      using assms(3,4) False
      by (simp add: sound_forward_def forward_def act_simps b bind_act_def catch_store_def call_store_def ask_def throw_def)
  next
    case True
    show ?thesis
      using assms(3,4) True fanOut_run [OF assms(1) True assms(2), of "canonicalDid nxt" packed]
      by (auto simp: sound_forward_def forward_def act_simps b bind_act_def catch_store_def call_store_def ask_def
          throw_def offer_each_run return_act_def forwarded_deliveries_def comp_def split: option.split)
  qed
qed


text \<open>What is offered to a listener is waiting in its queue.\<close>

lemma stored_waits:
  assumes "messageCount now owner s < maxMessages opts" and "0 < ttlMs opts"
  shows "\<lparr>stored_id = mid, stored_packed = packed, stored_createdAt = now\<rparr> \<in>
     set (account_queue now owner r (insert_message opts mid now owner packed s))"
  using assms by (auto simp: account_queue_def insert_message_def messageCount_def waiting_messages_def stored_message_def)

lemma fanned_waits:
  assumes "db_inv s" and "fresh_mail pid ids s" and "now < expiry opts now (bounds_deadline bounds)"
    and "d \<in> set (deliveries_for ids pid (targets nxt s))"
  shows "\<lparr>stored_id = deliveries_id d, stored_packed = packed, stored_createdAt = now\<rparr> \<in>
     set (replica_queue now (deliveries_replica_did d) None (fanned opts pid ids now nxt packed bounds a s))"
proof -
  let ?p = "package_for opts pid now nxt packed bounds a"
  have "(d, ?p) \<in> set (waiting_deliveries now (deliveries_replica_did d) None (fanned opts pid ids now nxt packed bounds a s))"
    using assms(4) by (simp add: waiting_fanned [OF assms(1,2,3)])
  then have "delivered_message (d, ?p) \<in> set (replica_queue now (deliveries_replica_did d) None
      (fanned opts pid ids now nxt packed bounds a s))"
    by (simp add: replica_queue_def forwardedTo_def)
  then show ?thesis by (simp add: delivered_message_def package_for_def)
qed

section \<open>Properties\<close>

text \<open>
  C24: A forward is taken whole or refused with nothing done. A refusal is one of
  400, 413 and 422 and leaves the store and the listeners as they were.
  A forward taken has its envelope kept, once: as a message of the
  recipient's ordinary account, or as a package of the replica account the
  recipient routes to; and whatever is offered to a listener is that envelope,
  waiting in the listener's queue.
\<close>

theorem forward_kept_or_refused:
  assumes "db_inv (w_store w)" and "fresh_mail (ctx_uuid ctx) (ctx_delivery_ids ctx) (w_store w)"
    and "ctx_uuid ctx \<notin> messages_id ` set (messages (w_store w))" and "0 < messageTtlSeconds (ctx_config ctx)"
  shows "case forward incoming ctx w of
     (Inl f, w') \<Rightarrow> w' = w \<and> f \<in> {ForwardRefused 400, ForwardRefused 413, ForwardRefused 422}
   | (Inr reply, w') \<Rightarrow> reply = None \<and> (\<exists>nxt packed offers.
       sound_forward ctx incoming nxt packed \<and> w_offers w' = w_offers w @ offers \<and>
       (\<forall>(listener, m) \<in> set offers. stored_packed m = packed \<and>
          m \<in> set (account_queue (ctx_now ctx) listener None (w_store w')) \<union>
               set (replica_queue (ctx_now ctx) listener None (w_store w'))) \<and>
       (case ownerFor nxt (w_store w) of
          Some owner \<Rightarrow> (\<exists>row. w_store w' = (w_store w)\<lparr>messages := messages (w_store w) @ [row]\<rparr> \<and>
            messages_owner_did row = owner \<and> messages_packed row = packed)
        | None \<Rightarrow> (\<exists>row. replica_packages (w_store w') = replica_packages (w_store w) @ [row] \<and>
            routed_account (canonicalDid nxt) (w_store w) = Some (packages_account_did row) \<and> packages_packed row = packed)))"
proof (cases "\<exists>nxt packed. sound_forward ctx incoming nxt packed")
  case False
  then show ?thesis using forward_unsound [of ctx incoming w] by auto
next
  case True
  then obtain nxt packed where f: "sound_forward ctx incoming nxt packed" by blast
  let ?o = "options_of (ctx_config ctx)" and ?now = "ctx_now ctx"
  show ?thesis
  proof (cases "ownerFor nxt (w_store w)")
    case (Some owner)
    let ?s = "insert_message ?o (ctx_uuid ctx) ?now owner packed (w_store w)"
    show ?thesis
    proof (cases "messageCount ?now owner (w_store w) < maxMessagesPerAccount (ctx_config ctx)")
      case True
      have "forwarded_message ctx packed \<in> set (account_queue ?now owner None ?s)"
        unfolding forwarded_message_def using True assms(4) by (intro stored_waits) (simp_all add: options_of_def)
      moreover have "\<exists>row. ?s = (w_store w)\<lparr>messages := messages (w_store w) @ [row]\<rparr> \<and> messages_owner_did row = owner \<and>
          messages_packed row = packed"
        using True by (auto simp: insert_message_def messageCount_def options_of_def)
      moreover have "stored_packed (forwarded_message ctx packed) = packed" by (simp add: forwarded_message_def)
      ultimately show ?thesis
        unfolding forward_to_account [OF assms(1,3) f Some] using True f Some
        by (simp; intro exI [of _ nxt] exI [of _ packed]) simp
    next
      case False
      then show ?thesis unfolding forward_to_account [OF assms(1,3) f Some] by simp
    qed
  next
    case None
    have "m \<in> set (replica_queue ?now l None (fanned ?o (ctx_uuid ctx) (ctx_delivery_ids ctx) ?now (canonicalDid nxt) packed
        (forward_bounds ctx incoming) a (w_store w))) \<and> stored_packed m = packed"
      if "(l, m) \<in> set (forwarded_deliveries ctx nxt packed (w_store w))"
        "?now < expiry ?o ?now (bounds_deadline (forward_bounds ctx incoming))" for l m a
      using that fanned_waits [OF assms(1,2)] by (auto simp: forwarded_deliveries_def)
    note waits = this
    show ?thesis
    proof (cases "\<exists>a. replicaMediation (ctx_config ctx) \<and> ?now < expiry ?o ?now (bounds_deadline (forward_bounds ctx incoming)) \<and>
        routed_account (canonicalDid nxt) (w_store w) = Some a \<and>
        has_room ?o ?now (int (length packed)) (maxRetainedBytes (ctx_config ctx)) (w_store w) a")
      case True
      then obtain a where a: "replicaMediation (ctx_config ctx)" "?now < expiry ?o ?now (bounds_deadline (forward_bounds ctx incoming))"
        "routed_account (canonicalDid nxt) (w_store w) = Some a"
        "has_room ?o ?now (int (length packed)) (maxRetainedBytes (ctx_config ctx)) (w_store w) a" by blast
      have "\<exists>row. replica_packages (fanned ?o (ctx_uuid ctx) (ctx_delivery_ids ctx) ?now (canonicalDid nxt) packed
            (forward_bounds ctx incoming) a (w_store w)) = replica_packages (w_store w) @ [row] \<and>
          a = packages_account_did row \<and> packages_packed row = packed"
        by (simp add: fanned_def package_for_def)
      then show ?thesis
        unfolding forward_to_replicas [OF assms(1,2) f None] using a f None waits [OF _ a(2)]
        by (simp; intro exI [of _ nxt] exI [of _ packed]) auto
    next
      case False
      then show ?thesis unfolding forward_to_replicas [OF assms(1,2) f None] by (auto split: option.split)
    qed
  qed
qed

text \<open>
  An account always wins over a binding: a sound forward to a DID that holds
  an account is queued for that account, whoever bound the DID before, and
  is refused only when that account is full. No other queue changes.
\<close>

theorem forward_account_wins:
  assumes "db_inv (w_store w)" and "ctx_uuid ctx \<notin> messages_id ` set (messages (w_store w))"
    and "sound_forward ctx incoming nxt packed" and "isMediated nxt (w_store w)"
    and "messageCount (ctx_now ctx) nxt (w_store w) < maxMessagesPerAccount (ctx_config ctx)"
    and "0 < messageTtlSeconds (ctx_config ctx)"
  shows "\<exists>s'. forward incoming ctx w =
       (Inr None, w\<lparr>w_store := s', w_offers := w_offers w @ [(nxt, forwarded_message ctx packed)]\<rparr>) \<and>
     forwarded_message ctx packed \<in> set (account_queue (ctx_now ctx) nxt None s') \<and>
     (other \<noteq> nxt \<longrightarrow> account_queue t other None s' = account_queue t other None (w_store w)) \<and>
     replica_queue t other r s' = replica_queue t other r (w_store w)"
proof -
  let ?o = "options_of (ctx_config ctx)"
  let ?s = "insert_message ?o (ctx_uuid ctx) (ctx_now ctx) nxt packed (w_store w)"
  have "ownerFor nxt (w_store w) = Some nxt" using assms(4) by (simp add: ownerFor_def)
  from forward_to_account [OF assms(1,2,3) this] assms(5)
  have "forward incoming ctx w = (Inr None, w\<lparr>w_store := ?s, w_offers := w_offers w @ [(nxt, forwarded_message ctx packed)]\<rparr>)"
    by simp
  moreover have "forwarded_message ctx packed \<in> set (account_queue (ctx_now ctx) nxt None ?s)"
    unfolding forwarded_message_def using assms(5,6) by (intro stored_waits) (simp_all add: options_of_def)
  moreover have "other \<noteq> nxt \<longrightarrow> account_queue t other None ?s = account_queue t other None (w_store w)"
    by (auto simp: account_queue_def insert_message_def waiting_messages_def)
  moreover have "replica_queue t other r ?s = replica_queue t other r (w_store w)"
    by (simp add: replica_queue_def insert_message_def waiting_deliveries_def)
  ultimately show ?thesis by blast
qed

section \<open>At the example\<close>

definition demo_envelope :: json where
  "demo_envelope = JObj [(''protected'', JStr ''e30''), (''iv'', JStr ''AA''), (''ciphertext'', JStr ''AAAA''), (''tag'', JStr ''AA''),
     (''recipients'', JArr [JObj [(''encrypted_key'', JStr ''AAAA''), (''header'', JObj [(''kid'', JStr ''k'')])]])]"

definition demo_forward_context :: HandlerContext where
  "demo_forward_context = (demo_context demo_B)\<lparr>ctx_sender := None, ctx_now := 1500,
     ctx_host := demo_host\<lparr>host_protected_header := (\<lambda>_. Some [(''alg'', JStr ''ECDH-ES+A256KW''), (''enc'', JStr ''A256GCM'')])\<rparr>\<rparr>"

definition demo_forward :: "did \<Rightarrow> Unpacked" where
  "demo_forward nxt = (demo_message demo_B [(''next'', JStr nxt)])\<lparr>in_from := None, in_authenticated := False,
     in_attachments := [\<lparr>att_media_type = None, att_data = [(''json'', demo_envelope)]\<rparr>]\<rparr>"

lemma demo_envelope_ok: "envelopeOf demo_forward_context (demo_forward nxt) = Inr ''{}''"
  by (simp add: envelopeOf_def demo_forward_context_def demo_forward_def demo_message_def demo_context_def demo_host_def demo_codec_def demo_codec_def
      demo_policy_def carried_def field_def isEncryptedMessage_def demo_envelope_def isBase64url_def b64_alphabet_def is_recipient_def
      isName_def isJoseHeader_def Let_def)

lemma demo_forward_sound: "sound_forward demo_forward_context (demo_forward demo_alice) demo_alice ''{}''"
  using demo_envelope_ok
  by (simp add: sound_forward_def demo_forward_def demo_message_def didOf_def field_def demo_alice_def starts_with_def)

theorem forward_kept_or_refused_witness:
  "case forward (demo_forward demo_alice) demo_forward_context demo_world of
     (Inl f, w') \<Rightarrow> w' = demo_world \<and> f \<in> {ForwardRefused 400, ForwardRefused 413, ForwardRefused 422}
   | (Inr reply, w') \<Rightarrow> reply = None"
proof -
  have h: "db_inv (w_store demo_world)"
    "fresh_mail (ctx_uuid demo_forward_context) (ctx_delivery_ids demo_forward_context) (w_store demo_world)"
    "ctx_uuid demo_forward_context \<notin> messages_id ` set (messages (w_store demo_world))"
    "0 < messageTtlSeconds (ctx_config demo_forward_context)"
    using demo_inv by (simp_all add: demo_world_def demo_forward_context_def demo_context_def demo_policy_def demo_simps)
  from forward_kept_or_refused [OF h, of "demo_forward demo_alice"] show ?thesis by (auto split: prod.splits sum.splits)
qed

theorem forward_account_wins_witness:
  "\<exists>s'. forward (demo_forward demo_alice) demo_forward_context demo_world =
       (Inr None, demo_world\<lparr>w_store := s', w_offers := [(demo_alice, forwarded_message demo_forward_context ''{}'')]\<rparr>) \<and>
     replica_queue 1500 demo_B None s' = replica_queue 1500 demo_B None demo_db"
proof -
  have h: "db_inv (w_store demo_world)" "ctx_uuid demo_forward_context \<notin> messages_id ` set (messages (w_store demo_world))"
    "isMediated demo_alice (w_store demo_world)" "0 < messageTtlSeconds (ctx_config demo_forward_context)"
    "messageCount (ctx_now demo_forward_context) demo_alice (w_store demo_world) < maxMessagesPerAccount (ctx_config demo_forward_context)"
    using demo_inv
    by (simp_all add: demo_world_def demo_forward_context_def demo_context_def demo_policy_def demo_simps messageCount_def)
  from forward_account_wins [OF h(1,2) demo_forward_sound h(3,5,4), where other = demo_B and t = 1500 and r = None]
  show ?thesis by (auto simp: demo_world_def)
qed

end
