(* ===== verification/Mediator_Grants.thy ===== *)
theory Mediator_Grants
  imports Mediator_Routing
begin

text \<open>
  What an account signs for a replica and a recipient for an account:
  \<^verbatim>\<open>mediator/src/protocols/replica-grant.ts\<close>, \<^verbatim>\<open>mediator/src/protocols/recipient-proof.ts\<close>,
  and the resolvers they and the handlers read documents with
  (\<^verbatim>\<open>mediator/src/didcomm/did-resolver.ts\<close>, \<open>ChainedResolver\<close> of
  \<^verbatim>\<open>mediator/src/didcomm/didcomm.ts\<close>). The cache of fetched did:web documents is part
  of what \<open>host_web_document\<close> answers.
\<close>

section \<open>Resolving\<close>

definition MAX_PEER_DID_BYTES :: nat where
  "MAX_PEER_DID_BYTES = 8192"

definition isDecodable :: "did \<Rightarrow> bool" where
  "isDecodable peerDid = (length peerDid \<le> MAX_PEER_DID_BYTES)"

definition resolveDID :: "host \<Rightarrow> did \<Rightarrow> json_object option" where
  "resolveDID h did =
     (if (isPeerDID2 did \<or> isPeerDID4 did) \<and> \<not> isDecodable did then None
      else if isPeerDID2 did then caught (resolvePeer2 (host_codec h) did)
      else if isPeerDID4 did then
        (if isShortForm did then None else caught (resolveLongForm (host_codec h) did))
      else if starts_with did ''did:web:'' then host_web_document h did
      else None)"

definition resolve_world :: "host \<Rightarrow> did \<Rightarrow> DIDDoc option" where
  "resolve_world h did = Option.bind (resolveDID h did) (\<lambda>document. caught (toDIDCommDIDDoc (host_codec h) document))"

definition resolve_kept :: "host \<Rightarrow> did \<Rightarrow> db \<Rightarrow> DIDDoc option" where
  "resolve_kept h did s =
     (if \<not> isShortForm did then None
      else case resolutionMaterial did s of
        None \<Rightarrow> None
      | Some longForm \<Rightarrow>
          if \<not> isDecodable longForm \<or> longToShort longForm \<noteq> Some did then None
          else Option.bind (caught (resolveShortForm (host_codec h) longForm))
            (\<lambda>document. caught (toDIDCommDIDDoc (host_codec h) document)))"

definition resolve_did :: "HandlerContext \<Rightarrow> did \<Rightarrow> db \<Rightarrow> DIDDoc option" where
  "resolve_did ctx did s =
     (case map_of (rev (map (\<lambda>d. (doc_id d, d)) (ctx_pinned ctx))) did of
        Some doc \<Rightarrow> Some doc
      | None \<Rightarrow> (case resolve_kept (ctx_host ctx) did s of
            Some doc \<Rightarrow> Some doc | None \<Rightarrow> resolve_world (ctx_host ctx) did))"

definition provenDid :: "host \<Rightarrow> did \<Rightarrow> did option" where
  "provenDid h did =
     (if \<not> isLongForm did then Some did
      else if \<not> isDecodable did then None
      else case resolveLongForm (host_codec h) did of Inl _ \<Rightarrow> None | Inr _ \<Rightarrow> longToShort did)"

section \<open>Keys\<close>

datatype Curve = Ed25519 | X25519

fun curve_name :: "Curve \<Rightarrow> string" where
  "curve_name Ed25519 = ''Ed25519''"
| "curve_name X25519 = ''X25519''"

fun curve_multicodec :: "Curve \<Rightarrow> string" where
  "curve_multicodec Ed25519 = map char_of [0xed, 0x01 :: nat]"
| "curve_multicodec X25519 = map char_of [0xec, 0x01 :: nat]"

fun curve_alg :: "Curve \<Rightarrow> string" where
  "curve_alg Ed25519 = ''EdDSA''"
| "curve_alg X25519 = ''ECDH-ES''"

fun curve_suite :: "Curve \<Rightarrow> string" where
  "curve_suite Ed25519 = ''Ed25519VerificationKey2020''"
| "curve_suite X25519 = ''X25519KeyAgreementKey2020''"

definition okp :: "Curve \<Rightarrow> json option \<Rightarrow> json_object" where
  "okp crv x = [(''kty'', JStr ''OKP''), (''crv'', JStr (curve_name crv))] @ (case x of None \<Rightarrow> [] | Some v \<Rightarrow> [(''x'', v)])"

definition okpJwk :: "host \<Rightarrow> VerificationMethod \<Rightarrow> Curve \<Rightarrow> json_object option" where
  "okpJwk h m crv =
     (case vm_publicKeyJwk m of
        Some jwk \<Rightarrow>
          if vm_type m = ''JsonWebKey2020'' \<and> vm_publicKeyMultibase m = None \<and>
             field jwk ''kty'' = Some (JStr ''OKP'') \<and> field jwk ''crv'' = Some (JStr (curve_name crv))
          then Some (okp crv (field jwk ''x'')) else None
      | None \<Rightarrow>
          (case vm_publicKeyMultibase m of
             None \<Rightarrow> None
           | Some multibase \<Rightarrow>
               if vm_type m \<noteq> curve_suite crv \<or> \<not> starts_with multibase ''z'' then None
               else case bs58_decode (host_codec h) (drop 1 multibase) of
                 None \<Rightarrow> None
               | Some decoded \<Rightarrow>
                   if length decoded \<noteq> 34 \<or> take 2 decoded \<noteq> curve_multicodec crv then None
                   else Some (okp crv (Some (JStr (base64url (drop 2 decoded)))))))"

definition method_of :: "DIDDoc \<Rightarrow> string \<Rightarrow> VerificationMethod option" where
  "method_of doc i = List.find (\<lambda>m. vm_id m = i) (doc_verificationMethod doc)"

definition holdsKeys :: "host \<Rightarrow> DIDDoc \<Rightarrow> string list \<Rightarrow> Curve \<Rightarrow> bool" where
  "holdsKeys h doc ids crv =
     (ids \<noteq> [] \<and> list_all (\<lambda>i. case Option.bind (method_of doc i) (\<lambda>m. okpJwk h m crv) of
        None \<Rightarrow> False | Some jwk \<Rightarrow> host_import_jwk h jwk (curve_alg crv)) ids)"

definition authenticationKey :: "host \<Rightarrow> DIDDoc \<Rightarrow> string \<Rightarrow> json_object option" where
  "authenticationKey h doc kid =
     (case split_on CHR ''#'' kid of
        [did, fragment] \<Rightarrow>
          if provenDid h did \<noteq> Some (canonicalDid (doc_id doc)) then None
          else let i = doc_id doc @ ''#'' @ fragment in
            (case method_of doc i of
               None \<Rightarrow> None
             | Some m \<Rightarrow> if i \<in> set (doc_authentication doc) then okpJwk h m Ed25519 else None)
      | _ \<Rightarrow> None)"

section \<open>Signed payloads\<close>

definition MAX_JWS_CHARS :: nat where
  "MAX_JWS_CHARS = 16 * 1024"

text \<open>
  \<open>names.sort().join()\<close>. The bytes' order and that of UTF-16 units differ only on
  names that are not ASCII, and with such a name the text is none of those it is compared with.
\<close>

fun join_names :: "string list \<Rightarrow> string" where
  "join_names [] = []"
| "join_names [n] = n"
| "join_names (n # ns) = n @ '','' @ join_names ns"

definition sorted_join :: "string list \<Rightarrow> string" where
  "sorted_join names = join_names (sort names)"

definition payloadOf :: "host \<Rightarrow> string \<Rightarrow> string list \<Rightarrow> json_object option" where
  "payloadOf h bytes members =
     (if \<not> utf8_ok bytes then None
      else case json_of_text (host_codec h) bytes of
        Some (JObj parsed) \<Rightarrow>
          if sorted_join (map fst parsed) \<noteq> sorted_join members \<or> list_ex (\<lambda>(_, v). as_string (Some v) = None) parsed \<or>
             canonicalize (host_codec h) (JObj parsed) \<noteq> Some bytes
          then None else Some parsed
      | _ \<Rightarrow> None)"

definition signedPayload :: "host \<Rightarrow> json option \<Rightarrow> string \<Rightarrow> string list \<Rightarrow> DIDDoc \<Rightarrow> json_object option" where
  "signedPayload h jws typ members signerDoc =
     (case as_string jws of
        None \<Rightarrow> None
      | Some text \<Rightarrow>
          if MAX_JWS_CHARS < js_length text then None
          else case host_jws_header h text of
            None \<Rightarrow> None
          | Some header \<Rightarrow>
              if sorted_join (map fst header) \<noteq> ''alg,kid,typ'' \<or> field header ''alg'' \<noteq> Some (JStr ''EdDSA'') \<or>
                 field header ''typ'' \<noteq> Some (JStr typ)
              then None
              else (case as_string (field header ''kid'') of
                 None \<Rightarrow> None
               | Some kid \<Rightarrow>
                   (case authenticationKey h signerDoc kid of
                      None \<Rightarrow> None
                    | Some jwk \<Rightarrow> if \<not> host_import_jwk h jwk ''EdDSA'' then None
                        else Option.bind (host_verify h text jwk) (\<lambda>payload. payloadOf h payload members))))"

definition servedBy :: "host \<Rightarrow> DIDDoc \<Rightarrow> did \<Rightarrow> bool" where
  "servedBy h doc mediator = list_ex (\<lambda>sv. provenDid h (sv_uri sv) = Some mediator) (doc_service doc)"

section \<open>Grants and proofs\<close>

definition GRANT_TYP :: string where
  "GRANT_TYP = ''estoc/replica-grant+jws''"

definition GRANT_FIELDS :: "string list" where
  "GRANT_FIELDS = [''account'', ''mediation_id'', ''mediator'', ''replica_did'', ''replica_id'', ''replica_long_form'']"

definition lower_hex :: "char \<Rightarrow> bool" where
  "lower_hex c = (c \<in> set ''0123456789abcdef'')"

text \<open>\<open>UUID_V5\<close> and \<open>UUID_V7\<close>: lower-case, the version in place and the variant one of 8, 9, a, b.\<close>

definition is_uuid :: "char \<Rightarrow> string \<Rightarrow> bool" where
  "is_uuid version t =
     (case split_on CHR ''-'' t of
        [a, b, c, d, e] \<Rightarrow>
          map length [a, b, c, d, e] = [8, 4, 4, 4, 12] \<and> list_all (list_all lower_hex) [a, b, c, d, e] \<and>
          hd c = version \<and> hd d \<in> set ''89ab''
      | _ \<Rightarrow> False)"

record ReplicaGrant =
  grant_account :: did
  grant_mediator :: did
  grant_replicaDid :: did
  grant_replicaLongForm :: did

definition verifyReplicaGrant :: "host \<Rightarrow> json option \<Rightarrow> DIDDoc \<Rightarrow> ReplicaGrant option" where
  "verifyReplicaGrant h jws accountDoc =
     (case signedPayload h jws GRANT_TYP GRANT_FIELDS accountDoc of
        None \<Rightarrow> None
      | Some payload \<Rightarrow>
          (case map (\<lambda>name. as_string (field payload name)) GRANT_FIELDS of
             [Some account, Some mediationId, Some named, Some replicaDid, Some replicaId, Some replicaLongForm] \<Rightarrow>
               if account \<noteq> canonicalDid (doc_id accountDoc) \<or> \<not> isShortForm account \<or>
                  \<not> is_uuid CHR ''5'' mediationId \<or> \<not> is_uuid CHR ''7'' replicaId \<or>
                  \<not> isLongForm replicaLongForm \<or> \<not> isDecodable replicaLongForm \<or>
                  longToShort replicaLongForm \<noteq> Some replicaDid \<or> replicaDid = account
               then None
               else (case (provenDid h named, resolveDIDCommDoc (host_codec h) replicaLongForm) of
                  (Some mediator, Some replicaDoc) \<Rightarrow>
                    if servedBy h replicaDoc mediator \<and> holdsKeys h replicaDoc (doc_authentication replicaDoc) Ed25519 \<and>
                       holdsKeys h replicaDoc (doc_keyAgreement replicaDoc) X25519
                    then Some \<lparr>grant_account = account, grant_mediator = mediator, grant_replicaDid = replicaDid,
                           grant_replicaLongForm = replicaLongForm\<rparr>
                    else None
                | _ \<Rightarrow> None)
           | _ \<Rightarrow> None))"

definition RECIPIENT_PROOF_TYP :: string where
  "RECIPIENT_PROOF_TYP = ''estoc/recipient-add+jws''"

definition PROOF_FIELDS :: "string list" where
  "PROOF_FIELDS = [''account'', ''aud'', ''recipient'']"

text \<open>
  Member names are compared joined by commas, so a payload may lack one of
  them; such a member is \<open>undefined\<close>, here \<open>None\<close>, and is left so by \<open>provenDid\<close>.
\<close>

record RecipientProof =
  proof_account :: "did option"
  proof_mediator :: "did option"

definition proven_member :: "host \<Rightarrow> string option \<Rightarrow> did option option" where
  "proven_member h m = (case m of None \<Rightarrow> Some None | Some did \<Rightarrow> map_option Some (provenDid h did))"

definition verifyRecipientProof :: "host \<Rightarrow> json option \<Rightarrow> DIDDoc \<Rightarrow> RecipientProof option" where
  "verifyRecipientProof h jws recipientDoc =
     (case signedPayload h jws RECIPIENT_PROOF_TYP PROOF_FIELDS recipientDoc of
        None \<Rightarrow> None
      | Some payload \<Rightarrow>
          (case (proven_member h (as_string (field payload ''account'')), proven_member h (as_string (field payload ''aud''))) of
             (Some account, Some mediator) \<Rightarrow>
               if proven_member h (as_string (field payload ''recipient'')) \<noteq> Some (Some (canonicalDid (doc_id recipientDoc)))
               then None
               else Some \<lparr>proof_account = account, proof_mediator = mediator\<rparr>
           | _ \<Rightarrow> None))"

section \<open>What was signed\<close>

text \<open>
  A payload is signed by a document when a compact JWS whose header names one
  of the document's own authentication keys verifies under that key to the
  payload's text.
\<close>

definition signed_by :: "host \<Rightarrow> json option \<Rightarrow> string \<Rightarrow> DIDDoc \<Rightarrow> json_object \<Rightarrow> bool" where
  "signed_by h jws typ doc payload \<longleftrightarrow> (\<exists>text kid m i jwk bytes. jws = Some (JStr text) \<and>
     host_jws_header h text \<noteq> None \<and> field (the (host_jws_header h text)) ''typ'' = Some (JStr typ) \<and>
     field (the (host_jws_header h text)) ''kid'' = Some (JStr kid) \<and>
     i \<in> set (doc_authentication doc) \<and> m \<in> set (doc_verificationMethod doc) \<and> vm_id m = i \<and>
     okpJwk h m Ed25519 = Some jwk \<and> host_verify h text jwk = Some bytes \<and>
     json_of_text (host_codec h) bytes = Some (JObj payload) \<and> canonicalize (host_codec h) (JObj payload) = Some bytes)"

lemma authenticationKey_own:
  assumes "authenticationKey h doc kid = Some jwk"
  shows "\<exists>i m. i \<in> set (doc_authentication doc) \<and> m \<in> set (doc_verificationMethod doc) \<and> vm_id m = i \<and> okpJwk h m Ed25519 = Some jwk"
  using assms
  by (auto simp: authenticationKey_def Let_def method_of_def find_Some_iff in_set_conv_nth
      split: list.splits option.splits if_splits)

lemma as_string_Some: "as_string r = Some t \<longleftrightarrow> r = Some (JStr t)"
  by (cases r rule: as_string.cases) auto

lemma as_object_Some: "as_object r = Some ms \<longleftrightarrow> r = Some (JObj ms)"
  by (cases r rule: as_object.cases) auto

lemma as_array_Some: "as_array r = Some xs \<longleftrightarrow> r = Some (JArr xs)"
  by (cases r rule: as_array.cases) auto

lemma payloadOf_Some:
  "payloadOf h bytes members = Some payload \<Longrightarrow>
     json_of_text (host_codec h) bytes = Some (JObj payload) \<and> canonicalize (host_codec h) (JObj payload) = Some bytes"
  by (auto simp: payloadOf_def split: if_splits option.splits json.splits)

lemma signedPayload_signed:
  assumes "signedPayload h jws typ members doc = Some payload"
  shows "signed_by h jws typ doc payload"
proof -
  obtain raw header kid jwk bytes where p: "jws = Some (JStr raw)" "host_jws_header h raw = Some header"
    "field header ''typ'' = Some (JStr typ)" "field header ''kid'' = Some (JStr kid)"
    "authenticationKey h doc kid = Some jwk" "host_verify h raw jwk = Some bytes" "payloadOf h bytes members = Some payload"
    using assms by (auto simp: signedPayload_def as_string_Some bind_eq_Some_conv split: option.splits if_splits)
  show ?thesis
    using authenticationKey_own [OF p(5)] payloadOf_Some [OF p(7)] p by (fastforce simp: signed_by_def)
qed

lemma verifyReplicaGrant_Some:
  assumes "verifyReplicaGrant h jws doc = Some g"
  shows "\<exists>payload. signed_by h jws GRANT_TYP doc payload \<and> field payload ''account'' = Some (JStr (grant_account g)) \<and>
     field payload ''replica_did'' = Some (JStr (grant_replicaDid g)) \<and>
     field payload ''replica_long_form'' = Some (JStr (grant_replicaLongForm g)) \<and>
     (\<exists>named. field payload ''mediator'' = Some (JStr named) \<and> provenDid h named = Some (grant_mediator g))"
    and "grant_account g = canonicalDid (doc_id doc)" and "isShortForm (grant_account g)"
    and "longToShort (grant_replicaLongForm g) = Some (grant_replicaDid g)" and "grant_replicaDid g \<noteq> grant_account g"
  using assms signedPayload_signed [of h jws GRANT_TYP GRANT_FIELDS doc]
  by (auto simp: verifyReplicaGrant_def GRANT_FIELDS_def as_string_Some split: option.splits if_splits)


lemma verifyRecipientProof_Some:
  assumes "verifyRecipientProof h jws doc = Some p" and "proof_account p = Some account" and "proof_mediator p = Some mediator"
  shows "\<exists>payload named aud recipient. signed_by h jws RECIPIENT_PROOF_TYP doc payload \<and>
     field payload ''account'' = Some (JStr named) \<and> provenDid h named = Some account \<and>
     field payload ''aud'' = Some (JStr aud) \<and> provenDid h aud = Some mediator \<and>
     field payload ''recipient'' = Some (JStr recipient) \<and> provenDid h recipient = Some (canonicalDid (doc_id doc))"
  using assms signedPayload_signed [of h jws RECIPIENT_PROOF_TYP PROOF_FIELDS doc]
  by (fastforce simp: verifyRecipientProof_def proven_member_def as_string_Some split: option.splits if_splits)

end
