(* ===== verification/Mediator_Controls.thy ===== *)
theory Mediator_Controls
  imports Mediator_Grants
begin

text \<open>
  replica-mediation 1.0, \<^verbatim>\<open>mediator/src/protocols/replica-mediation.ts\<close>: the controls
  an account and its replicas send, each as one handler. \<open>controlOf\<close> is what a
  request proved; a reply's body has the members of the matching interface,
  in the source's order.
\<close>

definition REPLICA_MEDIATION_PROTOCOL :: string where
  "REPLICA_MEDIATION_PROTOCOL = ''https://estoc.dev/replica-mediation/1.0''"

definition replica_type :: "string \<Rightarrow> string" where
  "replica_type name = REPLICA_MEDIATION_PROTOCOL @ ''/'' @ name"

definition MAX_EXECUTION_ID_BYTES :: nat where
  "MAX_EXECUTION_ID_BYTES = 256"

definition replicaLimits :: "MediatorPolicy \<Rightarrow> json_object" where
  "replicaLimits policy =
     [(''message_retention_seconds'', JInt (messageTtlSeconds policy)),
      (''max_message_bytes'', JNat (maxMessageBytes policy)),
      (''max_active_replicas'', JNat (maxActiveReplicas policy)),
      (''max_membership_page'', JNat (maxMembershipPage policy)),
      (''max_shared_recipients'', JNat (maxSharedRecipients policy)),
      (''max_retained_bytes'', JInt (maxRetainedBytes policy)),
      (''max_retained_messages'', JNat (maxMessagesPerAccount policy)),
      (''max_deliveries_per_request'', JNat DELIVERY_PAGE_LIMIT),
      (''execution_retention_seconds'', JInt (executionRetainSeconds policy)),
      (''max_retained_executions'', JNat (maxRetainedExecutions policy)),
      (''max_execution_registrations'', JNat (maxExecutionRegistrations policy)),
      (''max_execution_id_bytes'', JNat MAX_EXECUTION_ID_BYTES)]"

record Control =
  ctl_sender :: did
  ctl_addressed :: did
  ctl_mediator :: did
  ctl_body :: json_object

definition holdsExactly :: "json_object \<Rightarrow> string list \<Rightarrow> bool" where
  "holdsExactly members names = (sorted_join (map fst members) = sorted_join names)"

definition controlOf :: "Unpacked \<Rightarrow> HandlerContext \<Rightarrow> string list \<Rightarrow> Control option" where
  "controlOf incoming ctx names =
     (case (ctx_sender ctx, in_from incoming, in_addressedTo incoming) of
        (Some sender, Some from, Some addressedTo) \<Rightarrow>
          if \<not> isAuthcrypted incoming \<or>
             (from \<noteq> sender \<and> provenDid (ctx_host ctx) from \<noteq> Some (canonicalDid sender)) \<or>
             addressedTo \<notin> set (ctx_dids ctx) \<or> in_to incoming \<noteq> Some [addressedTo] \<or>
             \<not> holdsExactly (in_body incoming) names
          then None
          else Some \<lparr>ctl_sender = canonicalDid sender, ctl_addressed = addressedTo,
                 ctl_mediator = canonicalDid addressedTo, ctl_body = in_body incoming\<rparr>
      | _ \<Rightarrow> None)"

text \<open>What every control begins with: no answer without a sender, a refusal when it proved nothing.\<close>

definition with_control ::
    "Unpacked \<Rightarrow> HandlerContext \<Rightarrow> string list \<Rightarrow> (did \<Rightarrow> Control \<Rightarrow> Reply option act) \<Rightarrow> Reply option act" where
  "with_control incoming ctx names handle =
     (case ctx_sender ctx of
        None \<Rightarrow> return_act None
      | Some sender \<Rightarrow>
          (case controlOf incoming ctx names of
             None \<Rightarrow> return_act (Some (replicaProblem ''invalid-message''))
           | Some control \<Rightarrow> handle sender control))"

definition problem :: "string \<Rightarrow> Reply option act" where
  "problem code = return_act (Some (replicaProblem code))"

definition answer :: "string \<Rightarrow> json_object \<Rightarrow> Reply option act" where
  "answer name body = return_act (Some (plain_reply (replica_type name) body))"

section \<open>Accounts\<close>

definition accountRegister :: "Unpacked \<Rightarrow> HandlerContext \<Rightarrow> Reply option act" where
  "accountRegister incoming ctx = with_control incoming ctx [] (\<lambda>sender control.
     if isMediatorOwnDid (ctl_sender control) (ctx_dids ctx) then problem ''identity-conflict''
     else bind_act (ask (\<lambda>s. if isLongForm sender then Some sender else resolutionMaterial sender s)) (\<lambda>longForm.
       case (if isPeerDID4 sender then longForm else None) of
         None \<Rightarrow> problem ''account-refused''
       | Some accountLongForm \<Rightarrow>
           bind_act (call_store (registerReplicaAccount (ctx_uuid ctx) (ctx_now ctx)
             \<lparr>ra_accountDid = ctl_sender control, ra_accountLongForm = accountLongForm, ra_mediator = ctl_mediator control,
              ra_create = openRegistration (ctx_config ctx)\<rparr>)) (\<lambda>registration.
           case registration of
             RegisterRefused \<Rightarrow> problem ''account-refused''
           | RegisterConflict \<Rightarrow> problem ''identity-conflict''
           | Registered registeredTime \<Rightarrow> answer ''account-registered''
               [(''account'', JStr (ctl_sender control)), (''routing_did'', JStr (ctl_addressed control)),
                (''registered_time'', JInt registeredTime), (''limits'', JObj (replicaLimits (ctx_config ctx)))])))"

definition accountDelete :: "Unpacked \<Rightarrow> HandlerContext \<Rightarrow> Reply option act" where
  "accountDelete incoming ctx = with_control incoming ctx [] (\<lambda>sender control.
     if \<not> isLongForm sender then problem ''invalid-message''
     else bind_act (call_store (deleteReplicaAccount (ctl_sender control) (ctl_mediator control))) (\<lambda>deleted.
       if \<not> deleted then problem ''unknown-account''
       else answer ''account-deleted'' [(''account'', JStr (ctl_sender control))]))"

section \<open>Replicas\<close>

definition replicaAdd :: "Unpacked \<Rightarrow> HandlerContext \<Rightarrow> Reply option act" where
  "replicaAdd incoming ctx = with_control incoming ctx [''grant''] (\<lambda>sender control.
     bind_act (ask (\<lambda>s. if isPeerDID4 sender then resolve_did ctx sender s else None)) (\<lambda>accountDoc.
     case Option.bind accountDoc (verifyReplicaGrant (ctx_host ctx) (field (ctl_body control) ''grant'')) of
       None \<Rightarrow> problem ''invalid-grant''
     | Some grant \<Rightarrow>
         if grant_account grant \<noteq> ctl_sender control \<or> grant_mediator grant \<noteq> ctl_mediator control \<or>
            isMediatorOwnDid (grant_replicaDid grant) (ctx_dids ctx)
         then problem ''invalid-grant''
         else bind_act (call_store (addReplica (ctx_now ctx)
             \<lparr>add_accountDid = grant_account grant, add_mediator = grant_mediator grant, add_replicaDid = grant_replicaDid grant,
              add_replicaLongForm = grant_replicaLongForm grant,
              add_grant = (case as_string (field (ctl_body control) ''grant'') of Some jws \<Rightarrow> jws | None \<Rightarrow> []),
              add_maxReplicas = maxActiveReplicas (ctx_config ctx)\<rparr>)) (\<lambda>addition.
           case addition of
             AddUnknown \<Rightarrow> problem ''unknown-account''
           | AddConflict \<Rightarrow> problem ''identity-conflict''
           | AddFull \<Rightarrow> problem ''quota''
           | ReplicaAdded addedTime \<Rightarrow> answer ''replica-added''
               [(''replica_did'', JStr (grant_replicaDid grant)), (''state'', JStr ''active''), (''added_time'', JInt addedTime)])))"

record Cursor =
  cursor_account :: did
  cursor_registration :: string
  cursor_through :: nat
  cursor_after :: nat

definition writeCursor :: "host \<Rightarrow> json list \<Rightarrow> string" where
  "writeCursor h members = base64url (json_text (host_codec h) (JArr members))"

definition cursorMembers :: "host \<Rightarrow> string \<Rightarrow> nat \<Rightarrow> json list option" where
  "cursorMembers h t count =
     (case json_of_text (host_codec h) (host_base64_text h t) of
        Some (JArr parsed) \<Rightarrow> if length parsed = count then Some parsed else None
      | _ \<Rightarrow> None)"

definition readCursor :: "host \<Rightarrow> string \<Rightarrow> Cursor option" where
  "readCursor h t =
     (case cursorMembers h t 4 of
        Some [JStr account, JStr registration, through, after] \<Rightarrow>
          (case (as_safe_integer (Some through), as_safe_integer (Some after)) of
             (Some through, Some after) \<Rightarrow>
               if after < 1 \<or> through \<le> after then None
               else Some \<lparr>cursor_account = account, cursor_registration = registration,
                      cursor_through = nat through, cursor_after = nat after\<rparr>
           | _ \<Rightarrow> None)
      | _ \<Rightarrow> None)"

definition membership_page :: "HandlerContext \<Rightarrow> json option \<Rightarrow> nat option" where
  "membership_page ctx limit =
     (case as_safe_integer limit of
        None \<Rightarrow> None
      | Some n \<Rightarrow> if n < 1 \<or> int (maxMembershipPage (ctx_config ctx)) < n then None else Some (nat n))"

definition entry_json :: "RosterEntry \<Rightarrow> json" where
  "entry_json entry =
     JObj [(''grant'', JStr (entry_grant entry)),
       (''state'', JStr (if entry_removedTime entry = None then ''active'' else ''removed'')),
       (''added_time'', JInt (entry_addedTime entry)),
       (''removed_time'', case entry_removedTime entry of None \<Rightarrow> JNull | Some t \<Rightarrow> JInt t)]"

definition replicaList :: "Unpacked \<Rightarrow> HandlerContext \<Rightarrow> Reply option act" where
  "replicaList incoming ctx = with_control incoming ctx [''cursor'', ''limit''] (\<lambda>sender control.
     let written = field (ctl_body control) ''cursor'';
         cursor = Option.bind (as_string written) (readCursor (ctx_host ctx)) in
     case (if written \<noteq> Some JNull \<and> (case cursor of None \<Rightarrow> True | Some c \<Rightarrow> cursor_account c \<noteq> ctl_sender control)
           then None else membership_page ctx (field (ctl_body control) ''limit'')) of
       None \<Rightarrow> problem ''invalid-message''
     | Some limit \<Rightarrow>
         bind_act (ask (replicaRoster (ctl_sender control) (ctl_mediator control)
           (case cursor of None \<Rightarrow> 0 | Some c \<Rightarrow> cursor_after c) (map_option cursor_through cursor) limit)) (\<lambda>found.
         case found of
           None \<Rightarrow> problem ''unknown-account''
         | Some roster \<Rightarrow>
             let through = (case cursor of None \<Rightarrow> roster_size roster | Some c \<Rightarrow> cursor_through c) in
             if (case cursor of None \<Rightarrow> False | Some c \<Rightarrow> cursor_registration c \<noteq> roster_registration roster) \<or>
                roster_size roster < through
             then problem ''invalid-message''
             else let last' = (if roster_entries roster = [] then through else entry_ordinal (last (roster_entries roster))) in
               answer ''replicas''
                 [(''entries'', JArr (map entry_json (roster_entries roster))),
                  (''next_cursor'', if last' < through
                     then JStr (writeCursor (ctx_host ctx)
                       [JStr (ctl_sender control), JStr (roster_registration roster), JNat through, JNat last'])
                     else JNull)]))"

definition replicaRemove :: "Unpacked \<Rightarrow> HandlerContext \<Rightarrow> Reply option act" where
  "replicaRemove incoming ctx = with_control incoming ctx [''replica_did''] (\<lambda>sender control.
     case as_string (field (ctl_body control) ''replica_did'') of
       None \<Rightarrow> problem ''invalid-message''
     | Some named \<Rightarrow>
         bind_act (call_store (removeReplica (ctx_now ctx) (ctl_sender control) (ctl_mediator control) (canonicalDid named))) (\<lambda>removal.
         case removal of
           RemoveUnknown \<Rightarrow> problem ''unknown-account''
         | RemoveNotEnrolled \<Rightarrow> problem ''unknown-replica''
         | Removed removedTime \<Rightarrow> answer ''replica-removed''
             [(''replica_did'', JStr (canonicalDid named)), (''state'', JStr ''removed''),
              (''removed_time'', case removedTime of None \<Rightarrow> JNull | Some t \<Rightarrow> JInt t)]))"

section \<open>Recipients\<close>

definition recipientDocument :: "HandlerContext \<Rightarrow> did \<Rightarrow> did option \<Rightarrow> db \<Rightarrow> (did \<times> did \<times> DIDDoc) option" where
  "recipientDocument ctx named supplied s =
     (case provenDid (ctx_host ctx) named of
        None \<Rightarrow> None
      | Some did \<Rightarrow>
          if \<not> isShortForm did then None
          else case (case supplied of Some f \<Rightarrow> Some f | None \<Rightarrow> sharedRecipientMaterial did s) of
            None \<Rightarrow> None
          | Some longForm \<Rightarrow>
              if \<not> isLongForm longForm \<or> \<not> isDecodable longForm \<or> longToShort longForm \<noteq> Some did then None
              else map_option (\<lambda>doc. (did, longForm, doc)) (resolveDIDCommDoc (host_codec (ctx_host ctx)) longForm))"

definition recipientAdd :: "Unpacked \<Rightarrow> HandlerContext \<Rightarrow> Reply option act" where
  "recipientAdd incoming ctx = with_control incoming ctx [''proof'', ''recipient_did'', ''resolution_material''] (\<lambda>sender control.
     let body = ctl_body control; supplied = field body ''resolution_material''; jws = field body ''proof'' in
     case as_string (field body ''recipient_did'') of
       None \<Rightarrow> problem ''invalid-message''
     | Some named \<Rightarrow>
         if as_string jws = None \<or> supplied \<noteq> Some JNull \<and> as_string supplied = None then problem ''invalid-message''
         else bind_act (ask (recipientDocument ctx named (as_string supplied))) (\<lambda>recipient.
           case recipient of
             None \<Rightarrow> problem ''invalid-recipient''
           | Some (did, longForm, doc) \<Rightarrow>
               if (case verifyRecipientProof (ctx_host ctx) jws doc of
                     None \<Rightarrow> True
                   | Some p \<Rightarrow> proof_account p \<noteq> Some (ctl_sender control) \<or> proof_mediator p \<noteq> Some (ctl_mediator control))
               then problem ''invalid-recipient''
               else if isMediatorOwnDid did (ctx_dids ctx) then problem ''identity-conflict''
               else bind_act (call_store (addSharedRecipient (ctx_now ctx)
                   \<lparr>share_accountDid = ctl_sender control, share_mediator = ctl_mediator control, share_recipientDid = did,
                    share_recipientLongForm = longForm, share_maxRecipients = maxSharedRecipients (ctx_config ctx)\<rparr>)) (\<lambda>addition.
                 case addition of
                   ShareUnknown \<Rightarrow> problem ''unknown-account''
                 | ShareConflict \<Rightarrow> problem ''identity-conflict''
                 | ShareFull \<Rightarrow> problem ''quota''
                 | ShareAdded addedTime \<Rightarrow> answer ''recipient-added''
                     [(''recipient_did'', JStr did), (''added_time'', JInt addedTime)])))"

record RecipientCursor =
  rcursor_account :: did
  rcursor_registration :: string
  rcursor_after :: RecipientPlace

definition readRecipientCursor :: "host \<Rightarrow> string \<Rightarrow> RecipientCursor option" where
  "readRecipientCursor h t =
     (case cursorMembers h t 4 of
        Some [JStr account, JStr registration, addedAt, JStr did] \<Rightarrow>
          map_option (\<lambda>ms. \<lparr>rcursor_account = account, rcursor_registration = registration, rcursor_after = (ms, did)\<rparr>)
            (as_safe_integer (Some addedAt))
      | _ \<Rightarrow> None)"

definition recipientList :: "Unpacked \<Rightarrow> HandlerContext \<Rightarrow> Reply option act" where
  "recipientList incoming ctx = with_control incoming ctx [''cursor'', ''limit''] (\<lambda>sender control.
     let written = field (ctl_body control) ''cursor'';
         cursor = Option.bind (as_string written) (readRecipientCursor (ctx_host ctx)) in
     case (if written \<noteq> Some JNull \<and> (case cursor of None \<Rightarrow> True | Some c \<Rightarrow> rcursor_account c \<noteq> ctl_sender control)
           then None else membership_page ctx (field (ctl_body control) ''limit'')) of
       None \<Rightarrow> problem ''invalid-message''
     | Some limit \<Rightarrow>
         bind_act (ask (listSharedRecipients (ctl_sender control) (ctl_mediator control) (map_option rcursor_after cursor) limit)) (\<lambda>found.
         case found of
           None \<Rightarrow> problem ''unknown-account''
         | Some page \<Rightarrow>
             if (case cursor of None \<Rightarrow> False | Some c \<Rightarrow> rcursor_registration c \<noteq> shared_registration page)
             then problem ''invalid-message''
             else answer ''recipients''
               [(''entries'', JArr (map (\<lambda>(addedAt, did). JObj [(''recipient_did'', JStr did), (''added_time'', JInt (addedAt div 1000))])
                  (shared_recipients page))),
                (''next_cursor'', if shared_more page \<and> shared_recipients page \<noteq> []
                   then (case last (shared_recipients page) of (addedAt, did) \<Rightarrow>
                     JStr (writeCursor (ctx_host ctx)
                       [JStr (ctl_sender control), JStr (shared_registration page), JInt addedAt, JStr did]))
                   else JNull)]))"

definition recipientRemove :: "Unpacked \<Rightarrow> HandlerContext \<Rightarrow> Reply option act" where
  "recipientRemove incoming ctx = with_control incoming ctx [''recipient_did''] (\<lambda>sender control.
     case as_string (field (ctl_body control) ''recipient_did'') of
       None \<Rightarrow> problem ''invalid-message''
     | Some named \<Rightarrow>
         bind_act (call_store (removeSharedRecipient (ctl_sender control) (ctl_mediator control) (canonicalDid named))) (\<lambda>outcome.
         if outcome = SharedUnknown then problem ''unknown-account''
         else answer ''recipient-removed'' [(''recipient_did'', JStr (canonicalDid named))]))"

section \<open>Executions\<close>

definition executionIdOf :: "json option \<Rightarrow> string option" where
  "executionIdOf v =
     (case as_string v of
        Some t \<Rightarrow> if t \<noteq> [] \<and> length t \<le> MAX_EXECUTION_ID_BYTES then Some t else None
      | None \<Rightarrow> None)"

definition executionRegister :: "Unpacked \<Rightarrow> HandlerContext \<Rightarrow> Reply option act" where
  "executionRegister incoming ctx = with_control incoming ctx [''execution_id''] (\<lambda>sender control.
     case executionIdOf (field (ctl_body control) ''execution_id'') of
       None \<Rightarrow> problem ''invalid-message''
     | Some executionId \<Rightarrow>
         bind_act (call_store (registerExecution (ctx_uuid ctx) (ctx_now ctx)
           \<lparr>reg_replicaDid = ctl_sender control, reg_mediator = ctl_mediator control, reg_executionId = executionId,
            reg_policy = \<lparr>policy_retainSeconds = executionRetainSeconds (ctx_config ctx),
              policy_maxRetained = maxRetainedExecutions (ctx_config ctx),
              policy_maxReplicas = maxExecutionRegistrations (ctx_config ctx)\<rparr>\<rparr>)) (\<lambda>registration.
         case registration of
           ExecutionUnknown \<Rightarrow> problem ''unknown-replica''
         | ExecutionFull \<Rightarrow> problem ''quota''
         | ExecutionRegistered kept \<Rightarrow> answer ''execution-registered''
             [(''execution_id'', JStr (snap_executionId kept)), (''registration_id'', JStr (snap_registrationId kept)),
              (''created_time'', JInt (snap_createdTime kept)), (''retain_until'', JInt (snap_retainUntil kept)),
              (''replicas'', JArr (map JStr (snap_replicas kept)))]))"

definition REPLICA_CONTROLS :: "(string \<times> (Unpacked \<Rightarrow> HandlerContext \<Rightarrow> Reply option act)) list" where
  "REPLICA_CONTROLS =
     [(replica_type ''account-register'', accountRegister), (replica_type ''account-delete'', accountDelete),
      (replica_type ''replica-add'', replicaAdd), (replica_type ''replica-list'', replicaList),
      (replica_type ''replica-remove'', replicaRemove), (replica_type ''recipient-add'', recipientAdd),
      (replica_type ''recipient-list'', recipientList), (replica_type ''recipient-remove'', recipientRemove),
      (replica_type ''execution-register'', executionRegister)]"

end
