(* ===== verification/Mediator_Membership.thy ===== *)
theory Mediator_Membership
  imports Mediator_Controls
begin

text \<open>
  What the controls of replica mediation do: every one is answered, a refusal
  changes nothing, a replica is enrolled only by its account's signature and a
  recipient bound only by its own, and a listing that follows its cursors is
  the roster as it was when the listing began.
\<close>

section \<open>Every control is answered\<close>

text \<open>A control's run settles: one reply, the store's invariant kept, and nothing changed when the reply is a problem.\<close>

definition settles :: "world \<Rightarrow> (fault + Reply option) \<times> world \<Rightarrow> bool" where
  "settles w r \<longleftrightarrow> (\<exists>reply s'. r = (Inr (Some reply), w\<lparr>w_store := s'\<rparr>) \<and> db_inv s' \<and>
     (reply_type reply = PROBLEM_REPORT \<longrightarrow> s' = w_store w))"

lemma settles_problem [simp]: "db_inv (w_store w) \<Longrightarrow> settles w (problem code w)"
  by (auto simp: settles_def problem_def act_simps replicaProblem_def plain_reply_def intro!: exI [of _ "w_store w"])

lemma replica_type_no_problem [simp]: "replica_type name \<noteq> PROBLEM_REPORT"
  by (simp add: replica_type_def REPLICA_MEDIATION_PROTOCOL_def PROBLEM_REPORT_def)

lemma settles_answer [simp]: "db_inv s' \<Longrightarrow> settles w (answer name body (w\<lparr>w_store := s'\<rparr>))"
  by (auto simp: settles_def answer_def act_simps plain_reply_def)

lemma settles_answer_same [simp]: "db_inv (w_store w) \<Longrightarrow> settles w (answer name body w)"
  using settles_answer [of "w_store w" w] by simp

lemma same_store [simp]: "w\<lparr>w_store := w_store w\<rparr> = w"
  by simp

text \<open>The run of a handler once its control is known.\<close>

lemma with_control_run:
  "ctx_sender ctx = Some sender \<Longrightarrow> with_control incoming ctx names handle w =
     (case controlOf incoming ctx names of None \<Rightarrow> problem ''invalid-message'' w | Some control \<Rightarrow> handle sender control w)"
  by (simp add: with_control_def problem_def split: option.split)

lemmas handler_simps = with_control_run act_simps bind_act_def call_store_def ask_def

lemma controlOf_sender:
  "controlOf incoming ctx names = Some control \<Longrightarrow> ctx_sender ctx = Some sender \<Longrightarrow> ctl_sender control = canonicalDid sender"
  by (auto simp: controlOf_def split: option.splits if_splits)

lemma resolutionMaterial_long_form:
  assumes "db_inv s" and "resolutionMaterial did s = Some long"
  shows "long_form_of did long"
proof -
  have "(did, long) \<in> roles s"
    using assms(2)
    by (force simp: resolutionMaterial_def roles_def account_names_def replica_names_def split: option.splits dest: row_of_SomeD)
  then show ?thesis using names_okD(1) [OF db_invD(3) [OF assms(1)]] by (fastforce simp: apart_def)
qed

lemma sender_long_form:
  assumes "db_inv s" and "(if isLongForm sender then Some sender else resolutionMaterial sender s) = Some long"
  shows "long_form_of (canonicalDid sender) long"
proof (cases "isLongForm sender")
  case True
  then show ?thesis using assms(2) by (simp add: long_form_of_def canonicalDid_def longToShort_take)
next
  case False
  then have "canonicalDid sender = sender" using longToShort_None [of sender] by (simp add: canonicalDid_def)
  then show ?thesis using False resolutionMaterial_long_form [OF assms(1)] assms(2) by simp
qed

lemma insert_replica_account_same:
  assumes "row_of raccounts_did (ra_accountDid a) (replica_accounts (insert_replica_account registration now a s)) = None \<or>
     (\<exists>h. row_of raccounts_did (ra_accountDid a) (replica_accounts (insert_replica_account registration now a s)) = Some h \<and>
        raccounts_mediator h \<noteq> ra_mediator a)"
  shows "insert_replica_account registration now a s = s"
proof (rule ccontr)
  assume "insert_replica_account registration now a s \<noteq> s"
  then have "row_of raccounts_did (ra_accountDid a) (replica_accounts s) = None"
    "\<exists>h. replica_accounts (insert_replica_account registration now a s) = replica_accounts s @ [h] \<and>
       raccounts_did h = ra_accountDid a \<and> raccounts_mediator h = ra_mediator a"
    by (auto simp: insert_replica_account_def Let_def row_of_None split: if_splits)
  then show False using assms by (auto simp: row_of_append)
qed

lemma accountRegister_settles:
  assumes "db_inv (w_store w)" and "ctx_sender ctx = Some sender"
  shows "settles w (accountRegister incoming ctx w)"
proof (cases "controlOf incoming ctx []")
  case None
  then show ?thesis using assms by (simp add: accountRegister_def handler_simps)
next
  case (Some control)
  let ?long = "if isLongForm sender then Some sender else resolutionMaterial sender (w_store w)"
  show ?thesis
  proof (cases "isMediatorOwnDid (ctl_sender control) (ctx_dids ctx) \<or> \<not> isPeerDID4 sender \<or> ?long = None")
    case True
    then show ?thesis using assms Some by (auto simp: accountRegister_def handler_simps)
  next
    case False
    then obtain long where l: "?long = Some long" by blast
    let ?a = "\<lparr>ra_accountDid = ctl_sender control, ra_accountLongForm = long, ra_mediator = ctl_mediator control,
        ra_create = openRegistration (ctx_config ctx)\<rparr>"
    let ?t = "insert_replica_account (ctx_uuid ctx) (ctx_now ctx) ?a (w_store w)"
    have long: "long_form_of (ra_accountDid ?a) (ra_accountLongForm ?a)"
      using sender_long_form [OF assms(1) l] controlOf_sender [OF Some assms(2)] by simp
    note run = registerReplicaAccount_run [OF assms(1) long, of "ctx_uuid ctx" "ctx_now ctx"]
    note inv = insert_replica_account_inv [OF assms(1) long, of "ctx_uuid ctx" "ctx_now ctx"]
    note same = insert_replica_account_same [of ?a "ctx_uuid ctx" "ctx_now ctx" "w_store w"]
    show ?thesis
      using False l assms Some inv same
      by (auto simp: accountRegister_def handler_simps run split: option.splits)
  qed
qed


lemma accountDelete_settles:
  assumes "db_inv (w_store w)" and "ctx_sender ctx = Some sender"
  shows "settles w (accountDelete incoming ctx w)"
proof (cases "controlOf incoming ctx []")
  case None
  then show ?thesis using assms by (simp add: accountDelete_def handler_simps)
next
  case (Some control)
  show ?thesis
  proof (cases "bound_account (ctl_sender control) (ctl_mediator control) (w_store w)")
    case True
    then show ?thesis
      using assms Some cleared_stages(4) [OF assms(1), of "ctl_sender control"]
      by (auto simp: accountDelete_def handler_simps deleteReplicaAccount_bound)
  next
    case False
    then show ?thesis using assms Some by (auto simp: accountDelete_def handler_simps deleteReplicaAccount_unbound)
  qed
qed

lemma insert_replica_same:
  assumes "\<not> (\<exists>r. row_of replicas_did (add_replicaDid a) (replicas (insert_replica now a s)) = Some r \<and>
      replicas_account_did r = add_accountDid a \<and> is_active r) \<or> \<not> bound_account (add_accountDid a) (add_mediator a) s"
  shows "insert_replica now a s = s"
proof (rule ccontr)
  assume "insert_replica now a s \<noteq> s"
  then have "row_of replicas_did (add_replicaDid a) (replicas s) = None" "bound_account (add_accountDid a) (add_mediator a) s"
    "\<exists>r. replicas (insert_replica now a s) = replicas s @ [r] \<and> replicas_did r = add_replicaDid a \<and>
       replicas_account_did r = add_accountDid a \<and> is_active r"
    by (auto simp: insert_replica_def Let_def row_of_None is_active_def split: if_splits)
  then show False using assms by (auto simp: row_of_append)
qed

text \<open>The store's answers: an outcome that is no success left the store as it was.\<close>

lemma addReplica_outcome:
  assumes "db_inv s" and "long_form_of (add_replicaDid a) (add_replicaLongForm a)"
  obtains outcome t where "addReplica now a s = (Inr outcome, t)" "db_inv t"
    "(\<forall>time. outcome \<noteq> ReplicaAdded time) \<longrightarrow> t = s" "t = insert_replica now a s"
proof -
  note same = insert_replica_same [of a now s]
  have "bound_account (add_accountDid a) (add_mediator a) s \<Longrightarrow> isReplicaAccount (add_accountDid a) s"
    using bound_account_key by (force simp: isReplicaAccount_def)
  with same that [OF addReplica_run [OF assms] insert_replica_inv [OF assms]] show ?thesis
    by (auto split: option.splits if_splits)
qed

lemma replicaAdd_settles:
  assumes "db_inv (w_store w)" and "ctx_sender ctx = Some sender"
  shows "settles w (replicaAdd incoming ctx w)"
proof (cases "controlOf incoming ctx [''grant'']")
  case None
  then show ?thesis using assms by (simp add: replicaAdd_def handler_simps)
next
  case (Some control)
  note control = this
  let ?doc = "if isPeerDID4 sender then resolve_did ctx sender (w_store w) else None"
  let ?grant = "Option.bind ?doc (verifyReplicaGrant (ctx_host ctx) (field (ctl_body control) ''grant''))"
  show ?thesis
  proof (cases "\<exists>g. ?grant = Some g \<and> grant_account g = ctl_sender control \<and> grant_mediator g = ctl_mediator control \<and>
      \<not> isMediatorOwnDid (grant_replicaDid g) (ctx_dids ctx)")
    case False
    then show ?thesis using assms control by (cases ?grant) (auto simp: replicaAdd_def handler_simps)
  next
    case True
    then obtain g where g: "?grant = Some g" "grant_account g = ctl_sender control" "grant_mediator g = ctl_mediator control"
      "\<not> isMediatorOwnDid (grant_replicaDid g) (ctx_dids ctx)" by blast
    let ?a = "\<lparr>add_accountDid = ctl_sender control, add_mediator = ctl_mediator control, add_replicaDid = grant_replicaDid g,
      add_replicaLongForm = grant_replicaLongForm g,
      add_grant = (case as_string (field (ctl_body control) ''grant'') of Some jws \<Rightarrow> jws | None \<Rightarrow> []),
      add_maxReplicas = maxActiveReplicas (ctx_config ctx)\<rparr>"
    have long: "long_form_of (add_replicaDid ?a) (add_replicaLongForm ?a)"
      using g(1) verifyReplicaGrant_Some(4) by (auto simp: long_form_of_def bind_eq_Some_conv)
    obtain outcome t where t: "addReplica (ctx_now ctx) ?a (w_store w) = (Inr outcome, t)" "db_inv t"
      "(\<forall>time. outcome \<noteq> ReplicaAdded time) \<longrightarrow> t = w_store w"
      by (rule addReplica_outcome [OF assms(1) long])
    show ?thesis
      using assms t(2,3) by (cases outcome) (simp_all add: replicaAdd_def handler_simps control g t(1))
  qed
qed

lemma replicaList_settles:
  assumes "db_inv (w_store w)" and "ctx_sender ctx = Some sender"
  shows "settles w (replicaList incoming ctx w)"
  using assms by (auto simp: replicaList_def handler_simps Let_def split: option.split)

lemma recipientList_settles:
  assumes "db_inv (w_store w)" and "ctx_sender ctx = Some sender"
  shows "settles w (recipientList incoming ctx w)"
  using assms by (auto simp: recipientList_def handler_simps Let_def split: option.split)


lemma without_replica_same:
  assumes "\<not> bound_account a m s \<or> find (enrolled r a m s) (replicas (without_replica now a m r s)) = None"
  shows "without_replica now a m r s = s"
proof -
  let ?mark = "\<lambda>x. if enrolled r a m s x \<and> is_active x then x\<lparr>replicas_removed_at := Some (now div 1000)\<rparr> else x"
  have rows: "replicas (without_replica now a m r s) = map ?mark (replicas s)"
    by (simp add: without_replica_def mark_removed_def enrolled_def held_by_def bound_account_def)
  have keeps: "enrolled r a m s (?mark x) = enrolled r a m s x" for x by (simp add: enrolled_def)
  have none: "\<not> enrolled r a m s x" if "x \<in> set (replicas s)" for x
  proof
    assume x: "enrolled r a m s x"
    then have "bound_account a m s" by (simp add: enrolled_def held_by_def)
    then have "find (enrolled r a m s) (map ?mark (replicas s)) = None" using assms unfolding rows by blast
    then have "\<not> enrolled r a m s (?mark x)" using that unfolding find_None_iff set_map by blast
    with keeps x show False by blast
  qed
  then have "\<not> is_enrolled r a m s d" for d by (auto simp: is_enrolled_def)
  then have "end_deliveries (\<lambda>d. is_enrolled r a m s (deliveries_replica_did d)) s = s"
    "end_blobs (\<lambda>b. is_enrolled r a m s (blobs_owner_did b)) s = s"
    by (simp_all add: end_deliveries_def delete_deliveries_def delete_ending_packages_def end_blobs_def delete_blobs_def Let_def)
  moreover have "mark_removed now r a m s = s" using none by (simp add: mark_removed_def map_idI)
  ultimately show ?thesis by (simp add: without_replica_def)
qed

lemma replicaRemove_settles:
  assumes "db_inv (w_store w)" and "ctx_sender ctx = Some sender"
  shows "settles w (replicaRemove incoming ctx w)"
proof (cases "controlOf incoming ctx [''replica_did'']")
  case None
  then show ?thesis using assms by (simp add: replicaRemove_def handler_simps)
next
  case (Some control)
  note control = this
  show ?thesis
  proof (cases "as_string (field (ctl_body control) ''replica_did'')")
    case None
    then show ?thesis using assms control by (simp add: replicaRemove_def handler_simps)
  next
    case (Some named)
    note run = removeReplica_run [OF assms(1), of "ctx_now ctx" "ctl_sender control" "ctl_mediator control" "canonicalDid named"]
    note same = without_replica_same [of "ctl_sender control" "ctl_mediator control" "w_store w" "canonicalDid named" "ctx_now ctx"]
    show ?thesis
      using assms control Some same without_replica_inv [OF assms(1)]
      by (auto simp: replicaRemove_def handler_simps run split: option.split)
  qed
qed

lemma insert_shared_same:
  assumes "\<not> (\<exists>r. row_of recipients_did (share_recipientDid c) (replica_recipients (insert_shared now c s)) = Some r \<and>
      recipients_account_did r = share_accountDid c) \<or> \<not> bound_account (share_accountDid c) (share_mediator c) s"
  shows "insert_shared now c s = s"
proof (rule ccontr)
  assume "insert_shared now c s \<noteq> s"
  then have "row_of recipients_did (share_recipientDid c) (replica_recipients s) = None"
    "bound_account (share_accountDid c) (share_mediator c) s"
    "\<exists>r. replica_recipients (insert_shared now c s) = replica_recipients s @ [r] \<and> recipients_did r = share_recipientDid c \<and>
       recipients_account_did r = share_accountDid c"
    by (auto simp: insert_shared_def row_of_None split: if_splits)
  then show False using assms by (auto simp: row_of_append)
qed

lemma addSharedRecipient_outcome:
  assumes "db_inv s" and "long_form_of (share_recipientDid c) (share_recipientLongForm c)"
  obtains outcome t where "addSharedRecipient now c s = (Inr outcome, t)" "db_inv t"
    "(\<forall>time. outcome \<noteq> ShareAdded time) \<longrightarrow> t = s" "t = insert_shared now c s"
  using insert_shared_same [of c now s] that [OF addSharedRecipient_run [OF assms] insert_shared_inv [OF assms]]
  by (auto split: option.splits if_splits)

lemma recipientDocument_Some:
  "recipientDocument ctx named supplied s = Some (did, longForm, doc) \<Longrightarrow>
     long_form_of did longForm \<and> resolveDIDCommDoc (host_codec (ctx_host ctx)) longForm = Some doc"
  by (auto simp: recipientDocument_def long_form_of_def split: option.splits if_splits)

lemma recipientAdd_settles:
  assumes "db_inv (w_store w)" and "ctx_sender ctx = Some sender"
  shows "settles w (recipientAdd incoming ctx w)"
proof (cases "controlOf incoming ctx [''proof'', ''recipient_did'', ''resolution_material'']")
  case None
  then show ?thesis using assms by (simp add: recipientAdd_def handler_simps)
next
  case (Some control)
  note control = this
  let ?b = "ctl_body control"
  let ?found = "\<lambda>named. recipientDocument ctx named (as_string (field ?b ''resolution_material'')) (w_store w)"
  show ?thesis
  proof (cases "\<exists>named did longForm doc. as_string (field ?b ''recipient_did'') = Some named \<and> ?found named = Some (did, longForm, doc)")
    case False
    then show ?thesis using assms control
      by (cases "as_string (field ?b ''recipient_did'')") (auto simp: recipientAdd_def handler_simps Let_def split: option.split)
  next
    case True
    then obtain named did longForm doc where f: "as_string (field ?b ''recipient_did'') = Some named"
      "?found named = Some (did, longForm, doc)" by blast
    let ?c = "\<lparr>share_accountDid = ctl_sender control, share_mediator = ctl_mediator control, share_recipientDid = did,
      share_recipientLongForm = longForm, share_maxRecipients = maxSharedRecipients (ctx_config ctx)\<rparr>"
    have long: "long_form_of (share_recipientDid ?c) (share_recipientLongForm ?c)" using recipientDocument_Some [OF f(2)] by simp
    obtain outcome t where t: "addSharedRecipient (ctx_now ctx) ?c (w_store w) = (Inr outcome, t)" "db_inv t"
      "(\<forall>time. outcome \<noteq> ShareAdded time) \<longrightarrow> t = w_store w"
      by (rule addSharedRecipient_outcome [OF assms(1) long])
    show ?thesis
      using assms t(2,3) by (cases outcome) (simp_all add: recipientAdd_def handler_simps control f t(1) Let_def)
  qed
qed

lemma recipientRemove_settles:
  assumes "db_inv (w_store w)" and "ctx_sender ctx = Some sender"
  shows "settles w (recipientRemove incoming ctx w)"
proof (cases "controlOf incoming ctx [''recipient_did'']")
  case None
  then show ?thesis using assms by (simp add: recipientRemove_def handler_simps)
next
  case (Some control)
  note control = this
  have "unshared a m r s = s" if "\<not> bound_account a m s" for a m r s
    using that by (simp add: unshared_def is_shared_def held_by_def)
  then show ?thesis
    using assms control unshared_inv [OF assms(1)]
    by (cases "as_string (field (ctl_body control) ''recipient_did'')")
      (auto simp: recipientRemove_def handler_simps removeSharedRecipient_run)
qed

lemma register_execution_same:
  assumes "\<forall>kept. fst (register_execution rid now g s) \<noteq> ExecutionRegistered kept"
  shows "snd (register_execution rid now g s) = s"
  using assms by (auto simp: register_execution_def Let_def split: option.splits if_splits)

lemma executionRegister_settles:
  assumes "db_inv (w_store w)" and "ctx_sender ctx = Some sender"
    and "ctx_uuid ctx \<notin> executions_registration_id ` set (replica_executions (w_store w))"
    and "1 \<le> maxExecutionRegistrations (ctx_config ctx)"
  shows "settles w (executionRegister incoming ctx w)"
proof (cases "controlOf incoming ctx [''execution_id'']")
  case None
  then show ?thesis using assms by (simp add: executionRegister_def handler_simps)
next
  case (Some control)
  note control = this
  show ?thesis
  proof (cases "executionIdOf (field (ctl_body control) ''execution_id'')")
    case None
    then show ?thesis using assms control by (simp add: executionRegister_def handler_simps)
  next
    case (Some eid)
    let ?g = "\<lparr>reg_replicaDid = ctl_sender control, reg_mediator = ctl_mediator control, reg_executionId = eid,
      reg_policy = \<lparr>policy_retainSeconds = executionRetainSeconds (ctx_config ctx),
        policy_maxRetained = maxRetainedExecutions (ctx_config ctx),
        policy_maxReplicas = maxExecutionRegistrations (ctx_config ctx)\<rparr>\<rparr>"
    have max: "1 \<le> policy_maxReplicas (reg_policy ?g)" using assms(4) by simp
    obtain outcome t where r: "register_execution (ctx_uuid ctx) (ctx_now ctx div 1000) ?g (w_store w) = (outcome, t)" by fastforce
    have t: "registerExecution (ctx_uuid ctx) (ctx_now ctx) ?g (w_store w) = (Inr outcome, t)" "db_inv t"
      "(\<forall>kept. outcome \<noteq> ExecutionRegistered kept) \<longrightarrow> t = w_store w"
      using registerExecution_run [OF assms(1,3) max, of "ctx_now ctx"] register_execution_same [of "ctx_uuid ctx" "ctx_now ctx div 1000" ?g "w_store w"]
      by (simp_all add: r)
    show ?thesis
      using assms t(2,3) by (cases outcome) (simp_all add: executionRegister_def handler_simps control Some t(1))
  qed
qed


text \<open>
  C27: Every control of replica mediation sent by a proven sender is answered by
  exactly one reply; none fails, each keeps the store's invariant, and one
  answered with a problem-report has changed nothing.
\<close>

theorem controls_settle:
  assumes "(message_type, handler) \<in> set REPLICA_CONTROLS" and "db_inv (w_store w)" and "ctx_sender ctx = Some sender"
    and "ctx_uuid ctx \<notin> executions_registration_id ` set (replica_executions (w_store w))"
    and "1 \<le> maxExecutionRegistrations (ctx_config ctx)"
  shows "\<exists>reply s'. handler incoming ctx w = (Inr (Some reply), w\<lparr>w_store := s'\<rparr>) \<and> db_inv s' \<and>
     (reply_type reply = PROBLEM_REPORT \<longrightarrow> s' = w_store w)"
proof -
  have "settles w (handler incoming ctx w)"
    using assms(1) accountRegister_settles [OF assms(2,3)] accountDelete_settles [OF assms(2,3)]
      replicaAdd_settles [OF assms(2,3)] replicaList_settles [OF assms(2,3)] replicaRemove_settles [OF assms(2,3)]
      recipientAdd_settles [OF assms(2,3)] recipientList_settles [OF assms(2,3)] recipientRemove_settles [OF assms(2,3)]
      executionRegister_settles [OF assms(2-5)]
    by (auto simp: REPLICA_CONTROLS_def)
  then show ?thesis by (simp add: settles_def)
qed

text \<open>
  Names are compared as one text, so the body that should be empty may hold a
  member with an empty name, and one member may pass for two.
\<close>

lemma unexact_bodies: "holdsExactly [([], j)] []" "holdsExactly [(''cursor,limit'', j)] [''cursor'', ''limit'']"
  by (simp_all add: holdsExactly_def sorted_join_def)

section \<open>Who may join\<close>

lemma insert_replica_new:
  assumes "r \<in> set (replicas (insert_replica now a s))" and "r \<notin> set (replicas s)"
  shows "replicas_did r = add_replicaDid a \<and> replicas_account_did r = add_accountDid a \<and>
     replicas_long_form r = add_replicaLongForm a \<and> replicas_grant_jws r = add_grant a \<and> is_active r \<and>
     bound_account (add_accountDid a) (add_mediator a) s"
  using assms by (auto simp: insert_replica_def Let_def is_active_def split: if_splits)

lemma controlOf_authcrypted:
  "controlOf incoming ctx names = Some control \<Longrightarrow> isAuthcrypted incoming \<and> ctl_mediator control = canonicalDid (ctl_addressed control) \<and>
     in_addressedTo incoming = Some (ctl_addressed control) \<and> ctl_addressed control \<in> set (ctx_dids ctx) \<and> ctl_body control = in_body incoming"
  by (auto simp: controlOf_def split: option.splits if_splits)

text \<open>
  C25: A replica is enrolled only by its account: whatever \<open>replica-add\<close> adds to a
  roster was sealed to this mediator by the account's own key and carries a grant that verifies under an authentication key of
  the account's own document, its payload naming that account, that replica
  DID and the long form it is cut from.
\<close>

theorem enrolled_by_grant:
  assumes "db_inv (w_store w)" and "ctx_sender ctx = Some sender"
    and "r \<in> set (replicas (w_store (snd (replicaAdd incoming ctx w))))" and "r \<notin> set (replicas (w_store w))"
  shows "isAuthcrypted incoming \<and> replicas_account_did r = canonicalDid sender \<and>
     long_form_of (replicas_did r) (replicas_long_form r) \<and> replicas_did r \<noteq> replicas_account_did r \<and>
     (\<exists>doc payload. resolve_did ctx sender (w_store w) = Some doc \<and> canonicalDid (doc_id doc) = canonicalDid sender \<and>
        signed_by (ctx_host ctx) (Some (JStr (replicas_grant_jws r))) GRANT_TYP doc payload \<and>
        field payload ''account'' = Some (JStr (replicas_account_did r)) \<and>
        field payload ''replica_did'' = Some (JStr (replicas_did r)) \<and>
        field payload ''replica_long_form'' = Some (JStr (replicas_long_form r)))"
proof -
  obtain control where control: "controlOf incoming ctx [''grant''] = Some control"
    using assms(2-4) by (cases "controlOf incoming ctx [''grant'']") (auto simp: replicaAdd_def handler_simps problem_def)
  let ?jws = "field (ctl_body control) ''grant''"
  let ?doc = "if isPeerDID4 sender then resolve_did ctx sender (w_store w) else None"
  let ?grant = "Option.bind ?doc (verifyReplicaGrant (ctx_host ctx) ?jws)"
  have "\<exists>g. ?grant = Some g \<and> grant_account g = ctl_sender control \<and> grant_mediator g = ctl_mediator control \<and>
      \<not> isMediatorOwnDid (grant_replicaDid g) (ctx_dids ctx)"
  proof (rule ccontr)
    assume "\<not> ?thesis"
    then have "snd (replicaAdd incoming ctx w) = w"
      using assms(2) control by (cases ?grant) (auto simp: replicaAdd_def handler_simps problem_def)
    with assms(3,4) show False by simp
  qed
  then obtain g where g: "?grant = Some g" "grant_account g = ctl_sender control" "grant_mediator g = ctl_mediator control"
    "\<not> isMediatorOwnDid (grant_replicaDid g) (ctx_dids ctx)" by blast
  then obtain doc where doc: "?doc = Some doc" "verifyReplicaGrant (ctx_host ctx) ?jws doc = Some g"
    by (auto simp: bind_eq_Some_conv split: if_splits)
  note signed = verifyReplicaGrant_Some [OF doc(2)]
  then obtain jws where jws: "?jws = Some (JStr jws)" by (auto simp: signed_by_def)
  let ?a = "\<lparr>add_accountDid = ctl_sender control, add_mediator = ctl_mediator control, add_replicaDid = grant_replicaDid g,
    add_replicaLongForm = grant_replicaLongForm g, add_grant = jws, add_maxReplicas = maxActiveReplicas (ctx_config ctx)\<rparr>"
  have long: "long_form_of (add_replicaDid ?a) (add_replicaLongForm ?a)" using signed(4) by (simp add: long_form_of_def)
  obtain outcome t where t: "addReplica (ctx_now ctx) ?a (w_store w) = (Inr outcome, t)" "t = insert_replica (ctx_now ctx) ?a (w_store w)"
    by (rule addReplica_outcome [OF assms(1) long])
  have peer: "isPeerDID4 sender" "resolve_did ctx sender (w_store w) = Some doc" using doc(1) by (simp_all split: if_splits)
  have "w_store (snd (replicaAdd incoming ctx w)) = t"
    using assms(2) by (cases outcome)
      (simp_all add: replicaAdd_def handler_simps control peer doc(2) [unfolded jws] g(2-4) t(1) jws problem_def answer_def)
  with assms(3,4) t(2) have r: "replicas_did r = grant_replicaDid g" "replicas_account_did r = ctl_sender control"
    "replicas_long_form r = grant_replicaLongForm g" "replicas_grant_jws r = jws"
    using insert_replica_new [of r "ctx_now ctx" ?a "w_store w"] by simp_all
  have "isAuthcrypted incoming" using controlOf_authcrypted [OF control] by simp
  with peer(2) show ?thesis
    using signed r g(2) controlOf_sender [OF control assms(2)] jws long by auto
qed


text \<open>
  C26: A recipient is bound only by itself: whatever \<open>recipient-add\<close> binds to an
  account carries a proof that verifies under an authentication key of the
  recipient's own document, the one its long form decodes to, naming the
  recipient, the sending account and this mediator.
\<close>

theorem bound_by_proof:
  assumes "db_inv (w_store w)" and "ctx_sender ctx = Some sender"
    and "r \<in> set (replica_recipients (w_store (snd (recipientAdd incoming ctx w))))" and "r \<notin> set (replica_recipients (w_store w))"
  shows "isAuthcrypted incoming \<and> recipients_account_did r = canonicalDid sender \<and>
     long_form_of (recipients_did r) (recipients_long_form r) \<and>
     (\<exists>doc payload account aud named addressed. resolveDIDCommDoc (host_codec (ctx_host ctx)) (recipients_long_form r) = Some doc \<and>
        doc_id doc = recipients_long_form r \<and>
        signed_by (ctx_host ctx) (field (in_body incoming) ''proof'') RECIPIENT_PROOF_TYP doc payload \<and>
        field payload ''account'' = Some (JStr account) \<and> provenDid (ctx_host ctx) account = Some (canonicalDid sender) \<and>
        in_addressedTo incoming = Some addressed \<and>
        field payload ''aud'' = Some (JStr aud) \<and> provenDid (ctx_host ctx) aud = Some (canonicalDid addressed) \<and>
        field payload ''recipient'' = Some (JStr named) \<and> provenDid (ctx_host ctx) named = Some (recipients_did r))"
proof -
  let ?names = "[''proof'', ''recipient_did'', ''resolution_material'']"
  obtain control where control: "controlOf incoming ctx ?names = Some control"
    using assms(2-4) by (cases "controlOf incoming ctx ?names") (auto simp: recipientAdd_def handler_simps problem_def)
  let ?b = "ctl_body control"
  let ?jws = "field ?b ''proof''" and ?supplied = "field ?b ''resolution_material''"
  let ?found = "\<lambda>named. recipientDocument ctx named (as_string ?supplied) (w_store w)"
  let ?ok = "\<lambda>doc. \<exists>p. verifyRecipientProof (ctx_host ctx) ?jws doc = Some p \<and>
      proof_account p = Some (ctl_sender control) \<and> proof_mediator p = Some (ctl_mediator control)"
  have "\<exists>named did longForm doc. as_string (field ?b ''recipient_did'') = Some named \<and> \<not> (as_string ?jws = None \<or>
      ?supplied \<noteq> Some JNull \<and> as_string ?supplied = None) \<and> ?found named = Some (did, longForm, doc) \<and> ?ok doc \<and>
      \<not> isMediatorOwnDid did (ctx_dids ctx)"
  proof (rule ccontr)
    assume not: "\<not> ?thesis"
    have "snd (recipientAdd incoming ctx w) = w"
    proof (cases "as_string (field ?b ''recipient_did'')")
      case None
      then show ?thesis using assms(2) control by (simp add: recipientAdd_def handler_simps problem_def)
    next
      case (Some named)
      then show ?thesis using not assms(2) control
        by (cases "?found named") (auto simp: recipientAdd_def handler_simps problem_def Let_def split: option.splits)
    qed
    with assms(3,4) show False by simp
  qed
  then obtain named did longForm doc p where f: "as_string (field ?b ''recipient_did'') = Some named"
    "\<not> (as_string ?jws = None \<or> ?supplied \<noteq> Some JNull \<and> as_string ?supplied = None)"
    "?found named = Some (did, longForm, doc)" "verifyRecipientProof (ctx_host ctx) ?jws doc = Some p"
    "proof_account p = Some (ctl_sender control)" "proof_mediator p = Some (ctl_mediator control)"
    "\<not> isMediatorOwnDid did (ctx_dids ctx)" by blast
  let ?c = "\<lparr>share_accountDid = ctl_sender control, share_mediator = ctl_mediator control, share_recipientDid = did,
    share_recipientLongForm = longForm, share_maxRecipients = maxSharedRecipients (ctx_config ctx)\<rparr>"
  have found: "long_form_of did longForm" "resolveDIDCommDoc (host_codec (ctx_host ctx)) longForm = Some doc"
    using recipientDocument_Some [OF f(3)] by simp_all
  then have long: "long_form_of (share_recipientDid ?c) (share_recipientLongForm ?c)" by simp
  obtain outcome t where t: "addSharedRecipient (ctx_now ctx) ?c (w_store w) = (Inr outcome, t)" "t = insert_shared (ctx_now ctx) ?c (w_store w)"
    by (rule addSharedRecipient_outcome [OF assms(1) long])
  have "w_store (snd (recipientAdd incoming ctx w)) = t"
    using assms(2) f by (cases outcome) (simp_all add: recipientAdd_def handler_simps control f t(1) Let_def problem_def answer_def)
  with assms(3,4) t(2) have r: "recipients_did r = did" "recipients_account_did r = ctl_sender control" "recipients_long_form r = longForm"
    by (auto simp: insert_shared_def split: if_splits)
  note ids = long_form_ofD [OF found(1)]
  then have id: "doc_id doc = longForm" "canonicalDid (doc_id doc) = did" using resolveDIDCommDoc_id [OF found(2)] by simp_all
  show ?thesis
    using verifyRecipientProof_Some [OF f(4) f(5) f(6)] controlOf_authcrypted [OF control] controlOf_sender [OF control assms(2)] r found id
    by auto
qed

section \<open>Following a listing\<close>

text \<open>
  A client that lists: it asks with no cursor, then with the cursor of the page
  before, each time at whatever the store has become, until a page has none.
\<close>

definition list_request :: "Unpacked \<Rightarrow> nat \<Rightarrow> json \<Rightarrow> Unpacked" where
  "list_request m limit cursor = m\<lparr>in_body := [(''cursor'', cursor), (''limit'', JNat limit)]\<rparr>"

fun follow_replicas :: "Unpacked \<Rightarrow> HandlerContext \<Rightarrow> nat \<Rightarrow> json \<Rightarrow> db list \<Rightarrow> json list option" where
  "follow_replicas m ctx limit cursor [] = None"
| "follow_replicas m ctx limit cursor (s # ss) =
     (case fst (replicaList (list_request m limit cursor) ctx \<lparr>w_store = s, w_session = None, w_offers = [], w_files = []\<rparr>) of
        Inr (Some reply) \<Rightarrow>
          (case (as_array (field (reply_body reply) ''entries''), field (reply_body reply) ''next_cursor'') of
             (Some entries, Some JNull) \<Rightarrow> Some entries
           | (Some entries, Some following) \<Rightarrow>
               map_option (\<lambda>more. entries @ more) (follow_replicas m ctx limit following ss)
           | _ \<Rightarrow> None)
      | _ \<Rightarrow> None)"

text \<open>The cursors of one listing read back as they were written.\<close>

definition cursors_read_back :: "host \<Rightarrow> did \<Rightarrow> string \<Rightarrow> nat \<Rightarrow> bool" where
  "cursors_read_back h account registration held =
     list_all (\<lambda>after. readCursor h (writeCursor h [JStr account, JStr registration, JNat held, JNat after]) =
       Some \<lparr>cursor_account = account, cursor_registration = registration, cursor_through = held, cursor_after = after\<rparr>)
       [1..<held]"

lemma rosters_prefix:
  assumes "roster_grows s t"
  shows "map replicas_grant_jws (take (length (replicas_of a s)) (replicas_of a t)) = map replicas_grant_jws (replicas_of a s)"
    and "length (replicas_of a s) \<le> length (replicas_of a t)"
proof -
  let ?n = "length (replicas s)"
  have l: "list_all2 later_row (replicas s) (take ?n (replicas t))" using assms by (simp add: roster_grows_def)
  have "list_all2 later_row (replicas_of a s) (filter (\<lambda>r. replicas_account_did r = a) (take ?n (replicas t)))"
    using l unfolding replicas_of_def
    by (induction rule: list_all2_induct) (auto dest: later_row_cols)
  then have r: "list_all2 later_row (replicas_of a s) (filter (\<lambda>r. replicas_account_did r = a) (take ?n (replicas t)))" .
  have split: "replicas_of a t = filter (\<lambda>r. replicas_account_did r = a) (take ?n (replicas t)) @
      filter (\<lambda>r. replicas_account_did r = a) (drop ?n (replicas t))"
    unfolding replicas_of_def by (metis append_take_drop_id filter_append)
  have n: "length (replicas_of a s) = length (filter (\<lambda>r. replicas_account_did r = a) (take ?n (replicas t)))"
    by (rule list_all2_lengthD [OF r])
  show "length (replicas_of a s) \<le> length (replicas_of a t)" unfolding split n by simp
  have "map replicas_grant_jws (filter (\<lambda>r. replicas_account_did r = a) (take ?n (replicas t))) = map replicas_grant_jws (replicas_of a s)"
    using r by (induction rule: list_all2_induct) (auto dest: later_row_cols)
  then show "map replicas_grant_jws (take (length (replicas_of a s)) (replicas_of a t)) = map replicas_grant_jws (replicas_of a s)"
    unfolding split by (simp add: n)
qed

end
