(* ===== verification/Mediator_Listing.thy ===== *)
theory Mediator_Listing
  imports Mediator_Membership
begin

text \<open>
  One listing of a roster, page by page, while the roster grows and replicas
  are removed: what its pages hold together.
\<close>

lemma numbered_nth: "numbered ord rows \<Longrightarrow> i < length rows \<Longrightarrow> ord (rows ! i) = Suc i"
proof -
  assume "numbered ord rows" "i < length rows"
  then have "map ord rows ! i = [1..<Suc (length rows)] ! i" by (simp add: numbered_def)
  then show ?thesis using \<open>i < length rows\<close> by (simp del: upt_Suc)
qed

lemma roster_registration:
  "account_bound_to a m s = Some x \<Longrightarrow> replicaRoster a m after through limit s = Some page \<Longrightarrow>
     roster_registration page = raccounts_registration x"
  by (auto simp: replicaRoster_def Let_def)

lemma account_bound_toD: "account_bound_to a m s = Some x \<Longrightarrow> bound_account a m s"
  by (auto simp: account_bound_to_def bound_account_def find_Some_iff)

lemma JNat_read: "int n \<le> max_safe \<Longrightarrow> as_safe_integer (Some (JNat n)) = Some (int n)"
  by (simp add: JNat_def)

text \<open>The page after the first \<open>k\<close> of the \<open>n\<close> replicas a listing is of.\<close>

definition listed_page :: "did \<Rightarrow> nat \<Rightarrow> nat \<Rightarrow> nat \<Rightarrow> db \<Rightarrow> replica_row list" where
  "listed_page a limit k n s = take limit (drop k (take n (replicas_of a s)))"

definition following :: "host \<Rightarrow> did \<Rightarrow> string \<Rightarrow> nat \<Rightarrow> nat \<Rightarrow> json" where
  "following h a registration n k =
     (if k < n then JStr (writeCursor h [JStr a, JStr registration, JNat n, JNat k]) else JNull)"

lemma listed_page_length: "n \<le> length (replicas_of a s) \<Longrightarrow> length (listed_page a limit k n s) = min limit (n - k)"
  by (simp add: listed_page_def)

lemma listed_page_last:
  assumes "db_inv s" and "n \<le> length (replicas_of a s)" and "0 < limit" and "k < n"
  shows "listed_page a limit k n s \<noteq> []" and "replicas_ordinal (last (listed_page a limit k n s)) = k + min limit (n - k)"
proof -
  let ?p = "listed_page a limit k n s" and ?m = "min limit (n - k)"
  have l: "length ?p = ?m" and m: "0 < ?m" using listed_page_length assms(2-4) by auto
  then show ne: "?p \<noteq> []" by (metis length_0_conv less_numeral_extra(3))
  have "last ?p = ?p ! (?m - 1)" using last_conv_nth [OF ne] l by simp
  also have "\<dots> = replicas_of a s ! (k + (?m - 1))"
    using m assms(2,4) by (simp add: listed_page_def)
  finally have "last ?p = replicas_of a s ! (k + (?m - 1))" .
  moreover have "k + (?m - 1) < length (replicas_of a s)" using m assms(2,4) by auto
  ultimately show "replicas_ordinal (last ?p) = k + ?m"
    using numbered_nth [OF roster_numbered [OF assms(1)], of "k + (?m - 1)" a] m by simp
qed

text \<open>What a page's request is answered, at its start and at a cursor.\<close>

definition page_body :: "host \<Rightarrow> did \<Rightarrow> string \<Rightarrow> nat \<Rightarrow> nat \<Rightarrow> nat \<Rightarrow> db \<Rightarrow> json_object" where
  "page_body h a registration limit k n s =
     [(''entries'', JArr (map (\<lambda>r. entry_json (roster_entry r)) (listed_page a limit k n s))),
      (''next_cursor'', following h a registration n (k + min limit (n - k)))]"

definition may_list :: "Unpacked \<Rightarrow> HandlerContext \<Rightarrow> nat \<Rightarrow> did \<Rightarrow> did \<Rightarrow> bool" where
  "may_list m ctx limit a mediator \<longleftrightarrow> ctx_sender ctx \<noteq> None \<and>
     (\<exists>control. controlOf (list_request m limit JNull) ctx [''cursor'', ''limit''] = Some control \<and>
        ctl_sender control = a \<and> ctl_mediator control = mediator) \<and>
     1 \<le> limit \<and> limit \<le> maxMembershipPage (ctx_config ctx) \<and> int limit \<le> max_safe"

lemma may_list_control:
  assumes "may_list m ctx limit a mediator"
  shows "\<exists>control. controlOf (list_request m limit cursor) ctx [''cursor'', ''limit''] = Some control \<and>
     ctl_sender control = a \<and> ctl_mediator control = mediator \<and> ctl_body control = [(''cursor'', cursor), (''limit'', JNat limit)]"
  using assms
  by (auto simp: may_list_def controlOf_def list_request_def holdsExactly_def isAuthcrypted_def split: option.splits if_splits)

lemma replicaList_page:
  assumes "may_list m ctx limit a mediator" and "db_inv (w_store w)" and "account_bound_to a mediator (w_store w) = Some x"
    and "n \<le> length (replicas_of a (w_store w))"
    and "cursor = JNull \<and> k = 0 \<and> n = length (replicas_of a (w_store w)) \<or>
      (\<exists>t. cursor = JStr t \<and> readCursor (ctx_host ctx) t = Some \<lparr>cursor_account = a,
         cursor_registration = raccounts_registration x, cursor_through = n, cursor_after = k\<rparr> \<and> k < n)"
  shows "fst (replicaList (list_request m limit cursor) ctx w) =
     Inr (Some (plain_reply (replica_type ''replicas'') (page_body (ctx_host ctx) a (raccounts_registration x) limit k n (w_store w))))"
proof -
  let ?s = "w_store w" and ?reg = "raccounts_registration x"
  obtain sender where sender: "ctx_sender ctx = Some sender" using assms(1) by (auto simp: may_list_def)
  obtain control where c: "controlOf (list_request m limit cursor) ctx [''cursor'', ''limit''] = Some control"
    "ctl_sender control = a" "ctl_mediator control = mediator" "ctl_body control = [(''cursor'', cursor), (''limit'', JNat limit)]"
    using may_list_control [OF assms(1)] by blast
  have limit: "membership_page ctx (Some (JNat limit)) = Some limit"
    using assms(1) JNat_read [of limit] by (auto simp: membership_page_def may_list_def)
  have page: "replicaRoster a mediator k through limit ?s = Some \<lparr>roster_registration = ?reg,
      roster_size = length (replicas_of a ?s), roster_entries = map roster_entry (listed_page a limit k n ?s)\<rparr>"
    if "first_of through (replicas_of a ?s) = take n (replicas_of a ?s)" for through
    using replicaRoster_page [OF assms(2) account_bound_toD [OF assms(3)], of k through limit]
      roster_registration [OF assms(3)] that by (fastforce simp: listed_page_def)
  let ?last = "if listed_page a limit k n ?s = [] then n else replicas_ordinal (last (listed_page a limit k n ?s))"
  have "following (ctx_host ctx) a ?reg n (k + min limit (n - k)) =
      (if ?last < n then JStr (writeCursor (ctx_host ctx) [JStr a, JStr ?reg, JNat n, JNat ?last]) else JNull)"
  proof (cases "k < n")
    case True
    then show ?thesis
      using listed_page_last [OF assms(2,4) _ True, of limit] assms(1) by (simp add: following_def may_list_def)
  next
    case False
    then have "listed_page a limit k n ?s = []" using listed_page_length [OF assms(4), of limit k] by simp
    with False show ?thesis by (simp add: following_def)
  qed
  note next_page = this
  from assms(5) show ?thesis
  proof (elim disjE)
    assume start: "cursor = JNull \<and> k = 0 \<and> n = length (replicas_of a ?s)"
    then show ?thesis
      using page [of None] next_page c
      by (simp add: replicaList_def handler_simps sender limit field_def answer_def page_body_def first_of_def Let_def
          roster_entry_def last_map comp_def)
  next
    assume "\<exists>t. cursor = JStr t \<and> readCursor (ctx_host ctx) t = Some \<lparr>cursor_account = a,
         cursor_registration = ?reg, cursor_through = n, cursor_after = k\<rparr> \<and> k < n"
    then show ?thesis
      using page [of "Some n"] next_page assms(4) c
      by (auto simp: replicaList_def handler_simps sender limit field_def answer_def page_body_def first_of_def Let_def
          roster_entry_def last_map comp_def)
  qed
qed


section \<open>The whole listing\<close>

definition granted :: "json \<Rightarrow> json option" where
  "granted e = Option.bind (as_object (Some e)) (\<lambda>ms. field ms ''grant'')"

lemma granted_entry [simp]: "granted (entry_json (roster_entry r)) = Some (JStr (replicas_grant_jws r))"
  by (simp add: granted_def entry_json_def roster_entry_def field_def)

lemma listed_page_grants:
  assumes "roster_grows s t"
  shows "map (\<lambda>r. Some (JStr (replicas_grant_jws r))) (listed_page a limit k (length (replicas_of a s)) t) =
     take limit (drop k (map (\<lambda>r. Some (JStr (replicas_grant_jws r))) (replicas_of a s)))"
proof -
  let ?g = "\<lambda>r. Some (JStr (replicas_grant_jws r))" and ?n = "length (replicas_of a s)"
  have "map ?g (take ?n (replicas_of a t)) = map (\<lambda>x. Some (JStr x)) (map replicas_grant_jws (take ?n (replicas_of a t)))"
    by (simp add: comp_def)
  also have "\<dots> = map ?g (replicas_of a s)" unfolding rosters_prefix(1) [OF assms] by (simp add: comp_def)
  finally show ?thesis unfolding listed_page_def take_map [symmetric] drop_map [symmetric] by simp
qed

definition listing_state :: "did \<Rightarrow> did \<Rightarrow> string \<Rightarrow> db \<Rightarrow> db \<Rightarrow> bool" where
  "listing_state a mediator registration s t \<longleftrightarrow> db_inv t \<and> roster_grows s t \<and>
     map_option raccounts_registration (account_bound_to a mediator t) = Some registration"

lemma follow_step:
  assumes "may_list m ctx limit a mediator" and "listing_state a mediator reg s t"
    and "k = 0 \<and> cursor = JNull \<and> t = s \<or> k < length (replicas_of a s) \<and> cursor = following (ctx_host ctx) a reg (length (replicas_of a s)) k \<and> 0 < k"
    and "cursors_read_back (ctx_host ctx) a reg (length (replicas_of a s))"
  shows "fst (replicaList (list_request m limit cursor) ctx \<lparr>w_store = t, w_session = None, w_offers = [], w_files = []\<rparr>) =
     Inr (Some (plain_reply (replica_type ''replicas'') (page_body (ctx_host ctx) a reg limit k (length (replicas_of a s)) t)))"
proof -
  let ?n = "length (replicas_of a s)" and ?w = "\<lparr>w_store = t, w_session = None, w_offers = [], w_files = []\<rparr> :: world"
  obtain x where x: "account_bound_to a mediator t = Some x" "raccounts_registration x = reg"
    and t: "db_inv t" "roster_grows s t"
    using assms(2) by (auto simp: listing_state_def)
  have "readCursor (ctx_host ctx) (writeCursor (ctx_host ctx) [JStr a, JStr reg, JNat ?n, JNat k]) =
      Some \<lparr>cursor_account = a, cursor_registration = reg, cursor_through = ?n, cursor_after = k\<rparr>" if "0 < k" "k < ?n"
    using assms(4) that by (simp add: cursors_read_back_def list_all_iff)
  then show ?thesis
    using replicaList_page [OF assms(1), of ?w x ?n cursor k] assms(3) x t rosters_prefix(2) [OF t(2)] by (auto simp: following_def)
qed

lemma follow_from:
  assumes "may_list m ctx limit a mediator" and "list_all (listing_state a mediator reg s) ts" and "ts \<noteq> []"
    and "k = 0 \<and> cursor = JNull \<and> hd ts = s \<or> k < length (replicas_of a s) \<and> cursor = following (ctx_host ctx) a reg (length (replicas_of a s)) k \<and> 0 < k"
    and "cursors_read_back (ctx_host ctx) a reg (length (replicas_of a s))"
    and "length (replicas_of a s) - k \<le> limit * length ts"
  shows "\<exists>entries. follow_replicas m ctx limit cursor ts = Some entries \<and>
     map granted entries = drop k (map (\<lambda>r. Some (JStr (replicas_grant_jws r))) (replicas_of a s))"
  using assms(2-4,6)
proof (induction ts arbitrary: k cursor)
  case (Cons t ts)
  let ?n = "length (replicas_of a s)" and ?g = "\<lambda>r. Some (JStr (replicas_grant_jws r))"
  let ?page = "map (\<lambda>r. entry_json (roster_entry r)) (listed_page a limit k ?n t)"
  let ?k = "k + min limit (?n - k)"
  have t: "listing_state a mediator reg s t" using Cons.prems(1) by simp
  then have grows: "roster_grows s t" by (simp add: listing_state_def)
  have run: "fst (replicaList (list_request m limit cursor) ctx \<lparr>w_store = t, w_session = None, w_offers = [], w_files = []\<rparr>) =
     Inr (Some (plain_reply (replica_type ''replicas'') (page_body (ctx_host ctx) a reg limit k ?n t)))"
    using follow_step [OF assms(1) t _ assms(5), of k cursor] Cons.prems(3) by auto
  have page: "map granted ?page = take limit (drop k (map ?g (replicas_of a s)))"
    using listed_page_grants [OF grows, of a limit k] by (simp add: comp_def)
  show ?case
  proof (cases "?k < ?n")
    case False
    then have "take limit (drop k (map ?g (replicas_of a s))) = drop k (map ?g (replicas_of a s))"
      by (intro take_all) auto
    moreover have "following (ctx_host ctx) a reg ?n ?k = JNull" using False by (simp add: following_def)
    ultimately show ?thesis using run page by (simp add: page_body_def plain_reply_def field_def)
  next
    case True
    then have k: "?k = k + limit" and less: "k + limit < ?n" by auto
    have pos: "0 < k + limit" using assms(1) by (simp add: may_list_def)
    have enough: "?n - (k + limit) \<le> limit * length ts" using Cons.prems(4) by simp
    then have "ts \<noteq> []" using less by (cases ts) auto
    then obtain more where more: "follow_replicas m ctx limit (following (ctx_host ctx) a reg ?n ?k) ts = Some more"
      "map granted more = drop ?k (map ?g (replicas_of a s))"
      unfolding k using Cons.IH [of "k + limit" "following (ctx_host ctx) a reg ?n (k + limit)"] Cons.prems(1) less pos enough by auto
    have "drop k (map ?g (replicas_of a s)) = take limit (drop k (map ?g (replicas_of a s))) @ drop ?k (map ?g (replicas_of a s))"
      unfolding k by (metis append_take_drop_id drop_drop add.commute)
    moreover have "following (ctx_host ctx) a reg ?n ?k = JStr (writeCursor (ctx_host ctx) [JStr a, JStr reg, JNat ?n, JNat ?k])"
      using True by (simp add: following_def)
    ultimately show ?thesis using run page more by (simp add: page_body_def plain_reply_def field_def)
  qed
qed simp

text \<open>
  A listing is complete: a client that follows the cursors of
  \<open>replica-list\<close>, while replicas are added and removed and the registration
  lives, is handed, when it asks often enough, the grants of exactly the replicas in the roster
  when the listing began, in the order they were enrolled, each once, and its last page says so.
\<close>

theorem replica_listing_complete:
  assumes "may_list m ctx limit a mediator" and "list_all (listing_state a mediator registration s) (s # later)"
    and "cursors_read_back (ctx_host ctx) a registration (length (replicas_of a s))"
    and "length (replicas_of a s) \<le> limit * Suc (length later)"
  shows "\<exists>entries. follow_replicas m ctx limit JNull (s # later) = Some entries \<and>
     map granted entries = map (\<lambda>r. Some (JStr (replicas_grant_jws r))) (replicas_of a s)"
  using follow_from [OF assms(1,2), of 0 JNull] assms(3,4) by simp

end
