(* ===== verification/Mediator_Members_Example.thy ===== *)
theory Mediator_Members_Example
  imports Mediator_Listing
begin

text \<open>
  The roster of the example run grows: a host on which one replica's long
  form decodes, its grant and a recipient's proof verify, and a listing's
  cursors read back.
\<close>

definition demo_key :: "string \<Rightarrow> string \<Rightarrow> json" where
  "demo_key fragment crv = JObj [(''id'', JStr fragment), (''type'', JStr ''JsonWebKey2020''),
     (''publicKeyJwk'', JObj [(''kty'', JStr ''OKP''), (''crv'', JStr crv), (''x'', JStr ''AA'')])]"

definition demo_member_document :: json_object where
  "demo_member_document = [(''authentication'', JArr [demo_key ''#k'' ''Ed25519'']),
     (''keyAgreement'', JArr [demo_key ''#e'' ''X25519'']),
     (''service'', JArr [JObj [(''id'', JStr ''#s''), (''type'', JStr ''DIDCommMessaging''),
        (''serviceEndpoint'', JObj [(''uri'', JStr demo_mediator)])]])]"

definition demo_E :: did where "demo_E = demo_did CHR ''E''"

definition demo_grant :: json_object where
  "demo_grant = [(''account'', JStr demo_A), (''mediation_id'', JStr ''01234567-89ab-5def-8123-456789abcdef''),
     (''mediator'', JStr demo_mediator), (''replica_did'', JStr demo_E),
     (''replica_id'', JStr ''01234567-89ab-7def-8123-456789abcdef''), (''replica_long_form'', JStr (demo_long CHR ''E''))]"

definition demo_proof :: json_object where
  "demo_proof = [(''account'', JStr demo_A), (''aud'', JStr demo_mediator), (''recipient'', JStr demo_E)]"

definition demo_place :: "nat \<Rightarrow> json" where
  "demo_place k = JArr [JStr demo_A, JStr ''reg-1'', JNat 3, JNat k]"

definition demo_member_codec :: codec where
  "demo_member_codec = \<lparr>sha256 = (\<lambda>t. t), bs58_encode = (\<lambda>_. ''Qm'' @ replicate 44 CHR ''E''),
     bs58_decode = (\<lambda>_. Some (MULTICODEC_JSON @ ''doc'')),
     json_text = (\<lambda>j. if j = demo_place 1 then ''one'' else ''two''),
     json_of_text = (\<lambda>t. if t = ''grant'' then Some (JObj demo_grant) else if t = ''proof'' then Some (JObj demo_proof)
        else if t = ''one'' then Some (demo_place 1) else if t = ''two'' then Some (demo_place 2)
        else Some (JObj demo_member_document)),
     text_of_bytes = (\<lambda>t. t), canonicalize = (\<lambda>j. if j = JObj demo_grant then Some ''grant'' else Some ''proof'')\<rparr>"

definition demo_member_host :: host where
  "demo_member_host = demo_host\<lparr>host_codec := demo_member_codec,
     host_jws_header := (\<lambda>t. Some [(''alg'', JStr ''EdDSA''),
        (''kid'', JStr ((if t = ''g'' then demo_A else demo_E) @ ''#k'')),
        (''typ'', JStr (if t = ''g'' then GRANT_TYP else RECIPIENT_PROOF_TYP))]),
     host_import_jwk := (\<lambda>_ _. True), host_verify := (\<lambda>t _. if t = ''g'' then Some ''grant'' else Some ''proof''),
     host_base64_text := (\<lambda>t. if t = base64url ''one'' then ''one'' else ''two'')\<rparr>"

definition demo_account_doc :: DIDDoc where
  "demo_account_doc = \<lparr>doc_id = demo_A, doc_keyAgreement = [], doc_authentication = [demo_A @ ''#k''],
     doc_verificationMethod = [\<lparr>vm_id = demo_A @ ''#k'', vm_type = ''JsonWebKey2020'', vm_controller = demo_A,
       vm_publicKeyJwk = Some [(''kty'', JStr ''OKP''), (''crv'', JStr ''Ed25519''), (''x'', JStr ''AA'')],
       vm_publicKeyMultibase = None, vm_publicKeyBase58 = None\<rparr>], doc_service = []\<rparr>"

definition demo_member_context :: HandlerContext where
  "demo_member_context = (demo_context demo_A)\<lparr>ctx_host := demo_member_host, ctx_pinned := [demo_account_doc]\<rparr>"

definition demo_member_message :: "json_object \<Rightarrow> Unpacked" where
  "demo_member_message body = demo_message demo_A body"

lemma demo_grant_verifies:
  "verifyReplicaGrant demo_member_host (Some (JStr ''g'')) demo_account_doc =
     Some \<lparr>grant_account = demo_A, grant_mediator = demo_mediator, grant_replicaDid = demo_E, grant_replicaLongForm = demo_long CHR ''E''\<rparr>"
  by code_simp

lemma demo_proof_verifies:
  "Option.bind (resolveDIDCommDoc demo_member_codec (demo_long CHR ''E''))
     (verifyRecipientProof demo_member_host (Some (JStr ''p''))) =
   Some \<lparr>proof_account = Some demo_A, proof_mediator = Some demo_mediator\<rparr>"
  by code_simp

definition demo_enrolled :: replica_row where
  "demo_enrolled = \<lparr>replicas_did = demo_E, replicas_account_did = demo_A, replicas_ordinal = 4,
     replicas_long_form = demo_long CHR ''E'', replicas_grant_jws = ''g'', replicas_registered_at = 7,
     replicas_removed_at = None\<rparr>"

definition demo_addition :: ReplicaAddition where
  "demo_addition = \<lparr>add_accountDid = demo_A, add_mediator = demo_mediator, add_replicaDid = demo_E,
     add_replicaLongForm = demo_long CHR ''E'', add_grant = ''g'', add_maxReplicas = 3\<rparr>"

lemma demo_member_forms [simp]: "long_form_of (demo_did CHR ''E'') (demo_long CHR ''E'')" "canonicalDid (demo_did CHR ''A'') = demo_did CHR ''A''"
  by code_simp+

lemma demo_added:
  "replicas (w_store (snd (replicaAdd (demo_message demo_A [(''grant'', JStr ''g'')]) demo_member_context demo_world))) =
     replicas demo_db @ [demo_enrolled]"
proof -
  let ?m = "demo_message demo_A [(''grant'', JStr ''g'')]" and ?c = demo_member_context
  have control: "controlOf ?m ?c [''grant''] = Some \<lparr>ctl_sender = demo_A, ctl_addressed = demo_mediator,
      ctl_mediator = demo_mediator, ctl_body = [(''grant'', JStr ''g'')]\<rparr>" by code_simp
  have doc: "isPeerDID4 demo_A" "resolve_did ?c demo_A s = Some demo_account_doc" for s
    by (code_simp, simp add: resolve_did_def demo_member_context_def demo_account_doc_def)
  have own: "\<not> isMediatorOwnDid demo_E (ctx_dids ?c)" by code_simp
  have c: "ctx_sender ?c = Some demo_A" "ctx_host ?c = demo_member_host" "ctx_now ?c = 7000" "maxActiveReplicas (ctx_config ?c) = 3"
    by (simp_all add: demo_member_context_def demo_context_def demo_policy_def)
  have "long_form_of (add_replicaDid demo_addition) (add_replicaLongForm demo_addition)"
    by (simp add: demo_addition_def demo_E_def)
  from addReplica_run [OF demo_inv this] obtain outcome where
    run: "addReplica 7000 demo_addition demo_db = (Inr outcome, insert_replica 7000 demo_addition demo_db)" by blast
  have "w_store (snd (replicaAdd ?m ?c demo_world)) = insert_replica 7000 demo_addition demo_db"
    using run unfolding demo_addition_def
    by (cases outcome) (simp_all add: replicaAdd_def handler_simps c control doc field_def demo_grant_verifies own
        problem_def answer_def demo_world_def)
  then show ?thesis by (simp add: demo_addition_def demo_enrolled_def demo_E_def demo_simps)
qed

definition demo_shared :: recipient_row where
  "demo_shared = \<lparr>recipients_did = demo_E, recipients_account_did = demo_A,
     recipients_long_form = demo_long CHR ''E'', recipients_created_at = 7000\<rparr>"

definition demo_recipient_add :: json_object where
  "demo_recipient_add = [(''proof'', JStr ''p''), (''recipient_did'', JStr demo_E), (''resolution_material'', JStr (demo_long CHR ''E''))]"

definition demo_share :: SharedRecipient where
  "demo_share = \<lparr>share_accountDid = demo_A, share_mediator = demo_mediator, share_recipientDid = demo_E,
     share_recipientLongForm = demo_long CHR ''E'', share_maxRecipients = 5\<rparr>"

lemma demo_bound:
  "replica_recipients (w_store (snd (recipientAdd (demo_message demo_A demo_recipient_add) demo_member_context demo_world))) =
     replica_recipients demo_db @ [demo_shared]"
proof -
  let ?m = "demo_message demo_A demo_recipient_add" and ?c = demo_member_context
  have control: "controlOf ?m ?c [''proof'', ''recipient_did'', ''resolution_material''] =
      Some \<lparr>ctl_sender = demo_A, ctl_addressed = demo_mediator, ctl_mediator = demo_mediator, ctl_body = demo_recipient_add\<rparr>"
    by code_simp
  obtain doc where doc: "resolveDIDCommDoc demo_member_codec (demo_long CHR ''E'') = Some doc"
    "verifyRecipientProof demo_member_host (Some (JStr ''p'')) doc = Some \<lparr>proof_account = Some demo_A, proof_mediator = Some demo_mediator\<rparr>"
    using demo_proof_verifies by (auto simp: bind_eq_Some_conv)
  have "\<not> isLongForm demo_E" "isShortForm demo_E" "isLongForm (demo_long CHR ''E'')" "isDecodable (demo_long CHR ''E'')"
     "longToShort (demo_long CHR ''E'') = Some demo_E" by code_simp+
  then have found: "recipientDocument ?c demo_E (Some (demo_long CHR ''E'')) s = Some (demo_E, demo_long CHR ''E'', doc)" for s
    using doc(1) by (simp add: recipientDocument_def provenDid_def demo_member_context_def demo_member_host_def)
  have own: "\<not> isMediatorOwnDid demo_E (ctx_dids ?c)" by code_simp
  have c: "ctx_sender ?c = Some demo_A" "ctx_host ?c = demo_member_host" "ctx_now ?c = 7000" "maxSharedRecipients (ctx_config ?c) = 5"
    by (simp_all add: demo_member_context_def demo_context_def demo_policy_def)
  have "long_form_of (share_recipientDid demo_share) (share_recipientLongForm demo_share)"
    by (simp add: demo_share_def demo_E_def)
  from addSharedRecipient_run [OF demo_inv this] obtain outcome where
    run: "addSharedRecipient 7000 demo_share demo_db = (Inr outcome, insert_shared 7000 demo_share demo_db)" by blast
  have body: "field demo_recipient_add ''proof'' = Some (JStr ''p'')" "field demo_recipient_add ''recipient_did'' = Some (JStr demo_E)"
    "field demo_recipient_add ''resolution_material'' = Some (JStr (demo_long CHR ''E''))"
    by (simp_all add: demo_recipient_add_def field_def)
  have "w_store (snd (recipientAdd ?m ?c demo_world)) = insert_shared 7000 demo_share demo_db"
    using run unfolding demo_share_def
    by (cases outcome) (simp_all add: recipientAdd_def handler_simps c control doc found body own
        problem_def answer_def demo_world_def Let_def)
  then show ?thesis by (simp add: demo_share_def demo_shared_def demo_E_def demo_simps insert_shared_def)
qed

lemma demo_cursors: "cursors_read_back demo_member_host demo_A ''reg-1'' 3"
  by code_simp

section \<open>Instances\<close>

lemma demo_member_context_host: "ctx_host demo_member_context = demo_member_host"
  by (simp add: demo_member_context_def)

theorem enrolled_by_grant_witness:
  "\<exists>payload. signed_by demo_member_host (Some (JStr ''g'')) GRANT_TYP demo_account_doc payload \<and>
     field payload ''replica_did'' = Some (JStr demo_E)"
proof -
  have "db_inv (w_store demo_world)" "ctx_sender demo_member_context = Some demo_A"
    "demo_enrolled \<in> set (replicas (w_store (snd (replicaAdd (demo_message demo_A [(''grant'', JStr ''g'')]) demo_member_context demo_world))))"
    using demo_inv unfolding demo_added by (simp_all add: demo_world_def demo_member_context_def demo_context_def)
  moreover have "demo_enrolled \<notin> set (replicas (w_store demo_world))"
    by (simp add: demo_world_def demo_enrolled_def demo_E_def demo_simps)
  ultimately have "\<exists>doc payload. resolve_did demo_member_context demo_A (w_store demo_world) = Some doc \<and>
      signed_by (ctx_host demo_member_context) (Some (JStr (replicas_grant_jws demo_enrolled))) GRANT_TYP doc payload \<and>
      field payload ''replica_did'' = Some (JStr (replicas_did demo_enrolled))"
    using enrolled_by_grant [of demo_world demo_member_context demo_A demo_enrolled "demo_message demo_A [(''grant'', JStr ''g'')]"] by blast
  moreover have "resolve_did demo_member_context demo_A s = Some demo_account_doc" for s
    by (simp add: resolve_did_def demo_member_context_def demo_account_doc_def)
  ultimately show ?thesis by (simp add: demo_member_context_def demo_enrolled_def)
qed

theorem bound_by_proof_witness:
  "\<exists>doc payload. signed_by demo_member_host (Some (JStr ''p'')) RECIPIENT_PROOF_TYP doc payload \<and>
     resolveDIDCommDoc demo_member_codec (demo_long CHR ''E'') = Some doc"
proof -
  have "db_inv (w_store demo_world)" "ctx_sender demo_member_context = Some demo_A"
    "demo_shared \<in> set (replica_recipients (w_store (snd (recipientAdd (demo_message demo_A demo_recipient_add) demo_member_context demo_world))))"
    using demo_inv unfolding demo_bound by (simp_all add: demo_world_def demo_member_context_def demo_context_def)
  moreover have "demo_shared \<notin> set (replica_recipients (w_store demo_world))"
    by (simp add: demo_world_def demo_shared_def demo_E_def demo_simps)
  ultimately have "\<exists>doc payload. resolveDIDCommDoc (host_codec (ctx_host demo_member_context)) (recipients_long_form demo_shared) = Some doc \<and>
      signed_by (ctx_host demo_member_context) (field (in_body (demo_message demo_A demo_recipient_add)) ''proof'') RECIPIENT_PROOF_TYP doc payload"
    using bound_by_proof [of demo_world demo_member_context demo_A demo_shared "demo_message demo_A demo_recipient_add"] by blast
  then show ?thesis
    by (auto simp: demo_member_context_def demo_member_host_def demo_shared_def demo_message_def demo_recipient_add_def field_def)
qed

theorem controls_settle_witness:
  "\<exists>reply s'. accountDelete (demo_message demo_A []) demo_member_context demo_world = (Inr (Some reply), demo_world\<lparr>w_store := s'\<rparr>) \<and> db_inv s'"
proof -
  have "(replica_type ''account-delete'', accountDelete) \<in> set REPLICA_CONTROLS" by (simp add: REPLICA_CONTROLS_def)
  moreover have "db_inv (w_store demo_world)" "ctx_sender demo_member_context = Some demo_A"
    "ctx_uuid demo_member_context \<notin> executions_registration_id ` set (replica_executions (w_store demo_world))"
    "1 \<le> maxExecutionRegistrations (ctx_config demo_member_context)"
    using demo_inv by (simp_all add: demo_world_def demo_member_context_def demo_context_def demo_policy_def demo_db_def)
  ultimately show ?thesis using controls_settle by blast
qed

theorem replica_listing_complete_witness:
  "\<exists>entries. follow_replicas (demo_message demo_A []) demo_member_context 2 JNull [demo_db, demo_db] = Some entries \<and>
     map granted entries = [Some (JStr ''B''), Some (JStr ''C''), Some (JStr ''D'')]"
proof -
  have "may_list (demo_message demo_A []) demo_member_context 2 demo_A demo_mediator"
  proof -
    have "controlOf (list_request (demo_message demo_A []) 2 JNull) demo_member_context [''cursor'', ''limit''] =
      Some \<lparr>ctl_sender = demo_A, ctl_addressed = demo_mediator, ctl_mediator = demo_mediator,
        ctl_body = [(''cursor'', JNull), (''limit'', JNat 2)]\<rparr>" by code_simp
    then show ?thesis
      by (simp add: may_list_def demo_member_context_def demo_context_def demo_policy_def max_safe_def)
  qed
  moreover have "listing_state demo_A demo_mediator ''reg-1'' demo_db demo_db"
    using demo_inv by (simp add: listing_state_def account_bound_to_def demo_db_def)
  moreover have rows: "replicas_of demo_A demo_db = [demo_row CHR ''B'' 1 3 None, demo_row CHR ''C'' 2 4 None, demo_row CHR ''D'' 3 5 (Some 6)]"
    by (simp add: demo_simps)
  ultimately show ?thesis
    using replica_listing_complete [of "demo_message demo_A []" demo_member_context 2 demo_A demo_mediator "''reg-1''" demo_db "[demo_db]"] demo_cursors
    by (simp add: demo_row_def demo_member_context_host numeral_3_eq_3 del: follow_replicas.simps)
qed

end
