(* ===== verification/Remembered.thy ===== *)
theory Remembered
  imports Results
begin

text \<open>
  \<open>remembered\<close> of \<^verbatim>\<open>packages/did-peer/src/remembered.ts\<close>: a pure function of a
  string that keeps the outcomes of the inputs it saw last. The kept outcomes
  are a \<open>Map\<close>, its entries in the order they were first kept; the oldest is
  forgotten when there is no room. \<open>ask_remembered\<close> is one call. \<open>compute\<close> may
  throw, and a throw that \<open>refused\<close> recognizes is kept too.
\<close>

definition DEFAULT_LIMIT :: nat where
  "DEFAULT_LIMIT = 4096"

type_synonym ('e, 'r) outcomes = "(string \<times> ('e + 'r)) list"

definition map_set :: "(string \<times> 'v) list \<Rightarrow> string \<Rightarrow> 'v \<Rightarrow> (string \<times> 'v) list" where
  "map_set m k v = (if k \<in> fst ` set m then map (\<lambda>(k', w). (k', if k' = k then v else w)) m else m @ [(k, v)])"

lemma map_of_map_set: "map_of (map_set m k v) = (map_of m)(k \<mapsto> v)"
proof (cases "k \<in> fst ` set m")
  case True
  have "map_of (map (\<lambda>(k', w). (k', if k' = k then v else w)) m) = (\<lambda>k'. if k' = k then map_option (\<lambda>_. v) (map_of m k') else map_of m k')"
    by (induction m) auto
  moreover have "map_of m k \<noteq> None" using True by (simp add: map_of_eq_None_iff)
  ultimately show ?thesis using True by (auto simp: map_set_def fun_eq_iff)
next
  case False
  then have "map_of (m @ [(k, v)]) = (map_of m)(k \<mapsto> v)" by (induction m) auto
  then show ?thesis using False by (simp add: map_set_def)
qed

lemma map_of_without: "map_of (filter (\<lambda>e. fst e \<noteq> k) m) = (map_of m)(k := None)"
  by (induction m) auto

definition keep :: "nat \<Rightarrow> string \<Rightarrow> 'e + 'r \<Rightarrow> ('e, 'r) outcomes \<Rightarrow> ('e, 'r) outcomes" where
  "keep limit input outcome outcomes =
     map_set (if limit \<le> length outcomes then tl outcomes else outcomes) input outcome"

definition ask_remembered ::
    "(string \<Rightarrow> 'e + 'r) \<Rightarrow> ('e \<Rightarrow> bool) \<Rightarrow> nat \<Rightarrow> string \<Rightarrow> ('e, 'r) outcomes \<Rightarrow> ('e + 'r) \<times> ('e, 'r) outcomes" where
  "ask_remembered compute refused limit input outcomes =
     (case map_of outcomes input of
        Some known \<Rightarrow> (known, outcomes)
      | None \<Rightarrow>
          (case compute input of
             Inl err \<Rightarrow> (Inl err, if refused err then keep limit input (Inl err) outcomes else outcomes)
           | Inr result \<Rightarrow> (Inr result, keep limit input (Inr result) outcomes)))"

text \<open>A run of calls, with the answers given.\<close>

fun ask_each ::
    "(string \<Rightarrow> 'e + 'r) \<Rightarrow> ('e \<Rightarrow> bool) \<Rightarrow> nat \<Rightarrow> string list \<Rightarrow> ('e, 'r) outcomes \<Rightarrow> ('e + 'r) list \<times> ('e, 'r) outcomes" where
  "ask_each compute refused limit [] outcomes = ([], outcomes)"
| "ask_each compute refused limit (i # is) outcomes =
     (let (r, o1) = ask_remembered compute refused limit i outcomes;
          (rs, o2) = ask_each compute refused limit is o1 in (r # rs, o2))"

definition remembers :: "(string \<Rightarrow> 'e + 'r) \<Rightarrow> nat \<Rightarrow> ('e, 'r) outcomes \<Rightarrow> bool" where
  "remembers compute limit outcomes \<longleftrightarrow> distinct (map fst outcomes) \<and> length outcomes \<le> limit \<and>
     (\<forall>(i, r) \<in> set outcomes. r = compute i)"

lemma keep_remembers:
  assumes "remembers compute limit outcomes" and "map_of outcomes i = None" and "0 < limit"
  shows "remembers compute limit (keep limit i (compute i) outcomes)"
proof -
  let ?o = "if limit \<le> length outcomes then tl outcomes else outcomes"
  have "i \<notin> fst ` set outcomes" using assms(2) by (simp add: map_of_eq_None_iff)
  then have i: "i \<notin> fst ` set ?o" by (cases outcomes) auto
  have "remembers compute limit ?o" "length ?o < limit"
    using assms(1,3) by (cases outcomes; auto simp: remembers_def)+
  with i show ?thesis by (auto simp: keep_def map_set_def remembers_def)
qed

lemma ask_remembered_correct:
  assumes "remembers compute limit outcomes" and "0 < limit"
  shows "fst (ask_remembered compute refused limit i outcomes) = compute i"
    and "remembers compute limit (snd (ask_remembered compute refused limit i outcomes))"
proof -
  have "fst (ask_remembered compute refused limit i outcomes) = compute i \<and>
      remembers compute limit (snd (ask_remembered compute refused limit i outcomes))"
  proof (cases "map_of outcomes i")
    case None
    from keep_remembers [OF assms(1) None assms(2)] assms(1) None show ?thesis
      by (cases "compute i") (auto simp: ask_remembered_def)
  next
    case (Some known)
    then show ?thesis using assms(1) map_of_SomeD [OF Some] by (auto simp: ask_remembered_def remembers_def)
  qed
  then show "fst (ask_remembered compute refused limit i outcomes) = compute i"
    and "remembers compute limit (snd (ask_remembered compute refused limit i outcomes))" by blast+
qed

text \<open>
  Remembering changes nothing but the cost: over any run of calls, from nothing
  remembered, every answer and every throw is what the function itself gives
  for that input, and no more outcomes are kept than the limit, each input once.
\<close>

theorem remembered_is_compute:
  assumes "0 < limit"
  shows "fst (ask_each compute refused limit inputs []) = map compute inputs \<and>
     length (snd (ask_each compute refused limit inputs [])) \<le> limit \<and>
     distinct (map fst (snd (ask_each compute refused limit inputs [])))"
proof -
  have "fst (ask_each compute refused limit inputs kept) = map compute inputs \<and>
      remembers compute limit (snd (ask_each compute refused limit inputs kept))"
    if "remembers compute limit kept" for kept
    using that
  proof (induction inputs arbitrary: kept)
    case (Cons i "is")
    from ask_remembered_correct [OF Cons.prems assms, of refused i] show ?case
      using Cons.IH [of "snd (ask_remembered compute refused limit i kept)"] by (simp add: split_beta Let_def)
  qed simp
  from this [of "[]"] show ?thesis by (simp add: remembers_def)
qed

theorem remembered_is_compute_witness:
  "fst (ask_each (\<lambda>t. if t = '''' then Inl () else Inr (length t)) (\<lambda>_. True) 2 [''a'', ''bc'', '''', ''a'', ''a''] []) =
     [Inr 1, Inr 2, Inl (), Inr 1, Inr 1]"
proof -
  have "0 < (2 :: nat)" by simp
  from remembered_is_compute [OF this, of "\<lambda>t. if t = '''' then Inl () else Inr (length t)" "\<lambda>_. True"
      "[''a'', ''bc'', '''', ''a'', ''a'']"] show ?thesis by simp
qed

end
