(* ===== verification/Mediator_Sessions.thy ===== *)
theory Mediator_Sessions
  imports Mediator_Context Remembered
begin

text \<open>
  The open connections, \<^verbatim>\<open>mediator/src/transport/sessions.ts\<close>: which DID each has
  proven, the index by DID that live delivery reads, and what a host whose
  sockets outlive it keeps beside each one. A session is named by its place in
  the order sessions were opened; the index is a \<open>Map\<close> of \<open>Set\<close>s, both in
  insertion order. The last section is the step relation of a registry.
\<close>

definition indexed :: "did \<Rightarrow> did" where
  "indexed did = (case longToShort did of Some short \<Rightarrow> short | None \<Rightarrow> did)"

text \<open>
  A session over its socket: \<open>ls_saves\<close> is whether the socket has a \<open>save\<close>, \<open>ls_saved\<close>
  what is kept beside it, \<open>ls_sent\<close> what was pushed to its client.
\<close>

record LiveSession =
  ls_state :: Session
  ls_closed :: bool
  ls_saves :: bool
  ls_saved :: "Session option"
  ls_sent :: "string list"

record Sessions =
  reg_sessions :: "LiveSession list"
  byDid :: "(did \<times> nat list) list"

definition update_session :: "nat \<Rightarrow> (LiveSession \<Rightarrow> LiveSession) \<Rightarrow> Sessions \<Rightarrow> Sessions" where
  "update_session i f r = r\<lparr>reg_sessions := (reg_sessions r)[i := f (reg_sessions r ! i)]\<rparr>"

definition save_session :: "LiveSession \<Rightarrow> LiveSession" where
  "save_session s = (if \<not> ls_closed s \<and> ls_saves s then s\<lparr>ls_saved := Some (ls_state s)\<rparr> else s)"

definition members_of :: "did \<Rightarrow> (did \<times> nat list) list \<Rightarrow> nat list" where
  "members_of key index = (case map_of index key of None \<Rightarrow> [] | Some ids \<Rightarrow> ids)"

definition set_add :: "nat \<Rightarrow> nat list \<Rightarrow> nat list" where
  "set_add i ids = (if i \<in> set ids then ids else ids @ [i])"

definition join_session :: "nat \<Rightarrow> did \<Rightarrow> Sessions \<Rightarrow> Sessions" where
  "join_session i did r =
     (let r' = update_session i (\<lambda>s. s\<lparr>ls_state := (ls_state s)\<lparr>session_did := Some did\<rparr>\<rparr>) r;
          key = indexed did in
      r'\<lparr>byDid := map_set (byDid r') key (set_add i (members_of key (byDid r')))\<rparr>)"

definition open_session :: "bool \<Rightarrow> Session option \<Rightarrow> Sessions \<Rightarrow> Sessions" where
  "open_session saves saved r =
     (let fresh = \<lparr>ls_state = \<lparr>session_did = None, liveDelivery = False, returnRoute = False\<rparr>, ls_closed = False,
            ls_saves = saves, ls_saved = saved, ls_sent = []\<rparr>;
          i = length (reg_sessions r) in
      case saved of
        None \<Rightarrow> r\<lparr>reg_sessions := reg_sessions r @ [save_session fresh]\<rparr>
      | Some st \<Rightarrow>
          let r' = r\<lparr>reg_sessions := reg_sessions r @
                [fresh\<lparr>ls_state := (ls_state fresh)\<lparr>liveDelivery := liveDelivery st, returnRoute := returnRoute st\<rparr>\<rparr>]\<rparr> in
          case session_did st of None \<Rightarrow> r' | Some did \<Rightarrow> join_session i did r')"

definition set_liveDelivery :: "nat \<Rightarrow> bool \<Rightarrow> Sessions \<Rightarrow> Sessions" where
  "set_liveDelivery i v = update_session i (\<lambda>s. save_session (s\<lparr>ls_state := (ls_state s)\<lparr>liveDelivery := v\<rparr>\<rparr>))"

definition set_returnRoute :: "nat \<Rightarrow> bool \<Rightarrow> Sessions \<Rightarrow> Sessions" where
  "set_returnRoute i v = update_session i (\<lambda>s. save_session (s\<lparr>ls_state := (ls_state s)\<lparr>returnRoute := v\<rparr>\<rparr>))"

definition bindFirst :: "nat \<Rightarrow> did \<Rightarrow> Sessions \<Rightarrow> Sessions" where
  "bindFirst i did r =
     (if session_did (ls_state (reg_sessions r ! i)) \<noteq> None \<or> ls_closed (reg_sessions r ! i) then r
      else update_session i save_session (join_session i did r))"

definition close_session :: "nat \<Rightarrow> Sessions \<Rightarrow> Sessions" where
  "close_session i r =
     (if ls_closed (reg_sessions r ! i) then r
      else let r' = update_session i (\<lambda>s. s\<lparr>ls_closed := True\<rparr>) r in
        case session_did (ls_state (reg_sessions r ! i)) of
          None \<Rightarrow> r'
        | Some did \<Rightarrow>
            let key = indexed did in
            (case map_of (byDid r') key of
               None \<Rightarrow> r'
             | Some ids \<Rightarrow>
                 let left = filter (\<lambda>j. j \<noteq> i) ids in
                 if left = [] then r'\<lparr>byDid := filter (\<lambda>e. fst e \<noteq> key) (byDid r')\<rparr>
                 else r'\<lparr>byDid := map_set (byDid r') key left\<rparr>))"

definition liveSessionsFor :: "did \<Rightarrow> Sessions \<Rightarrow> nat list" where
  "liveSessionsFor did r = filter (\<lambda>i. liveDelivery (ls_state (reg_sessions r ! i))) (members_of (indexed did) (byDid r))"

definition wantsPush :: "did \<Rightarrow> Sessions \<Rightarrow> bool" where
  "wantsPush ownerDid r = (liveSessionsFor ownerDid r \<noteq> [])"

definition push_delivery :: "did \<Rightarrow> string \<Rightarrow> Sessions \<Rightarrow> Sessions" where
  "push_delivery ownerDid packed r =
     fold (\<lambda>i. update_session i (\<lambda>s. s\<lparr>ls_sent := ls_sent s @ [packed]\<rparr>)) (liveSessionsFor ownerDid r) r"

section \<open>What the index holds\<close>

text \<open>A session belongs to a key while it is open and has proven a DID indexed there.\<close>

definition belongs :: "did \<Rightarrow> LiveSession \<Rightarrow> bool" where
  "belongs key s \<longleftrightarrow> \<not> ls_closed s \<and> map_option indexed (session_did (ls_state s)) = Some key"

definition index_ok :: "Sessions \<Rightarrow> bool" where
  "index_ok r \<longleftrightarrow> (\<forall>key. map_of (byDid r) key \<noteq> Some [] \<and> distinct (members_of key (byDid r)) \<and>
     set (members_of key (byDid r)) = {i. i < length (reg_sessions r) \<and> belongs key (reg_sessions r ! i)})"

lemma index_okD:
  assumes "index_ok r"
  shows "map_of (byDid r) key \<noteq> Some []" "distinct (members_of key (byDid r))"
    "i \<in> set (members_of key (byDid r)) \<longleftrightarrow> i < length (reg_sessions r) \<and> belongs key (reg_sessions r ! i)"
  using assms by (auto simp: index_ok_def)

lemma index_okI:
  assumes "\<And>key. map_of (byDid r) key \<noteq> Some []" and "\<And>key. distinct (members_of key (byDid r))"
    and "\<And>key i. i \<in> set (members_of key (byDid r)) \<longleftrightarrow> i < length (reg_sessions r) \<and> belongs key (reg_sessions r ! i)"
  shows "index_ok r"
  using assms by (auto simp: index_ok_def)

lemma members_of_upd [simp]:
  "members_of key (map_set m k ids) = (if key = k then ids else members_of key m)"
  "members_of key (filter (\<lambda>e. fst e \<noteq> k) m) = (if key = k then [] else members_of key m)"
  by (simp_all add: members_of_def map_of_map_set map_of_without)

lemma update_session_simps [simp]:
  "byDid (update_session i f r) = byDid r" "length (reg_sessions (update_session i f r)) = length (reg_sessions r)"
  by (simp_all add: update_session_def)

lemma update_session_nth [simp]:
  "j < length (reg_sessions r) \<Longrightarrow> reg_sessions (update_session i f r) ! j =
     (if j = i then f (reg_sessions r ! i) else reg_sessions r ! j)"
  by (simp add: update_session_def nth_list_update)

text \<open>A change that moves no session to another key leaves the index right.\<close>

lemma index_ok_update:
  assumes "index_ok r" and "\<And>key. belongs key (f (reg_sessions r ! i)) = belongs key (reg_sessions r ! i)"
  shows "index_ok (update_session i f r)"
  using index_okD [OF assms(1)] assms(2) by (intro index_okI) (auto split: if_splits)

lemma index_ok_join:
  assumes "index_ok r" and "i < length (reg_sessions r)"
    and "session_did (ls_state (reg_sessions r ! i)) = None" and "\<not> ls_closed (reg_sessions r ! i)"
  shows "index_ok (join_session i did r)"
proof (rule index_okI)
  have not: "i \<notin> set (members_of key (byDid r))" for key
    using index_okD(3) [OF assms(1)] assms(3) by (simp add: belongs_def)
  let ?r = "join_session i did r"
  have idx: "byDid ?r = map_set (byDid r) (indexed did) (members_of (indexed did) (byDid r) @ [i])"
    using not by (simp add: join_session_def Let_def set_add_def)
  fix key
  show "map_of (byDid ?r) key \<noteq> Some []" using index_okD(1) [OF assms(1)] by (simp add: idx map_of_map_set)
  show "distinct (members_of key (byDid ?r))" using index_okD(2) [OF assms(1)] not by (simp add: idx)
  fix j
  show "j \<in> set (members_of key (byDid ?r)) \<longleftrightarrow> j < length (reg_sessions ?r) \<and> belongs key (reg_sessions ?r ! j)"
    unfolding idx using index_okD(3) [OF assms(1), of j] not assms(2-4)
    by (auto simp: join_session_def Let_def belongs_def split: if_splits)
qed

lemma index_ok_close:
  assumes "index_ok r" and "i < length (reg_sessions r)"
  shows "index_ok (close_session i r)"
proof (cases "ls_closed (reg_sessions r ! i)")
  case alive: False
  let ?r = "close_session i r"
  have rows: "length (reg_sessions ?r) = length (reg_sessions r)"
    "j < length (reg_sessions r) \<Longrightarrow> reg_sessions ?r ! j = (if j = i then (reg_sessions r ! i)\<lparr>ls_closed := True\<rparr> else reg_sessions r ! j)" for j
    using alive by (simp_all add: close_session_def Let_def split: option.split)
  have idx: "members_of key (byDid ?r) = filter (\<lambda>j. j \<noteq> i) (members_of key (byDid r))" for key
  proof (cases "session_did (ls_state (reg_sessions r ! i))")
    case None
    then have "i \<notin> set (members_of key (byDid r))" using index_okD(3) [OF assms(1)] by (simp add: belongs_def)
    then have "filter (\<lambda>j. j \<noteq> i) (members_of key (byDid r)) = members_of key (byDid r)" by (intro filter_True) auto
    then show ?thesis using None alive by (simp add: close_session_def Let_def)
  next
    case (Some did)
    then have "i \<notin> set (members_of key (byDid r))" if "key \<noteq> indexed did"
      using index_okD(3) [OF assms(1)] that by (simp add: belongs_def)
    then have "filter (\<lambda>j. j \<noteq> i) (members_of key (byDid r)) = members_of key (byDid r)" if "key \<noteq> indexed did"
      using that by (intro filter_True) auto
    then show ?thesis using Some alive
      by (cases "map_of (byDid r) (indexed did)"; cases "key = indexed did") (auto simp: close_session_def Let_def members_of_def [of "indexed did" "byDid r"])
  qed
  have "map_of (byDid ?r) key \<noteq> Some []" for key
    using alive index_okD(1) [OF assms(1)] by (auto simp: close_session_def Let_def map_of_map_set map_of_without split: option.split)
  then show ?thesis
    using index_okD [OF assms(1)] rows by (intro index_okI) (auto simp: idx belongs_def split: if_splits)
qed (use assms in \<open>simp add: close_session_def\<close>)

lemma index_ok_append:
  assumes "index_ok r" and "session_did (ls_state s) = None"
  shows "index_ok (r\<lparr>reg_sessions := reg_sessions r @ [s]\<rparr>)"
  using index_okD [OF assms(1)] assms(2) by (intro index_okI) (auto simp: nth_append belongs_def)

lemma index_ok_open:
  assumes "index_ok r"
  shows "index_ok (open_session saves saved r)"
  using assms index_ok_append [OF assms]
  by (auto simp: open_session_def Let_def save_session_def split: option.split intro!: index_ok_join)

lemma belongs_save [simp]: "belongs key (save_session s) = belongs key s"
  by (simp add: belongs_def save_session_def)

lemma index_ok_bind:
  assumes "index_ok r" and "i < length (reg_sessions r)"
  shows "index_ok (bindFirst i did r)"
  using index_ok_join [OF assms] assms(1) by (auto simp: bindFirst_def intro: index_ok_update)

section \<open>What a push reaches\<close>

lemma fold_update:
  assumes "distinct ids" and "j < length (reg_sessions r)"
  shows "byDid (fold (\<lambda>i. update_session i f) ids r) = byDid r \<and>
     length (reg_sessions (fold (\<lambda>i. update_session i f) ids r)) = length (reg_sessions r) \<and>
     reg_sessions (fold (\<lambda>i. update_session i f) ids r) ! j = (if j \<in> set ids then f (reg_sessions r ! j) else reg_sessions r ! j)"
  using assms by (induction ids arbitrary: r) auto

lemma fold_update_index:
  "byDid (fold (\<lambda>i. update_session i f) ids r) = byDid r \<and>
     length (reg_sessions (fold (\<lambda>i. update_session i f) ids r)) = length (reg_sessions r)"
  by (induction ids arbitrary: r) auto

lemma liveSessionsFor_iff:
  assumes "index_ok r"
  shows "i \<in> set (liveSessionsFor did r) \<longleftrightarrow> i < length (reg_sessions r) \<and> \<not> ls_closed (reg_sessions r ! i) \<and>
     liveDelivery (ls_state (reg_sessions r ! i)) \<and>
     map_option indexed (session_did (ls_state (reg_sessions r ! i))) = Some (indexed did)"
    and "distinct (liveSessionsFor did r)"
  using index_okD(3) [OF assms, of i "indexed did"] index_okD(2) [OF assms, of "indexed did"]
  by (auto simp: liveSessionsFor_def belongs_def)

lemma push_nth:
  assumes "index_ok r" and "j < length (reg_sessions r)"
  shows "reg_sessions (push_delivery did packed r) ! j = (if j \<in> set (liveSessionsFor did r)
     then (reg_sessions r ! j)\<lparr>ls_sent := ls_sent (reg_sessions r ! j) @ [packed]\<rparr> else reg_sessions r ! j)"
  using fold_update [OF liveSessionsFor_iff(2) [OF assms(1)] assms(2)] by (simp add: push_delivery_def)

lemma push_simps [simp]:
  "byDid (push_delivery did packed r) = byDid r" "length (reg_sessions (push_delivery did packed r)) = length (reg_sessions r)"
  by (simp_all add: push_delivery_def fold_update_index)

lemma index_ok_push:
  assumes "index_ok r"
  shows "index_ok (push_delivery did packed r)"
proof -
  have "belongs key (reg_sessions (push_delivery did packed r) ! j) = belongs key (reg_sessions r ! j)"
    if "j < length (reg_sessions r)" for key j
    using that by (simp add: push_nth [OF assms] belongs_def)
  then show ?thesis using index_okD [OF assms] by (intro index_okI) auto
qed

section \<open>Runs of a registry\<close>

inductive session_step :: "Sessions \<Rightarrow> Sessions \<Rightarrow> bool" where
  opened: "session_step r (open_session saves saved r)"
| live: "i < length (reg_sessions r) \<Longrightarrow> session_step r (set_liveDelivery i v r)"
| route: "i < length (reg_sessions r) \<Longrightarrow> session_step r (set_returnRoute i v r)"
| bound: "i < length (reg_sessions r) \<Longrightarrow> session_step r (bindFirst i did r)"
| closed: "i < length (reg_sessions r) \<Longrightarrow> session_step r (close_session i r)"
| pushed: "session_step r (push_delivery did packed r)"

definition no_sessions :: Sessions where
  "no_sessions = \<lparr>reg_sessions = [], byDid = []\<rparr>"

definition registry_reachable :: "Sessions \<Rightarrow> bool" where
  "registry_reachable r \<longleftrightarrow> session_step^** no_sessions r"

lemma reachable_step: "registry_reachable r \<Longrightarrow> session_step r r' \<Longrightarrow> registry_reachable r'"
  unfolding registry_reachable_def by (rule rtranclp.rtrancl_into_rtrancl)

lemma index_ok_step: "session_step r r' \<Longrightarrow> index_ok r \<Longrightarrow> index_ok r'"
proof (induction rule: session_step.induct)
  case (live i r v)
  have "belongs key (s\<lparr>ls_state := (ls_state s)\<lparr>liveDelivery := v\<rparr>\<rparr>) = belongs key s" for key s by (simp add: belongs_def)
  then show ?case unfolding set_liveDelivery_def using live by (intro index_ok_update) simp_all
next
  case (route i r v)
  have "belongs key (s\<lparr>ls_state := (ls_state s)\<lparr>returnRoute := v\<rparr>\<rparr>) = belongs key s" for key s by (simp add: belongs_def)
  then show ?case unfolding set_returnRoute_def using route by (intro index_ok_update) simp_all
qed (simp_all add: index_ok_open index_ok_bind index_ok_close index_ok_push)

lemma index_ok_empty: "index_ok no_sessions"
  by (simp add: no_sessions_def index_ok_def members_of_def)

lemma reachable_index: "registry_reachable r \<Longrightarrow> index_ok r"
  unfolding registry_reachable_def by (induction rule: rtranclp_induct) (auto intro: index_ok_empty index_ok_step)

text \<open>
  C31: Live delivery reaches its owner's connections and no other: in every
  registry a run of the mediator's transport reaches, the sessions a push to a DID
  goes to are, each once, exactly the open ones that turned live delivery on and have
  proven that DID, in whichever spelling.
\<close>

theorem push_reaches_own:
  assumes "registry_reachable r"
  shows "distinct (liveSessionsFor owner r) \<and>
     (i \<in> set (liveSessionsFor owner r) \<longleftrightarrow> i < length (reg_sessions r) \<and> \<not> ls_closed (reg_sessions r ! i) \<and>
        liveDelivery (ls_state (reg_sessions r ! i)) \<and>
        map_option canonicalDid (session_did (ls_state (reg_sessions r ! i))) = Some (canonicalDid owner))"
proof -
  have "indexed = canonicalDid" by (simp add: fun_eq_iff indexed_def canonicalDid_def)
  then show ?thesis
    using liveSessionsFor_iff(1) [OF reachable_index [OF assms], of i owner] liveSessionsFor_iff(2) [OF reachable_index [OF assms]]
    by simp
qed

section \<open>What a session keeps\<close>

text \<open>A session later: the DID it proved is the DID it has, and once closed it changes and is sent nothing.\<close>

definition later_session :: "LiveSession \<Rightarrow> LiveSession \<Rightarrow> bool" where
  "later_session s s' \<longleftrightarrow>
     (\<forall>d. session_did (ls_state s) = Some d \<longrightarrow> session_did (ls_state s') = Some d) \<and>
     (ls_closed s \<longrightarrow> ls_closed s' \<and> session_did (ls_state s') = session_did (ls_state s) \<and>
        ls_saved s' = ls_saved s \<and> ls_sent s' = ls_sent s)"

lemma later_session_refl [simp]: "later_session s s"
  by (simp add: later_session_def)

lemma later_session_trans: "later_session s s' \<Longrightarrow> later_session s' s'' \<Longrightarrow> later_session s s''"
  by (auto simp: later_session_def)

lemma join_session_simps [simp]:
  "length (reg_sessions (join_session i did r)) = length (reg_sessions r)"
  "j < length (reg_sessions r) \<Longrightarrow> reg_sessions (join_session i did r) ! j = (if j = i
     then (reg_sessions r ! i)\<lparr>ls_state := (ls_state (reg_sessions r ! i))\<lparr>session_did := Some did\<rparr>\<rparr> else reg_sessions r ! j)"
  by (simp_all add: join_session_def Let_def)

lemma open_session_simps [simp]:
  "length (reg_sessions (open_session saves saved r)) = Suc (length (reg_sessions r))"
  "j < length (reg_sessions r) \<Longrightarrow> reg_sessions (open_session saves saved r) ! j = reg_sessions r ! j"
  by (auto simp: open_session_def Let_def nth_append split: option.split)

lemma close_session_simps [simp]:
  "length (reg_sessions (close_session i r)) = length (reg_sessions r)"
  "j < length (reg_sessions r) \<Longrightarrow> reg_sessions (close_session i r) ! j =
     (if j = i \<and> \<not> ls_closed (reg_sessions r ! i) then (reg_sessions r ! i)\<lparr>ls_closed := True\<rparr> else reg_sessions r ! j)"
  by (simp_all add: close_session_def Let_def split: option.split)

lemma bindFirst_simps [simp]:
  "length (reg_sessions (bindFirst i did r)) = length (reg_sessions r)"
  "j < length (reg_sessions r) \<Longrightarrow> reg_sessions (bindFirst i did r) ! j =
     (if j = i \<and> session_did (ls_state (reg_sessions r ! i)) = None \<and> \<not> ls_closed (reg_sessions r ! i)
      then save_session ((reg_sessions r ! i)\<lparr>ls_state := (ls_state (reg_sessions r ! i))\<lparr>session_did := Some did\<rparr>\<rparr>)
      else reg_sessions r ! j)"
  by (auto simp: bindFirst_def)

lemma step_later:
  assumes "session_step r r'" and "index_ok r" and "j < length (reg_sessions r)"
  shows "j < length (reg_sessions r') \<and> later_session (reg_sessions r ! j) (reg_sessions r' ! j)"
  using assms
proof (induction rule: session_step.induct)
  case (pushed r did packed)
  then show ?case using liveSessionsFor_iff(1) [OF pushed(1), of j did] by (simp add: push_nth later_session_def)
qed (auto simp: set_liveDelivery_def set_returnRoute_def save_session_def later_session_def)

lemma run_later:
  assumes "session_step^** r r'" and "index_ok r" and "j < length (reg_sessions r)"
  shows "index_ok r' \<and> j < length (reg_sessions r') \<and> later_session (reg_sessions r ! j) (reg_sessions r' ! j)"
  using assms(1)
proof (induction rule: rtranclp_induct)
  case (step r' r'')
  then show ?case using step_later [OF step(2)] index_ok_step [OF step(2)] by (blast intro: later_session_trans)
qed (use assms in simp)

text \<open>
  A connection is bound once: whatever envelopes arrive on it, whatever other
  connections do, and even when a proof completes after the socket has closed, the DID a
  session has proven stays the one it has, and a closed session is never bound and never pushed to.
\<close>

theorem session_bound_once:
  assumes "registry_reachable r" and "session_step^** r r'" and "i < length (reg_sessions r)"
  shows "i < length (reg_sessions r') \<and>
     (\<forall>d. session_did (ls_state (reg_sessions r ! i)) = Some d \<longrightarrow> session_did (ls_state (reg_sessions r' ! i)) = Some d) \<and>
     (ls_closed (reg_sessions r ! i) \<longrightarrow> ls_closed (reg_sessions r' ! i) \<and>
        session_did (ls_state (reg_sessions r' ! i)) = session_did (ls_state (reg_sessions r ! i)) \<and>
        ls_sent (reg_sessions r' ! i) = ls_sent (reg_sessions r ! i))"
  using run_later [OF assms(2) reachable_index [OF assms(1)] assms(3)] by (simp add: later_session_def)

section \<open>A host whose sockets outlive it\<close>

text \<open>
  What \<open>InboxHub\<close> does on waking (\<^verbatim>\<open>mediator/src/workers/inbox-hub.ts\<close>): it adopts every socket
  still open, each with the state kept beside it.
\<close>

definition adopt :: "LiveSession \<Rightarrow> Sessions \<Rightarrow> Sessions" where
  "adopt s r = open_session (ls_saves s) (ls_saved s) r"

definition woken :: "Sessions \<Rightarrow> Sessions" where
  "woken r = fold adopt (filter (\<lambda>s. \<not> ls_closed s) (reg_sessions r)) no_sessions"

definition saved_ok :: "LiveSession \<Rightarrow> bool" where
  "saved_ok s \<longleftrightarrow> (\<not> ls_closed s \<and> ls_saves s \<longrightarrow> ls_saved s = Some (ls_state s))"

lemma open_session_last:
  "reg_sessions (open_session saves saved r) ! length (reg_sessions r) =
     \<lparr>ls_state = (case saved of None \<Rightarrow> \<lparr>session_did = None, liveDelivery = False, returnRoute = False\<rparr> | Some st \<Rightarrow> st),
      ls_closed = False, ls_saves = saves,
      ls_saved = (case saved of None \<Rightarrow> if saves then Some \<lparr>session_did = None, liveDelivery = False, returnRoute = False\<rparr> else None
        | Some st \<Rightarrow> Some st), ls_sent = []\<rparr>"
proof (cases saved)
  case (Some st)
  then show ?thesis by (cases "session_did st") (simp_all add: open_session_def Let_def nth_append)
qed (simp add: open_session_def Let_def nth_append save_session_def)

lemma open_session_append:
  "reg_sessions (open_session saves saved r) = reg_sessions r @ [reg_sessions (open_session saves saved r) ! length (reg_sessions r)]"
  by (rule nth_equalityI) (auto simp: nth_append less_Suc_eq)

lemma step_saved:
  assumes "session_step r r'" and "index_ok r" and "list_all saved_ok (reg_sessions r)"
  shows "list_all saved_ok (reg_sessions r')"
  using assms
proof (induction rule: session_step.induct)
  case (opened r saves saved)
  have "saved_ok (reg_sessions (open_session saves saved r) ! length (reg_sessions r))"
    by (simp add: open_session_last saved_ok_def split: option.split)
  then show ?case using opened(2) by (subst open_session_append) simp
next
  case (pushed r did packed)
  then show ?case by (auto simp: list_all_length push_nth saved_ok_def)
qed (auto simp: list_all_length set_liveDelivery_def set_returnRoute_def save_session_def saved_ok_def)

lemma reachable_saved:
  assumes "registry_reachable r"
  shows "list_all saved_ok (reg_sessions r)"
  using assms unfolding registry_reachable_def
proof (induction rule: rtranclp_induct)
  case (step r r')
  then show ?case using step_saved reachable_index unfolding registry_reachable_def by blast
qed (simp add: no_sessions_def)

lemma woken_run:
  assumes "list_all (\<lambda>s. ls_saves s \<and> ls_saved s = Some (ls_state s)) ss" and "registry_reachable r"
  shows "registry_reachable (fold adopt ss r) \<and>
     map ls_state (reg_sessions (fold adopt ss r)) = map ls_state (reg_sessions r) @ map ls_state ss \<and>
     map ls_closed (reg_sessions (fold adopt ss r)) = map ls_closed (reg_sessions r) @ map (\<lambda>_. False) ss"
  using assms
proof (induction ss arbitrary: r)
  case (Cons s ss)
  have "registry_reachable (adopt s r)"
    using Cons.prems(2) opened unfolding adopt_def by (rule reachable_step)
  moreover have "map ls_state (reg_sessions (adopt s r)) = map ls_state (reg_sessions r) @ [ls_state s]"
    "map ls_closed (reg_sessions (adopt s r)) = map ls_closed (reg_sessions r) @ [False]"
    using Cons.prems(1) unfolding adopt_def by (subst open_session_append, simp add: open_session_last)+
  ultimately show ?case using Cons.IH [of "adopt s r"] Cons.prems(1) by simp
qed simp

text \<open>The places of the open sessions.\<close>

definition open_places :: "Sessions \<Rightarrow> nat list" where
  "open_places r = filter (\<lambda>i. \<not> ls_closed (reg_sessions r ! i)) [0..<length (reg_sessions r)]"

lemma open_places_map: "map (\<lambda>i. reg_sessions r ! i) (open_places r) = filter (\<lambda>s. \<not> ls_closed s) (reg_sessions r)"
proof -
  have "filter (\<lambda>s. \<not> ls_closed s) (map (\<lambda>i. reg_sessions r ! i) [0..<length (reg_sessions r)]) =
      map (\<lambda>i. reg_sessions r ! i) (open_places r)"
    by (simp add: open_places_def filter_map comp_def)
  then show ?thesis by (simp add: map_nth)
qed

text \<open>
  C32: Sleep loses nothing: a host that forgets its registry and rebuilds it from the
  sockets still open has the same sessions, each bound to the same DID with the same
  flags, and a push to any DID reaches the same connections as before.
\<close>

theorem sleep_restores_sessions:
  assumes "registry_reachable r" and "list_all ls_saves (reg_sessions r)" and "k < length (open_places r)"
  shows "length (reg_sessions (woken r)) = length (open_places r) \<and>
     ls_state (reg_sessions (woken r) ! k) = ls_state (reg_sessions r ! (open_places r ! k)) \<and>
     (k \<in> set (liveSessionsFor owner (woken r)) \<longleftrightarrow> open_places r ! k \<in> set (liveSessionsFor owner r))"
proof -
  let ?ss = "filter (\<lambda>s. \<not> ls_closed s) (reg_sessions r)" and ?i = "open_places r ! k"
  have "list_all (\<lambda>s. ls_saves s \<and> ls_saved s = Some (ls_state s)) ?ss"
    using reachable_saved [OF assms(1)] assms(2) by (auto simp: list_all_iff saved_ok_def)
  moreover have "registry_reachable no_sessions" by (simp add: registry_reachable_def)
  ultimately have w: "registry_reachable (woken r)" "map ls_state (reg_sessions (woken r)) = map ls_state ?ss"
    "map ls_closed (reg_sessions (woken r)) = map (\<lambda>_. False) ?ss"
    using woken_run [of ?ss no_sessions] by (simp_all add: woken_def no_sessions_def)
  have n: "length (open_places r) = length ?ss" unfolding open_places_map [symmetric] by simp
  moreover have l: "length (reg_sessions (woken r)) = length ?ss" using arg_cong [OF w(2), of length] by simp
  ultimately have k: "k < length ?ss" "k < length (reg_sessions (woken r))" using assms(3) by simp_all
  have at: "?ss ! k = reg_sessions r ! ?i"
    using assms(3) nth_map [of k "open_places r" "\<lambda>i. reg_sessions r ! i"] unfolding open_places_map by simp
  have st: "ls_state (reg_sessions (woken r) ! k) = ls_state (reg_sessions r ! ?i)"
    using arg_cong [OF w(2), of "\<lambda>xs. xs ! k"] k at by simp
  have cl: "\<not> ls_closed (reg_sessions (woken r) ! k)" using arg_cong [OF w(3), of "\<lambda>xs. xs ! k"] k by simp
  have "?i \<in> set (open_places r)" using assms(3) by (rule nth_mem)
  then have "?i < length (reg_sessions r)" "\<not> ls_closed (reg_sessions r ! ?i)" by (simp_all add: open_places_def)
  then show ?thesis
    using liveSessionsFor_iff(1) [OF reachable_index [OF w(1)], of k owner]
      liveSessionsFor_iff(1) [OF reachable_index [OF assms(1)], of ?i owner] st cl k l n by simp
qed

section \<open>At an example\<close>

text \<open>Two connections, the second live under its long form; the first closes.\<close>

definition demo_registry :: Sessions where
  "demo_registry = close_session 0 (set_liveDelivery 1 True (bindFirst 1 (''did:peer:4zQm'' @ replicate 44 CHR ''B'' @ '':zabcdef'')
     (bindFirst 0 ''did:web:a'' (open_session True None (open_session True None no_sessions)))))"

lemma demo_registry_eq:
  "demo_registry = \<lparr>reg_sessions =
     [\<lparr>ls_state = \<lparr>session_did = Some ''did:web:a'', liveDelivery = False, returnRoute = False\<rparr>, ls_closed = True, ls_saves = True,
        ls_saved = Some \<lparr>session_did = Some ''did:web:a'', liveDelivery = False, returnRoute = False\<rparr>, ls_sent = []\<rparr>,
      \<lparr>ls_state = \<lparr>session_did = Some (''did:peer:4zQm'' @ replicate 44 CHR ''B'' @ '':zabcdef''), liveDelivery = True, returnRoute = False\<rparr>,
        ls_closed = False, ls_saves = True,
        ls_saved = Some \<lparr>session_did = Some (''did:peer:4zQm'' @ replicate 44 CHR ''B'' @ '':zabcdef''), liveDelivery = True, returnRoute = False\<rparr>,
        ls_sent = []\<rparr>],
     byDid = [(''did:peer:4zQm'' @ replicate 44 CHR ''B'', [1])]\<rparr>"
  by code_simp

lemma demo_registry_reachable: "registry_reachable demo_registry"
proof -
  let ?two = "open_session True None (open_session True None no_sessions)"
  have "registry_reachable no_sessions" by (simp add: registry_reachable_def)
  then have two: "registry_reachable ?two" by (blast intro: reachable_step opened)
  have n: "length (reg_sessions ?two) = 2" by (simp add: no_sessions_def)
  show ?thesis unfolding demo_registry_def
    by (intro two reachable_step [OF _ closed] reachable_step [OF _ live] reachable_step [OF _ bound])
      (simp_all add: n set_liveDelivery_def)
qed

theorem push_reaches_own_witness:
  "1 \<in> set (liveSessionsFor (''did:peer:4zQm'' @ replicate 44 CHR ''B'') demo_registry)"
proof -
  have "canonicalDid (''did:peer:4zQm'' @ replicate 44 CHR ''B'' @ '':zabcdef'') = canonicalDid (''did:peer:4zQm'' @ replicate 44 CHR ''B'')"
    by code_simp
  then show ?thesis
    using push_reaches_own [OF demo_registry_reachable, of "''did:peer:4zQm'' @ replicate 44 CHR ''B''" 1]
    by (simp add: demo_registry_eq)
qed

theorem session_bound_once_witness:
  "session_did (ls_state (reg_sessions (bindFirst 0 ''did:web:b'' demo_registry) ! 0)) = Some ''did:web:a''"
proof -
  have "0 < length (reg_sessions demo_registry)" by (simp add: demo_registry_eq)
  moreover from this have "session_step^** demo_registry (bindFirst 0 ''did:web:b'' demo_registry)"
    by (blast intro: session_step.bound)
  ultimately show ?thesis using session_bound_once [OF demo_registry_reachable] by (fastforce simp: demo_registry_eq)
qed

theorem sleep_restores_sessions_witness:
  "ls_state (reg_sessions (woken demo_registry) ! 0) = ls_state (reg_sessions demo_registry ! 1)"
proof -
  have "list_all ls_saves (reg_sessions demo_registry)" "open_places demo_registry = [1]"
    by (simp_all add: demo_registry_eq open_places_def)
  then show ?thesis using sleep_restores_sessions [OF demo_registry_reachable, of 0] by simp
qed

end
