(* ===== verification/Mediator_Blob_Service.thy ===== *)
theory Mediator_Blob_Service
  imports Mediator_Context Mediator_Example Remembered
begin

text \<open>
  blob-store/1.0: the service (\<^verbatim>\<open>mediator/src/blobs/service.ts\<close>), names of blobs
  (\<^verbatim>\<open>hash.ts\<close>), the bytes as files (\<^verbatim>\<open>fs-storage.ts\<close>, \<^verbatim>\<open>storage.ts\<close>) and the two handlers
  (\<^verbatim>\<open>mediator/src/protocols/blob-store.ts\<close>). A file is its bytes; one is written to a temporary
  name and renamed, so a put is one step that leaves the whole file or nothing.
\<close>

section \<open>Names\<close>

definition base32_char :: "char \<Rightarrow> bool" where
  "base32_char c = (c \<in> set ''abcdefghijklmnopqrstuvwxyz234567'')"

definition is_blob_name :: "string \<Rightarrow> bool" where
  "is_blob_name t = (case t of b # rest \<Rightarrow> b = CHR ''b'' \<and> length rest = 55 \<and> list_all base32_char rest | [] \<Rightarrow> False)"

definition is_blob_id :: "string \<Rightarrow> bool" where
  "is_blob_id t = (length t = 32 \<and> list_all base32_char t)"

definition SHA256_BYTES :: nat where
  "SHA256_BYTES = 32"

definition SHA256_CODE :: nat where
  "SHA256_CODE = 0x12"

definition blobDigest :: "host \<Rightarrow> string \<Rightarrow> string option" where
  "blobDigest h name =
     (if \<not> is_blob_name name then None
      else case host_read_digest h name of
        None \<Rightarrow> None
      | Some (code, len, digest) \<Rightarrow>
          if code \<noteq> SHA256_CODE \<or> len \<noteq> SHA256_BYTES then None
          else if host_name_digest h digest = name then Some digest else None)"

section \<open>Ranges\<close>

datatype wanted_range = Whole | Unsatisfiable | Part nat nat

definition header_space :: "char \<Rightarrow> bool" where
  "header_space c = ((of_char c :: nat) \<in> {9, 10, 11, 12, 13, 32, 160})"

definition trim :: "string \<Rightarrow> string" where
  "trim t = rev (dropWhile header_space (rev (dropWhile header_space t)))"

definition is_digit :: "char \<Rightarrow> bool" where
  "is_digit c = (c \<in> set ''0123456789'')"

definition number_of :: "string \<Rightarrow> nat" where
  "number_of ds = foldl (\<lambda>n c. 10 * n + (of_char c - 48)) 0 ds"

text \<open>The two runs of digits of a \<open>bytes=\<close> header, or nothing when it has another shape.\<close>

definition range_parts :: "string \<Rightarrow> (string \<times> string) option" where
  "range_parts t =
     (if \<not> starts_with t ''bytes='' then None
      else let from = takeWhile is_digit (drop 6 t); rest = dropWhile is_digit (drop 6 t) in
        case rest of
          c # to \<Rightarrow> if c = CHR ''-'' \<and> list_all is_digit to then Some (from, to) else None
        | [] \<Rightarrow> None)"

definition parseRange :: "string option \<Rightarrow> nat \<Rightarrow> wanted_range" where
  "parseRange header bytes =
     (case header of
        None \<Rightarrow> Whole
      | Some t \<Rightarrow>
          (case range_parts (trim t) of
             None \<Rightarrow> Whole
           | Some (from, to) \<Rightarrow>
               if from = [] \<and> to = [] then Whole
               else if from = [] then
                 (let suffix = number_of to in
                  if suffix = 0 \<or> bytes = 0 then Unsatisfiable else Part (bytes - suffix) (bytes - 1))
               else if bytes = 0 then Unsatisfiable
               else
                 (let start = number_of from; stop = (if to = [] then bytes - 1 else min (number_of to) (bytes - 1)) in
                  if bytes \<le> start \<or> stop < start then Unsatisfiable else Part start stop)))"

section \<open>Files\<close>

record Response =
  resp_status :: nat
  resp_headers :: "(string \<times> string) list"
  resp_body :: "string option"

definition plain_response :: "nat \<Rightarrow> string option \<Rightarrow> Response" where
  "plain_response status body = \<lparr>resp_status = status, resp_headers = [], resp_body = body\<rparr>"

definition blobHeaders :: "nat \<Rightarrow> (string \<times> string) list" where
  "blobHeaders bytes = [(''content-type'', ''application/octet-stream''), (''accept-ranges'', ''bytes''),
     (''cache-control'', ''private, max-age=3600''), (''content-length'', decimal bytes)]"

definition unsatisfiable :: "nat \<Rightarrow> Response" where
  "unsatisfiable bytes = \<lparr>resp_status = 416,
     resp_headers = [(''content-range'', ''bytes */'' @ decimal bytes), (''accept-ranges'', ''bytes'')], resp_body = None\<rparr>"

type_synonym file_map = "(string \<times> string) list"

text \<open>\<open>put\<close>: the files after it, when the bytes are what was declared; \<open>None\<close> is \<open>"mismatch"\<close>, which leaves nothing behind.\<close>

definition storage_put :: "host \<Rightarrow> string \<Rightarrow> string \<Rightarrow> int \<Rightarrow> string \<Rightarrow> file_map \<Rightarrow> file_map option" where
  "storage_put h bid hash declared bytes files =
     (case blobDigest h hash of
        None \<Rightarrow> None
      | Some expected \<Rightarrow>
          if \<not> is_blob_id bid \<or> int (length bytes) \<noteq> declared \<or> sha256 (host_codec h) bytes \<noteq> expected then None
          else Some (map_set files bid bytes))"

definition storage_get :: "string \<Rightarrow> string option \<Rightarrow> bool \<Rightarrow> file_map \<Rightarrow> Response option" where
  "storage_get bid header head files =
     (if \<not> is_blob_id bid then None
      else case map_of files bid of
        None \<Rightarrow> None
      | Some bytes \<Rightarrow>
          (case parseRange header (length bytes) of
             Unsatisfiable \<Rightarrow> Some (unsatisfiable (length bytes))
           | Whole \<Rightarrow> Some \<lparr>resp_status = 200, resp_headers = blobHeaders (length bytes),
               resp_body = (if head then None else Some bytes)\<rparr>
           | Part start stop \<Rightarrow> Some \<lparr>resp_status = 206,
               resp_headers = blobHeaders (stop - start + 1) @
                 [(''content-range'', ''bytes '' @ decimal start @ ''-'' @ decimal stop @ ''/'' @ decimal (length bytes))],
               resp_body = (if head then None else Some (take (stop - start + 1) (drop start bytes)))\<rparr>))"

definition storage_delete :: "string \<Rightarrow> file_map \<Rightarrow> file_map" where
  "storage_delete bid files = (if \<not> is_blob_id bid then files else filter (\<lambda>f. fst f \<noteq> bid) files)"

definition delete_file :: "string \<Rightarrow> unit act" where
  "delete_file bid w = (Inr (), w\<lparr>w_files := storage_delete bid (w_files w)\<rparr>)"

section \<open>The service\<close>

definition UPLOAD_GRANT_MS :: int where
  "UPLOAD_GRANT_MS = 60 * 60 * 1000"

datatype PutOutcome =
    PutOk string string time "(string \<times> time) option"
  | PutRefused string string

definition blob_url :: "string \<Rightarrow> string \<Rightarrow> string" where
  "blob_url publicUrl bid =
     (if publicUrl \<noteq> [] \<and> last publicUrl = CHR ''/'' then butlast publicUrl else publicUrl) @ ''/b/'' @ bid"

text \<open>\<open>Number.isInteger(size)\<close> and not negative.\<close>

fun byte_count :: "json option \<Rightarrow> int option" where
  "byte_count (Some (JNum q)) = (if of_int \<lfloor>q\<rfloor> = q \<and> 0 \<le> q then Some \<lfloor>q\<rfloor> else None)"
| "byte_count _ = None"

definition blob_name_of :: "json option \<Rightarrow> string option" where
  "blob_name_of v = (case as_string v of Some t \<Rightarrow> if is_blob_name t then Some t else None | None \<Rightarrow> None)"

fun decimal_int :: "int \<Rightarrow> string" where
  "decimal_int n = (if n < 0 then CHR ''-'' # decimal (nat (- n)) else decimal (nat n))"

definition service_put :: "HandlerContext \<Rightarrow> string \<Rightarrow> did \<Rightarrow> json option \<Rightarrow> json option \<Rightarrow> PutOutcome act" where
  "service_put ctx publicUrl ownerDid hash' size' =
     (case blob_name_of hash' of
        None \<Rightarrow> return_act (PutRefused ''refused'' ''hash is not a blob name'')
      | Some hash \<Rightarrow>
          (case byte_count size' of
             None \<Rightarrow> return_act (PutRefused ''refused'' ''size must be a byte count'')
           | Some bytes \<Rightarrow>
               if blobMaxBytes (ctx_config ctx) < bytes
               then return_act (PutRefused ''too-large'' (''blobs are at most '' @ decimal_int (blobMaxBytes (ctx_config ctx)) @ '' bytes''))
               else bind_act (call_store (keepBlob (ctx_now ctx)
                   \<lparr>keep_id = ctx_blob_id ctx, keep_ownerDid = ownerDid, keep_hash = hash, keep_size = bytes,
                    keep_retainUntil = ctx_now ctx + blobRetainSeconds (ctx_config ctx) * 1000\<rparr>
                   (blobQuotaBytes (ctx_config ctx)))) (\<lambda>kept.
                 case kept of
                   KeepEnded \<Rightarrow> return_act (PutRefused ''refused'' ''no mediation'')
                 | KeepMismatch \<Rightarrow> return_act (PutRefused ''refused'' ''size differs from the stored blob'')
                 | KeepFull \<Rightarrow> return_act (PutRefused ''quota''
                     (''this mediation may hold '' @ decimal_int (blobQuotaBytes (ctx_config ctx)) @ '' bytes''))
                 | Kept row \<Rightarrow>
                     if blobs_uploaded_at row \<noteq> None
                     then return_act (PutOk hash (blob_url publicUrl (blobs_id row)) (blobs_retain_until row) None)
                     else let expires = ctx_now ctx + UPLOAD_GRANT_MS in
                       bind_act (call_store (grantUpload (ctx_token ctx) (blobs_id row) expires)) (\<lambda>token.
                       return_act (PutOk hash (blob_url publicUrl (blobs_id row)) (blobs_retain_until row)
                         (Some (blob_url publicUrl (blobs_id row) @ ''?token='' @ token, expires)))))))"

definition service_remove :: "did \<Rightarrow> json option \<Rightarrow> string option act" where
  "service_remove ownerDid hash' =
     (case blob_name_of hash' of
        None \<Rightarrow> return_act None
      | Some hash \<Rightarrow>
          bind_act (call_store (dropBlob ownerDid hash)) (\<lambda>found.
          case found of
            None \<Rightarrow> return_act (Some hash)
          | Some bid \<Rightarrow> bind_act (delete_file bid) (\<lambda>_. return_act (Some hash))))"

text \<open>\<open>declared\<close> is the number the \<open>content-length\<close> header reads as, \<open>None\<close> when it is none.\<close>

definition service_upload :: "HandlerContext \<Rightarrow> string \<Rightarrow> string \<Rightarrow> rat option \<Rightarrow> string \<Rightarrow> Response act" where
  "service_upload ctx bid token declared body =
     bind_act (call_store (claimUpload (ctx_now ctx) token)) (\<lambda>grant.
     case grant of
       None \<Rightarrow> return_act (plain_response 404 (Some ''no such upload''))
     | Some g \<Rightarrow>
         if grant_id g \<noteq> bid then return_act (plain_response 404 (Some ''no such upload''))
         else if declared \<noteq> Some (of_int (grant_size g))
         then return_act (plain_response 400 (Some (''expected '' @ decimal_int (grant_size g) @ '' bytes'')))
         else (\<lambda>w. case storage_put (ctx_host ctx) bid (grant_hash g) (grant_size g) body (w_files w) of
           None \<Rightarrow> return_act (plain_response 400 (Some ''bytes do not match the name'')) w
         | Some files \<Rightarrow>
             bind_act (call_store (markUploaded (ctx_now ctx) bid)) (\<lambda>_.
             return_act (plain_response 204 None)) (w\<lparr>w_files := files\<rparr>)))"

definition service_serve :: "time \<Rightarrow> string \<Rightarrow> string option \<Rightarrow> bool \<Rightarrow> db \<Rightarrow> file_map \<Rightarrow> Response" where
  "service_serve now bid header head s files =
     (case blobById bid s of
        None \<Rightarrow> plain_response 404 (Some ''no such blob'')
      | Some info \<Rightarrow>
          if blobs_uploaded_at info = None \<or> blobs_retain_until info \<le> now then plain_response 404 (Some ''no such blob'')
          else case storage_get bid header head files of
            None \<Rightarrow> plain_response 404 (Some ''no such blob'') | Some r \<Rightarrow> r)"

fun delete_files :: "string list \<Rightarrow> unit act" where
  "delete_files [] = return_act ()"
| "delete_files (bid # bids) = bind_act (delete_file bid) (\<lambda>_. delete_files bids)"

definition service_purge :: "time \<Rightarrow> nat act" where
  "service_purge now =
     bind_act (call_store (purgeBlobs now)) (\<lambda>gone.
     bind_act (delete_files gone) (\<lambda>_. return_act (length gone)))"

section \<open>The handlers\<close>

definition BLOB_PUT_RESULT :: string where
  "BLOB_PUT_RESULT = ''https://estoc.dev/blob-store/1.0/put-result''"

definition BLOB_DELETE_RESULT :: string where
  "BLOB_DELETE_RESULT = ''https://estoc.dev/blob-store/1.0/delete-result''"

definition blob_problem :: "string \<Rightarrow> string \<Rightarrow> Reply" where
  "blob_problem code comment = plain_reply PROBLEM_REPORT [(''code'', JStr (''e.p.blob.'' @ code)), (''comment'', JStr comment)]"

definition refused :: "string \<Rightarrow> Reply" where
  "refused comment = blob_problem ''refused'' comment"

text \<open>What both handlers begin with: a sender, a mediation of its own, and a deployment that keeps blobs.\<close>

definition with_blobs :: "HandlerContext \<Rightarrow> (did \<Rightarrow> string \<Rightarrow> Reply option act) \<Rightarrow> Reply option act" where
  "with_blobs ctx handle =
     (case ctx_sender ctx of
        None \<Rightarrow> return_act None
      | Some sender \<Rightarrow> bind_act (ask (blobOwner sender)) (\<lambda>owner.
          case owner of
            None \<Rightarrow> return_act (Some (refused ''no mediation''))
          | Some ownerDid \<Rightarrow>
              (case ctx_blobs ctx of
                 None \<Rightarrow> return_act (Some (refused ''this mediator does not store blobs''))
               | Some publicUrl \<Rightarrow> handle ownerDid publicUrl)))"

text \<open>A date that cannot be written is a \<open>RangeError\<close> of the handler.\<close>

definition dated :: "time \<Rightarrow> (string \<Rightarrow> 'a act) \<Rightarrow> 'a act" where
  "dated ms f = (case toISOString ms of None \<Rightarrow> throw RangeFault | Some t \<Rightarrow> f t)"

definition blobPut :: "Unpacked \<Rightarrow> HandlerContext \<Rightarrow> Reply option act" where
  "blobPut incoming ctx = with_blobs ctx (\<lambda>owner publicUrl.
     bind_act (service_put ctx publicUrl owner (field (in_body incoming) ''hash'') (field (in_body incoming) ''size'')) (\<lambda>outcome.
     case outcome of
       PutRefused code comment \<Rightarrow> return_act (Some (blob_problem code comment))
     | PutOk hash url retainUntil upload \<Rightarrow>
         dated retainUntil (\<lambda>until.
           let kept = [(''hash'', JStr hash), (''url'', JStr url), (''retain_until'', JStr until)] in
           case upload of
             None \<Rightarrow> return_act (Some (plain_reply BLOB_PUT_RESULT kept))
           | Some (uploadUrl, expires) \<Rightarrow> dated expires (\<lambda>e. return_act (Some (plain_reply BLOB_PUT_RESULT
               (kept @ [(''upload'', JObj [(''url'', JStr uploadUrl), (''expires'', JStr e)])])))))))"

definition blobDelete :: "Unpacked \<Rightarrow> HandlerContext \<Rightarrow> Reply option act" where
  "blobDelete incoming ctx = with_blobs ctx (\<lambda>owner _.
     bind_act (service_remove owner (field (in_body incoming) ''hash'')) (\<lambda>removed.
     case removed of
       None \<Rightarrow> return_act (Some (refused ''hash is not a blob name''))
     | Some hash \<Rightarrow> return_act (Some (plain_reply BLOB_DELETE_RESULT [(''hash'', JStr hash)]))))"

section \<open>Bytes and rows together\<close>

text \<open>
  The calls of the service interleave, so the bytes are followed at the granularity of single
  calls: any call of the store, a token claimed, the bytes of a claimed
  upload put, the bytes of an id deleted. \<open>bw_claims\<close> are the uploads under way. An id is minted once: a new blob's
  is none that bytes or an upload have.
\<close>

record blob_world =
  bw_store :: db
  bw_files :: file_map
  bw_claims :: "UploadGrant list"

definition mints_anew :: "store_call \<Rightarrow> blob_world \<Rightarrow> bool" where
  "mints_anew c b = (case c of
     KeepBlob now k q \<Rightarrow> keep_id k \<notin> fst ` set (bw_files b) \<and> keep_id k \<notin> grant_id ` set (bw_claims b)
   | _ \<Rightarrow> True)"

inductive blob_step :: "host \<Rightarrow> blob_world \<Rightarrow> blob_world \<Rightarrow> bool" for h where
  called: "call_ok c (bw_store b) \<Longrightarrow> mints_anew c b \<Longrightarrow> blob_step h b (b\<lparr>bw_store := snd (perform c (bw_store b))\<rparr>)"
| claimed: "claimUpload now token (bw_store b) = (Inr (Some g), s) \<Longrightarrow>
    blob_step h b (b\<lparr>bw_store := s, bw_claims := g # bw_claims b\<rparr>)"
| stored: "g \<in> set (bw_claims b) \<Longrightarrow>
    storage_put h (grant_id g) (grant_hash g) (grant_size g) bytes (bw_files b) = Some files \<Longrightarrow>
    blob_step h b (b\<lparr>bw_files := files\<rparr>)"
| deleted: "blob_step h b (b\<lparr>bw_files := storage_delete bid (bw_files b)\<rparr>)"

definition no_blobs :: blob_world where
  "no_blobs = \<lparr>bw_store = empty_db, bw_files = [], bw_claims = []\<rparr>"

text \<open>Bytes are a blob's when they have its size and the digest its name encodes.\<close>

definition bytes_of :: "host \<Rightarrow> string \<Rightarrow> int \<Rightarrow> string \<Rightarrow> bool" where
  "bytes_of h hash declared bytes \<longleftrightarrow> int (length bytes) = declared \<and> blobDigest h hash = Some (sha256 (host_codec h) bytes)"

definition blob_facts :: "blob_row \<Rightarrow> string \<times> string \<times> int" where
  "blob_facts b = (blobs_id b, blobs_hash b, blobs_size b)"

lemma blob_facts_map: "(\<And>b. blob_facts (f b) = blob_facts b) \<Longrightarrow> blob_facts ` set (blobs (s\<lparr>blobs := map f (blobs s)\<rparr>)) = blob_facts ` set (blobs s)"
  by (simp add: image_image)

lemma blob_facts_delete: "blob_facts ` set (blobs (delete_blobs P s)) \<subseteq> blob_facts ` set (blobs s)"
  by (auto simp: delete_blobs_def Let_def)

lemma blob_facts_end: "blob_facts ` set (blobs (end_blobs P s)) \<subseteq> blob_facts ` set (blobs s)"
  by (auto simp: end_blobs_def delete_blobs_def Let_def)

lemma blob_facts_keep:
  "blob_facts ` set (blobs (snd (keep_blob now k q s))) \<subseteq> insert (keep_id k, keep_hash k, keep_size k) (blob_facts ` set (blobs s))"
proof -
  have "blob_facts ` set (blobs (put_blob key (renewed_blob k) s)) = blob_facts ` set (blobs s)" for key
    unfolding put_blob_def by (rule blob_facts_map) (simp add: blob_facts_def)
  then show ?thesis by (auto simp: keep_blob_def new_blob_def blob_facts_def split: option.split)
qed

fun kept_facts :: "store_call \<Rightarrow> (string \<times> string \<times> int) set" where
  "kept_facts (KeepBlob now k q) = {(keep_id k, keep_hash k, keep_size k)}"
| "kept_facts _ = {}"

lemma blob_facts_after: "blob_facts ` set (blobs (after_call c s)) \<subseteq> blob_facts ` set (blobs s) \<union> kept_facts c"
proof (cases c)
  case (KeepBlob now k q)
  then show ?thesis using blob_facts_keep [of now k q s] by auto
next
  case (MarkUploaded now bid)
  have "blob_facts ` set (blobs (mark_uploaded now bid s)) = blob_facts ` set (blobs s)"
    unfolding mark_uploaded_def by (rule blob_facts_map) (simp add: blob_facts_def)
  then show ?thesis by (simp add: MarkUploaded)
next
  case (RevokeMediation did)
  have "blobs (delete_accounts P t) = blobs t" for P t by (simp add: delete_accounts_def Let_def)
  then show ?thesis using blob_facts_end by (fastforce simp: RevokeMediation revoked_def)
next
  case (DeleteReplicaAccount a m)
  have "blobs (without_account a s) = blobs (end_blobs (account_blob a s) (cleared_content a (cleared_mail a s)))"
    "blobs (cleared_content a (cleared_mail a s)) = blobs s"
    unfolding without_account_eq Let_def
    by (simp_all add: cleared_replicas_def cleared_content_def cleared_mail_def delete_executions_def Let_def)
  then have "blob_facts ` set (blobs (without_account a s)) \<subseteq> blob_facts ` set (blobs s)"
    using blob_facts_end [of "account_blob a s" "cleared_content a (cleared_mail a s)"] by simp
  then show ?thesis by (simp add: DeleteReplicaAccount)
next
  case (RemoveReplica now a m r)
  have "blobs (end_deliveries P t) = blobs t" for P t
    by (simp add: end_deliveries_def delete_deliveries_def delete_ending_packages_def Let_def)
  then have "blob_facts ` set (blobs (without_replica now a m r s)) \<subseteq> blob_facts ` set (blobs s)"
    using blob_facts_end by (fastforce simp: without_replica_def mark_removed_def)
  then show ?thesis by (simp add: RemoveReplica)
next
  case (AcknowledgeDeliveries r ids)
  have "blobs (end_deliveries P t) = blobs t" for P t
    by (simp add: end_deliveries_def delete_deliveries_def delete_ending_packages_def Let_def)
  then show ?thesis by (simp add: AcknowledgeDeliveries)
qed (auto simp: state_defs insert_replica_def split: option.split)

text \<open>What holds between bytes, uploads under way and rows.\<close>

definition blobs_agree :: "host \<Rightarrow> blob_world \<Rightarrow> bool" where
  "blobs_agree h b \<longleftrightarrow> db_inv (bw_store b) \<and>
     (\<forall>bid hash declared. (bid, hash, declared) \<in> blob_facts ` set (blobs (bw_store b)) \<longrightarrow>
        (\<forall>bytes. map_of (bw_files b) bid = Some bytes \<longrightarrow> bytes_of h hash declared bytes) \<and>
        (\<forall>g\<in>set (bw_claims b). grant_id g = bid \<longrightarrow> grant_hash g = hash \<and> grant_size g = declared))"

lemma storage_put_bytes:
  "storage_put h bid hash declared bytes files = Some files' \<Longrightarrow> files' = map_set files bid bytes \<and> bytes_of h hash declared bytes"
  by (auto simp: storage_put_def bytes_of_def split: option.splits if_splits)

lemma blobs_agreeD:
  assumes "blobs_agree h b" and "row \<in> set (blobs (bw_store b))"
  shows "map_of (bw_files b) (blobs_id row) = Some bytes \<Longrightarrow> bytes_of h (blobs_hash row) (blobs_size row) bytes"
    and "g \<in> set (bw_claims b) \<Longrightarrow> grant_id g = blobs_id row \<Longrightarrow> grant_hash g = blobs_hash row \<and> grant_size g = blobs_size row"
  using assms by (force simp: blobs_agree_def blob_facts_def)+

lemma blobs_agreeI:
  assumes "db_inv (bw_store b)"
    and "\<And>row bytes. row \<in> set (blobs (bw_store b)) \<Longrightarrow> map_of (bw_files b) (blobs_id row) = Some bytes \<Longrightarrow>
      bytes_of h (blobs_hash row) (blobs_size row) bytes"
    and "\<And>row g. row \<in> set (blobs (bw_store b)) \<Longrightarrow> g \<in> set (bw_claims b) \<Longrightarrow> grant_id g = blobs_id row \<Longrightarrow>
      grant_hash g = blobs_hash row \<and> grant_size g = blobs_size row"
  shows "blobs_agree h b"
  using assms by (auto simp: blobs_agree_def blob_facts_def)

lemma called_agrees:
  assumes "blobs_agree h b" and "call_ok c (bw_store b)" and "mints_anew c b"
  shows "blobs_agree h (b\<lparr>bw_store := snd (perform c (bw_store b))\<rparr>)"
proof (rule blobs_agreeI; simp)
  let ?s = "bw_store b"
  have s: "db_inv ?s" using assms(1) by (simp add: blobs_agree_def)
  show "db_inv (snd (perform c ?s))" by (rule perform_inv [OF s assms(2)])
  fix row
  assume row: "row \<in> set (blobs (snd (perform c ?s)))"
  have cases: "(\<exists>old\<in>set (blobs ?s). blob_facts old = blob_facts row) \<or> blob_facts row \<in> kept_facts c"
    using row blob_facts_after [of c ?s] unfolding perform_after [OF s assms(2)] by force
  have fresh: "blobs_id row \<notin> fst ` set (bw_files b) \<and> blobs_id row \<notin> grant_id ` set (bw_claims b)" if "blob_facts row \<in> kept_facts c"
    using that assms(3) by (cases c) (auto simp: mints_anew_def blob_facts_def)
  show "bytes_of h (blobs_hash row) (blobs_size row) bytes" if found: "map_of (bw_files b) (blobs_id row) = Some bytes" for bytes
  proof -
    have "blobs_id row \<in> fst ` set (bw_files b)" using map_of_SomeD [OF found] by force
    with cases fresh obtain old where "old \<in> set (blobs ?s)" "blob_facts old = blob_facts row" by blast
    then show ?thesis using blobs_agreeD(1) [OF assms(1), of old bytes] found by (simp add: blob_facts_def)
  qed
  show "grant_hash g = blobs_hash row \<and> grant_size g = blobs_size row" if g: "g \<in> set (bw_claims b)" "grant_id g = blobs_id row" for g
  proof -
    have "blobs_id row \<in> grant_id ` set (bw_claims b)" using g by (metis imageI)
    with cases fresh obtain old where "old \<in> set (blobs ?s)" "blob_facts old = blob_facts row" by blast
    then show ?thesis using blobs_agreeD(2) [OF assms(1), of old g] g by (simp add: blob_facts_def)
  qed
qed

lemma claimed_blob:
  assumes "db_inv s" and "claimed now token s = Some g" and "row \<in> set (blobs s)" and "grant_id g = blobs_id row"
  shows "grant_hash g = blobs_hash row \<and> grant_size g = blobs_size row"
proof -
  obtain bid b where b: "blobById bid s = Some b" "g = \<lparr>grant_id = blobs_id b, grant_hash = blobs_hash b, grant_size = blobs_size b\<rparr>"
    using assms(2) by (auto simp: claimed_def split: option.splits)
  have "distinct (map blobs_id (blobs s))" using db_invD(1) [OF assms(1)] by (simp add: uniq_ok_def)
  moreover have "b \<in> set (blobs s)" "blobs_id b = blobs_id row" using b assms(4) by (auto simp: blobById_def dest: row_of_SomeD)
  ultimately have "b = row" using assms(3) by (metis row_of_Some_unique option.inject)
  then show ?thesis by (simp add: b(2))
qed

lemma map_of_delete: "map_of (storage_delete bid files) i = Some bytes \<Longrightarrow> map_of files i = Some bytes"
  by (auto simp: storage_delete_def map_of_without split: if_splits)

lemma files_agree:
  assumes "blobs_agree h b"
    and "\<And>row bytes. row \<in> set (blobs (bw_store b)) \<Longrightarrow> map_of files (blobs_id row) = Some bytes \<Longrightarrow>
      bytes_of h (blobs_hash row) (blobs_size row) bytes"
  shows "blobs_agree h (b\<lparr>bw_files := files\<rparr>)"
  using assms by (auto simp: blobs_agree_def blob_facts_def)

lemma blob_step_agrees: "blob_step h b b' \<Longrightarrow> blobs_agree h b \<Longrightarrow> blobs_agree h b'"
proof (induction rule: blob_step.induct)
  case (called c b)
  then show ?case using called_agrees by blast
next
  case (claimed now token b g s)
  have inv: "db_inv (bw_store b)" using claimed(2) by (simp add: blobs_agree_def)
  have run: "Mediator_Blobs.claimed now token (bw_store b) = Some g"
    "s = bw_store b\<lparr>blob_uploads := filter (\<lambda>u. uploads_token u \<noteq> token) (blob_uploads (bw_store b))\<rparr>"
    using claimed(1) claimUpload_run [OF inv, of now token] by simp_all
  show ?case
    using blobs_agreeD [OF claimed(2)] claimed_blob [OF inv run(1)] claimUpload_inv [OF inv]
    by (intro blobs_agreeI) (auto simp: run(2))
next
  case (stored g b bytes files)
  note put = storage_put_bytes [OF stored(2)]
  have "bytes_of h (blobs_hash row) (blobs_size row) kept"
    if "row \<in> set (blobs (bw_store b))" "map_of files (blobs_id row) = Some kept" for row kept
    using that blobs_agreeD(1) [OF stored(3) that(1), of kept] blobs_agreeD(2) [OF stored(3) that(1) stored(1)] put
    by (cases "grant_id g = blobs_id row") (auto simp: map_of_map_set)
  then show ?case by (intro files_agree [OF stored(3)]) blast
next
  case (deleted b bid)
  show ?case by (rule files_agree [OF deleted]) (rule blobs_agreeD(1) [OF deleted], assumption, erule map_of_delete)
qed

lemma reachable_agrees: "(blob_step h)^** no_blobs b \<Longrightarrow> blobs_agree h b"
proof (induction rule: rtranclp_induct)
  case base
  show ?case using db_inv_empty by (intro blobs_agreeI) (simp_all add: no_blobs_def)
qed (blast intro: blob_step_agrees)

section \<open>The service's calls are such steps\<close>

definition as_blob_world :: "world \<Rightarrow> UploadGrant list \<Rightarrow> blob_world" where
  "as_blob_world w claims = \<lparr>bw_store = w_store w, bw_files = w_files w, bw_claims = claims\<rparr>"

lemma upload_steps:
  assumes "db_inv (w_store w)"
  shows "\<exists>claims'. (blob_step (ctx_host ctx))^** (as_blob_world w claims)
     (as_blob_world (snd (service_upload ctx bid token declared body w)) claims')"
proof -
  let ?h = "ctx_host ctx" and ?s = "w_store w\<lparr>blob_uploads := filter (\<lambda>u. uploads_token u \<noteq> token) (blob_uploads (w_store w))\<rparr>"
  note run = claimUpload_run [OF assms, of "ctx_now ctx" token]
  have inv: "db_inv ?s" by (rule claimUpload_inv [OF assms])
  show ?thesis
  proof (cases "claimed (ctx_now ctx) token (w_store w)")
    case None
    have "blob_step ?h (as_blob_world w claims) (as_blob_world w claims\<lparr>bw_store := snd (perform (ClaimUpload (ctx_now ctx) token) (w_store w))\<rparr>)"
      using blob_step.called [of "ClaimUpload (ctx_now ctx) token" "as_blob_world w claims" ?h] by (simp add: as_blob_world_def mints_anew_def)
    then have "blob_step ?h (as_blob_world w claims) (as_blob_world (w\<lparr>w_store := ?s\<rparr>) claims)"
      by (simp add: as_blob_world_def failed_def run)
    then show ?thesis using None
      by (intro exI [of _ claims]) (simp add: service_upload_def bind_act_def call_store_def run return_act_def)
  next
    case (Some g)
    let ?b = "as_blob_world (w\<lparr>w_store := ?s\<rparr>) (g # claims)"
    have claim: "blob_step ?h (as_blob_world w claims) ?b"
      using blob_step.claimed [of "ctx_now ctx" token "as_blob_world w claims" g ?s ?h] run Some by (simp add: as_blob_world_def)
    show ?thesis
    proof (cases "grant_id g = bid \<and> declared = Some (of_int (grant_size g)) \<and>
        storage_put ?h bid (grant_hash g) (grant_size g) body (w_files w) \<noteq> None")
      case False
      then have "snd (service_upload ctx bid token declared body w) = w\<lparr>w_store := ?s\<rparr>"
        using Some by (auto simp: service_upload_def bind_act_def call_store_def run return_act_def)
      then show ?thesis using claim by auto
    next
      case True
      then obtain files where put: "storage_put ?h bid (grant_hash g) (grant_size g) body (w_files w) = Some files" by blast
      let ?t = "snd (markUploaded (ctx_now ctx) bid ?s)"
      have "blob_step ?h ?b (?b\<lparr>bw_files := files\<rparr>)"
        using blob_step.stored [of g ?b ?h body files] put True by (simp add: as_blob_world_def)
      moreover have "blob_step ?h (?b\<lparr>bw_files := files\<rparr>) (?b\<lparr>bw_files := files, bw_store := ?t\<rparr>)"
        using blob_step.called [of "MarkUploaded (ctx_now ctx) bid" "?b\<lparr>bw_files := files\<rparr>" ?h]
        by (simp add: as_blob_world_def mints_anew_def failed_def)
      ultimately have "(blob_step ?h)^** (as_blob_world w claims) (?b\<lparr>bw_files := files, bw_store := ?t\<rparr>)"
        using claim by (meson converse_rtranclp_into_rtranclp rtranclp.rtrancl_refl)
      moreover have "?b\<lparr>bw_files := files, bw_store := ?t\<rparr> =
          as_blob_world (snd (service_upload ctx bid token declared body w)) (g # claims)"
        using Some True put
        by (simp add: service_upload_def bind_act_def call_store_def run return_act_def as_blob_world_def markUploaded_run [OF inv])
      ultimately show ?thesis by auto
    qed
  qed
qed

lemma remove_steps:
  assumes "db_inv (w_store w)"
  shows "(blob_step h)^** (as_blob_world w claims) (as_blob_world (snd (service_remove owner hash' w)) claims)"
proof (cases "blob_name_of hash'")
  case (Some hash)
  let ?w = "w\<lparr>w_store := snd (dropBlob owner hash (w_store w))\<rparr>"
  note run = dropBlob_run [OF assms, of owner hash]
  have call: "blob_step h (as_blob_world w claims) (as_blob_world ?w claims)"
    using blob_step.called [of "DropBlob owner hash" "as_blob_world w claims" h]
    by (simp add: as_blob_world_def mints_anew_def failed_def)
  show ?thesis
  proof (cases "map_option blobs_id (blobOf owner hash (w_store w))")
    case None
    then have "snd (service_remove owner hash' w) = ?w"
      using Some by (simp add: service_remove_def bind_act_def call_store_def run return_act_def)
    then show ?thesis using call by simp
  next
    case found: (Some bid)
    then have "snd (service_remove owner hash' w) = ?w\<lparr>w_files := storage_delete bid (w_files w)\<rparr>"
      using Some by (auto simp: service_remove_def bind_act_def call_store_def run return_act_def delete_file_def)
    moreover have "blob_step h (as_blob_world ?w claims) (as_blob_world ?w claims\<lparr>bw_files := storage_delete bid (w_files w)\<rparr>)"
      using blob_step.deleted [of h "as_blob_world ?w claims" bid] by (simp add: as_blob_world_def)
    ultimately show ?thesis using call
      by (simp add: as_blob_world_def)
  qed
qed (simp add: service_remove_def return_act_def)

section \<open>What is served\<close>

lemma parseRange_within:
  assumes "parseRange header n = Part start stop"
  shows "start \<le> stop" and "stop < n"
  using assms by (auto simp: parseRange_def Let_def split: option.splits if_splits prod.splits)

text \<open>
  C30: Whatever a blob's URL serves, however uploads, deletions, purges and every other
  call interleaved before it: it is a blob kept now, whose retention has not passed and whose upload completed,
  and the bytes are the whole of, or the range named in the response of, bytes with exactly the declared size that
  hash to the name the owner put it under.
\<close>

theorem served_bytes_match:
  assumes "(blob_step h)^** no_blobs b" and "service_serve now bid header False (bw_store b) (bw_files b) = response"
    and "resp_status response \<in> {200, 206}"
  shows "\<exists>row bytes body. blobById bid (bw_store b) = Some row \<and> now < blobs_retain_until row \<and> blobs_uploaded_at row \<noteq> None \<and>
     int (length bytes) = blobs_size row \<and> blobDigest h (blobs_hash row) = Some (sha256 (host_codec h) bytes) \<and>
     resp_body response = Some body \<and>
     (resp_status response = 200 \<and> body = bytes \<or>
      (\<exists>start stop. resp_status response = 206 \<and> start \<le> stop \<and> stop < length bytes \<and>
         body = take (stop - start + 1) (drop start bytes) \<and>
         (''content-range'', ''bytes '' @ decimal start @ ''-'' @ decimal stop @ ''/'' @ decimal (length bytes)) \<in> set (resp_headers response)))"
proof -
  obtain row where row: "blobById bid (bw_store b) = Some row" "blobs_uploaded_at row \<noteq> None" "now < blobs_retain_until row"
    "storage_get bid header False (bw_files b) = Some response"
    using assms(2,3) by (auto simp: service_serve_def plain_response_def split: option.splits if_splits)
  obtain bytes where f: "map_of (bw_files b) bid = Some bytes" using row(4) by (auto simp: storage_get_def split: option.splits if_splits)
  have "row \<in> set (blobs (bw_store b))" "blobs_id row = bid" using row(1) by (auto simp: blobById_def dest: row_of_SomeD)
  then have match: "int (length bytes) = blobs_size row" "blobDigest h (blobs_hash row) = Some (sha256 (host_codec h) bytes)"
    using blobs_agreeD(1) [OF reachable_agrees [OF assms(1)]] f by (auto simp: bytes_of_def)
  show ?thesis
  proof (cases "parseRange header (length bytes)")
    case Unsatisfiable
    then show ?thesis using row(4) f assms(3) by (auto simp: storage_get_def unsatisfiable_def split: if_splits)
  next
    case Whole
    then show ?thesis using row match f by (auto simp: storage_get_def split: if_splits)
  next
    case (Part start stop)
    let ?body = "take (stop - start + 1) (drop start bytes)"
    have "resp_status response = 206 \<and> start \<le> stop \<and> stop < length bytes \<and> resp_body response = Some ?body \<and>
        (''content-range'', ''bytes '' @ decimal start @ ''-'' @ decimal stop @ ''/'' @ decimal (length bytes)) \<in> set (resp_headers response)"
      using row(4) f Part parseRange_within [OF Part] by (auto simp: storage_get_def split: if_splits)
    then show ?thesis
      by (intro exI [of _ row] exI [of _ bytes] exI [of _ ?body]) (use row match in blast)
  qed
qed

section \<open>At an example\<close>

definition demo_name :: string where
  "demo_name = CHR ''b'' # replicate 55 CHR ''a''"

definition demo_blob_id :: string where
  "demo_blob_id = replicate 32 CHR ''c''"

definition demo_blob_codec :: codec where
  "demo_blob_codec = demo_codec\<lparr>sha256 := (\<lambda>_. ''digest'')\<rparr>"

definition demo_blob_host :: host where
  "demo_blob_host = \<lparr>host_codec = demo_blob_codec, host_protected_header = (\<lambda>_. None), host_jws_header = (\<lambda>_. None),
     host_import_jwk = (\<lambda>_ _. True), host_verify = (\<lambda>_ _. None), host_web_document = (\<lambda>_. None), host_base64_text = (\<lambda>t. t),
     host_read_digest = (\<lambda>_. Some (0x12, 32, ''digest'')), host_name_digest = (\<lambda>_. demo_name), host_pack = (\<lambda>_. Some ''sealed'')\<rparr>"

definition demo_blob_calls :: "store_call list" where
  "demo_blob_calls = [GrantMediation 1000 ''did:web:alice'',
     KeepBlob 2000 \<lparr>keep_id = demo_blob_id, keep_ownerDid = ''did:web:alice'', keep_hash = demo_name, keep_size = 5, keep_retainUntil = 9000\<rparr> 10,
     GrantUpload ''token'' demo_blob_id 8000]"

definition demo_uploaded :: blob_world where
  "demo_uploaded = \<lparr>bw_store = empty_db\<lparr>accounts := [\<lparr>accounts_did = ''did:web:alice'', accounts_created_at = 1000\<rparr>],
     blobs := [\<lparr>blobs_id = demo_blob_id, blobs_owner_did = ''did:web:alice'', blobs_hash = demo_name, blobs_size = 5,
       blobs_created_at = 2000, blobs_uploaded_at = Some 3000, blobs_retain_until = 9000\<rparr>]\<rparr>,
     bw_files = [(demo_blob_id, ''bytes'')],
     bw_claims = [\<lparr>grant_id = demo_blob_id, grant_hash = demo_name, grant_size = 5\<rparr>]\<rparr>"

lemma calls_steps:
  assumes "calls_ok cs (bw_store b)" and "bw_files b = []" and "bw_claims b = []"
  shows "(blob_step h)^** b (b\<lparr>bw_store := run_calls cs (bw_store b)\<rparr>)"
  using assms
proof (induction cs arbitrary: b)
  case (Cons c cs)
  have "blob_step h b (b\<lparr>bw_store := snd (perform c (bw_store b))\<rparr>)"
    using Cons.prems by (intro blob_step.called) (auto simp: mints_anew_def split: store_call.split)
  then show ?case using Cons.IH [of "b\<lparr>bw_store := snd (perform c (bw_store b))\<rparr>"] Cons.prems
    by (simp add: converse_rtranclp_into_rtranclp)
qed simp

lemma demo_uploaded_reachable: "(blob_step demo_blob_host)^** no_blobs demo_uploaded"
proof -
  let ?s = "run_after demo_blob_calls empty_db"
  have alice: "canonicalDid ''did:web:alice'' = ''did:web:alice''" by code_simp
  have ok: "ok_after demo_blob_calls empty_db" by (simp add: demo_blob_calls_def demo_run alice empty_db_def)
  have s: "?s = (bw_store demo_uploaded)\<lparr>blobs := [(hd (blobs (bw_store demo_uploaded)))\<lparr>blobs_uploaded_at := None\<rparr>],
      blob_uploads := [\<lparr>uploads_token = ''token'', uploads_blob_id = demo_blob_id, uploads_expires_at = 8000\<rparr>]\<rparr>"
    by (simp add: demo_blob_calls_def demo_run alice empty_db_def demo_uploaded_def)
  note r = run_after_eq [OF db_inv_empty ok]
  have inv: "db_inv ?s" using run_inv [OF db_inv_empty] r by fastforce
  have start: "(blob_step demo_blob_host)^** no_blobs (no_blobs\<lparr>bw_store := ?s\<rparr>)"
    using calls_steps [of demo_blob_calls no_blobs demo_blob_host] r by (simp add: no_blobs_def)
  let ?g = "\<lparr>grant_id = demo_blob_id, grant_hash = demo_name, grant_size = 5\<rparr>"
  let ?t = "?s\<lparr>blob_uploads := []\<rparr>"
  have "claimUpload 3000 ''token'' ?s = (Inr (Some ?g), ?t)"
    unfolding claimUpload_run [OF inv] by (simp add: s claimed_def blobById_def row_of_def demo_uploaded_def)
  then have claim: "blob_step demo_blob_host (no_blobs\<lparr>bw_store := ?s\<rparr>) \<lparr>bw_store = ?t, bw_files = [], bw_claims = [?g]\<rparr>"
    using blob_step.claimed [of 3000 "''token''" "no_blobs\<lparr>bw_store := ?s\<rparr>" ?g ?t demo_blob_host] by (simp add: no_blobs_def)
  have "storage_put demo_blob_host demo_blob_id demo_name 5 ''bytes'' [] = Some [(demo_blob_id, ''bytes'')]" by code_simp
  then have put: "blob_step demo_blob_host \<lparr>bw_store = ?t, bw_files = [], bw_claims = [?g]\<rparr>
      \<lparr>bw_store = ?t, bw_files = [(demo_blob_id, ''bytes'')], bw_claims = [?g]\<rparr>"
    using blob_step.stored [of ?g "\<lparr>bw_store = ?t, bw_files = [], bw_claims = [?g]\<rparr>" demo_blob_host "''bytes''"] by simp
  have t: "db_inv ?t" using claimUpload_inv [OF inv, of "\<lambda>_. False"] by simp
  have "snd (markUploaded 3000 demo_blob_id ?t) = bw_store demo_uploaded"
    unfolding markUploaded_run [OF t] unfolding s by (simp add: mark_uploaded_def demo_uploaded_def empty_db_def)
  then have "blob_step demo_blob_host \<lparr>bw_store = ?t, bw_files = [(demo_blob_id, ''bytes'')], bw_claims = [?g]\<rparr> demo_uploaded"
    using blob_step.called [of "MarkUploaded 3000 demo_blob_id" "\<lparr>bw_store = ?t, bw_files = [(demo_blob_id, ''bytes'')], bw_claims = [?g]\<rparr>" demo_blob_host]
    by (simp add: mints_anew_def failed_def demo_uploaded_def)
  with start claim put show ?thesis by (meson rtranclp.rtrancl_into_rtrancl)
qed

theorem served_bytes_match_witness:
  "\<exists>bytes. length bytes = 5 \<and> blobDigest demo_blob_host demo_name = Some (sha256 (host_codec demo_blob_host) bytes) \<and>
     resp_body (service_serve 4000 demo_blob_id None False (bw_store demo_uploaded) (bw_files demo_uploaded)) = Some bytes"
proof -
  let ?r = "service_serve 4000 demo_blob_id None False (bw_store demo_uploaded) (bw_files demo_uploaded)"
  have "is_blob_id demo_blob_id" by code_simp
  then have "resp_status ?r = 200"
    by (simp add: service_serve_def blobById_def row_of_def demo_uploaded_def storage_get_def parseRange_def)
  moreover have "blobById demo_blob_id (bw_store demo_uploaded) = Some row \<Longrightarrow> blobs_hash row = demo_name \<and> blobs_size row = 5" for row
    by (auto simp: blobById_def row_of_def demo_uploaded_def)
  ultimately show ?thesis using served_bytes_match [OF demo_uploaded_reachable refl, of 4000 demo_blob_id None] by force
qed

end
