(* ===== verification/Mediator_Dispatch.thy ===== *)
theory Mediator_Dispatch
  imports Mediator_Membership Mediator_Blob_Service
begin

text \<open>
  An envelope's way through the mediator, once unpacked: the table of handlers and the sealed reply
  (\<^verbatim>\<open>mediator/src/protocols/dispatch.ts\<close>), discover-features and trust-ping, and the HTTP entry
  (\<open>POST /\<close> of \<^verbatim>\<open>mediator/src/app.ts\<close>).
\<close>

section \<open>discover-features and trust-ping\<close>

definition DISCLOSE :: string where
  "DISCLOSE = ''https://didcomm.org/discover-features/2.0/disclose''"

definition BLOB_STORE_PROTOCOL :: string where
  "BLOB_STORE_PROTOCOL = ''https://estoc.dev/blob-store/1.0''"

definition BASE_PROTOCOLS :: "string list" where
  "BASE_PROTOCOLS = [''https://didcomm.org/coordinate-mediation/3.0'', ''https://didcomm.org/messagepickup/3.0'',
     ''https://didcomm.org/routing/2.0'', ''https://didcomm.org/discover-features/2.0'', ''https://didcomm.org/trust-ping/2.0'']"

definition supportedProtocols :: "bool \<Rightarrow> bool \<Rightarrow> string list" where
  "supportedProtocols keepsBlobs replica =
     BASE_PROTOCOLS @ (if keepsBlobs then [BLOB_STORE_PROTOCOL] else []) @ (if replica then [REPLICA_MEDIATION_PROTOCOL] else [])"

definition ends_with :: "string \<Rightarrow> string \<Rightarrow> bool" where
  "ends_with t e = (length e \<le> length t \<and> drop (length t - length e) t = e)"

definition matches :: "string \<Rightarrow> string \<Rightarrow> bool" where
  "matches pattern i =
     (if ends_with pattern ''.*'' then starts_with i (take (length pattern - 2) pattern)
      else if ends_with pattern ''*'' then starts_with i (take (length pattern - 1) pattern)
      else i = pattern)"

text \<open>The pattern of a query about protocols; an array is an object without these members.\<close>

definition protocol_query :: "json \<Rightarrow> string option" where
  "protocol_query q =
     (case as_object (Some q) of
        None \<Rightarrow> None
      | Some ms \<Rightarrow> if field ms ''feature-type'' = Some (JStr ''protocol'') then as_string (field ms ''match'') else None)"

definition queries :: "Unpacked \<Rightarrow> HandlerContext \<Rightarrow> Reply option act" where
  "queries incoming ctx =
     (let asked = (case as_array (field (in_body incoming) ''queries'') of None \<Rightarrow> [] | Some xs \<Rightarrow> xs);
          patterns = List.map_filter protocol_query asked;
          disclosed = filter (\<lambda>i. list_ex (\<lambda>p. matches p i) patterns)
            (supportedProtocols (ctx_blobs ctx \<noteq> None) (replicaMediation (ctx_config ctx))) in
      return_act (Some (plain_reply DISCLOSE
        [(''disclosures'', JArr (map (\<lambda>i. JObj [(''feature-type'', JStr ''protocol''), (''id'', JStr i)]) disclosed))])))"

definition PING_RESPONSE :: string where
  "PING_RESPONSE = ''https://didcomm.org/trust-ping/2.0/ping-response''"

definition ping :: "Unpacked \<Rightarrow> HandlerContext \<Rightarrow> Reply option act" where
  "ping incoming ctx =
     return_act (if ctx_sender ctx = None \<or> field (in_body incoming) ''response_requested'' = Some (JBool False) then None
       else Some (plain_reply PING_RESPONSE []))"

section \<open>Dispatch\<close>

type_synonym handler = "Unpacked \<Rightarrow> HandlerContext \<Rightarrow> Reply option act"

definition HANDLERS :: "(string \<times> handler) list" where
  "HANDLERS =
     [(''https://didcomm.org/coordinate-mediation/3.0/mediate-request'', mediateRequest),
      (''https://didcomm.org/coordinate-mediation/3.0/recipient-update'', recipientUpdate),
      (''https://didcomm.org/coordinate-mediation/3.0/recipient-query'', recipientQuery),
      (''https://didcomm.org/messagepickup/3.0/status-request'', statusRequest),
      (''https://didcomm.org/messagepickup/3.0/delivery-request'', deliveryRequest),
      (''https://didcomm.org/messagepickup/3.0/messages-received'', messagesReceived),
      (''https://didcomm.org/messagepickup/3.0/live-delivery-change'', liveDeliveryChange),
      (FORWARD, forward),
      (''https://didcomm.org/discover-features/2.0/queries'', queries),
      (''https://didcomm.org/trust-ping/2.0/ping'', ping),
      (''https://estoc.dev/blob-store/1.0/put'', blobPut),
      (''https://estoc.dev/blob-store/1.0/delete'', blobDelete)]"

text \<open>
  A property of an object literal: its own, or one it inherits from
  \<open>Object.prototype\<close> (\<open>INHERITED_FUNCTIONS\<close>, \<open>constructor\<close> and \<open>__proto__\<close>), or none.
\<close>

datatype 'a looked_up = Own 'a | Inherited | Missing

definition property_of :: "(string \<times> 'a) list \<Rightarrow> string \<Rightarrow> 'a looked_up" where
  "property_of table name =
     (case map_of table name of
        Some v \<Rightarrow> Own v
      | None \<Rightarrow> if name \<in> set (''__proto__'' # ''constructor'' # INHERITED_FUNCTIONS) then Inherited else Missing)"

definition unknownType :: "Unpacked \<Rightarrow> HandlerContext \<Rightarrow> Reply option" where
  "unknownType incoming ctx =
     (if ctx_sender ctx = None then None
      else Some (plain_reply PROBLEM_REPORT
        [(''code'', JStr ''e.p.msg.unsupported''), (''comment'', JStr (''Unsupported message type: '' @ in_type incoming))]))"

definition returnRouteOpen :: "Unpacked \<Rightarrow> bool act" where
  "returnRouteOpen incoming w =
     (let requested = in_return_route incoming = Some ''all'' in
      case w_session w of
        None \<Rightarrow> (Inr requested, w)
      | Some session \<Rightarrow>
          let session' = (if requested then session\<lparr>returnRoute := True\<rparr> else session) in
          (Inr (returnRoute session'), w\<lparr>w_session := Some session'\<rparr>))"

text \<open>
  What a handler gave, as the code reads it: its type, body and attachments. An inherited function is called
  as if it were a handler: \<open>Object\<close> gives back the message and \<open>toString\<close> a text, neither of which has a type or a body;
  every other one, called on nothing, is a \<open>TypeError\<close>, as is calling \<open>Object.prototype\<close>.
\<close>

type_synonym given = "string option \<times> json_object option \<times> (string \<times> string) list"

definition reply_answer :: "Reply \<Rightarrow> given" where
  "reply_answer r = (Some (reply_type r), Some (reply_body r), reply_attachments r)"

definition call_inherited :: "string \<Rightarrow> given option act" where
  "call_inherited name =
     (if name = ''constructor'' \<or> name = ''toString'' then return_act (Some (None, None, [])) else throw TypeFault)"

definition run_handler :: "handler \<Rightarrow> Unpacked \<Rightarrow> HandlerContext \<Rightarrow> given option act" where
  "run_handler h incoming ctx = bind_act (h incoming ctx) (\<lambda>r. return_act (map_option reply_answer r))"

definition replica_control :: "HandlerContext \<Rightarrow> string \<Rightarrow> handler looked_up" where
  "replica_control ctx t = (if replicaMediation (ctx_config ctx) then property_of REPLICA_CONTROLS t else Missing)"

definition handle :: "Unpacked \<Rightarrow> HandlerContext \<Rightarrow> given option act" where
  "handle incoming ctx =
     (case property_of HANDLERS (in_type incoming) of
        Own h \<Rightarrow> run_handler h incoming ctx
      | Inherited \<Rightarrow> call_inherited (in_type incoming)
      | Missing \<Rightarrow>
          (case replica_control ctx (in_type incoming) of
             Own h \<Rightarrow> run_handler h incoming ctx
           | Inherited \<Rightarrow> call_inherited (in_type incoming)
           | Missing \<Rightarrow> return_act (map_option reply_answer (unknownType incoming ctx))))"

text \<open>The message a reply is sealed in; \<open>reply_id\<close> is the identifier drawn for it.\<close>

definition outgoing :: "string \<Rightarrow> Unpacked \<Rightarrow> HandlerContext \<Rightarrow> did \<Rightarrow> given \<Rightarrow> Outgoing" where
  "outgoing reply_id incoming ctx replyTo a =
     (case a of (t, body, attachments) \<Rightarrow>
        let thid = (if replica_control ctx (in_type incoming) \<noteq> Missing then in_id incoming
              else case in_thid incoming of Some i \<Rightarrow> i | None \<Rightarrow> in_id incoming) in
        \<lparr>out_id = reply_id, out_type = t, out_from = asOwnDid ctx (in_addressedTo incoming), out_to = replyTo,
         out_created_time = ctx_now ctx div 1000, out_thid = thid,
         out_pthid = (if t = Some PROBLEM_REPORT then Some thid else None), out_body = body, out_attachments = attachments\<rparr>)"

definition seal :: "HandlerContext \<Rightarrow> Outgoing \<Rightarrow> string act" where
  "seal ctx message = (case host_pack (ctx_host ctx) message of None \<Rightarrow> throw PackFault | Some packed \<Rightarrow> return_act packed)"

definition dispatch :: "string \<Rightarrow> Unpacked \<Rightarrow> HandlerContext \<Rightarrow> string option act" where
  "dispatch reply_id incoming ctx =
     bind_act (returnRouteOpen incoming) (\<lambda>routed.
     bind_act (handle incoming ctx) (\<lambda>reply.
     case (reply, ctx_sender ctx) of
       (Some a, Some replyTo) \<Rightarrow>
         if \<not> routed then return_act None
         else bind_act (seal ctx (outgoing reply_id incoming ctx replyTo a)) (\<lambda>packed. return_act (Some packed))
     | _ \<Rightarrow> return_act None))"

section \<open>POST\<close>







section \<open>What every handler keeps\<close>

text \<open>The identifiers a request draws are in use nowhere yet, and the policy lets an execution list a replica.\<close>

definition fresh_request :: "HandlerContext \<Rightarrow> db \<Rightarrow> bool" where
  "fresh_request ctx s \<longleftrightarrow> ctx_uuid ctx \<notin> executions_registration_id ` set (replica_executions s) \<and>
     ctx_uuid ctx \<notin> messages_id ` set (messages s) \<and> fresh_mail (ctx_uuid ctx) (ctx_delivery_ids ctx) s \<and>
     ctx_blob_id ctx \<notin> blobs_id ` set (blobs s) \<and> ctx_blob_id ctx \<notin> set (ended_blobs s) \<and>
     ctx_token ctx \<notin> uploads_token ` set (blob_uploads s) \<and> 1 \<le> maxExecutionRegistrations (ctx_config ctx)"

text \<open>
  A run is sound: the store's invariant is kept, no store call fails, and a refusal of a forward is one of three
  and changes nothing.
\<close>

definition sound_run :: "world \<Rightarrow> (fault + 'a) \<times> world \<Rightarrow> bool" where
  "sound_run w r \<longleftrightarrow> db_inv (w_store (snd r)) \<and>
     (\<forall>f. fst r = Inl f \<longrightarrow> f \<in> {TypeFault, RangeFault, PackFault} \<or>
        f \<in> {ForwardRefused 400, ForwardRefused 413, ForwardRefused 422} \<and> snd r = w)"

lemma sound_run_Inr [simp]: "sound_run w (Inr a, w') \<longleftrightarrow> db_inv (w_store w')"
  by (simp add: sound_run_def)


locale sound_handler =
  fixes h :: handler
  assumes runs_sound: "db_inv (w_store w) \<Longrightarrow> fresh_request ctx (w_store w) \<Longrightarrow> sound_run w (h incoming ctx w)"
begin

lemma run_handler_sound:
  assumes "db_inv (w_store w)" and "fresh_request ctx (w_store w)"
  shows "sound_run w (run_handler h incoming ctx w)"
  using runs_sound [OF assms, of incoming]
  by (auto simp: run_handler_def bind_act_def return_act_def sound_run_def split: prod.split sum.split)

end

interpretation mediate: sound_handler mediateRequest
  by unfold_locales
    (auto simp: mediateRequest_def act_simps bind_act_def call_store_def ask_def grantMediation_run insert_account_inv split: option.split)









interpretation discover: sound_handler queries
  by unfold_locales (simp add: queries_def act_simps Let_def)














section \<open>Properties\<close>

lemma returnRoute_sound:
  "\<exists>routed session. returnRouteOpen incoming w = (Inr routed, w\<lparr>w_session := session\<rparr>) \<and> (w_session w = None \<longrightarrow> session = None)"
  by (cases "w_session w") (auto simp: returnRouteOpen_def Let_def intro: exI [of _ None])






text \<open>
  C29: A reply goes to whom the envelope proved and nobody else: what \<open>dispatch\<close> gives back is one message sealed to the
  proven sender, from one of the mediator's own names, on a route the client opened; it continues the request's thread, or
  names the request itself where the type is a replica control; and an envelope that proves no sender gets silence.
\<close>

theorem reply_to_proven_sender:
  assumes "dispatch reply_id incoming ctx w = (Inr (Some packed), w')" and "ctx_did ctx \<in> set (ctx_dids ctx)"
  shows "\<exists>sender message. ctx_sender ctx = Some sender \<and> host_pack (ctx_host ctx) message = Some packed \<and>
     out_to message = sender \<and> out_from message \<in> set (ctx_dids ctx) \<and>
     (in_addressedTo incoming = Some d \<and> d \<in> set (ctx_dids ctx) \<longrightarrow> out_from message = d) \<and>
     out_thid message = (if replica_control ctx (in_type incoming) = Missing \<and> in_thid incoming \<noteq> None
        then the (in_thid incoming) else in_id incoming) \<and>
     (in_return_route incoming = Some ''all'' \<or> (\<exists>session. w_session w = Some session \<and> returnRoute session))"
proof -
  obtain routed v where r: "returnRouteOpen incoming w = (Inr routed, v)" using returnRoute_sound by blast
  obtain a u sender where a: "handle incoming ctx v = (Inr (Some a), u)" "ctx_sender ctx = Some sender" "routed"
    "seal ctx (outgoing reply_id incoming ctx sender a) u = (Inr packed, w')"
    using assms(1) r
    by (auto simp: dispatch_def bind_act_def return_act_def split: prod.splits sum.splits option.splits if_splits)
  have "host_pack (ctx_host ctx) (outgoing reply_id incoming ctx sender a) = Some packed"
    using a(4) by (auto simp: seal_def return_act_def throw_def split: option.splits)
  moreover have "in_return_route incoming = Some ''all'' \<or> (\<exists>session. w_session w = Some session \<and> returnRoute session)"
    using r a(3) by (auto simp: returnRouteOpen_def Let_def split: option.splits if_splits)
  ultimately show ?thesis using a(2) assms(2)
    by (intro exI [of _ sender] exI [of _ "outgoing reply_id incoming ctx sender a"])
      (auto simp: outgoing_def Let_def asOwnDid_def split: prod.splits option.splits)
qed

section \<open>At an example\<close>



theorem reply_to_proven_sender_witness:
  "\<exists>message. host_pack demo_host message = Some ''sealed'' \<and> out_to message = demo_A \<and> out_from message = demo_mediator \<and> out_thid message = ''r1''"
proof -
  have "dispatch ''r'' (demo_message demo_A [(''queries'', JNull)]) (demo_context demo_A) demo_world = (Inr (Some ''sealed''), demo_world)"
    by (simp add: dispatch_def returnRouteOpen_def demo_message_def demo_world_def handle_def property_of_def HANDLERS_def FORWARD_def
        replica_control_def REPLICA_CONTROLS_def replica_type_def REPLICA_MEDIATION_PROTOCOL_def demo_context_def demo_policy_def
        INHERITED_FUNCTIONS_def unknownType_def seal_def demo_host_def bind_act_def return_act_def)
  from reply_to_proven_sender [OF this, of demo_mediator]
  obtain message where "host_pack demo_host message = Some ''sealed''" "out_to message = demo_A" "out_from message = demo_mediator"
    "out_thid message = ''r1''"
    by (auto simp: demo_context_def demo_message_def)
  then show ?thesis by blast
qed

end
