(* ===== verification/Dasl_Cid.thy ===== *)
theory Dasl_Cid
  imports Estoc_Prelude Results Base64url
begin

text \<open>
  DASL CIDs, \<^verbatim>\<open>packages/dasl/src/cid.ts\<close>: the 36 bytes \<open>01 <codec> 12 20 <digest>\<close>
  and their one spelling. CIDs, base32 and sha-256 are the multiformats
  package's: what this file calls of it is the record \<open>multiformats\<close>, an argument
  of every definition that uses it, and \<open>multiformats_ok\<close> says what its
  documentation promises for a CID of the profile. A byte string is a \<^typ>\<open>string\<close>.
\<close>

definition RAW_CODE :: nat where "RAW_CODE = 0x55"
definition DRISL_CODE :: nat where "DRISL_CODE = 0x71"
definition SHA256_CODE :: nat where "SHA256_CODE = 0x12"
definition DIGEST_LENGTH :: nat where "DIGEST_LENGTH = 32"
definition CID_LENGTH :: nat where "CID_LENGTH = 36"

record DaslCid =
  cid_code :: nat
  cid_digest :: string
  cid_bytes :: string
  cid_text :: string

text \<open>multiformats' own \<open>CID\<close>: its codec, its bytes, and what \<open>toString(base32)\<close> gives.\<close>

record CID =
  mcid_code :: nat
  mcid_bytes :: string
  mcid_string :: string

record multiformats =
  baseEncode :: "string \<Rightarrow> string"
  baseDecode :: "string \<Rightarrow> string option"
  CID_decode :: "string \<Rightarrow> CID option"
  CID_create :: "nat \<Rightarrow> nat \<Rightarrow> string \<Rightarrow> CID"
  sha256 :: "string \<Rightarrow> string"

datatype cid_error =
  NotBase32 | NotCanonicalBase32
| WrongCidLength nat | WrongVersion nat | WrongCodec nat | WrongHash | WrongDigestLength | CidRefused
| NoBase32Prefix | NotCanonicalCid | WrongBytes string

definition base32Encode :: "multiformats \<Rightarrow> string \<Rightarrow> string" where
  "base32Encode mf bytes = baseEncode mf bytes"

definition base32Decode :: "multiformats \<Rightarrow> string \<Rightarrow> cid_error + string" where
  "base32Decode mf txt =
     (case baseDecode mf txt of
        None \<Rightarrow> Inl NotBase32
      | Some bytes \<Rightarrow> if baseEncode mf bytes \<noteq> txt then Inl NotCanonicalBase32 else Inr bytes)"

definition fromCid :: "CID \<Rightarrow> DaslCid" where
  "fromCid cid = \<lparr>cid_code = mcid_code cid, cid_digest = drop 4 (mcid_bytes cid), cid_bytes = mcid_bytes cid,
     cid_text = mcid_string cid\<rparr>"

definition octet :: "string \<Rightarrow> nat \<Rightarrow> nat" where
  "octet bytes i = of_char (bytes ! i)"

definition cidFromBytes :: "multiformats \<Rightarrow> string \<Rightarrow> cid_error + DaslCid" where
  "cidFromBytes mf bytes =
     (if length bytes \<noteq> CID_LENGTH then Inl (WrongCidLength (length bytes))
      else if octet bytes 0 \<noteq> 1 then Inl (WrongVersion (octet bytes 0))
      else if octet bytes 1 \<noteq> RAW_CODE \<and> octet bytes 1 \<noteq> DRISL_CODE then Inl (WrongCodec (octet bytes 1))
      else if octet bytes 2 \<noteq> SHA256_CODE then Inl WrongHash
      else if octet bytes 3 \<noteq> DIGEST_LENGTH then Inl WrongDigestLength
      else case CID_decode mf bytes of None \<Rightarrow> Inl CidRefused | Some cid \<Rightarrow> Inr (fromCid cid))"

definition parseCid :: "multiformats \<Rightarrow> string \<Rightarrow> cid_error + DaslCid" where
  "parseCid mf txt =
     (if take 1 txt \<noteq> ''b'' then Inl NoBase32Prefix
      else and_then (base32Decode mf (drop 1 txt)) (\<lambda>bytes.
           and_then (cidFromBytes mf bytes) (\<lambda>cid.
             if cid_text cid \<noteq> txt then Inl NotCanonicalCid else Inr cid)))"

definition isDaslCid :: "multiformats \<Rightarrow> string \<Rightarrow> bool" where
  "isDaslCid mf txt = (case parseCid mf txt of Inl _ \<Rightarrow> False | Inr _ \<Rightarrow> True)"

definition codecOf :: "multiformats \<Rightarrow> string \<Rightarrow> nat option" where
  "codecOf mf txt = map_option cid_code (caught (parseCid mf txt))"

definition cidOf :: "multiformats \<Rightarrow> nat \<Rightarrow> string \<Rightarrow> cid_error + DaslCid" where
  "cidOf mf code bytes =
     (if code \<noteq> RAW_CODE \<and> code \<noteq> DRISL_CODE then Inl (WrongCodec code)
      else Inr (fromCid (CID_create mf 1 code (sha256 mf bytes))))"

definition rawCid :: "multiformats \<Rightarrow> string \<Rightarrow> cid_error + string" where
  "rawCid mf bytes = and_then (cidOf mf RAW_CODE bytes) (\<lambda>cid. Inr (cid_text cid))"

definition drislCid :: "multiformats \<Rightarrow> string \<Rightarrow> cid_error + string" where
  "drislCid mf bytes = and_then (cidOf mf DRISL_CODE bytes) (\<lambda>cid. Inr (cid_text cid))"

text \<open>\<open>checkCid\<close> takes a string (\<^const>\<open>Inl\<close>) or a decoded CID (\<^const>\<open>Inr\<close>).\<close>

definition checkCid :: "multiformats \<Rightarrow> string + DaslCid \<Rightarrow> string \<Rightarrow> cid_error + DaslCid" where
  "checkCid mf cid bytes =
     and_then (case cid of Inl txt \<Rightarrow> parseCid mf txt | Inr cid \<Rightarrow> Inr cid) (\<lambda>want.
     and_then (cidOf mf (cid_code want) bytes) (\<lambda>got.
       if cid_text got \<noteq> cid_text want then Inl (WrongBytes (cid_text want)) else Inr want))"

text \<open>Bytewise order, the sign of the answer: the first byte that differs, else the shorter one first.\<close>

fun compareBytes :: "string \<Rightarrow> string \<Rightarrow> int" where
  "compareBytes [] b = - int (length b)"
| "compareBytes (x # a) [] = int (length (x # a))"
| "compareBytes (x # a) (y # b) =
     (let d = int (of_char x) - int (of_char y) in if d \<noteq> 0 then d else compareBytes a b)"

section \<open>What multiformats promises\<close>

definition cid_prefix :: "nat \<Rightarrow> string" where
  "cid_prefix code = [byte 1, byte code, byte SHA256_CODE, byte DIGEST_LENGTH]"

definition codec_ok :: "nat \<Rightarrow> bool" where
  "codec_ok code = (code = RAW_CODE \<or> code = DRISL_CODE)"

definition profile_cid :: "multiformats \<Rightarrow> nat \<Rightarrow> string \<Rightarrow> CID" where
  "profile_cid mf code digest = \<lparr>mcid_code = code, mcid_bytes = cid_prefix code @ digest,
     mcid_string = CHR ''b'' # baseEncode mf (cid_prefix code @ digest)\<rparr>"

text \<open>
  base32 decodes what it encoded; a sha-256 digest is 32 bytes; a version 1 CID
  made with a codec and a sha-256 digest, and one decoded from its bytes, are those
  bytes, spelled \<open>b\<close> and base32 lower.
\<close>

definition multiformats_ok :: "multiformats \<Rightarrow> bool" where
  "multiformats_ok mf \<longleftrightarrow>
     (\<forall>bytes. baseDecode mf (baseEncode mf bytes) = Some bytes) \<and>
     (\<forall>bytes. length (sha256 mf bytes) = DIGEST_LENGTH) \<and>
     (\<forall>code digest. codec_ok code \<longrightarrow> length digest = DIGEST_LENGTH \<longrightarrow>
        CID_create mf 1 code digest = profile_cid mf code digest \<and>
        CID_decode mf (cid_prefix code @ digest) = Some (profile_cid mf code digest))"

text \<open>The CID of the profile that names a digest.\<close>

definition named :: "multiformats \<Rightarrow> nat \<Rightarrow> string \<Rightarrow> DaslCid" where
  "named mf code digest = fromCid (profile_cid mf code digest)"

lemma codec_lt: "codec_ok code \<Longrightarrow> code < 256"
  by (auto simp: codec_ok_def RAW_CODE_def DRISL_CODE_def)

lemma named_simps [simp]:
  "cid_code (named mf code digest) = code" "cid_digest (named mf code digest) = digest"
  "cid_bytes (named mf code digest) = cid_prefix code @ digest"
  "cid_text (named mf code digest) = CHR ''b'' # baseEncode mf (cid_prefix code @ digest)"
  by (simp_all add: named_def fromCid_def profile_cid_def cid_prefix_def)

lemma cidOf_named:
  assumes "multiformats_ok mf"
  shows "cidOf mf code bytes = (if codec_ok code then Inr (named mf code (sha256 mf bytes)) else Inl (WrongCodec code))"
  using assms by (auto simp: cidOf_def named_def multiformats_ok_def codec_ok_def)

lemma bytes_split:
  assumes "length bytes = CID_LENGTH" and "octet bytes 0 = 1" and "octet bytes 1 = code"
    and "octet bytes 2 = SHA256_CODE" and "octet bytes 3 = DIGEST_LENGTH"
  shows "bytes = cid_prefix code @ drop 4 bytes"
proof -
  have o: "bytes ! i = byte (octet bytes i)" for i by (simp add: octet_def)
  have "take 4 bytes = map (nth bytes) [0..<4]" using assms(1) by (intro nth_equalityI) (auto simp: CID_LENGTH_def)
  also have "\<dots> = cid_prefix code" using assms(2-) by (simp add: o cid_prefix_def upt_rec numeral_eq_Suc)
  finally show ?thesis by (metis append_take_drop_id)
qed

lemma octets_prefix [simp]:
  assumes "codec_ok code"
  shows "octet (cid_prefix code @ digest) 0 = 1" "octet (cid_prefix code @ digest) 1 = code"
    "octet (cid_prefix code @ digest) (Suc 0) = code"
    "octet (cid_prefix code @ digest) 2 = SHA256_CODE" "octet (cid_prefix code @ digest) 3 = DIGEST_LENGTH"
  using codec_lt [OF assms]
  by (simp_all add: octet_def cid_prefix_def SHA256_CODE_def DIGEST_LENGTH_def byte_def)

lemma cidFromBytes_Inr:
  assumes "multiformats_ok mf"
  shows "cidFromBytes mf bytes = Inr cid \<longleftrightarrow>
    (\<exists>code digest. codec_ok code \<and> length digest = DIGEST_LENGTH \<and> bytes = cid_prefix code @ digest \<and>
       cid = named mf code digest)" (is "?l \<longleftrightarrow> ?r")
proof
  assume l: ?l
  then have len: "length bytes = CID_LENGTH" and o: "octet bytes 0 = 1" "octet bytes 2 = SHA256_CODE" "octet bytes 3 = DIGEST_LENGTH"
    and c: "codec_ok (octet bytes 1)" and cid: "map_option fromCid (CID_decode mf bytes) = Some cid"
    by (auto simp: cidFromBytes_def codec_ok_def split: if_splits option.splits)
  let ?d = "drop 4 bytes"
  have b: "bytes = cid_prefix (octet bytes 1) @ ?d" by (rule bytes_split [OF len o(1) refl o(2,3)])
  have d: "length ?d = DIGEST_LENGTH" using len by (simp add: CID_LENGTH_def DIGEST_LENGTH_def)
  have "CID_decode mf bytes = Some (profile_cid mf (octet bytes 1) ?d)"
    using assms c d by (subst b) (simp add: multiformats_ok_def)
  then have "cid = named mf (octet bytes 1) ?d" using cid by (simp add: named_def)
  then show ?r using b c d by blast
next
  assume ?r
  then obtain code digest where r: "codec_ok code" "length digest = DIGEST_LENGTH" "bytes = cid_prefix code @ digest"
    "cid = named mf code digest" by blast
  have "length bytes = CID_LENGTH" using r by (simp add: cid_prefix_def CID_LENGTH_def DIGEST_LENGTH_def)
  then show ?l using r assms by (auto simp: cidFromBytes_def multiformats_ok_def named_def codec_ok_def)
qed

text \<open>A decoded CID is determined by its bytes, and spells them.\<close>

definition dasl_cid :: "multiformats \<Rightarrow> DaslCid \<Rightarrow> bool" where
  "dasl_cid mf cid = (cidFromBytes mf (cid_bytes cid) = Inr cid)"

lemma dasl_cid_named:
  assumes "multiformats_ok mf"
  shows "dasl_cid mf cid \<longleftrightarrow> (\<exists>code digest. codec_ok code \<and> length digest = DIGEST_LENGTH \<and> cid = named mf code digest)"
  using assms by (auto simp: dasl_cid_def cidFromBytes_Inr)

lemma cidFromBytes_dasl:
  assumes "multiformats_ok mf" and "cidFromBytes mf bytes = Inr cid"
  shows "dasl_cid mf cid" and "cid_bytes cid = bytes" and "length bytes = 36"
  using assms by (auto simp: cidFromBytes_Inr dasl_cid_named cid_prefix_def DIGEST_LENGTH_def)

lemma baseEncode_inject:
  assumes "multiformats_ok mf"
  shows "baseEncode mf a = baseEncode mf b \<longleftrightarrow> a = b"
  using assms by (metis multiformats_ok_def option.inject)

lemma parseCid_Inr:
  assumes "multiformats_ok mf"
  shows "parseCid mf txt = Inr cid \<longleftrightarrow> dasl_cid mf cid \<and> cid_text cid = txt" (is "?l \<longleftrightarrow> ?r")
proof
  assume ?l
  then show ?r using cidFromBytes_dasl [OF assms] by (auto simp: parseCid_def split: if_splits)
next
  assume ?r
  then obtain code digest where r: "codec_ok code" "length digest = DIGEST_LENGTH" "cid = named mf code digest"
    and spelled: "txt = CHR ''b'' # baseEncode mf (cid_prefix code @ digest)" using dasl_cid_named [OF assms] by auto
  have "cidFromBytes mf (cid_prefix code @ digest) = Inr cid" using r cidFromBytes_Inr [OF assms] by auto
  then show ?l using assms r by (simp add: parseCid_def spelled base32Decode_def multiformats_ok_def)
qed

text \<open>The CIDs a check accepts: the name of exactly these bytes' digest.\<close>

lemma checkCid_Inr:
  assumes "multiformats_ok mf" and "dasl_cid mf cid"
  shows "checkCid mf (Inr cid) bytes = Inr want \<longleftrightarrow> want = cid \<and> cid_digest cid = sha256 mf bytes"
proof -
  obtain code digest where c: "codec_ok code" "length digest = DIGEST_LENGTH" "cid = named mf code digest"
    using assms dasl_cid_named by blast
  then show ?thesis using assms(1)
    by (auto simp: checkCid_def cidOf_named baseEncode_inject split: if_splits)
qed

lemma compareBytes_sign:
  "compareBytes a b < 0 \<longleftrightarrow> a < b" "compareBytes a b = 0 \<longleftrightarrow> a = b"
proof (induction a b rule: compareBytes.induct)
  case (1 b)
  { case 1 show ?case by (cases b) auto }
  { case 2 show ?case by (cases b) auto }
next
  case (2 x a)
  { case 1 show ?case by simp }
  { case 2 show ?case by simp }
next
  case (3 x a y b)
  have less: "(x < y) = ((of_char x :: nat) < of_char y)"
    by (simp add: less_char_def)
  have c: "compareBytes (x # a) (y # b) = (if x = y then compareBytes a b else int (of_char x) - int (of_char y))"
    by (simp add: Let_def)
  have ih: "x = y \<Longrightarrow> (compareBytes a b < 0) = (a < b)" "x = y \<Longrightarrow> (compareBytes a b = 0) = (a = b)"
    using "3.IH" by simp_all
  { case 1 show ?case unfolding c using ih(1) less by (cases "x = y") simp_all }
  { case 2 show ?case unfolding c using ih(2) by (cases "x = y") simp_all }
qed

end
