(* ===== verification/Unicode.thy ===== *)
theory Unicode
  imports Utf8 Base64url "HOL-Library.Word"
begin

text \<open>
  JavaScript strings as they are, lists of 16-bit code units, and their UTF-8
  bytes: \<open>TextEncoder.encode\<close>, \<open>TextDecoder\<close> with \<open>fatal\<close> and \<open>ignoreBOM\<close>, and
  the test for a lone surrogate of \<^verbatim>\<open>packages/dasl/src/drisl.ts\<close>. A string without
  a lone surrogate is recovered from its bytes, and the bytes that decode are
  those of exactly one string.
\<close>

type_synonym js_string = "16 word list"

definition is_high :: "16 word \<Rightarrow> bool" where
  "is_high u = (0xD800 \<le> unat u \<and> unat u \<le> 0xDBFF)"

definition is_low :: "16 word \<Rightarrow> bool" where
  "is_low u = (0xDC00 \<le> unat u \<and> unat u \<le> 0xDFFF)"

definition starts_low :: "js_string \<Rightarrow> bool" where
  "starts_low s = (case s of [] \<Rightarrow> False | u # us \<Rightarrow> is_low u)"

text \<open>\<open>LONE_SURROGATE.test\<close>: a high surrogate with no low one after it, or a low one with no high one before it.\<close>

fun lone_after :: "bool \<Rightarrow> js_string \<Rightarrow> bool" where
  "lone_after high_before [] = False"
| "lone_after high_before (u # us) =
     (is_high u \<and> \<not> starts_low us \<or> is_low u \<and> \<not> high_before \<or> lone_after (is_high u) us)"

definition LONE_SURROGATE :: "js_string \<Rightarrow> bool" where
  "LONE_SURROGATE s = lone_after False s"

text \<open>The code points a string spells, a lone surrogate read as U+FFFD.\<close>

definition single_point :: "16 word \<Rightarrow> nat" where
  "single_point u = (if is_high u \<or> is_low u then 0xFFFD else unat u)"

definition pair_point :: "16 word \<Rightarrow> 16 word \<Rightarrow> nat" where
  "pair_point u v = 0x10000 + (unat u - 0xD800) * 1024 + (unat v - 0xDC00)"

fun code_points :: "js_string \<Rightarrow> nat list" where
  "code_points [] = []"
| "code_points [u] = [single_point u]"
| "code_points (u # v # us) =
     (if is_high u \<and> is_low v then pair_point u v # code_points us else single_point u # code_points (v # us))"

definition point_units :: "nat \<Rightarrow> js_string" where
  "point_units n =
     (if n < 0x10000 then [of_nat n]
      else [of_nat (0xD800 + (n - 0x10000) div 1024), of_nat (0xDC00 + (n - 0x10000) mod 1024)])"

definition point_bytes :: "nat \<Rightarrow> string" where
  "point_bytes n =
     (if n < 0x80 then [byte n]
      else if n < 0x800 then [byte (0xC0 + n div 64), byte (0x80 + n mod 64)]
      else if n < 0x10000 then [byte (0xE0 + n div 4096), byte (0x80 + n div 64 mod 64), byte (0x80 + n mod 64)]
      else [byte (0xF0 + n div 262144), byte (0x80 + n div 4096 mod 64), byte (0x80 + n div 64 mod 64), byte (0x80 + n mod 64)])"

definition utf8_encode :: "js_string \<Rightarrow> string" where
  "utf8_encode s = concat (map point_bytes (code_points s))"

text \<open>What a trailing byte adds, and the decoder: the well-formed sequences of the Unicode table, or nothing.\<close>

definition low6 :: "char \<Rightarrow> nat" where
  "low6 c = of_char c - 0x80"

fun decode_points :: "string \<Rightarrow> nat list option" where
  "decode_points [] = Some []"
| "decode_points (a # rest) =
     (if in_range 0 127 a then map_option (Cons (of_char a)) (decode_points rest)
      else case rest of [] \<Rightarrow> None | b # rest2 \<Rightarrow>
        if in_range 194 223 a
        then if in_range 128 191 b
             then map_option (Cons ((of_char a - 0xC0) * 64 + low6 b)) (decode_points rest2) else None
        else case rest2 of [] \<Rightarrow> None | c # rest3 \<Rightarrow>
          if in_range 224 239 a
          then if in_range (if in_range 224 224 a then 160 else 128) (if in_range 237 237 a then 159 else 191) b \<and>
                  in_range 128 191 c
               then map_option (Cons ((of_char a - 0xE0) * 4096 + low6 b * 64 + low6 c)) (decode_points rest3) else None
          else case rest3 of [] \<Rightarrow> None | d # rest4 \<Rightarrow>
            if in_range 240 244 a \<and>
               in_range (if in_range 240 240 a then 144 else 128) (if in_range 244 244 a then 143 else 191) b \<and>
               in_range 128 191 c \<and> in_range 128 191 d
            then map_option (Cons ((of_char a - 0xF0) * 262144 + low6 b * 4096 + low6 c * 64 + low6 d)) (decode_points rest4)
            else None)"

definition utf8_decode :: "string \<Rightarrow> js_string option" where
  "utf8_decode bytes = map_option (\<lambda>ps. concat (map point_units ps)) (decode_points bytes)"

text \<open>A text of ASCII characters, as the source's string literals are.\<close>

definition js :: "string \<Rightarrow> js_string" where
  "js s = map (\<lambda>c. of_nat (of_char c)) s"

section \<open>Code points\<close>

definition scalar :: "nat \<Rightarrow> bool" where
  "scalar n = (n < 0xD800 \<or> 0xE000 \<le> n \<and> n < 0x110000)"

lemma of_char_byte [simp]: "n < 256 \<Longrightarrow> (of_char (byte n) :: nat) = n"
  by (simp add: byte_def)

lemma unat_unit [simp]: "n < 65536 \<Longrightarrow> unat (of_nat n :: 16 word) = n"
  by (simp add: unat_of_nat)

lemma unit_lt [simp]: "unat (u :: 16 word) < 65536"
  using unsigned_less [of u] by simp

lemma decode_point_1: "n < 0x80 \<Longrightarrow> decode_points (point_bytes n @ rest) = map_option (Cons n) (decode_points rest)"
  by (simp add: point_bytes_def in_range_def)

lemma decode_point_2:
  assumes "0x80 \<le> n" and "n < 0x800"
  shows "decode_points (point_bytes n @ rest) = map_option (Cons n) (decode_points rest)"
proof -
  obtain h l where n: "n = h * 64 + l" "l < 64" by (metis div_mult_mod_eq mod_less_divisor zero_less_numeral)
  then have "2 \<le> h" "h < 32" using assms by linarith+
  then show ?thesis using n assms by (simp add: point_bytes_def in_range_def low6_def)
qed

lemma decode_point_3:
  assumes "0x800 \<le> n" and "n < 0x10000" and "scalar n"
  shows "decode_points (point_bytes n @ rest) = map_option (Cons n) (decode_points rest)"
proof -
  obtain m l where m: "n = m * 64 + l" "l < 64" by (metis div_mult_mod_eq mod_less_divisor zero_less_numeral)
  obtain h k where h: "m = h * 64 + k" "k < 64" by (metis div_mult_mod_eq mod_less_divisor zero_less_numeral)
  have b: "h < 16" "h = 0 \<longrightarrow> 32 \<le> k" "h = 13 \<longrightarrow> k < 32" using assms m h by (auto simp: scalar_def)
  have e: "n div 64 = m" "n mod 64 = l" "m div 64 = h" "m mod 64 = k" unfolding m(1) h(1) by (simp_all only: digit_join m(2) h(2))
  have d: "n div 4096 = h" "n div 64 mod 64 = k" "n mod 64 = l" using e div_mult2_eq [of n 64 64] by simp_all
  have s: "h * 4096 + k * 64 + l = n" using m h by simp
  show ?thesis using assms(1,2) b m(2) h(2) by (auto simp: point_bytes_def in_range_def low6_def d s)
qed

lemma decode_point_4:
  assumes "0x10000 \<le> n" and "n < 0x110000"
  shows "decode_points (point_bytes n @ rest) = map_option (Cons n) (decode_points rest)"
proof -
  obtain m l where m: "n = m * 64 + l" "l < 64" by (metis div_mult_mod_eq mod_less_divisor zero_less_numeral)
  obtain q k where q: "m = q * 64 + k" "k < 64" by (metis div_mult_mod_eq mod_less_divisor zero_less_numeral)
  obtain h j where h: "q = h * 64 + j" "j < 64" by (metis div_mult_mod_eq mod_less_divisor zero_less_numeral)
  have b: "h < 5" "h = 0 \<longrightarrow> 16 \<le> j" "h = 4 \<longrightarrow> j < 16" using assms m q h by auto
  have e: "n div 64 = m" "n mod 64 = l" "m div 64 = q" "m mod 64 = k" "q div 64 = h" "q mod 64 = j"
    unfolding m(1) q(1) h(1) by (simp_all only: digit_join m(2) q(2) h(2))
  have d: "n div 262144 = h" "n div 4096 mod 64 = j" "n div 64 mod 64 = k" "n mod 64 = l"
    using e div_mult2_eq [of n 64 64] div_mult2_eq [of n 4096 64] by simp_all
  have s: "h * 262144 + j * 4096 + k * 64 + l = n" using m q h by simp
  show ?thesis using assms b m(2) q(2) h(2) by (auto simp: point_bytes_def in_range_def low6_def d s)
qed

lemma decode_point:
  assumes "scalar n"
  shows "decode_points (point_bytes n @ rest) = map_option (Cons n) (decode_points rest)"
proof -
  consider "n < 0x80" | "0x80 \<le> n" "n < 0x800" | "0x800 \<le> n" "n < 0x10000" | "0x10000 \<le> n" "n < 0x110000"
    using assms by (force simp: scalar_def)
  then show ?thesis using assms decode_point_1 decode_point_2 decode_point_3 decode_point_4 by cases blast+
qed

lemma decode_points_complete:
  "list_all scalar ps \<Longrightarrow> decode_points (concat (map point_bytes ps)) = Some ps"
  by (induction ps) (simp_all add: decode_point del: decode_points.simps(2))

lemma point_read_1:
  assumes "in_range 0 127 a"
  shows "scalar (of_char a)" and "point_bytes (of_char a) = [a]"
  using assms by (auto simp: in_range_def scalar_def point_bytes_def)

lemma point_read_2:
  assumes "in_range 194 223 a" and "in_range 128 191 b"
  shows "scalar ((of_char a - 0xC0) * 64 + low6 b)" and "point_bytes ((of_char a - 0xC0) * 64 + low6 b) = [a, b]"
proof -
  define h l where "h = (of_char a :: nat) - 0xC0" and "l = low6 b"
  have v: "of_char a = 0xC0 + h" "of_char b = 0x80 + l" and c: "2 \<le> h" "h < 32" "l < 64"
    using assms by (auto simp: h_def l_def low6_def in_range_def)
  have w: "a = byte (0xC0 + h)" "b = byte (0x80 + l)" unfolding v [symmetric] by simp_all
  show "scalar ((of_char a - 0xC0) * 64 + low6 b)" "point_bytes ((of_char a - 0xC0) * 64 + low6 b) = [a, b]"
    unfolding h_def [symmetric] l_def [symmetric] using c by (auto simp: w scalar_def point_bytes_def)
qed

lemma point_read_3:
  assumes "in_range 224 239 a" and "in_range (if in_range 224 224 a then 160 else 128) (if in_range 237 237 a then 159 else 191) b"
    and "in_range 128 191 c"
  shows "scalar ((of_char a - 0xE0) * 4096 + low6 b * 64 + low6 c)"
    and "point_bytes ((of_char a - 0xE0) * 4096 + low6 b * 64 + low6 c) = [a, b, c]"
proof -
  define h k l where "h = (of_char a :: nat) - 0xE0" and "k = low6 b" and "l = low6 c"
  have v: "of_char a = 0xE0 + h" "of_char b = 0x80 + k" "of_char c = 0x80 + l"
    and r: "h < 16" "h = 0 \<longrightarrow> 32 \<le> k" "h = 13 \<longrightarrow> k < 32" "k < 64" "l < 64"
    using assms by (auto simp: h_def k_def l_def low6_def in_range_def split: if_splits)
  have w: "a = byte (0xE0 + h)" "b = byte (0x80 + k)" "c = byte (0x80 + l)" unfolding v [symmetric] by simp_all
  define n where "n = (h * 64 + k) * 64 + l"
  have e: "n div 64 = h * 64 + k" "n mod 64 = l" unfolding n_def by (simp_all only: digit_join r)
  have d: "n div 4096 = h" "n div 64 mod 64 = k" "n mod 64 = l" using e div_mult2_eq [of n 64 64] r by simp_all
  have n: "(of_char a - 0xE0) * 4096 + low6 b * 64 + low6 c = n" by (simp add: n_def h_def k_def l_def)
  have "0x800 \<le> n" "n < 0x10000" using r by (auto simp: n_def)
  moreover have "h \<le> 12 \<or> h = 13 \<or> 14 \<le> h" by arith
  then have "scalar n" using r by (auto simp: n_def scalar_def)
  ultimately show "scalar ((of_char a - 0xE0) * 4096 + low6 b * 64 + low6 c)"
    "point_bytes ((of_char a - 0xE0) * 4096 + low6 b * 64 + low6 c) = [a, b, c]"
    unfolding n by (simp_all add: point_bytes_def d w)
qed

lemma point_read_4:
  assumes "in_range 240 244 a" and "in_range (if in_range 240 240 a then 144 else 128) (if in_range 244 244 a then 143 else 191) b"
    and "in_range 128 191 c" and "in_range 128 191 d"
  shows "scalar ((of_char a - 0xF0) * 262144 + low6 b * 4096 + low6 c * 64 + low6 d)"
    and "point_bytes ((of_char a - 0xF0) * 262144 + low6 b * 4096 + low6 c * 64 + low6 d) = [a, b, c, d]"
proof -
  define h j k l where "h = (of_char a :: nat) - 0xF0" and "j = low6 b" and "k = low6 c" and "l = low6 d"
  have v: "of_char a = 0xF0 + h" "of_char b = 0x80 + j" "of_char c = 0x80 + k" "of_char d = 0x80 + l"
    and r: "h < 5" "h = 0 \<longrightarrow> 16 \<le> j" "h = 4 \<longrightarrow> j < 16" "j < 64" "k < 64" "l < 64"
    using assms by (auto simp: h_def j_def k_def l_def low6_def in_range_def split: if_splits)
  have w: "a = byte (0xF0 + h)" "b = byte (0x80 + j)" "c = byte (0x80 + k)" "d = byte (0x80 + l)"
    unfolding v [symmetric] by simp_all
  define n where "n = ((h * 64 + j) * 64 + k) * 64 + l"
  have e0: "n div 64 = (h * 64 + j) * 64 + k" "n mod 64 = l" "((h * 64 + j) * 64 + k) div 64 = h * 64 + j"
    "((h * 64 + j) * 64 + k) mod 64 = k"
    unfolding n_def by (simp_all only: digit_join r)
  then have e: "n div 4096 = h * 64 + j" using div_mult2_eq [of n 64 64] by simp
  have q: "n div 262144 = h" "n div 4096 mod 64 = j" "n div 64 mod 64 = k" "n mod 64 = l"
    using e e0 div_mult2_eq [of n 4096 64] r by simp_all
  have n: "(of_char a - 0xF0) * 262144 + low6 b * 4096 + low6 c * 64 + low6 d = n"
    by (simp add: n_def h_def j_def k_def l_def)
  have "0x10000 \<le> n" "n < 0x110000" using r by (cases "h = 0"; cases "h = 4"; simp add: n_def)+
  then show "scalar ((of_char a - 0xF0) * 262144 + low6 b * 4096 + low6 c * 64 + low6 d)"
    "point_bytes ((of_char a - 0xF0) * 262144 + low6 b * 4096 + low6 c * 64 + low6 d) = [a, b, c, d]"
    unfolding n by (simp_all add: point_bytes_def q w scalar_def)
qed

lemma decode_points_sound:
  "decode_points bytes = Some ps \<Longrightarrow> list_all scalar ps \<and> concat (map point_bytes ps) = bytes"
proof (induction bytes arbitrary: ps rule: decode_points.induct)
  case (2 a rest)
  show ?case
  proof (cases "in_range 0 127 a")
    case True
    then show ?thesis using "2.prems" "2.IH"(1) point_read_1 by auto
  next
    case one: False
    then obtain b rest2 where rest: "rest = b # rest2" using "2.prems" by (auto split: list.splits)
    show ?thesis
    proof (cases "in_range 194 223 a")
      case True
      then show ?thesis using one "2.prems" "2.IH"(2) [OF one rest] point_read_2 [of a b] by (auto simp: rest split: if_splits)
    next
      case two: False
      then obtain c rest3 where rest2: "rest2 = c # rest3" using one "2.prems" by (auto simp: rest split: list.splits)
      show ?thesis
      proof (cases "in_range 224 239 a")
        case True
        note ih = "2.IH"(3) [OF one rest two rest2 True] and new = point_read_3 [OF True]
        show ?thesis using one two True "2.prems" ih new by (auto simp: rest rest2 simp del: if_split split: if_splits)
      next
        case three: False
        then obtain d rest4 where rest3: "rest3 = d # rest4" using one two "2.prems" by (auto simp: rest rest2 split: list.splits)
        show ?thesis using one two three "2.prems" "2.IH"(4) [OF one rest two rest2 three rest3] point_read_4 [of a b c d]
          by (auto simp: rest rest2 rest3 split: if_splits)
      qed
    qed
  qed
qed simp

section \<open>Code units\<close>

lemma single_unit:
  assumes "\<not> is_high u" and "\<not> is_low u"
  shows "scalar (single_point u)" and "point_units (single_point u) = [u]"
proof -
  have "unat u < 0x110000" using unit_lt [of u] by (rule less_trans) simp
  then show "scalar (single_point u)" "point_units (single_point u) = [u]"
    using assms by (auto simp: single_point_def scalar_def point_units_def is_high_def is_low_def)
qed

lemma pair_units:
  assumes "is_high u" and "is_low v"
  shows "scalar (pair_point u v)" and "point_units (pair_point u v) = [u, v]"
proof -
  define h l where "h = unat u - 0xD800" and "l = unat v - 0xDC00"
  have v: "unat u = 0xD800 + h" "unat v = 0xDC00 + l" and b: "h < 1024" "l < 1024"
    using assms by (auto simp: is_high_def is_low_def h_def l_def)
  have p: "pair_point u v = 0x10000 + (h * 1024 + l)" by (simp add: pair_point_def h_def l_def)
  have d: "(h * 1024 + l) div 1024 = h" "(h * 1024 + l) mod 1024 = l" by (simp_all only: digit_join b)
  show "scalar (pair_point u v)" using b by (simp add: p scalar_def)
  have "point_units (pair_point u v) = [of_nat (0xD800 + h), of_nat (0xDC00 + l)]"
    using b d by (simp add: p point_units_def)
  then show "point_units (pair_point u v) = [u, v]" by (simp add: v [symmetric] del: of_nat_add)
qed

lemma code_points_units:
  "\<not> lone_after False s \<Longrightarrow> list_all scalar (code_points s) \<and> concat (map point_units (code_points s)) = s"
proof (induction s rule: code_points.induct)
  case (2 u)
  then show ?case using single_unit [of u] by (auto simp: starts_low_def)
next
  case (3 u v us)
  show ?case
  proof (cases "is_high u \<and> is_low v")
    case True
    have "\<not> is_high v" using True by (auto simp: is_high_def is_low_def)
    then have "\<not> lone_after False us" using "3.prems" True by auto
    then show ?thesis using "3.IH"(1) [OF True] True pair_units [of u v] by simp
  next
    case False
    then have u: "\<not> is_high u" "\<not> is_low u" using "3.prems" by (auto simp: starts_low_def)
    then have "\<not> lone_after False (v # us)" using "3.prems" by simp
    then show ?thesis using "3.IH"(2) [OF False] False single_unit [OF u] by simp
  qed
qed simp

lemma units_single:
  assumes "n < 0x10000" and "scalar n"
  shows "point_units n = [of_nat n]" and "\<not> is_high (of_nat n)" and "\<not> is_low (of_nat n)"
    and "single_point (of_nat n) = n"
  using assms by (auto simp: point_units_def is_high_def is_low_def single_point_def scalar_def)

lemma units_pair:
  assumes "0x10000 \<le> n" and "scalar n"
  obtains u v where "point_units n = [u, v]" and "is_high u" and "is_low v" and "pair_point u v = n"
proof -
  define m where "m = n - 0x10000"
  have n: "n = 0x10000 + m" and m: "m < 1024 * 1024" using assms by (auto simp: m_def scalar_def)
  have d: "m div 1024 < 1024" "m mod 1024 < 1024" using m by (simp_all add: less_mult_imp_div_less)
  have w: "unat (of_nat (0xD800 + m div 1024) :: 16 word) = 0xD800 + m div 1024"
    "unat (of_nat (0xDC00 + m mod 1024) :: 16 word) = 0xDC00 + m mod 1024"
    using d by (intro unat_unit; simp)+
  show thesis
  proof (rule that)
    show "point_units n = [of_nat (0xD800 + m div 1024), of_nat (0xDC00 + m mod 1024)]"
      by (simp add: n point_units_def)
    show "is_high (of_nat (0xD800 + m div 1024))" "is_low (of_nat (0xDC00 + m mod 1024))"
      unfolding is_high_def is_low_def using w d by simp_all
    show "pair_point (of_nat (0xD800 + m div 1024)) (of_nat (0xDC00 + m mod 1024)) = n"
      unfolding pair_point_def w using m by (simp add: n)
  qed
qed

lemma units_code_points:
  "list_all scalar ps \<Longrightarrow> \<not> lone_after False (concat (map point_units ps)) \<and> code_points (concat (map point_units ps)) = ps"
proof (induction ps)
  case (Cons n ps)
  let ?rest = "concat (map point_units ps)"
  have ih: "\<not> lone_after False ?rest" "code_points ?rest = ps" and n: "scalar n" using Cons by auto
  show ?case
  proof (cases "n < 0x10000")
    case True
    note u = units_single [OF True n]
    show ?thesis using ih u by (cases ?rest) auto
  next
    case False
    then obtain u v where u: "point_units n = [u, v]" "is_high u" "is_low v" "pair_point u v = n" using units_pair [OF _ n] by auto
    have "\<not> is_high v" "\<not> is_low u" using u by (auto simp: is_high_def is_low_def)
    then show ?thesis using ih u by (simp add: starts_low_def)
  qed
qed simp

text \<open>A text with no lone surrogate has one encoding, and the bytes that decode are some text's.\<close>

theorem utf8_decode_encode: "\<not> LONE_SURROGATE s \<Longrightarrow> utf8_decode (utf8_encode s) = Some s"
  using code_points_units [of s] by (auto simp: LONE_SURROGATE_def utf8_decode_def utf8_encode_def decode_points_complete)

theorem utf8_encode_decode: "utf8_decode bytes = Some s \<Longrightarrow> \<not> LONE_SURROGATE s \<and> utf8_encode s = bytes"
  using decode_points_sound [of bytes] units_code_points by (force simp: LONE_SURROGATE_def utf8_decode_def utf8_encode_def)

end
