(* ===== verification/Binary64.thy ===== *)
theory Binary64
  imports Main "HOL-Library.Word"
begin

text \<open>
  JavaScript numbers by their 64 bits (IEEE 754 binary64), as far as the codecs
  look into them: \<open>Number.isFinite\<close>, \<open>Object.is(x, -0)\<close>, \<open>Number.isSafeInteger\<close> with
  the integer a number then is, and the number of a safe integer.
\<close>

type_synonym double = "64 word"

definition negative :: "double \<Rightarrow> bool" where
  "negative d = (2 ^ 63 \<le> unat d)"

definition biased_exponent :: "double \<Rightarrow> nat" where
  "biased_exponent d = unat d div 2 ^ 52 mod 2 ^ 11"

definition fraction :: "double \<Rightarrow> nat" where
  "fraction d = unat d mod 2 ^ 52"

definition isFinite :: "double \<Rightarrow> bool" where
  "isFinite d = (biased_exponent d \<noteq> 2047)"

definition negative_zero :: double where
  "negative_zero = of_nat (2 ^ 63)"

text \<open>
  \<open>1023 + k\<close> is the exponent of the numbers from \<open>2\<^sup>k\<close> up to \<open>2\<^sup>k\<^sup>+\<^sup>1\<close>, a multiple of
  \<open>2\<^sup>k\<^sup>-\<^sup>5\<^sup>2\<close> each; a safe integer is below \<open>2\<^sup>5\<^sup>3\<close>.
\<close>

definition safe_magnitude :: "double \<Rightarrow> nat option" where
  "safe_magnitude d =
     (let e = biased_exponent d; m = 2 ^ 52 + fraction d in
      if e = 0 then if fraction d = 0 then Some 0 else None
      else if 1023 \<le> e \<and> e \<le> 1075 \<and> m mod 2 ^ (1075 - e) = 0 then Some (m div 2 ^ (1075 - e))
      else None)"

definition safe_integer :: "double \<Rightarrow> int option" where
  "safe_integer d = map_option (\<lambda>n. if negative d then - int n else int n) (safe_magnitude d)"

definition isSafeInteger :: "double \<Rightarrow> bool" where
  "isSafeInteger d = (safe_integer d \<noteq> None)"

definition MAX_SAFE_INTEGER :: int where
  "MAX_SAFE_INTEGER = 2 ^ 53 - 1"

definition MIN_SAFE_INTEGER :: int where
  "MIN_SAFE_INTEGER = - (2 ^ 53 - 1)"

fun bit_length :: "nat \<Rightarrow> nat" where
  "bit_length n = (if n = 0 then 0 else Suc (bit_length (n div 2)))"

declare bit_length.simps [simp del]

text \<open>\<open>Number(v)\<close> for a safe integer.\<close>

definition number_from :: "int \<Rightarrow> double" where
  "number_from v =
     (let n = nat \<bar>v\<bar>; len = bit_length n in
      if n = 0 then 0 else of_nat ((if v < 0 then 2 ^ 63 else 0) + (1021 + len) * 2 ^ 52 + n * 2 ^ (53 - len)))"

lemma bit_length_bounds: "0 < n \<Longrightarrow> 2 ^ (bit_length n - 1) \<le> n \<and> n < 2 ^ bit_length n \<and> 0 < bit_length n"
proof (induction n rule: bit_length.induct)
  case (1 n)
  show ?case
  proof (cases "n = 1")
    case True
    then show ?thesis by (simp add: bit_length.simps)
  next
    case False
    let ?k = "bit_length (n div 2)"
    have pos: "0 < n div 2" using "1.prems" False by simp
    then have ih: "2 ^ (?k - 1) \<le> n div 2" "n div 2 < 2 ^ ?k" "0 < ?k" using 1 by auto
    have b: "bit_length n = Suc ?k" using "1.prems" by (subst bit_length.simps) simp
    have p: "(2 :: nat) ^ ?k = 2 * 2 ^ (?k - 1)" using ih(3) by (simp add: power_eq_if)
    have h: "2 * (n div 2) \<le> n" "n < 2 * (n div 2) + 2" by simp_all
    have "2 ^ ?k \<le> n" unfolding p using ih(1) h(1) by linarith
    moreover have "n < 2 * 2 ^ ?k" using ih(2) h(2) by linarith
    ultimately have "2 ^ ?k \<le> n" "n < 2 ^ Suc ?k" by simp_all
    then show ?thesis by (simp add: b)
  qed
qed

lemma bit_length_le: "0 < n \<Longrightarrow> n < 2 ^ k \<Longrightarrow> bit_length n \<le> k"
proof -
  assume "0 < n" "n < 2 ^ k"
  then have "2 ^ (bit_length n - 1) < (2 :: nat) ^ k" using bit_length_bounds [of n] le_less_trans by blast
  then show "bit_length n \<le> k" using power_less_imp_less_exp [of 2 "bit_length n - 1" k] by simp
qed

lemma unat_double [simp]: "n < 2 ^ 64 \<Longrightarrow> unat (of_nat n :: double) = n"
  by (simp add: unat_of_nat)

text \<open>The fields of a number, from the bits they are put together from.\<close>

lemma double_fields:
  fixes s :: bool
  assumes "e < 2 ^ 11" and "f < 2 ^ 52"
  defines "d \<equiv> (of_nat ((if s then 2 ^ 63 else 0) + e * 2 ^ 52 + f) :: double)"
  shows "negative d = s" and "biased_exponent d = e" and "fraction d = f"
proof -
  let ?n = "(if s then 2 ^ 63 else 0) + e * 2 ^ 52 + f"
  have "e * 2 ^ 52 \<le> (2 ^ 11 - 1) * 2 ^ 52" using assms(1) by (intro mult_right_mono) auto
  then have low: "e * 2 ^ 52 + f < 2 ^ 63" using assms(2) by simp
  then have u: "unat d = ?n" unfolding d_def by (intro unat_double) auto
  have n: "?n = ((if s then 2 ^ 11 else 0) + e) * 2 ^ 52 + f" by simp
  have q: "?n div 2 ^ 52 = (if s then 2 ^ 11 else 0) + e" and r: "?n mod 2 ^ 52 = f"
    unfolding n using assms(2) by (simp_all only: div_mult_self3 div_less mod_mult_self3 mod_less power_not_zero zero_neq_numeral) simp_all
  show "negative d = s" unfolding negative_def u using low by auto
  show "fraction d = f" unfolding fraction_def u by (rule r)
  show "biased_exponent d = e" unfolding biased_exponent_def u q using assms(1) by simp
qed

lemma safe_number_from:
  assumes "\<bar>v\<bar> < 2 ^ 53"
  shows "safe_integer (number_from v) = Some v"
proof (cases "v = 0")
  case True
  then show ?thesis
    by (simp add: number_from_def safe_integer_def safe_magnitude_def biased_exponent_def fraction_def negative_def)
next
  case False
  define n where "n = nat \<bar>v\<bar>"
  define len where "len = bit_length n"
  define m where "m = n * 2 ^ (53 - len)"
  have n: "0 < n" "n < 2 ^ 53" using False assms by (auto simp: n_def nat_less_iff)
  have len: "2 ^ (len - 1) \<le> n" "n < 2 ^ len" "0 < len" "len \<le> 53"
    using bit_length_bounds [OF n(1)] bit_length_le [OF n] by (auto simp: len_def)
  have "2 ^ 52 = (2 :: nat) ^ (len - 1) * 2 ^ (53 - len)" "2 ^ 53 = (2 :: nat) ^ len * 2 ^ (53 - len)"
    using len(3,4) by (simp_all flip: power_add)
  then have m: "2 ^ 52 \<le> m" "m < 2 ^ 53" using len(1,2) unfolding m_def by (simp_all only: mult_right_mono mult_strict_right_mono zero_le zero_less_power zero_less_numeral)
  define f where "f = m - 2 ^ 52"
  have f: "f < 2 ^ 52" "m = 2 ^ 52 + f" using m by (auto simp: f_def)
  have "(1021 + len) * 2 ^ 52 + m = (1022 + len) * 2 ^ 52 + f" using f(2) by (simp add: algebra_simps)
  then have "number_from v = of_nat ((if v < 0 then 2 ^ 63 else 0) + (1022 + len) * 2 ^ 52 + f)"
    using n(1) by (simp add: number_from_def Let_def n_def [symmetric] len_def [symmetric] m_def [symmetric] add.assoc)
  moreover have "1022 + len < 2 ^ 11" using len(4) by simp
  ultimately have d: "negative (number_from v) = (v < 0)" "biased_exponent (number_from v) = 1022 + len"
    "fraction (number_from v) = f"
    using double_fields [OF _ f(1), of "1022 + len" "v < 0"] by metis+
  have "(2 ^ 52 + f) mod 2 ^ (53 - len) = 0" "(2 ^ 52 + f) div 2 ^ (53 - len) = n"
    unfolding f(2) [symmetric] m_def by simp_all
  note g = this [simplified]
  have "1075 - (1022 + len) = 53 - len" using len(4) by simp
  then have "safe_magnitude (number_from v) = Some n"
    using len(3,4) g by (simp add: safe_magnitude_def d Let_def)
  then show ?thesis using False by (simp add: safe_integer_def d n_def)
qed

lemma safe_magnitude_bound: "safe_magnitude d = Some n \<Longrightarrow> n < 2 ^ 53"
proof -
  assume s: "safe_magnitude d = Some n"
  have "fraction d < 2 ^ 52" by (simp add: fraction_def)
  then have m: "2 ^ 52 + fraction d < 2 ^ 53" by simp
  have "(2 ^ 52 + fraction d) div 2 ^ k < 2 ^ 53" for k by (rule le_less_trans [OF div_le_dividend m])
  then show "n < 2 ^ 53" using s by (auto simp: safe_magnitude_def Let_def split: if_splits)
qed

lemma safe_integer_bound: "safe_integer d = Some v \<Longrightarrow> \<bar>v\<bar> < 2 ^ 53"
  using safe_magnitude_bound [of d] by (auto simp: safe_integer_def nat_less_iff split: if_splits)

lemma safe_finite: "safe_integer d = Some v \<Longrightarrow> isFinite d"
  by (auto simp: safe_integer_def safe_magnitude_def isFinite_def Let_def split: if_splits)

lemma negative_zero_safe: "safe_integer negative_zero = Some 0"
  by (simp add: negative_zero_def safe_integer_def safe_magnitude_def biased_exponent_def fraction_def negative_def)

end
