(* ===== verification/Collections.thy ===== *)
theory Collections
  imports Main "HOL-Library.Multiset"
begin

text \<open>
  JavaScript's collections as lists: \<open>Array.prototype.sort\<close> with a comparator, which is
  stable, and a \<open>Set\<close>, whose elements keep the order they were first added in.
\<close>

fun insert_by :: "('a \<Rightarrow> 'a \<Rightarrow> int) \<Rightarrow> 'a \<Rightarrow> 'a list \<Rightarrow> 'a list" where
  "insert_by compare x [] = [x]"
| "insert_by compare x (y # ys) = (if compare x y \<le> 0 then x # y # ys else y # insert_by compare x ys)"

definition sort_by :: "('a \<Rightarrow> 'a \<Rightarrow> int) \<Rightarrow> 'a list \<Rightarrow> 'a list" where
  "sort_by compare xs = foldr (insert_by compare) xs []"

definition add_new :: "'a \<Rightarrow> 'a list \<Rightarrow> 'a list" where
  "add_new x xs = (if x \<in> set xs then xs else xs @ [x])"

definition add_all :: "'a list \<Rightarrow> 'a list \<Rightarrow> 'a list" where
  "add_all xs new = fold add_new new xs"

lemma sort_by_key:
  assumes "\<And>x y. compare x y \<le> 0 \<longleftrightarrow> f x \<le> f y"
  shows "sort_by compare xs = sort_key f xs"
proof -
  have "insert_by compare x ys = insort_key f x ys" for x ys by (induction ys) (simp_all add: assms)
  then show ?thesis by (induction xs) (simp_all add: sort_by_def sort_key_def)
qed

lemma set_insert_by [simp]: "set (insert_by compare x ys) = insert x (set ys)"
  by (induction ys) auto

lemma set_sort_by [simp]: "set (sort_by compare xs) = set xs"
  by (induction xs) (simp_all add: sort_by_def)

lemma distinct_insert_by: "distinct (insert_by compare x ys) \<longleftrightarrow> x \<notin> set ys \<and> distinct ys"
  by (induction ys) auto

lemma distinct_sort_by [simp]: "distinct (sort_by compare xs) \<longleftrightarrow> distinct xs"
proof (induction xs)
  case (Cons x xs)
  have "sort_by compare (x # xs) = insert_by compare x (sort_by compare xs)" by (simp add: sort_by_def)
  then show ?case using Cons by (simp add: distinct_insert_by)
qed (simp add: sort_by_def)

lemma set_add_new [simp]: "set (add_new x xs) = insert x (set xs)"
  by (auto simp: add_new_def)

lemma distinct_add_new [simp]: "distinct (add_new x xs) \<longleftrightarrow> distinct xs"
  by (simp add: add_new_def)

lemma set_add_all [simp]: "set (add_all xs new) = set xs \<union> set new"
  unfolding add_all_def by (induction new arbitrary: xs) auto

lemma distinct_add_all [simp]: "distinct (add_all xs new) \<longleftrightarrow> distinct xs"
  unfolding add_all_def by (induction new arbitrary: xs) auto

lemma length_add_all: "length xs \<le> length (add_all xs new)"
proof -
  have "length xs \<le> length (fold add_new new xs)"
  proof (induction new arbitrary: xs)
    case (Cons y new)
    show ?case using Cons [of "add_new y xs"] by (simp add: add_new_def split: if_splits)
  qed simp
  then show ?thesis by (simp add: add_all_def)
qed

text \<open>A set grew when an element is new.\<close>

lemma length_add_all_same: "length (add_all xs new) = length xs \<longleftrightarrow> set new \<subseteq> set xs"
proof (induction new arbitrary: xs)
  case Nil
  then show ?case by (simp add: add_all_def)
next
  case (Cons y new)
  have s: "add_all xs (y # new) = add_all (add_new y xs) new" by (simp add: add_all_def)
  show ?case
  proof (cases "y \<in> set xs")
    case True
    then have "add_new y xs = xs" by (simp add: add_new_def)
    then show ?thesis using Cons [of xs] True s by simp
  next
    case False
    then have "length xs < length (add_all (add_new y xs) new)"
      using length_add_all [of "add_new y xs" new] by (simp add: add_new_def)
    then show ?thesis using False s by simp
  qed
qed

end
