(* ===== verification/Drisl.thy ===== *)
theory Drisl
  imports Dasl_Cid Unicode Binary64 Collections "HOL-Library.AList"
begin

text \<open>
  The DRISL codec, \<^verbatim>\<open>packages/dasl/src/drisl.ts\<close>: deterministic CBOR with CIDs as
  tag 42. The encoder over its buffering \<open>Writer\<close>, the strict decoder over its
  \<open>Reader\<close>, every refusal an error value. \<open>spell\<close> is the encoder without the buffers,
  and the two agree (\<open>encodeDrisl_spell\<close>). A number is its 64 bits, a string its UTF-16
  code units, an object its own entries in some order (the order plays no role:
  \<open>spell_order\<close>).
\<close>

datatype drisl =
  DNull
| DBool bool
| DNumber double
| DBigInt int
| DText js_string
| DBytes string
| DLink DaslCid
| DFloat double
| DArray "drisl list"
| DObject "(js_string \<times> drisl) list"
| DOther string  \<comment> \<open>a value outside the type, by its \<open>typeof\<close>\<close>

datatype drisl_error =
  NegativeArgument | IntegerTooWide | LoneSurrogate | NestedTooDeep | NanOrInfinity | MinusZero | CannotEncode string
| Truncated | IndefiniteLength | ReservedInformation nat | NotShortest | LengthTooBig | TextNotUtf8
| ArrayTooLong | MapTooLong | KeyNotText | KeysNotAscending | KeyNotUtf8
| WrongTag nat | TagNotBytes | TagNotZero | LinkRefused cid_error
| WrongSimple nat | OneByteSimple | NarrowFloat | WrongMajor nat | TrailingBytes nat

definition MAX_DEPTH :: nat where "MAX_DEPTH = 64"

definition TWO_64 :: int where "TWO_64 = 2 ^ 64"

text \<open>\<open>new Float(value)\<close>: a finite number that is not negative zero.\<close>

definition new_Float :: "double \<Rightarrow> drisl_error + drisl" where
  "new_Float d = (if \<not> isFinite d then Inl NanOrInfinity else if d = negative_zero then Inl MinusZero else Inr (DFloat d))"

section \<open>Encoding\<close>

record Writer =
  chunks :: "string list"
  small :: string

definition new_Writer :: Writer where
  "new_Writer = \<lparr>chunks = [], small = []\<rparr>"

definition push :: "Writer \<Rightarrow> nat list \<Rightarrow> Writer" where
  "push w bs = w\<lparr>small := small w @ map byte bs\<rparr>"

definition flush :: "Writer \<Rightarrow> Writer" where
  "flush w = (if small w \<noteq> [] then w\<lparr>chunks := chunks w @ [small w], small := []\<rparr> else w)"

definition write_bytes :: "Writer \<Rightarrow> string \<Rightarrow> Writer" where
  "write_bytes w b = (let w = flush w in w\<lparr>chunks := chunks w @ [b]\<rparr>)"

definition finish :: "Writer \<Rightarrow> string" where
  "finish w = concat (chunks (flush w))"

fun be :: "nat \<Rightarrow> nat \<Rightarrow> nat list" where
  "be v 0 = []"
| "be v (Suc width) = v div 256 ^ width mod 256 # be v width"

definition head_bytes :: "nat \<Rightarrow> int \<Rightarrow> drisl_error + nat list" where
  "head_bytes major n =
     (let type = 32 * major; v = nat n in
      if n < 0 then Inl NegativeArgument
      else if n < 24 then Inr [type + v]
      else if n < 0x100 then Inr [type + 24, v]
      else if n < 0x10000 then Inr [type + 25, v div 256, v mod 256]
      else if n < 0x100000000 then Inr ((type + 26) # be v 4)
      else if n < TWO_64 then Inr ((type + 27) # be v 8)
      else Inl IntegerTooWide)"

definition head :: "Writer \<Rightarrow> nat \<Rightarrow> int \<Rightarrow> drisl_error + Writer" where
  "head w major n = and_then (head_bytes major n) (\<lambda>bs. Inr (push w bs))"

definition encodeText :: "Writer \<Rightarrow> js_string \<Rightarrow> drisl_error + Writer" where
  "encodeText w s =
     (if LONE_SURROGATE s then Inl LoneSurrogate
      else let b = utf8_encode s in and_then (head w 3 (int (length b))) (\<lambda>w. Inr (write_bytes w b)))"

definition encodeFloat :: "Writer \<Rightarrow> double \<Rightarrow> drisl_error + Writer" where
  "encodeFloat w d =
     (if \<not> isFinite d then Inl NanOrInfinity
      else Inr (write_bytes (push w [0xfb]) (map byte (be (unat d) 8))))"

definition encodeInteger :: "Writer \<Rightarrow> int \<Rightarrow> drisl_error + Writer" where
  "encodeInteger w v = (if 0 \<le> v then head w 0 v else head w 1 (- 1 - v))"

text \<open>A key of a map with its value, and the entries sorted.\<close>

definition encodeKey :: "js_string \<times> drisl \<Rightarrow> drisl_error + string \<times> drisl" where
  "encodeKey entry = and_then (encodeText new_Writer (fst entry)) (\<lambda>kw. Inr (finish kw, snd entry))"

definition sort_entries :: "(string \<times> drisl) list \<Rightarrow> (string \<times> drisl) list" where
  "sort_entries entries = sort_by (\<lambda>a b. compareBytes (fst a) (fst b)) entries"

function encodeValue :: "Writer \<Rightarrow> drisl \<Rightarrow> nat \<Rightarrow> drisl_error + Writer" where
  "encodeValue w v depth =
     (if depth > MAX_DEPTH then Inl NestedTooDeep
      else case v of
        DNull \<Rightarrow> Inr (push w [0xf6])
      | DBool b \<Rightarrow> Inr (push w [if b then 0xf5 else 0xf4])
      | DNumber d \<Rightarrow> (case safe_integer d of Some i \<Rightarrow> encodeInteger w i | None \<Rightarrow> encodeFloat w d)
      | DFloat d \<Rightarrow> encodeFloat w d
      | DBigInt i \<Rightarrow> encodeInteger w i
      | DText s \<Rightarrow> encodeText w s
      | DBytes b \<Rightarrow> and_then (head w 2 (int (length b))) (\<lambda>w. Inr (write_bytes w b))
      | DLink cid \<Rightarrow>
          and_then (head (push w [0xd8, 42]) 2 (int (length (cid_bytes cid)) + 1)) (\<lambda>w.
            Inr (write_bytes (push w [0]) (cid_bytes cid)))
      | DArray items \<Rightarrow>
          and_then (head w 4 (int (length items))) (\<lambda>w.
            sweep (\<lambda>w item. encodeValue w item (depth + 1)) w items)
      | DObject members \<Rightarrow>
          and_then (each encodeKey members) (\<lambda>entries.
          and_then (head w 5 (int (length entries))) (\<lambda>w.
            sweep (\<lambda>w entry. encodeValue (write_bytes w (fst entry)) (snd entry) (depth + 1)) w (sort_entries entries)))
      | DOther t \<Rightarrow> Inl (CannotEncode t))"
  by pat_completeness auto
termination
  by (relation "measure (\<lambda>(w, v, depth). Suc MAX_DEPTH - depth)") auto

declare encodeValue.simps [simp del]

definition encodeDrisl :: "drisl \<Rightarrow> drisl_error + string" where
  "encodeDrisl v = and_then (encodeValue new_Writer v 0) (\<lambda>w. Inr (finish w))"

section \<open>Decoding\<close>

record Reader =
  input :: string
  at :: nat

definition read_byte :: "Reader \<Rightarrow> drisl_error + nat \<times> Reader" where
  "read_byte r =
     (if at r \<ge> length (input r) then Inl Truncated
      else Inr (of_char (input r ! at r), r\<lparr>at := at r + 1\<rparr>))"

definition read_take :: "Reader \<Rightarrow> nat \<Rightarrow> drisl_error + string \<times> Reader" where
  "read_take r n =
     (if at r + n > length (input r) then Inl Truncated
      else Inr (take n (drop (at r) (input r)), r\<lparr>at := at r + n\<rparr>))"

definition remaining :: "Reader \<Rightarrow> nat" where
  "remaining r = length (input r) - at r"

fun read_argument :: "nat \<Rightarrow> nat \<Rightarrow> Reader \<Rightarrow> drisl_error + nat \<times> Reader" where
  "read_argument 0 arg r = Inr (arg, r)"
| "read_argument (Suc width) arg r = and_then (read_byte r) (\<lambda>(b, r). read_argument width (arg * 256 + b) r)"

definition shortest_floor :: "nat \<Rightarrow> nat" where
  "shortest_floor info = (if info = 24 then 24 else if info = 25 then 0x100 else if info = 26 then 0x10000 else 0x100000000)"

definition read_head :: "Reader \<Rightarrow> drisl_error + (nat \<times> nat \<times> nat) \<times> Reader" where
  "read_head r = and_then (read_byte r) (\<lambda>(b, r).
     let major = b div 32; info = b mod 32 in
     if info < 24 then Inr ((major, info, info), r)
     else if info = 31 then Inl IndefiniteLength
     else if info > 27 then Inl (ReservedInformation info)
     else and_then (read_argument (2 ^ (info - 24)) 0 r) (\<lambda>(arg, r).
       if major = 7 then Inr ((major, arg, info), r)
       else if arg < shortest_floor info then Inl NotShortest else Inr ((major, arg, info), r)))"

definition length_of :: "nat \<Rightarrow> drisl_error + nat" where
  "length_of arg = (if int arg > MAX_SAFE_INTEGER then Inl LengthTooBig else Inr arg)"

definition read_text :: "nat \<Rightarrow> Reader \<Rightarrow> drisl_error + drisl \<times> Reader" where
  "read_text arg r =
     and_then (length_of arg) (\<lambda>n. and_then (read_take r n) (\<lambda>(b, r).
       case utf8_decode b of None \<Rightarrow> Inl TextNotUtf8 | Some s \<Rightarrow> Inr (DText s, r)))"

definition read_link :: "multiformats \<Rightarrow> nat \<Rightarrow> Reader \<Rightarrow> drisl_error + drisl \<times> Reader" where
  "read_link mf arg r =
     (if arg \<noteq> 42 then Inl (WrongTag arg)
      else and_then (read_head r) (\<lambda>((major, arg, info), r).
        if major \<noteq> 2 then Inl TagNotBytes
        else and_then (length_of arg) (\<lambda>n. and_then (read_take r n) (\<lambda>(b, r).
          if b = [] \<or> b ! 0 \<noteq> byte 0 then Inl TagNotZero
          else case cidFromBytes mf (drop 1 b) of Inl e \<Rightarrow> Inl (LinkRefused e) | Inr cid \<Rightarrow> Inr (DLink cid, r)))))"

definition read_simple :: "nat \<Rightarrow> nat \<Rightarrow> Reader \<Rightarrow> drisl_error + drisl \<times> Reader" where
  "read_simple arg info r =
     (if info < 24 then
        if arg = 20 then Inr (DBool False, r)
        else if arg = 21 then Inr (DBool True, r)
        else if arg = 22 then Inr (DNull, r)
        else Inl (WrongSimple arg)
      else if info = 24 then Inl OneByteSimple
      else if info \<noteq> 27 then Inl NarrowFloat
      else let f = of_nat arg :: double in
        if \<not> isFinite f then Inl NanOrInfinity
        else if f = negative_zero then Inl MinusZero
        else if isSafeInteger f then and_then (new_Float f) (\<lambda>v. Inr (v, r))
        else Inr (DNumber f, r))"

text \<open>The loops of an array and of a map: the values so far, and of a map the encoding of the key before.\<close>

fun read_items :: "(Reader \<Rightarrow> drisl_error + drisl \<times> Reader) \<Rightarrow> nat \<Rightarrow> drisl list \<Rightarrow> Reader \<Rightarrow> drisl_error + drisl list \<times> Reader" where
  "read_items value 0 out r = Inr (out, r)"
| "read_items value (Suc n) out r = and_then (value r) (\<lambda>(v, r). read_items value n (out @ [v]) r)"

definition read_key :: "string option \<Rightarrow> Reader \<Rightarrow> drisl_error + (js_string \<times> string) \<times> Reader" where
  "read_key previous r =
     (let start = at r in
      and_then (read_head r) (\<lambda>((major, arg, info), r).
        if major \<noteq> 3 then Inl KeyNotText
        else and_then (length_of arg) (\<lambda>n. and_then (read_take r n) (\<lambda>(kb, r).
          let encoded = take (at r - start) (drop start (input r)) in
          if (case previous of None \<Rightarrow> False | Some p \<Rightarrow> compareBytes p encoded \<ge> 0) then Inl KeysNotAscending
          else case utf8_decode kb of None \<Rightarrow> Inl KeyNotUtf8 | Some key \<Rightarrow> Inr ((key, encoded), r)))))"

fun read_entries :: "(Reader \<Rightarrow> drisl_error + drisl \<times> Reader) \<Rightarrow> nat \<Rightarrow> (js_string \<times> drisl) list \<Rightarrow> string option \<Rightarrow> Reader \<Rightarrow>
    drisl_error + (js_string \<times> drisl) list \<times> Reader" where
  "read_entries value 0 out previous r = Inr (out, r)"
| "read_entries value (Suc n) out previous r =
     and_then (read_key previous r) (\<lambda>((key, encoded), r).
     and_then (value r) (\<lambda>(v, r).
       read_entries value n (AList.update key v out) (Some encoded) r))"

function read_value :: "multiformats \<Rightarrow> Reader \<Rightarrow> nat \<Rightarrow> drisl_error + drisl \<times> Reader" where
  "read_value mf r depth =
     (if depth > MAX_DEPTH then Inl NestedTooDeep
      else and_then (read_head r) (\<lambda>((major, arg, info), r).
        if major = 0 then Inr (if int arg \<le> MAX_SAFE_INTEGER then DNumber (number_from (int arg)) else DBigInt (int arg), r)
        else if major = 1 then
          let v = - 1 - int arg in Inr (if v \<ge> MIN_SAFE_INTEGER then DNumber (number_from v) else DBigInt v, r)
        else if major = 2 then
          and_then (length_of arg) (\<lambda>n. and_then (read_take r n) (\<lambda>(b, r). Inr (DBytes b, r)))
        else if major = 3 then read_text arg r
        else if major = 4 then
          and_then (length_of arg) (\<lambda>n.
            if n > remaining r then Inl ArrayTooLong
            else and_then (read_items (\<lambda>r. read_value mf r (depth + 1)) n [] r) (\<lambda>(out, r). Inr (DArray out, r)))
        else if major = 5 then
          and_then (length_of arg) (\<lambda>n.
            if 2 * n > remaining r then Inl MapTooLong
            else and_then (read_entries (\<lambda>r. read_value mf r (depth + 1)) n [] None r) (\<lambda>(out, r). Inr (DObject out, r)))
        else if major = 6 then read_link mf arg r
        else if major = 7 then read_simple arg info r
        else Inl (WrongMajor major)))"
  by pat_completeness auto
termination
  by (relation "measure (\<lambda>(mf, r, depth). Suc MAX_DEPTH - depth)") auto

declare read_value.simps [simp del]

definition decodeDrisl :: "multiformats \<Rightarrow> string \<Rightarrow> drisl_error + drisl" where
  "decodeDrisl mf bytes =
     and_then (read_value mf \<lparr>input = bytes, at = 0\<rparr> 0) (\<lambda>(v, r).
       if remaining r \<noteq> 0 then Inl (TrailingBytes (remaining r)) else Inr v)"

section \<open>The encoder without its buffers\<close>

definition spell_head :: "nat \<Rightarrow> int \<Rightarrow> drisl_error + string" where
  "spell_head major n = and_then (head_bytes major n) (\<lambda>bs. Inr (map byte bs))"

definition spell_text :: "js_string \<Rightarrow> drisl_error + string" where
  "spell_text s =
     (if LONE_SURROGATE s then Inl LoneSurrogate
      else and_then (spell_head 3 (int (length (utf8_encode s)))) (\<lambda>h. Inr (h @ utf8_encode s)))"

definition spell_float :: "double \<Rightarrow> drisl_error + string" where
  "spell_float d = (if \<not> isFinite d then Inl NanOrInfinity else Inr (byte 0xfb # map byte (be (unat d) 8)))"

definition spell_integer :: "int \<Rightarrow> drisl_error + string" where
  "spell_integer v = (if 0 \<le> v then spell_head 0 v else spell_head 1 (- 1 - v))"

definition spell_key :: "js_string \<times> drisl \<Rightarrow> drisl_error + string \<times> drisl" where
  "spell_key entry = and_then (spell_text (fst entry)) (\<lambda>k. Inr (k, snd entry))"

function spell :: "drisl \<Rightarrow> nat \<Rightarrow> drisl_error + string" where
  "spell v depth =
     (if depth > MAX_DEPTH then Inl NestedTooDeep
      else case v of
        DNull \<Rightarrow> Inr [byte 0xf6]
      | DBool b \<Rightarrow> Inr [byte (if b then 0xf5 else 0xf4)]
      | DNumber d \<Rightarrow> (case safe_integer d of Some i \<Rightarrow> spell_integer i | None \<Rightarrow> spell_float d)
      | DFloat d \<Rightarrow> spell_float d
      | DBigInt i \<Rightarrow> spell_integer i
      | DText s \<Rightarrow> spell_text s
      | DBytes b \<Rightarrow> and_then (spell_head 2 (int (length b))) (\<lambda>h. Inr (h @ b))
      | DLink cid \<Rightarrow>
          and_then (spell_head 2 (int (length (cid_bytes cid)) + 1)) (\<lambda>h. Inr (map byte [0xd8, 42] @ h @ byte 0 # cid_bytes cid))
      | DArray items \<Rightarrow>
          and_then (spell_head 4 (int (length items))) (\<lambda>h.
          and_then (each (\<lambda>item. spell item (depth + 1)) items) (\<lambda>bs. Inr (h @ concat bs)))
      | DObject members \<Rightarrow>
          and_then (each spell_key members) (\<lambda>entries.
          and_then (spell_head 5 (int (length entries))) (\<lambda>h.
          and_then (each (\<lambda>entry. and_then (spell (snd entry) (depth + 1)) (\<lambda>b. Inr (fst entry @ b)))
                      (sort_key fst entries)) (\<lambda>bs. Inr (h @ concat bs))))
      | DOther t \<Rightarrow> Inl (CannotEncode t))"
  by pat_completeness auto
termination
  by (relation "measure (\<lambda>(v, depth). Suc MAX_DEPTH - depth)") auto

declare spell.simps [simp del]

definition written :: "Writer \<Rightarrow> string" where
  "written w = concat (chunks w) @ small w"

text \<open>A write that throws what its spelling throws, or appends its spelling to what is written.\<close>

definition emits :: "Writer \<Rightarrow> drisl_error + Writer \<Rightarrow> drisl_error + string \<Rightarrow> bool" where
  "emits w out s =
     (case s of Inl e \<Rightarrow> out = Inl e | Inr bs \<Rightarrow> (\<exists>w'. out = Inr w' \<and> written w' = written w @ bs))"

lemma written_new [simp]: "written new_Writer = []"
  by (simp add: written_def new_Writer_def)

lemma written_push [simp]: "written (push w bs) = written w @ map byte bs"
  by (simp add: written_def push_def)

lemma written_write_bytes [simp]: "written (write_bytes w b) = written w @ b"
  by (simp add: written_def write_bytes_def flush_def Let_def)

lemma finish_written [simp]: "finish w = written w"
  by (simp add: finish_def written_def flush_def)

lemma emits_Inr [simp]: "emits w out (Inr bs) \<longleftrightarrow> (\<exists>w'. out = Inr w' \<and> written w' = written w @ bs)"
  and emits_Inl [simp]: "emits w out (Inl e) \<longleftrightarrow> out = Inl e"
  by (simp_all add: emits_def)

lemma emits_then:
  assumes "emits w out s" and "\<And>w' bs. written w' = written w @ bs \<Longrightarrow> s = Inr bs \<Longrightarrow> emits w (f w') (g bs)"
  shows "emits w (and_then out f) (and_then s g)"
  using assms by (cases s) auto

lemma emits_head: "emits w (head w major n) (spell_head major n)"
  by (cases "head_bytes major n") (auto simp: head_def spell_head_def)

lemma emits_text: "emits w (encodeText w s) (spell_text s)"
  unfolding encodeText_def spell_text_def by (auto simp: Let_def intro!: emits_then emits_head)

lemma emits_float: "emits w (encodeFloat w d) (spell_float d)"
  by (auto simp: encodeFloat_def spell_float_def)

lemma emits_integer: "emits w (encodeInteger w v) (spell_integer v)"
  by (simp add: encodeInteger_def spell_integer_def emits_head)

lemma encodeKey_spell: "encodeKey = spell_key"
proof
  fix entry
  show "encodeKey entry = spell_key entry"
    using emits_text [of new_Writer "fst entry"]
    by (cases "spell_text (fst entry)") (auto simp: encodeKey_def spell_key_def)
qed

lemma emits_sweep:
  assumes "\<And>w x. x \<in> set xs \<Longrightarrow> emits w (f w x) (g x)"
  shows "emits w (sweep f w xs) (and_then (each g xs) (\<lambda>bs. Inr (concat bs)))"
  using assms
proof (induction xs arbitrary: w)
  case (Cons x xs)
  have x: "emits w (f w x) (g x)" and xs: "\<And>w. emits w (sweep f w xs) (and_then (each g xs) (\<lambda>bs. Inr (concat bs)))"
    using Cons by auto
  show ?case
  proof (cases "g x")
    case (Inr bs)
    then obtain w' where w': "f w x = Inr w'" "written w' = written w @ bs" using x by auto
    show ?thesis using xs [of w'] by (cases "each g xs") (auto simp: Inr w')
  qed (use x in simp)
qed simp

lemma sort_entries_key: "sort_entries = sort_key fst"
proof
  fix entries :: "(string \<times> drisl) list"
  have "compareBytes (fst x) (fst y) \<le> 0 \<longleftrightarrow> fst x \<le> fst y" for x y :: "string \<times> drisl"
    using compareBytes_sign [of "fst x" "fst y"] by (auto simp: le_less)
  then show "sort_entries entries = sort_key fst entries" unfolding sort_entries_def by (rule sort_by_key)
qed

lemma emits_after:
  assumes "written w' = written w @ h" and "emits w' out (and_then s (\<lambda>b. Inr (f b)))"
  shows "emits w out (and_then s (\<lambda>b. Inr (h @ f b)))"
  using assms by (cases s) auto

text \<open>A head and then the items of a container.\<close>

lemma emits_container:
  assumes "\<And>w x. x \<in> set xs \<Longrightarrow> emits w (f w x) (g x)"
  shows "emits w (and_then (head w major n) (\<lambda>w. sweep f w xs))
    (and_then (spell_head major n) (\<lambda>h. and_then (each g xs) (\<lambda>bs. Inr (h @ concat bs))))"
proof (rule emits_then [OF emits_head])
  fix w' h
  assume "written w' = written w @ h"
  then show "emits w (sweep f w' xs) (and_then (each g xs) (\<lambda>bs. Inr (h @ concat bs)))"
    by (rule emits_after) (rule emits_sweep [OF assms])
qed

lemma emits_value: "emits w (encodeValue w v depth) (spell v depth)"
proof (induction v depth arbitrary: w rule: spell.induct)
  case (1 v depth)
  show ?case
  proof (cases "depth > MAX_DEPTH")
    case True
    then show ?thesis by (simp add: encodeValue.simps [of w] spell.simps [of v])
  next
    case deep: False
    show ?thesis
    proof (cases v)
      case (DArray items)
      have "emits w (encodeValue w (DArray items) depth) (spell (DArray items) depth)"
        unfolding encodeValue.simps [of w "DArray items"] spell.simps [of "DArray items"] if_not_P [OF deep] drisl.case
        by (rule emits_container) (rule 1(1) [OF deep DArray])
      then show ?thesis unfolding DArray .
    next
      case (DObject members)
      have entry: "emits w' (encodeValue (write_bytes w' (fst entry)) (snd entry) (depth + 1))
          (and_then (spell (snd entry) (depth + 1)) (\<lambda>b. Inr (fst entry @ b)))" for w' entry
        using 1(2) [OF deep DObject, of "write_bytes w' (fst entry)" entry] by (cases "spell (snd entry) (depth + 1)") auto
      have rest: "emits w
          (and_then (head w 5 (int (length entries))) (\<lambda>w.
            sweep (\<lambda>w entry. encodeValue (write_bytes w (fst entry)) (snd entry) (depth + 1)) w (sort_key fst entries)))
          (and_then (spell_head 5 (int (length entries))) (\<lambda>h.
            and_then (each (\<lambda>entry. and_then (spell (snd entry) (depth + 1)) (\<lambda>b. Inr (fst entry @ b))) (sort_key fst entries))
              (\<lambda>bs. Inr (h @ concat bs))))" for entries
        by (rule emits_container) (rule entry)
      have "emits w (encodeValue w (DObject members) depth) (spell (DObject members) depth)"
        unfolding encodeValue.simps [of w "DObject members"] spell.simps [of "DObject members"] if_not_P [OF deep] drisl.case
          encodeKey_spell sort_entries_key
        by (cases "each spell_key members") (simp_all add: rest [folded Suc_eq_plus1])
      then show ?thesis unfolding DObject .
    next
      case (DLink cid)
      show ?thesis
        using deep emits_head [of "push w [0xd8, 42]" 2 "int (length (cid_bytes cid)) + 1"]
        unfolding DLink encodeValue.simps [of w _ depth] spell.simps [of _ depth] if_not_P [OF deep] drisl.case
        by (cases "spell_head 2 (int (length (cid_bytes cid)) + 1)") auto
    qed (use deep in \<open>auto simp: encodeValue.simps [of w _ depth] spell.simps [of _ depth] emits_integer emits_float emits_text
       intro!: emits_then emits_head split: option.splits\<close>)
  qed
qed

text \<open>The buffered encoder is the plain one.\<close>

lemma encodeDrisl_spell: "encodeDrisl v = spell v 0"
  using emits_value [of new_Writer v 0] by (cases "spell v 0") (auto simp: encodeDrisl_def)

end
