(* ===== verification/Drisl_Codec.thy ===== *)
theory Drisl_Codec
  imports Drisl "HOL-Library.Multiset"
begin

text \<open>
  The two round trips of the DRISL codec. Bytes that decode are the bytes the
  value encodes to, so a value has one byte string (\<open>drisl_canonical\<close>); and the
  bytes of a value decode to it, numbers and the order of members normalized
  (\<open>drisl_round_trip\<close>).
\<close>

section \<open>Reading off the input\<close>

definition rest :: "Reader \<Rightarrow> string" where
  "rest r = drop (at r) (input r)"

text \<open>From \<open>r\<close> to \<open>r'\<close> the reader passed over exactly \<open>bs\<close>.\<close>

definition reads :: "Reader \<Rightarrow> Reader \<Rightarrow> string \<Rightarrow> bool" where
  "reads r r' bs = (at r \<le> length (input r) \<and> prefix bs (rest r) \<and> r' = r\<lparr>at := at r + length bs\<rparr>)"

lemma reads_trans:
  assumes "reads r r1 a" and "reads r1 r2 b"
  shows "reads r r2 (a @ b)"
proof -
  have r1: "r1 = r\<lparr>at := at r + length a\<rparr>" using assms(1) by (simp add: reads_def)
  obtain t where t: "rest r = a @ t" using assms(1) by (auto simp: reads_def prefix_def)
  have "rest r1 = drop (length a) (rest r)" by (simp add: r1 rest_def add.commute)
  then have "rest r1 = t" using t by simp
  then show ?thesis using assms t by (auto simp: reads_def prefix_def r1 add.assoc)
qed

lemma reads_split:
  assumes "reads r r2 (a @ b)"
  obtains r1 where "reads r r1 a" and "reads r1 r2 b"
proof
  obtain t where t: "rest r = a @ b @ t" using assms by (auto simp: reads_def prefix_def)
  have "length a \<le> length (rest r)" by (simp add: t)
  then have len: "at r + length a \<le> length (input r)" using assms by (auto simp: rest_def reads_def)
  let ?r1 = "r\<lparr>at := at r + length a\<rparr>"
  show "reads r ?r1 a" using assms t by (auto simp: reads_def)
  have "rest ?r1 = drop (length a) (rest r)" by (simp add: rest_def add.commute)
  then have "rest ?r1 = b @ t" by (simp add: t)
  then show "reads ?r1 r2 b" using assms len by (simp add: reads_def add.assoc)
qed

lemma reads_Cons:
  assumes "reads r r2 (a # b)"
  obtains r1 where "reads r r1 [a]" and "reads r1 r2 b"
  using reads_split [of r r2 "[a]" b] assms by auto

lemma reads_refl: "reads r r [] \<longleftrightarrow> at r \<le> length (input r)"
  by (cases r) (simp add: reads_def)

lemma reads_length: "reads r r' bs \<Longrightarrow> length bs \<le> remaining r \<and> input r' = input r \<and> at r' \<le> length (input r')"
  using prefix_length_le [of bs "rest r"] by (auto simp: reads_def rest_def remaining_def)

lemma reads_function: "reads r r1 bs \<Longrightarrow> reads r r2 bs \<Longrightarrow> r1 = r2"
  by (simp add: reads_def)

lemma read_byte_iff: "read_byte r = Inr (b, r') \<longleftrightarrow> b < 256 \<and> reads r r' [byte b]"
proof
  assume "read_byte r = Inr (b, r')"
  then have "at r < length (input r)" "b = of_char (input r ! at r)" "r' = r\<lparr>at := at r + 1\<rparr>"
    by (auto simp: read_byte_def split: if_splits)
  then show "b < 256 \<and> reads r r' [byte b]"
    using Cons_nth_drop_Suc [of "at r" "input r", symmetric] by (simp add: reads_def rest_def)
next
  assume l: "b < 256 \<and> reads r r' [byte b]"
  then obtain t where t: "drop (at r) (input r) = byte b # t" by (auto simp: reads_def rest_def prefix_def)
  then have "at r < length (input r)" using not_less by fastforce
  then show "read_byte r = Inr (b, r')"
    using l t Cons_nth_drop_Suc [of "at r" "input r"] by (auto simp: read_byte_def reads_def)
qed

lemma read_take_iff: "read_take r n = Inr (b, r') \<longleftrightarrow> length b = n \<and> reads r r' b"
proof
  assume "read_take r n = Inr (b, r')"
  then have "at r + n \<le> length (input r)" "b = take n (rest r)" "r' = r\<lparr>at := at r + n\<rparr>"
    by (auto simp: read_take_def rest_def split: if_splits)
  then show "length b = n \<and> reads r r' b" by (auto simp: reads_def rest_def take_is_prefix)
next
  assume l: "length b = n \<and> reads r r' b"
  then have "length b \<le> remaining r" using reads_length by blast
  then show "read_take r n = Inr (b, r')"
    using l by (auto simp: read_take_def reads_def rest_def remaining_def prefix_def)
qed

section \<open>Arguments\<close>

fun horner :: "nat \<Rightarrow> string \<Rightarrow> nat" where
  "horner arg [] = arg"
| "horner arg (b # bs) = horner (arg * 256 + of_char b) bs"

lemma read_argument_iff:
  "at r \<le> length (input r) \<Longrightarrow>
   read_argument width arg r = Inr (a, r') \<longleftrightarrow> (\<exists>bs. length bs = width \<and> reads r r' bs \<and> a = horner arg bs)"
proof (induction width arbitrary: arg r)
  case 0
  then show ?case by (auto simp: reads_def)
next
  case (Suc width)
  show ?case
  proof
    assume "read_argument (Suc width) arg r = Inr (a, r')"
    then obtain b r1 where b: "read_byte r = Inr (b, r1)" "read_argument width (arg * 256 + b) r1 = Inr (a, r')" by auto
    then have 1: "b < 256" "reads r r1 [byte b]" by (auto simp: read_byte_iff)
    then have "at r1 \<le> length (input r1)" using reads_length by blast
    then obtain bs where "length bs = width" "reads r1 r' bs" "a = horner (arg * 256 + b) bs" using Suc.IH b(2) by blast
    then show "\<exists>bs. length bs = Suc width \<and> reads r r' bs \<and> a = horner arg bs"
      using 1 reads_trans [of r r1 "[byte b]" r' bs] by (intro exI [of _ "byte b # bs"]) auto
  next
    assume "\<exists>bs. length bs = Suc width \<and> reads r r' bs \<and> a = horner arg bs"
    then obtain c bs where c: "length bs = width" "reads r r' (c # bs)" "a = horner (arg * 256 + of_char c) bs"
      by (auto simp: length_Suc_conv)
    then obtain r1 where r1: "reads r r1 [c]" "reads r1 r' bs" by (blast elim: reads_Cons)
    then have "read_byte r = Inr (of_char c, r1)" by (simp add: read_byte_iff)
    moreover have "read_argument width (arg * 256 + of_char c) r1 = Inr (a, r')"
      using Suc.IH [of r1] reads_length [OF r1(1)] r1(2) c by auto
    ultimately show "read_argument (Suc width) arg r = Inr (a, r')" by simp
  qed
qed

lemma horner_add: "horner arg bs = arg * 256 ^ length bs + horner 0 bs"
proof (induction bs arbitrary: arg)
  case (Cons b bs)
  show ?case using Cons [of "arg * 256 + of_char b"] Cons [of "of_char b"] by (simp add: algebra_simps)
qed simp

lemma horner_lt: "horner 0 bs < 256 ^ length bs"
proof (induction bs)
  case (Cons b bs)
  have "horner 0 (b # bs) = of_char b * 256 ^ length bs + horner 0 bs" using horner_add [of "of_char b" bs] by simp
  also have "\<dots> < Suc (of_char b) * 256 ^ length bs" using Cons by simp
  also have "\<dots> \<le> 256 * 256 ^ length bs" using of_char_lt [of b] by (intro mult_right_mono Suc_leI) simp_all
  finally show ?case by simp
qed simp

lemma be_length [simp]: "length (be v width) = width"
  by (induction width) auto

lemma horner_be: "horner 0 (map byte (be v width)) = v mod 256 ^ width"
proof (induction width)
  case (Suc width)
  have "horner 0 (map byte (be v (Suc width))) = horner (v div 256 ^ width mod 256) (map byte (be v width))" by simp
  also have "\<dots> = v div 256 ^ width mod 256 * 256 ^ width + v mod 256 ^ width"
    using horner_add [of "v div 256 ^ width mod 256" "map byte (be v width)"] Suc by simp
  also have "\<dots> = v mod 256 ^ Suc width" using mod_mult2_eq [of v "256 ^ width" 256] by (simp add: mult.commute)
  finally show ?case .
qed simp

lemma horner_inject: "length a = length b \<Longrightarrow> horner 0 a = horner 0 b \<Longrightarrow> a = b"
proof (induction a b rule: list_induct2)
  case (Cons x a y b)
  let ?p = "256 ^ length a :: nat"
  have "of_char x * ?p + horner 0 a = of_char y * ?p + horner 0 b"
    using Cons.prems horner_add [of "of_char x" a] horner_add [of "of_char y" b] Cons.hyps by simp
  moreover have "horner 0 a < ?p" "horner 0 b < ?p" using horner_lt [of a] horner_lt [of b] Cons.hyps by simp_all
  ultimately have "(of_char x :: nat) = of_char y" "horner 0 a = horner 0 b" using digit_join by metis+
  then show ?case using Cons.IH by simp
qed simp

lemma be_horner: "length bs = width \<Longrightarrow> map byte (be (horner 0 bs) width) = bs"
  using horner_lt [of bs] by (intro horner_inject) (simp_all add: horner_be)

section \<open>Heads\<close>

lemma be_short: "be n (Suc 0) = [n mod 256]" "be n 2 = [n div 256 mod 256, n mod 256]"
  unfolding numeral_2_eq_2 be.simps by simp_all

lemma spell_head_cases:
  assumes "spell_head major (int n) = Inr bs"
  obtains (tiny) "n < 24" "bs = [byte (32 * major + n)]"
  | (wide) info width where "(info, width) \<in> {(24, 1), (25, 2), (26, 4), (27, 8)}" and "n < 256 ^ width"
      and "shortest_floor info \<le> n"
      and "bs = byte (32 * major + info) # map byte (be n width)"
proof -
  consider "n < 24" | "24 \<le> n" "n < 0x100" | "0x100 \<le> n" "n < 0x10000" | "0x10000 \<le> n" "n < 0x100000000"
    | "0x100000000 \<le> n" "n < 2 ^ 64" | "2 ^ 64 \<le> n" by linarith
  then show thesis
  proof cases
    case 1
    then show ?thesis using assms tiny by (simp add: spell_head_def head_bytes_def)
  next
    case 2
    then show ?thesis using assms wide [of 24 1] by (simp add: shortest_floor_def be_short spell_head_def head_bytes_def)
  next
    case 3
    then show ?thesis using assms wide [of 25 2] by (simp add: shortest_floor_def be_short spell_head_def head_bytes_def less_mult_imp_div_less)
  next
    case 4
    then show ?thesis using assms wide [of 26 4] by (simp add: shortest_floor_def spell_head_def head_bytes_def)
  next
    case 5
    then show ?thesis using assms wide [of 27 8] by (simp add: shortest_floor_def spell_head_def head_bytes_def TWO_64_def)
  next
    case 6
    then show ?thesis using assms by (simp add: spell_head_def head_bytes_def TWO_64_def)
  qed
qed

lemma spell_head_tiny: "n < 24 \<Longrightarrow> spell_head major (int n) = Inr [byte (32 * major + n)]"
  by (simp add: spell_head_def head_bytes_def)

lemma spell_head_wide:
  assumes "(info, width) \<in> {(24, 1), (25, 2), (26, 4), (27, 8)}" and "n < 256 ^ width"
    and "shortest_floor info \<le> n"
  shows "spell_head major (int n) = Inr (byte (32 * major + info) # map byte (be n width))"
  using assms
  by (auto simp: spell_head_def head_bytes_def TWO_64_def shortest_floor_def be_short less_mult_imp_div_less)

lemma info_width: "24 \<le> info \<Longrightarrow> info \<le> 27 \<Longrightarrow> (info, 2 ^ (info - 24) :: nat) \<in> {(24, 1), (25, 2), (26, 4), (27, 8)}"
  for info :: nat
proof -
  assume "24 \<le> info" "info \<le> 27"
  then consider "info = 24" | "info = 25" | "info = 26" | "info = 27" by linarith
  then show ?thesis by cases simp_all
qed

lemma read_head_cases:
  assumes "read_head r = Inr ((major, arg, info), r')"
  obtains (tiny) "info < 24" "arg = info" "major < 8" "reads r r' [byte (32 * major + info)]"
  | (wide) width where "(info, width) \<in> {(24, 1), (25, 2), (26, 4), (27, 8)}" and "arg < 256 ^ width" and "major < 8"
      and "reads r r' (byte (32 * major + info) # map byte (be arg width))"
      and "major = 7 \<or> shortest_floor info \<le> arg"
proof -
  obtain b r1 where b: "read_byte r = Inr (b, r1)" using assms by (auto simp: read_head_def)
  then have r1: "b < 256" "reads r r1 [byte b]" by (auto simp: read_byte_iff)
  have m: "b div 32 < 8" and split: "b = 32 * (b div 32) + b mod 32" using r1(1) by (simp_all add: less_mult_imp_div_less)
  show thesis
  proof (cases "b mod 32 < 24")
    case True
    then have e: "major = b div 32" "info = b mod 32" "arg = b mod 32" "r' = r1" using assms b by (auto simp: read_head_def Let_def)
    show ?thesis using tiny r1(2) m split True unfolding e by metis
  next
    case False
    define width where "width = (2 :: nat) ^ (b mod 32 - 24)"
    have i: "info = b mod 32" "major = b div 32" "b mod 32 \<noteq> 31" "\<not> b mod 32 > 27"
      and a: "read_argument width 0 r1 = Inr (arg, r')"
      and f: "major = 7 \<or> shortest_floor info \<le> arg"
      using assms b False by (auto simp: read_head_def Let_def width_def split: if_splits)
    obtain bs where bs: "length bs = width" "reads r1 r' bs" "arg = horner 0 bs"
      using a read_argument_iff [of r1] reads_length [OF r1(2)] by auto
    have "reads r r' (byte b # bs)" using reads_trans [OF r1(2) bs(2)] by simp
    moreover have "bs = map byte (be arg width)" using be_horner [OF bs(1)] bs(3) by simp
    moreover have "arg < 256 ^ width" using horner_lt [of bs] bs by simp
    ultimately show ?thesis using wide [OF info_width] i False f m split by (metis width_def linorder_not_less)
  qed
qed

text \<open>Outside major type 7, a head is the one spelling of its argument.\<close>

lemma read_head_sound:
  assumes "read_head r = Inr ((major, arg, info), r')" and "major \<noteq> 7"
  obtains bs where "spell_head major (int arg) = Inr bs" and "reads r r' bs" and "major < 7"
  using assms(1)
proof (cases rule: read_head_cases)
  case tiny
  then show ?thesis using that spell_head_tiny [of arg major] assms(2) by simp
next
  case (wide width)
  then show ?thesis using that [OF spell_head_wide [OF wide(1,2)]] assms(2) by simp
qed

lemma read_head_complete:
  assumes "spell_head major (int n) = Inr bs" and "reads r r' bs" and "major < 7"
  obtains info where "read_head r = Inr ((major, n, info), r')"
  using assms(1)
proof (cases rule: spell_head_cases)
  case tiny
  have "read_byte r = Inr (32 * major + n, r')" using assms tiny by (simp add: read_byte_iff)
  then show ?thesis using that [of n] tiny by (simp add: read_head_def)
next
  case (wide info width)
  have i: "24 \<le> info" "info \<le> 27" "width = 2 ^ (info - 24)" using wide(1) by auto
  obtain r1 where r1: "reads r r1 [byte (32 * major + info)]" "reads r1 r' (map byte (be n width))"
    using assms(2) unfolding wide(4) by (rule reads_Cons)
  have b: "read_byte r = Inr (32 * major + info, r1)" using r1 assms(3) i by (simp add: read_byte_iff)
  have a: "read_argument (2 ^ (info - 24)) 0 r1 = Inr (n, r')"
    using read_argument_iff [of r1] reads_length [OF r1(1)] r1(2) wide(2) i(3)
    by (auto intro!: exI [of _ "map byte (be n width)"] simp: horner_be)
  have f: "\<not> n < shortest_floor info"
    using wide(3) by linarith
  have "read_head r = Inr ((major, n, info), r')"
    using b a f i assms(3) by (simp add: read_head_def Let_def)
  then show ?thesis by (rule that)
qed

section \<open>Sorted members\<close>

definition key_bytes :: "js_string \<Rightarrow> string" where
  "key_bytes k = (case spell_text k of Inl e \<Rightarrow> [] | Inr b \<Rightarrow> b)"

definition spells :: "js_string \<Rightarrow> bool" where
  "spells k = (spell_text k = Inr (key_bytes k))"

lemma spell_text_Inr: "spell_text k = Inr b \<longleftrightarrow> spells k \<and> b = key_bytes k"
  by (auto simp: spells_def key_bytes_def)

lemma spell_keys:
  "each spell_key members = Inr entries \<longleftrightarrow>
     (\<forall>(k, v) \<in> set members. spells k) \<and> entries = map (\<lambda>(k, v). (key_bytes k, v)) members"
  by (induction members arbitrary: entries) (auto simp: spell_key_def spell_text_Inr)

lemma sort_key_map: "sort_key f (map g xs) = map g (sort_key (\<lambda>x. f (g x)) xs)"
proof -
  have i: "insort_key f (g x) (map g ys) = map g (insort_key (\<lambda>x. f (g x)) x ys)" for x ys
    by (induction ys) auto
  show ?thesis by (induction xs) (simp_all add: i)
qed

lemma update_fresh: "k \<notin> fst ` set al \<Longrightarrow> AList.update k v al = al @ [(k, v)]"
  by (induction al) auto

lemma utf8_inject: "\<not> LONE_SURROGATE a \<Longrightarrow> \<not> LONE_SURROGATE b \<Longrightarrow> utf8_encode a = utf8_encode b \<Longrightarrow> a = b"
  using utf8_decode_encode by (metis option.inject)

lemma spell_head_nonempty: "spell_head major n = Inr bs \<Longrightarrow> bs \<noteq> []"
  by (auto simp: spell_head_def head_bytes_def Let_def split: if_splits)

text \<open>A text's encoding, and reading it back.\<close>

lemma spells_iff:
  "spell_text k = Inr b \<longleftrightarrow>
     \<not> LONE_SURROGATE k \<and> (\<exists>h. spell_head 3 (int (length (utf8_encode k))) = Inr h \<and> b = h @ utf8_encode k)"
  by (auto simp: spell_text_def)

definition fits :: "Reader \<Rightarrow> bool" where
  "fits r = (length (input r) < 2 ^ 53)"

lemma length_of_Inr [simp]: "length_of arg = Inr n \<longleftrightarrow> n = arg \<and> arg < 2 ^ 53"
  by (auto simp: length_of_def MAX_SAFE_INTEGER_def)

lemma read_text_sound:
  assumes "read_head r = Inr ((3, arg, info), r1)" and "read_text arg r1 = Inr (v, r')"
  obtains s b where "v = DText s" and "spell_text s = Inr b" and "reads r r' b"
proof -
  obtain b s where b: "read_take r1 arg = Inr (b, r')" "utf8_decode b = Some s" "v = DText s"
    using assms(2) by (auto simp: read_text_def split: option.splits)
  obtain h where h: "spell_head 3 (int arg) = Inr h" "reads r r1 h" using read_head_sound [OF assms(1)] by auto
  have "reads r1 r' b" "length b = arg" using b(1) by (auto simp: read_take_iff)
  then show thesis
    using that [OF b(3), of "h @ b"] utf8_encode_decode [OF b(2)] h reads_trans by (auto simp: spells_iff)
qed

lemma read_text_complete:
  assumes "spell_text s = Inr b" and "reads r r' b" and "fits r"
  obtains arg info r1 kb where "read_head r = Inr ((3, arg, info), r1)" and "read_take r1 arg = Inr (kb, r')"
    and "utf8_decode kb = Some s" and "length_of arg = Inr arg"
proof -
  let ?k = "utf8_encode s"
  obtain h where h: "\<not> LONE_SURROGATE s" "spell_head 3 (int (length ?k)) = Inr h" "b = h @ ?k" using assms(1) by (auto simp: spells_iff)
  obtain r1 where r1: "reads r r1 h" "reads r1 r' ?k" using assms(2) unfolding h(3) by (rule reads_split)
  obtain info where "read_head r = Inr ((3, length ?k, info), r1)" using read_head_complete [OF h(2) r1(1)] by auto
  moreover have "length ?k \<le> remaining r1" "input r1 = input r" using reads_length r1 by blast+
  then have "length ?k < 2 ^ 53" using assms(3) by (simp add: fits_def remaining_def)
  ultimately show thesis using that [of "length ?k"] r1(2) h(1) by (simp add: read_take_iff utf8_decode_encode)
qed

lemma read_key_sound:
  assumes "read_key previous r = Inr ((k, encoded), r')"
  shows "spell_text k = Inr encoded" and "reads r r' encoded" and "\<And>p. previous = Some p \<Longrightarrow> p < encoded"
proof -
  obtain major arg info r1 where 1: "read_head r = Inr ((major, arg, info), r1)"
    using assms by (auto simp: read_key_def Let_def)
  then obtain kb where 2: "major = 3" "arg < 2 ^ 53" "read_take r1 arg = Inr (kb, r')" "utf8_decode kb = Some k"
    and e: "encoded = take (at r' - at r) (drop (at r) (input r'))"
    and p: "\<And>p. previous = Some p \<Longrightarrow> compareBytes p encoded < 0"
    using assms by (force simp: read_key_def Let_def not_le split: if_splits option.splits)
  have "read_text arg r1 = Inr (DText k, r')" using 2 by (auto simp: read_text_def)
  then obtain b where b: "spell_text k = Inr b" "reads r r' b" using read_text_sound 1 2(1) by (metis drisl.inject(4))
  then have "encoded = b" using e by (auto simp: reads_def rest_def prefix_def)
  then show "spell_text k = Inr encoded" "reads r r' encoded" using b by simp_all
  show "p < encoded" if "previous = Some p" for p using p [OF that] by (simp add: compareBytes_sign)
qed

lemma read_key_complete:
  assumes "spell_text k = Inr b" and "reads r r' b" and "fits r" and "\<And>p. previous = Some p \<Longrightarrow> p < b"
  shows "read_key previous r = Inr ((k, b), r')"
proof -
  obtain arg info r1 kb where 1: "read_head r = Inr ((3, arg, info), r1)" "read_take r1 arg = Inr (kb, r')"
    "utf8_decode kb = Some k" "length_of arg = Inr arg" using read_text_complete [OF assms(1-3)] .
  have e: "take (at r' - at r) (drop (at r) (input r')) = b" using assms(2) by (auto simp: reads_def rest_def prefix_def)
  have "\<not> compareBytes p b \<ge> 0" if "previous = Some p" for p using assms(4) [OF that] compareBytes_sign(1) [of p b] by simp
  then show ?thesis using 1 by (auto simp: read_key_def Let_def e split: option.splits)
qed

section \<open>Decoded bytes are the encoding\<close>

text \<open>What reading a value at some depth gives: the bytes passed over spell it there.\<close>

definition sound_at :: "nat \<Rightarrow> (Reader \<Rightarrow> drisl_error + drisl \<times> Reader) \<Rightarrow> bool" where
  "sound_at depth value = (\<forall>r v r'. value r = Inr (v, r') \<longrightarrow> (\<exists>bs. reads r r' bs \<and> spell v depth = Inr bs))"

lemma read_items_sound:
  assumes "sound_at depth value" and "read_items value n out r = Inr (vs, r')" and "at r \<le> length (input r)"
  shows "\<exists>new bss. vs = out @ new \<and> length new = n \<and> each (\<lambda>v. spell v depth) new = Inr bss \<and> reads r r' (concat bss)"
  using assms(2,3)
proof (induction n arbitrary: out r)
  case 0
  then show ?case by (simp add: reads_refl)
next
  case (Suc n)
  then obtain v r1 where v: "value r = Inr (v, r1)" "read_items value n (out @ [v]) r1 = Inr (vs, r')" by auto
  obtain b where b: "reads r r1 b" "spell v depth = Inr b" using assms(1) v(1) unfolding sound_at_def by blast
  then obtain new bss where n: "vs = out @ v # new" "length new = n" "each (\<lambda>v. spell v depth) new = Inr bss"
    "reads r1 r' (concat bss)" using Suc.IH [OF v(2)] reads_length by fastforce
  show ?case using n b reads_trans [OF b(1) n(4)] by (intro exI [of _ "v # new"] exI [of _ "b # bss"]) simp
qed

definition entry_bytes :: "nat \<Rightarrow> js_string \<times> drisl \<Rightarrow> drisl_error + string" where
  "entry_bytes depth entry = and_then (spell (snd entry) depth) (\<lambda>b. Inr (key_bytes (fst entry) @ b))"

text \<open>Members in strictly ascending order of their encoded keys, all after the key \<open>previous\<close>.\<close>

fun ascending :: "string option \<Rightarrow> (js_string \<times> drisl) list \<Rightarrow> bool" where
  "ascending previous [] = True"
| "ascending previous ((k, v) # es) =
     (spells k \<and> (case previous of None \<Rightarrow> True | Some p \<Rightarrow> p < key_bytes k) \<and> ascending (Some (key_bytes k)) es)"

lemma ascending_after: "ascending (Some p) es \<Longrightarrow> (k, v) \<in> set es \<Longrightarrow> p < key_bytes k"
  by (induction es arbitrary: p) (auto intro: less_trans)

lemma ascending_sorted: "ascending previous es \<Longrightarrow> sorted_wrt (<) (map (\<lambda>(k, v). key_bytes k) es) \<and> (\<forall>(k, v) \<in> set es. spells k)"
proof (induction es arbitrary: previous)
  case (Cons e es)
  obtain k v where e: "e = (k, v)" by (cases e)
  then show ?case using Cons.IH [of "Some (key_bytes k)"] Cons.prems ascending_after by fastforce
qed simp

lemma read_entries_sound:
  assumes "sound_at depth value" and "read_entries value n out previous r = Inr (es, r')" and "at r \<le> length (input r)"
    and "\<And>k. k \<in> fst ` set out \<Longrightarrow> \<exists>p. previous = Some p \<and> key_bytes k \<le> p"
  shows "\<exists>new bss. es = out @ new \<and> length new = n \<and> ascending previous new \<and>
    each (entry_bytes depth) new = Inr bss \<and> reads r r' (concat bss)"
  using assms(2-4)
proof (induction n arbitrary: out previous r)
  case 0
  then show ?case by (auto simp: reads_refl)
next
  case (Suc n)
  then obtain k e r1 v r2 where k: "read_key previous r = Inr ((k, e), r1)" and v: "value r1 = Inr (v, r2)"
    and more: "read_entries value n (AList.update k v out) (Some e) r2 = Inr (es, r')" by auto
  note key = read_key_sound [OF k]
  have e: "spells k" "e = key_bytes k" using key(1) by (simp_all add: spell_text_Inr)
  obtain b where b: "reads r1 r2 b" "spell v depth = Inr b" using assms(1) v unfolding sound_at_def by blast
  have fresh: "k \<notin> fst ` set out" using Suc.prems(3) key(3) e(2) by fastforce
  have later: "\<exists>p. Some e = Some p \<and> key_bytes k' \<le> p" if "k' \<in> fst ` set (out @ [(k, v)])" for k'
    using that Suc.prems(3) [of k'] key(3) e(2) by (auto dest!: less_imp_le intro: order_trans)
  obtain new bss where n: "es = (out @ [(k, v)]) @ new" "length new = n" "ascending (Some e) new"
    "each (entry_bytes depth) new = Inr bss" "reads r2 r' (concat bss)"
    using Suc.IH [OF more [unfolded update_fresh [OF fresh]] _ later] reads_length [OF b(1)] by auto
  have "reads r r' ((e @ b) @ concat bss)" using reads_trans [OF reads_trans [OF key(2) b(1)] n(5)] .
  moreover have "ascending previous ((k, v) # new)" using e n(3) key(3) by (simp split: option.splits)
  ultimately show ?case using n e b
    by (intro exI [of _ "(k, v) # new"] exI [of _ "(e @ b) # bss"]) (simp add: entry_bytes_def [of depth "(k, v)"])
qed

lemma sort_ascending:
  assumes "ascending previous es"
  shows "sort_key (\<lambda>(k, v). key_bytes k) es = es"
  using ascending_sorted [OF assms] by (intro sort_key_id_if_sorted) (simp add: strict_sorted_iff)

lemma each_map: "each f (map g xs) = each (\<lambda>x. f (g x)) xs"
  by (induction xs) simp_all

lemma spell_object:
  assumes "\<not> depth > MAX_DEPTH" and "\<forall>(k, v) \<in> set es. spells k"
  shows "spell (DObject es) depth =
    and_then (spell_head 5 (int (length es))) (\<lambda>h.
    and_then (each (entry_bytes (depth + 1)) (sort_key (\<lambda>(k, v). key_bytes k) es)) (\<lambda>bs. Inr (h @ concat bs)))"
proof -
  let ?g = "\<lambda>(k, v). (key_bytes k, v)"
  have k: "each spell_key es = Inr (map ?g es)" using assms(2) by (simp add: spell_keys)
  have s: "sort_key fst (map ?g es) = map ?g (sort_key (\<lambda>(k, v). key_bytes k) es)"
    unfolding sort_key_map by (simp add: case_prod_unfold)
  have e: "(\<lambda>x. and_then (spell (snd (?g x)) (depth + 1)) (\<lambda>b. Inr (fst (?g x) @ b))) = entry_bytes (depth + 1)"
    by (auto simp: entry_bytes_def)
  show ?thesis
    unfolding spell.simps [of "DObject es"] if_not_P [OF assms(1)] drisl.case k and_then.simps s each_map length_map e ..
qed

lemma read_link_sound:
  assumes "multiformats_ok mf" and "read_head r = Inr ((6, arg, info), r1)" and "read_link mf arg r1 = Inr (v, r')"
    and "\<not> depth > MAX_DEPTH"
  obtains bs where "reads r r' bs" and "spell v depth = Inr bs"
proof -
  obtain arg2 info2 r2 b cid where l: "arg = 42" "read_head r1 = Inr ((2, arg2, info2), r2)" "read_take r2 arg2 = Inr (b, r')"
    "b \<noteq> []" "b ! 0 = byte 0" "cidFromBytes mf (drop 1 b) = Inr cid" "v = DLink cid"
    using assms(3) by (auto simp: read_link_def split: if_splits sum.splits)
  have "spell_head 6 (int 42) = Inr [byte 0xd8, byte 42]" by (simp add: spell_head_def head_bytes_def)
  then have h1: "reads r r1 (map byte [0xd8, 42])" using read_head_sound [OF assms(2)] l(1) by auto
  obtain h where h: "spell_head 2 (int arg2) = Inr h" "reads r1 r2 h" using read_head_sound [OF l(2)] by auto
  have b: "reads r2 r' b" "length b = arg2" using l(3) by (auto simp: read_take_iff)
  have cid: "b = byte 0 # cid_bytes cid" using cidFromBytes_dasl(2) [OF assms(1) l(6)] l(4,5) by (cases b) auto
  then have "int arg2 = int (length (cid_bytes cid)) + 1" using b(2) by simp
  then show thesis
    using that [of "map byte [0xd8, 42] @ h @ b"] reads_trans [OF h1 reads_trans [OF h(2) b(1)]] h(1) assms(4) cid l(7)
    by (simp add: spell.simps)
qed

lemma read_simple_sound:
  assumes "read_head r = Inr ((7, arg, info), r1)" and "read_simple arg info r1 = Inr (v, r')" and "\<not> depth > MAX_DEPTH"
  obtains bs where "reads r r' bs" and "spell v depth = Inr bs"
  using assms(1)
proof (cases rule: read_head_cases)
  case tiny
  then show ?thesis
    using that [of "[byte (224 + info)]"] assms(2,3) by (auto simp: read_simple_def spell.simps split: if_splits)
next
  case (wide width)
  define f where "f = (of_nat arg :: double)"
  have i: "info = 27" "\<not> info < 24" and s: "isFinite f" "f \<noteq> negative_zero" and r: "r' = r1"
    and v: "v = (if isSafeInteger f then DFloat f else DNumber f)"
    using assms(2) wide(1) by (auto simp: read_simple_def f_def new_Float_def Let_def split: if_splits)
  have "width = 8" using wide(1) i by auto
  then have "unat f = arg" using wide(2) by (simp add: f_def)
  then have "spell v depth = Inr (byte 0xfb # map byte (be arg 8))"
    using assms(3) s(1) by (auto simp: v spell.simps spell_float_def isSafeInteger_def split: option.splits)
  then show ?thesis using that wide(4) \<open>width = 8\<close> i r by simp
qed

lemma spell_number:
  assumes "\<not> depth > MAX_DEPTH" and "\<bar>i\<bar> < 2 ^ 53"
  shows "spell (DNumber (number_from i)) depth = spell_integer i"
  using assms by (simp add: spell.simps safe_number_from)

lemma read_integer_sound:
  assumes "\<not> depth > MAX_DEPTH"
    and "major = 0 \<and> v = (if int arg \<le> MAX_SAFE_INTEGER then DNumber (number_from (int arg)) else DBigInt (int arg)) \<or>
      major = 1 \<and> v = (let i = - 1 - int arg in if i \<ge> MIN_SAFE_INTEGER then DNumber (number_from i) else DBigInt i)"
  shows "spell v depth = spell_head major (int arg)"
  using assms(2)
proof (elim disjE conjE)
  assume m: "major = 0" and v: "v = (if int arg \<le> MAX_SAFE_INTEGER then DNumber (number_from (int arg)) else DBigInt (int arg))"
  show ?thesis using spell_number [OF assms(1), of "int arg"] assms(1)
    by (simp add: m v spell_integer_def MAX_SAFE_INTEGER_def spell.simps [of "DBigInt _"])
next
  let ?i = "- 1 - int arg"
  assume m: "major = 1" and v: "v = (let i = ?i in if i \<ge> MIN_SAFE_INTEGER then DNumber (number_from i) else DBigInt i)"
  have "spell v depth = spell_integer ?i"
    using spell_number [OF assms(1), of ?i] assms(1)
    by (simp add: v Let_def MIN_SAFE_INTEGER_def spell.simps [of "DBigInt _"])
  then show ?thesis by (simp add: m spell_integer_def)
qed

lemma read_value_sound:
  assumes "multiformats_ok mf"
  shows "sound_at depth (\<lambda>r. read_value mf r depth)"
proof (induction "Suc MAX_DEPTH - depth" arbitrary: depth rule: less_induct)
  case less
  show ?case unfolding sound_at_def
  proof (intro allI impI)
    fix r v r'
    assume run: "read_value mf r depth = Inr (v, r')"
    then have deep: "\<not> depth > MAX_DEPTH" by (auto simp: read_value.simps)
    then have inner: "sound_at (depth + 1) (\<lambda>r. read_value mf r (depth + 1))" by (intro less) simp
    obtain major arg info r1 where h: "read_head r = Inr ((major, arg, info), r1)"
      using run deep by (auto simp: read_value.simps [of mf r])
    note run = run [unfolded read_value.simps [of mf r] if_not_P [OF deep] h and_then.simps prod.case]
    have at: "at r1 \<le> length (input r1)" using h by (cases rule: read_head_cases) (auto dest: reads_length)
    show "\<exists>bs. reads r r' bs \<and> spell v depth = Inr bs"
    proof (cases "major = 7")
      case True
      then show ?thesis using run h deep by (auto elim: read_simple_sound)
    next
      case False
      then obtain hb where hb: "spell_head major (int arg) = Inr hb" "reads r r1 hb" "major < 7" using read_head_sound [OF h] by blast
      then consider "major = 0 \<or> major = 1" | "major = 2" | "major = 3" | "major = 4" | "major = 5" | "major = 6" by linarith
      then show ?thesis
      proof cases
        case 1
        then have "spell v depth = spell_head major (int arg)" "r' = r1"
          using run by (auto intro!: read_integer_sound [OF deep] simp: Let_def)
        then show ?thesis using hb by auto
      next
        case 2
        then obtain b where b: "v = DBytes b" "length b = arg" "reads r1 r' b" using run by (auto simp: read_take_iff)
        show ?thesis using reads_trans [OF hb(2) b(3)] hb(1) 2 deep b by (auto simp: spell.simps)
      next
        case 3
        then show ?thesis using run h deep by (auto elim!: read_text_sound simp: spell.simps)
      next
        case 4
        then obtain vs where vs: "v = DArray vs" "read_items (\<lambda>r. read_value mf r (depth + 1)) arg [] r1 = Inr (vs, r')"
          using run by (auto split: if_splits)
        obtain bss where "length vs = arg" "each (\<lambda>v. spell v (depth + 1)) vs = Inr bss" "reads r1 r' (concat bss)"
          using read_items_sound [OF inner vs(2) at] by auto
        then show ?thesis using reads_trans [OF hb(2)] hb(1) 4 deep by (auto simp: spell.simps [of "DArray vs"] vs(1))
      next
        case 5
        then obtain es where es: "v = DObject es" "read_entries (\<lambda>r. read_value mf r (depth + 1)) arg [] None r1 = Inr (es, r')"
          using run by (auto split: if_splits)
        obtain bss where n: "length es = arg" "ascending None es" "each (entry_bytes (depth + 1)) es = Inr bss"
          "reads r1 r' (concat bss)"
          using read_entries_sound [OF inner es(2) at] by auto
        have "spell v depth = Inr (hb @ concat bss)"
          using hb(1) 5 n ascending_sorted [OF n(2)] spell_object [OF deep, of es] by (simp add: es(1) sort_ascending)
        then show ?thesis using reads_trans [OF hb(2) n(4)] by blast
      next
        case 6
        then show ?thesis using run h deep assms by (auto elim: read_link_sound)
      qed
    qed
  qed
qed

section \<open>Encoded values decode\<close>

text \<open>
  A value the constructors make: a link of a DASL CID, a \<open>Float\<close> its constructor
  accepts, an object whose keys differ.
\<close>

primrec drisl_ok :: "multiformats \<Rightarrow> drisl \<Rightarrow> bool" where
  "drisl_ok mf DNull = True"
| "drisl_ok mf (DBool b) = True"
| "drisl_ok mf (DNumber d) = True"
| "drisl_ok mf (DBigInt i) = True"
| "drisl_ok mf (DText s) = True"
| "drisl_ok mf (DBytes b) = True"
| "drisl_ok mf (DLink cid) = dasl_cid mf cid"
| "drisl_ok mf (DFloat d) = (new_Float d = Inr (DFloat d))"
| "drisl_ok mf (DArray items) = list_all id (map (drisl_ok mf) items)"
| "drisl_ok mf (DObject es) = (distinct (map fst es) \<and> list_all snd (map (map_prod id (drisl_ok mf)) es))"
| "drisl_ok mf (DOther t) = True"

text \<open>
  What comes back: an integer as a number where it is safe and a bigint where it is
  not, a float as a \<open>Float\<close> only where a number would be an integer, the members of
  an object in the order of their encoded keys.
\<close>

definition norm_integer :: "int \<Rightarrow> drisl" where
  "norm_integer i = (if MIN_SAFE_INTEGER \<le> i \<and> i \<le> MAX_SAFE_INTEGER then DNumber (number_from i) else DBigInt i)"

definition norm_float :: "double \<Rightarrow> drisl" where
  "norm_float d = (if isSafeInteger d then DFloat d else DNumber d)"

primrec norm :: "drisl \<Rightarrow> drisl" where
  "norm DNull = DNull"
| "norm (DBool b) = DBool b"
| "norm (DNumber d) = (case safe_integer d of Some i \<Rightarrow> norm_integer i | None \<Rightarrow> norm_float d)"
| "norm (DBigInt i) = norm_integer i"
| "norm (DText s) = DText s"
| "norm (DBytes b) = DBytes b"
| "norm (DLink cid) = DLink cid"
| "norm (DFloat d) = norm_float d"
| "norm (DArray items) = DArray (map norm items)"
| "norm (DObject es) = DObject (sort_key (\<lambda>(k, v). key_bytes k) (map (map_prod id norm) es))"
| "norm (DOther t) = DOther t"

definition complete_at :: "multiformats \<Rightarrow> nat \<Rightarrow> (Reader \<Rightarrow> drisl_error + drisl \<times> Reader) \<Rightarrow> bool" where
  "complete_at mf depth value = (\<forall>v r r' bs.
     drisl_ok mf v \<longrightarrow> spell v depth = Inr bs \<longrightarrow> reads r r' bs \<longrightarrow> fits r \<longrightarrow> value r = Inr (norm v, r'))"

lemma complete_atD:
  "complete_at mf depth value \<Longrightarrow> drisl_ok mf v \<Longrightarrow> spell v depth = Inr bs \<Longrightarrow> reads r r' bs \<Longrightarrow> fits r \<Longrightarrow> value r = Inr (norm v, r')"
  unfolding complete_at_def by blast

lemma reads_fits: "reads r r' bs \<Longrightarrow> fits r \<Longrightarrow> fits r'"
  using reads_length by (simp add: fits_def)

lemma read_items_complete:
  assumes "complete_at mf depth value" and "each (\<lambda>v. spell v depth) items = Inr bss" and "reads r r' (concat bss)"
    and "fits r" and "list_all id (map (drisl_ok mf) items)"
  shows "read_items value (length items) out r = Inr (out @ map norm items, r')"
  using assms(2-)
proof (induction items arbitrary: bss r out)
  case Nil
  then show ?case by (simp add: reads_def)
next
  case (Cons v items)
  then obtain b rest where b: "bss = b # rest" "spell v depth = Inr b" "each (\<lambda>v. spell v depth) items = Inr rest" by auto
  then obtain r1 where r1: "reads r r1 b" "reads r1 r' (concat rest)" using Cons.prems(2) reads_split [of r r' b] by auto
  have "value r = Inr (norm v, r1)" using complete_atD [OF assms(1) _ b(2) r1(1)] Cons.prems by simp
  then show ?case using Cons.IH [OF b(3) r1(2)] reads_fits [OF r1(1)] Cons.prems by simp
qed

lemma read_entries_complete:
  assumes "complete_at mf depth value" and "each (entry_bytes depth) es = Inr bss" and "reads r r' (concat bss)"
    and "fits r" and "list_all snd (map (map_prod id (drisl_ok mf)) es)" and "ascending previous es"
    and "distinct (map fst (out @ es))"
  shows "read_entries value (length es) out previous r = Inr (out @ map (map_prod id norm) es, r')"
  using assms(2-)
proof (induction es arbitrary: bss r out previous)
  case Nil
  then show ?case by (simp add: reads_def)
next
  case (Cons e es)
  obtain k v where e: "e = (k, v)" by (cases e)
  then obtain b rest where b: "bss = (key_bytes k @ b) # rest" "spell v depth = Inr b" "each (entry_bytes depth) es = Inr rest"
    using Cons.prems(1) by (auto simp: entry_bytes_def [of depth "(k, v)"])
  obtain r1 r2 where r1: "reads r r1 (key_bytes k)" and r2: "reads r1 r2 b" and rest: "reads r2 r' (concat rest)"
    using Cons.prems(2) unfolding b(1) by (auto elim!: reads_split)
  have f: "fits r1" "fits r2" using reads_fits r1 r2 Cons.prems(3) by blast+
  have "read_key previous r = Inr ((k, key_bytes k), r1)"
    using Cons.prems(5) by (intro read_key_complete [OF _ r1 Cons.prems(3)]) (auto simp: e spells_def)
  moreover have "value r1 = Inr (norm v, r2)" using complete_atD [OF assms(1) _ b(2) r2 f(1)] Cons.prems(4) e by simp
  moreover have "AList.update k (norm v) out = out @ [(k, norm v)]" using Cons.prems(6) e by (intro update_fresh) auto
  moreover have "read_entries value (length es) (out @ [(k, norm v)]) (Some (key_bytes k)) r2 =
      Inr ((out @ [(k, norm v)]) @ map (map_prod id norm) es, r')"
    using Cons.prems(4-) e by (intro Cons.IH [OF b(3) rest f(2)]) auto
  ultimately show ?case by (simp add: e id_def)
qed

lemma key_bytes_inject:
  assumes "spells a" and "spells b" and "key_bytes a = key_bytes b"
  shows "a = b"
proof -
  define r where "r = \<lparr>input = key_bytes a, at = 0\<rparr>"
  obtain h where h: "\<not> LONE_SURROGATE a" "spell_head 3 (int (length (utf8_encode a))) = Inr h" "key_bytes a = h @ utf8_encode a"
    using assms(1) unfolding spells_def spells_iff by blast
  obtain h' where h': "\<not> LONE_SURROGATE b" "spell_head 3 (int (length (utf8_encode b))) = Inr h'" "key_bytes b = h' @ utf8_encode b"
    using assms(2) unfolding spells_def spells_iff by blast
  have "prefix h (key_bytes a)" "prefix h' (key_bytes a)" using h(3) h'(3) assms(3) by (metis prefixI)+
  then have "reads r (r\<lparr>at := length h\<rparr>) h" "reads r (r\<lparr>at := length h'\<rparr>) h'"
    by (simp_all add: reads_def rest_def r_def)
  note rd = this
  obtain i where "read_head r = Inr ((3, length (utf8_encode a), i), r\<lparr>at := length h\<rparr>)"
    using read_head_complete [OF h(2) rd(1)] by auto
  moreover obtain i' where "read_head r = Inr ((3, length (utf8_encode b), i'), r\<lparr>at := length h'\<rparr>)"
    using read_head_complete [OF h'(2) rd(2)] by auto
  ultimately have "length (utf8_encode a) = length (utf8_encode b)" by simp
  moreover have "h @ utf8_encode a = h' @ utf8_encode b" using h(3) h'(3) assms(3) by simp
  ultimately have "utf8_encode a = utf8_encode b" by simp
  then show ?thesis by (rule utf8_inject [OF h(1) h'(1)])
qed

lemma sorted_ascending:
  assumes "sorted (map (\<lambda>(k, v). key_bytes k) es)" and "distinct (map fst es)" and "\<forall>(k, v) \<in> set es. spells k"
    and "\<And>p k v. previous = Some p \<Longrightarrow> (k, v) \<in> set es \<Longrightarrow> p < key_bytes k"
  shows "ascending previous es"
  using assms
proof (induction es arbitrary: previous)
  case (Cons e es)
  obtain k v where e: "e = (k, v)" by (cases e)
  have "key_bytes k < key_bytes k'" if "(k', v') \<in> set es" for k' v'
  proof -
    have "key_bytes k \<le> key_bytes k'" "k \<noteq> k'" "spells k" "spells k'" using Cons.prems(1-3) that e by force+
    then show ?thesis using key_bytes_inject by (metis le_less)
  qed
  then have "ascending (Some (key_bytes k)) es" using Cons.IH [of "Some (key_bytes k)"] Cons.prems e by force
  then show ?case using Cons.prems(3,4) e by (auto split: option.splits)
qed simp

text \<open>The order in which an object has its members does not show in its bytes.\<close>

lemma sort_members_order:
  assumes "mset es = mset es'" and "distinct (map fst es)" and "\<forall>(k, v) \<in> set es. spells k"
  shows "sort_key (\<lambda>(k, v). key_bytes k) es = sort_key (\<lambda>(k, v). key_bytes k) es'"
proof -
  have "inj_on (\<lambda>(k, v). key_bytes k) (set es)"
  proof (rule inj_onI, clarify)
    fix k v k' v'
    assume e: "(k, v) \<in> set es" "(k', v') \<in> set es" "key_bytes k = key_bytes k'"
    then have "k = k'" using assms(3) by (blast intro: key_bytes_inject)
    then show "k = k' \<and> v = v'" using e eq_key_imp_eq_value [OF assms(2)] by blast
  qed
  then show ?thesis by (intro sort_key_inj_key_eq) (simp_all add: assms(1))
qed

lemma spell_order:
  assumes "mset es = mset es'" and "distinct (map fst es)" and "\<forall>(k, v) \<in> set es. spells k" and "\<not> depth > MAX_DEPTH"
  shows "spell (DObject es) depth = spell (DObject es') depth"
proof -
  have "\<forall>(k, v) \<in> set es'. spells k" "length es = length es'"
    using assms(1,3) mset_eq_setD [OF assms(1)] by (auto dest: mset_eq_length)
  then show ?thesis using spell_object [OF assms(4)] assms(3) sort_members_order [OF assms(1-3)] by simp
qed

lemma spell_nonempty: "spell v depth = Inr bs \<Longrightarrow> bs \<noteq> []"
proof -
  assume s: "spell v depth = Inr bs"
  then have deep: "\<not> depth > MAX_DEPTH" by (auto simp: spell.simps)
  show ?thesis
    using s unfolding spell.simps [of v] if_not_P [OF deep]
    by (cases v) (auto dest!: spell_head_nonempty simp: spell_integer_def spell_float_def spell_text_def split: option.splits if_splits)
qed

lemma concat_length: "\<forall>bs \<in> set bss. k \<le> length bs \<Longrightarrow> k * length bss \<le> length (concat bss)"
  by (induction bss) auto

lemma list_all2_from: "list_all2 P xs ys \<Longrightarrow> y \<in> set ys \<Longrightarrow> \<exists>x \<in> set xs. P x y"
  by (induction rule: list_all2_induct) auto

lemma spelled_items_length:
  assumes "each (\<lambda>v. spell v depth) items = Inr bss"
  shows "length items \<le> length (concat bss)"
proof -
  have all: "list_all2 (\<lambda>v b. spell v depth = Inr b) items bss" using assms by (simp add: each_Inr)
  have one: "1 \<le> length b" if "spell v depth = Inr b" for v b using spell_nonempty [OF that] by (cases b) auto
  have "\<forall>b \<in> set bss. 1 \<le> length b" using one list_all2_from [OF all] by blast
  then show ?thesis using concat_length [of bss 1] list_all2_lengthD [OF all] by simp
qed

lemma spelled_entries_length:
  assumes "each (entry_bytes depth) es = Inr bss" and "\<forall>(k, v) \<in> set es. spells k"
  shows "2 * length es \<le> length (concat bss)"
proof -
  have key: "key_bytes k \<noteq> []" if "spells k" for k
    using that spell_head_nonempty unfolding spells_def spells_iff by fastforce
  have all: "list_all2 (\<lambda>e b. entry_bytes depth e = Inr b) es bss" using assms by (simp add: each_Inr)
  have two: "2 \<le> length b" if b: "entry_bytes depth e = Inr b" and e: "e \<in> set es" for e b
  proof -
    obtain w where w: "b = key_bytes (fst e) @ w" "spell (snd e) depth = Inr w" using b by (auto simp: entry_bytes_def)
    have "spells (fst e)" using assms(2) e by (auto simp: case_prod_beta)
    then have "key_bytes (fst e) \<noteq> []" "w \<noteq> []" using key spell_nonempty [OF w(2)] by auto
    then show ?thesis by (cases "key_bytes (fst e)"; cases w) (auto simp: w(1))
  qed
  have "\<forall>b \<in> set bss. 2 \<le> length b"
    using two list_all2_from [OF all] by blast
  then show ?thesis using concat_length [of bss 2] list_all2_lengthD [OF all] by simp
qed

lemma read_simple_head:
  assumes "n < 24" and "reads r r' [byte (224 + n)]"
  shows "read_head r = Inr ((7, n, n), r')"
proof -
  have "read_byte r = Inr (224 + n, r')" using assms by (simp add: read_byte_iff)
  moreover have "(224 + n) div 32 = 7" "(224 + n) mod 32 = n" using assms(1) digit_join [of n 32 7] by simp_all
  ultimately show ?thesis using assms(1) by (simp add: read_head_def Let_def)
qed

lemma read_float_head:
  assumes "reads r r' (byte 0xfb # map byte (be (unat (d :: double)) 8))"
  shows "read_head r = Inr ((7, unat d, 27), r')"
proof -
  obtain r1 where r1: "reads r r1 [byte 0xfb]" "reads r1 r' (map byte (be (unat d) 8))" using assms by (rule reads_Cons)
  have "unat d < 256 ^ 8" using unsigned_less [of d] by simp
  then have "read_argument 8 0 r1 = Inr (unat d, r')"
    using read_argument_iff [of r1] reads_length [OF r1(1)] r1(2)
    by (auto intro!: exI [of _ "map byte (be (unat d) 8)"] simp: horner_be)
  moreover have "read_byte r = Inr (0xfb, r1)" using r1(1) by (simp add: read_byte_iff)
  ultimately show ?thesis by (simp add: read_head_def)
qed

lemma read_integer_complete:
  assumes "\<not> depth > MAX_DEPTH" and "spell_integer i = Inr bs" and "reads r r' bs"
  shows "read_value mf r depth = Inr (norm_integer i, r')"
proof (cases "0 \<le> i")
  case True
  then have "spell_head 0 (int (nat i)) = Inr bs" using assms(2) by (simp add: spell_integer_def)
  then obtain info where "read_head r = Inr ((0, nat i, info), r')" using assms(3) by (rule read_head_complete) simp
  then show ?thesis using True assms(1) by (simp add: read_value.simps norm_integer_def MIN_SAFE_INTEGER_def)
next
  case False
  then have "spell_head 1 (int (nat (- 1 - i))) = Inr bs" using assms(2) by (simp add: spell_integer_def)
  then obtain info where "read_head r = Inr ((1, nat (- 1 - i), info), r')" using assms(3) by (rule read_head_complete) simp
  then show ?thesis using False assms(1) by (simp add: read_value.simps norm_integer_def MAX_SAFE_INTEGER_def Let_def)
qed

lemma read_float_complete:
  assumes "\<not> depth > MAX_DEPTH" and "spell_float d = Inr bs" and "reads r r' bs" and "d \<noteq> negative_zero"
  shows "read_value mf r depth = Inr (norm_float d, r')"
proof -
  have bs: "isFinite d" "bs = byte 0xfb # map byte (be (unat d) 8)"
    using assms(2) by (auto simp: spell_float_def split: if_splits)
  have "read_head r = Inr ((7, unat d, 27), r')" using assms(3) unfolding bs(2) by (rule read_float_head)
  then show ?thesis using assms(1,4) bs(1)
    by (simp add: read_value.simps read_simple_def new_Float_def norm_float_def Let_def)
qed

lemma read_bytes_complete:
  assumes "spell_head major (int (length b)) = Inr h" and "reads r r' (h @ b)" and "fits r" and "major < 7"
  obtains info r1 where "read_head r = Inr ((major, length b, info), r1)" and "read_take r1 (length b) = Inr (b, r')"
    and "length b < 2 ^ 53"
proof -
  obtain r1 where r1: "reads r r1 h" "reads r1 r' b" using assms(2) by (rule reads_split)
  obtain info where "read_head r = Inr ((major, length b, info), r1)" using read_head_complete [OF assms(1) r1(1) assms(4)] .
  moreover have "length b \<le> remaining r1" "input r1 = input r" using reads_length r1 by blast+
  then have "length b < 2 ^ 53" using assms(3) by (simp add: fits_def remaining_def)
  ultimately show thesis using that r1(2) by (simp add: read_take_iff)
qed

lemma read_container_complete:
  assumes "spell_head major (int n) = Inr h" and "reads r r' (h @ concat bss)" and "fits r" and "major < 7"
    and "n \<le> length (concat bss)"
  obtains info r1 where "read_head r = Inr ((major, n, info), r1)" and "reads r1 r' (concat bss)"
    and "length (concat bss) \<le> remaining r1" and "n < 2 ^ 53" and "fits r1"
proof -
  obtain r1 where r1: "reads r r1 h" "reads r1 r' (concat bss)" using assms(2) by (rule reads_split)
  obtain info where i: "read_head r = Inr ((major, n, info), r1)" using read_head_complete [OF assms(1) r1(1) assms(4)] .
  have l: "length (concat bss) \<le> remaining r1" "fits r1" using reads_length r1(2) reads_fits [OF r1(1) assms(3)] by blast+
  then have "n < 2 ^ 53" using assms(5) by (simp add: fits_def remaining_def)
  then show thesis by (rule that [OF i r1(2) l(1) _ l(2)])
qed

lemma read_link_complete:
  assumes "\<not> depth > MAX_DEPTH" and "dasl_cid mf cid" and "spell (DLink cid) depth = Inr bs" and "reads r r' bs" and "fits r"
  shows "read_value mf r depth = Inr (DLink cid, r')"
proof -
  let ?b = "byte 0 # cid_bytes cid"
  obtain h where h: "spell_head 2 (int (length ?b)) = Inr h" "bs = [byte 0xd8, byte 42] @ h @ ?b"
    using assms(1,3) by (auto simp: spell.simps algebra_simps)
  obtain r1 where r1: "reads r r1 [byte 0xd8, byte 42]" "reads r1 r' (h @ ?b)" using assms(4) unfolding h(2) by (rule reads_split)
  have "spell_head 6 (int 42) = Inr [byte 0xd8, byte 42]" by (simp add: spell_head_def head_bytes_def)
  then obtain info where tag: "read_head r = Inr ((6, 42, info), r1)" using r1(1) by (rule read_head_complete) simp
  obtain info2 r2 where "read_head r1 = Inr ((2, length ?b, info2), r2)" "read_take r2 (length ?b) = Inr (?b, r')" "length ?b < 2 ^ 53"
    using read_bytes_complete [OF h(1) r1(2) reads_fits [OF r1(1) assms(5)]] by auto
  then have "read_link mf 42 r1 = Inr (DLink cid, r')"
    using assms(2) by (simp add: read_link_def dasl_cid_def)
  then show ?thesis using tag assms(1) by (simp add: read_value.simps)
qed

lemma read_array_complete:
  assumes "\<not> depth > MAX_DEPTH" and "complete_at mf (depth + 1) (\<lambda>r. read_value mf r (depth + 1))"
    and "drisl_ok mf (DArray items)" and "spell (DArray items) depth = Inr bs" and "reads r r' bs" and "fits r"
  shows "read_value mf r depth = Inr (norm (DArray items), r')"
proof -
  obtain h bss where h: "spell_head 4 (int (length items)) = Inr h" "each (\<lambda>v. spell v (depth + 1)) items = Inr bss" "bs = h @ concat bss"
    using assms(1,4) by (auto simp: spell.simps [of "DArray items"])
  obtain info r1 where r1: "read_head r = Inr ((4, length items, info), r1)" "reads r1 r' (concat bss)"
    "length (concat bss) \<le> remaining r1" "length items < 2 ^ 53" "fits r1"
    using read_container_complete [OF h(1) assms(5) [unfolded h(3)] assms(6) _ spelled_items_length [OF h(2)]] by auto
  have "read_items (\<lambda>r. read_value mf r (depth + 1)) (length items) [] r1 = Inr (map norm items, r')"
    using read_items_complete [OF assms(2) h(2) r1(2,5)] assms(3) by simp
  then show ?thesis using r1(1,3,4) spelled_items_length [OF h(2)] assms(1) by (simp add: read_value.simps [of mf r])
qed

lemma read_object_complete:
  assumes "\<not> depth > MAX_DEPTH" and "complete_at mf (depth + 1) (\<lambda>r. read_value mf r (depth + 1))"
    and "drisl_ok mf (DObject es)" and "spell (DObject es) depth = Inr bs" and "reads r r' bs" and "fits r"
  shows "read_value mf r depth = Inr (norm (DObject es), r')"
proof -
  define ms where "ms = sort_key (\<lambda>(k, v). key_bytes k) es"
  have s: "\<forall>(k, v) \<in> set es. spells k"
    using assms(1,4) by (auto simp: spell.simps [of "DObject es"] spell_keys)
  then obtain h bss where h: "spell_head 5 (int (length ms)) = Inr h" "each (entry_bytes (depth + 1)) ms = Inr bss" "bs = h @ concat bss"
    using assms(4) spell_object [OF assms(1) s] by (auto simp: ms_def)
  have ms: "\<forall>(k, v) \<in> set ms. spells k" "distinct (map fst ms)" "list_all snd (map (map_prod id (drisl_ok mf)) ms)"
    using s assms(3) by (auto simp: ms_def list_all_iff distinct_map)
  have two: "2 * length ms \<le> length (concat bss)" by (rule spelled_entries_length [OF h(2) ms(1)])
  obtain info r1 where r1: "read_head r = Inr ((5, length ms, info), r1)" "reads r1 r' (concat bss)"
    "length (concat bss) \<le> remaining r1" "length ms < 2 ^ 53" "fits r1"
    using read_container_complete [OF h(1) assms(5) [unfolded h(3)] assms(6)] two by auto
  have "ascending None ms" using ms by (intro sorted_ascending) (auto simp: ms_def)
  then have "read_entries (\<lambda>r. read_value mf r (depth + 1)) (length ms) [] None r1 = Inr (map (map_prod id norm) ms, r')"
    using read_entries_complete [OF assms(2) h(2) r1(2,5) ms(3), of None "[]"] ms(2) by simp
  moreover have "norm (DObject es) = DObject (map (map_prod id norm) ms)"
    by (simp add: ms_def sort_key_map case_prod_unfold)
  ultimately show ?thesis using r1(1,3,4) two assms(1) by (simp add: read_value.simps [of mf r])
qed

lemma read_value_complete: "complete_at mf depth (\<lambda>r. read_value mf r depth)"
proof (induction "Suc MAX_DEPTH - depth" arbitrary: depth rule: less_induct)
  case less
  show ?case unfolding complete_at_def
  proof (intro allI impI)
    fix v r r' bs
    assume ok: "drisl_ok mf v" and s: "spell v depth = Inr bs" and rd: "reads r r' bs" and f: "fits r"
    have deep: "\<not> depth > MAX_DEPTH" using s by (auto simp: spell.simps)
    then have inner: "complete_at mf (depth + 1) (\<lambda>r. read_value mf r (depth + 1))" by (intro less) simp
    note s' = s [unfolded spell.simps [of v] if_not_P [OF deep]]
    show "read_value mf r depth = Inr (norm v, r')"
    proof (cases v)
      case DNull
      then have "read_head r = Inr ((7, 22, 22), r')" using s' rd by (intro read_simple_head) simp_all
      then show ?thesis using deep by (simp add: DNull read_value.simps read_simple_def)
    next
      case (DBool b)
      then have "read_head r = Inr ((7, if b then 21 else 20, if b then 21 else 20), r')"
        using s' rd by (intro read_simple_head) (simp_all split: if_splits)
      then show ?thesis using deep by (simp add: DBool read_value.simps read_simple_def)
    next
      case (DNumber d)
      show ?thesis
      proof (cases "safe_integer d")
        case None
        moreover have "d \<noteq> negative_zero" using None negative_zero_safe by auto
        ultimately show ?thesis using s' rd read_float_complete [OF deep] by (simp add: DNumber)
      next
        case (Some i)
        then show ?thesis using s' rd read_integer_complete [OF deep] by (simp add: DNumber)
      qed
    next
      case (DBigInt i)
      then show ?thesis using s' rd read_integer_complete [OF deep] by simp
    next
      case (DText t)
      then have t: "spell_text t = Inr bs" using s' by simp
      obtain arg info r1 kb where "read_head r = Inr ((3, arg, info), r1)" "read_take r1 arg = Inr (kb, r')"
        "utf8_decode kb = Some t" "length_of arg = Inr arg" by (rule read_text_complete [OF t rd f])
      then show ?thesis using deep by (simp add: DText read_value.simps read_text_def)
    next
      case (DBytes b)
      then obtain h where h: "spell_head 2 (int (length b)) = Inr h" "bs = h @ b" using s' by auto
      obtain info r1 where "read_head r = Inr ((2, length b, info), r1)" "read_take r1 (length b) = Inr (b, r')" "length b < 2 ^ 53"
        using read_bytes_complete [OF h(1) rd [unfolded h(2)] f] by auto
      then show ?thesis using deep by (simp add: DBytes read_value.simps)
    next
      case (DLink cid)
      then show ?thesis using read_link_complete [OF deep _ _ rd f] ok s by simp
    next
      case (DFloat d)
      then have "d \<noteq> negative_zero" using ok by (auto simp: new_Float_def split: if_splits)
      then show ?thesis using s' rd read_float_complete [OF deep] by (simp add: DFloat)
    next
      case (DArray items)
      then show ?thesis using read_array_complete [OF deep inner _ _ rd f] ok s by simp
    next
      case (DObject es)
      then show ?thesis using read_object_complete [OF deep inner _ _ rd f] ok s by simp
    next
      case (DOther t)
      then show ?thesis using s' by simp
    qed
  qed
qed

text \<open>The bytes of an accepted value decode to it, normalized.\<close>

lemma decode_encoded:
  assumes "drisl_ok mf v" and "encodeDrisl v = Inr bytes" and "length bytes < 2 ^ 53"
  shows "decodeDrisl mf bytes = Inr (norm v)"
proof -
  let ?r = "\<lparr>input = bytes, at = 0\<rparr>" and ?r' = "\<lparr>input = bytes, at = length bytes\<rparr>"
  have "reads ?r ?r' bytes" "fits ?r" using assms(3) by (simp_all add: reads_def rest_def fits_def)
  then have "read_value mf ?r 0 = Inr (norm v, ?r')"
    using complete_atD [OF read_value_complete assms(1)] assms(2) by (simp add: encodeDrisl_spell)
  then show ?thesis by (simp add: decodeDrisl_def remaining_def)
qed

section \<open>The round trips\<close>

text \<open>
  C33: a block that decodes is a block whose bytes are the only bytes its value can
  have: what \<open>decodeDrisl\<close> returns encodes to exactly the bytes it was read from.
\<close>

theorem drisl_canonical:
  assumes "multiformats_ok mf" and "decodeDrisl mf bytes = Inr v"
  shows "encodeDrisl v = Inr bytes"
proof -
  let ?r = "\<lparr>input = bytes, at = 0\<rparr>"
  obtain r' where r': "read_value mf ?r 0 = Inr (v, r')" "remaining r' = 0"
    using assms(2) by (auto simp: decodeDrisl_def split: if_splits)
  obtain bs where bs: "reads ?r r' bs" "spell v 0 = Inr bs"
    using read_value_sound [OF assms(1), of 0] r'(1) unfolding sound_at_def by blast
  have "bs = bytes" using bs(1) r'(2) by (auto simp: reads_def rest_def remaining_def prefix_def)
  then show ?thesis using bs(2) by (simp add: encodeDrisl_spell)
qed

text \<open>
  C34: a value the encoder accepts comes back from its bytes, normalized: no encoding
  it makes is refused by the strict decoder.
\<close>

theorem drisl_round_trip:
  assumes "drisl_ok mf v" and "encodeDrisl v = Inr bytes" and "length bytes < 2 ^ 53"
  shows "decodeDrisl mf bytes = Inr (norm v)"
  using assms by (rule decode_encoded)

text \<open>
  C37: the encoder's buffers do not show: writing through a \<open>Writer\<close> gives the bytes, or
  the error, of the plain recursive spelling.
\<close>

theorem encoder_is_spelling: "encodeDrisl v = spell v 0"
  by (rule encodeDrisl_spell)

section \<open>An example\<close>

text \<open>A library that spells CIDs in base64url and hashes by cutting to 32 bytes.\<close>

definition demo_mf :: multiformats where
  "demo_mf = \<lparr>baseEncode = base64url, baseDecode = \<lambda>t. Some (base64url_decode t),
     CID_decode = \<lambda>bytes. Some \<lparr>mcid_code = octet bytes 1, mcid_bytes = bytes, mcid_string = CHR ''b'' # base64url bytes\<rparr>,
     CID_create = \<lambda>version code digest. let bytes = cid_prefix code @ digest in
       \<lparr>mcid_code = code, mcid_bytes = bytes, mcid_string = CHR ''b'' # base64url bytes\<rparr>,
     sha256 = \<lambda>bytes. take 32 (bytes @ replicate 32 (byte 0))\<rparr>"

lemma demo_mf_ok: "multiformats_ok demo_mf"
  by (auto simp: multiformats_ok_def demo_mf_def base64url_round_trip profile_cid_def DIGEST_LENGTH_def Let_def)

definition demo_bytes :: string where
  "demo_bytes = map byte [0xa1, 0x61, 0x61, 0x82, 0xf5, 0xf6]"

lemma read_items_numeral:
  "read_items value (numeral k) out r = and_then (value r) (\<lambda>(v, r). read_items value (pred_numeral k) (out @ [v]) r)"
  by (simp add: numeral_eq_Suc)

lemmas demo_reads = read_value.simps [of demo_mf] read_head_def read_byte_def read_take_def length_of_def read_key_def
  read_simple_def read_items_numeral utf8_decode_def in_range_def point_units_def js_def

lemma demo_decoded: "decodeDrisl demo_mf demo_bytes = Inr (DObject [(js ''a'', DArray [DBool True, DNull])])"
  by (simp add: decodeDrisl_def demo_bytes_def demo_reads MAX_DEPTH_def MAX_SAFE_INTEGER_def remaining_def Let_def)

theorem drisl_canonical_witness:
  "encodeDrisl (DObject [(js ''a'', DArray [DBool True, DNull])]) = Inr demo_bytes"
  by (rule drisl_canonical [OF demo_mf_ok demo_decoded])

definition demo_value :: drisl where
  "demo_value = DObject [(js ''b'', DBytes (map byte [0x78, 0x79, 0x7a])), (js ''a'', DArray [DBool True, DBigInt (- 3)])]"

lemma demo_encoded: "encodeDrisl demo_value = Inr (map byte [0xa2, 0x61, 0x61, 0x82, 0xf5, 0x22, 0x61, 0x62, 0x43, 0x78, 0x79, 0x7a])"
  by (simp add: encodeDrisl_spell demo_value_def spell.simps spell_key_def spell_text_def spell_head_def spell_integer_def
      head_bytes_def LONE_SURROGATE_def is_high_def is_low_def starts_low_def utf8_encode_def point_bytes_def single_point_def
      js_def MAX_DEPTH_def Let_def byte_def less_char_def)

theorem drisl_round_trip_witness:
  "decodeDrisl demo_mf (map byte [0xa2, 0x61, 0x61, 0x82, 0xf5, 0x22, 0x61, 0x62, 0x43, 0x78, 0x79, 0x7a]) = Inr (norm demo_value)"
  by (rule drisl_round_trip [OF _ demo_encoded]) (simp_all add: demo_value_def js_def)

end
