(* ===== verification/Dasl_Car.thy ===== *)
theory Dasl_Car
  imports Drisl_Codec
begin

text \<open>
  DASL CAR, \<^verbatim>\<open>packages/dasl/src/car.ts\<close>: the reader of the container, which keeps
  the blocks that hash to their names and lists the others, and \<open>encodeCar\<close>, whose
  bytes the package \<open>@ipld/car\<close> writes. That writer and multiformats' varint are the
  record \<open>car_library\<close>; \<open>varint_ok\<close> and \<open>car_writer_ok\<close> say what they promise.
\<close>

record car_library =
  varint_decode :: "string \<Rightarrow> nat \<Rightarrow> (nat \<times> nat) option"  \<comment> \<open>the value and how many bytes it took, or a throw\<close>
  varint_encode :: "nat \<Rightarrow> string"
  car_write :: "CID list \<Rightarrow> (CID \<times> string) list \<Rightarrow> string"

record Car =
  car_roots :: "string list"
  car_blocks :: "(string \<times> string) list"
  car_bad :: "string list"

datatype car_error =
  BadVarint | TruncatedCar | EmptyHeader | HeaderNotDrisl drisl_error | HeaderNotMap | WrongCarVersion | RootsNotCids
| ShortBlock | BadName cid_error

definition car_section :: "car_library \<Rightarrow> string \<Rightarrow> nat \<Rightarrow> car_error + string \<times> nat" where
  "car_section lib bytes pos =
     (case varint_decode lib bytes pos of
        None \<Rightarrow> Inl BadVarint
      | Some (len, width) \<Rightarrow>
          let start = pos + width in
          if start + len > length bytes then Inl TruncatedCar
          else Inr (take len (drop start bytes), start + len))"

text \<open>\<open>decodeHeader\<close>: a DRISL map with the integer \<open>version: 1\<close> and \<open>roots\<close> of links.\<close>

fun link_text :: "drisl \<Rightarrow> string option" where
  "link_text (DLink cid) = Some (cid_text cid)"
| "link_text _ = None"

definition header_roots :: "(js_string \<times> drisl) list \<Rightarrow> car_error + string list" where
  "header_roots doc =
     (if map_of doc (js ''version'') \<noteq> Some (DNumber (number_from 1)) then Inl WrongCarVersion
      else case map_of doc (js ''roots'') of
        Some (DArray roots) \<Rightarrow>
          if \<not> list_all (\<lambda>root. link_text root \<noteq> None) roots then Inl RootsNotCids
          else Inr (map (\<lambda>root. the (link_text root)) roots)
      | _ \<Rightarrow> Inl RootsNotCids)"

definition decodeHeader :: "multiformats \<Rightarrow> string \<Rightarrow> car_error + string list" where
  "decodeHeader mf bytes =
     (case decodeDrisl mf bytes of
        Inl e \<Rightarrow> Inl (HeaderNotDrisl e)
      | Inr (DObject doc) \<Rightarrow> header_roots doc
      | Inr _ \<Rightarrow> Inl HeaderNotMap)"

text \<open>One block of the loop: kept, listed as bad, or ignored under a name already kept.\<close>

definition add_block :: "multiformats \<Rightarrow> string \<Rightarrow> Car \<Rightarrow> Car" where
  "add_block mf block car =
     (let name = take CID_LENGTH block; data = drop CID_LENGTH block in
      case cidFromBytes mf name of
        Inl _ \<Rightarrow> car\<lparr>car_bad := car_bad car @ [CHR ''b'' # base32Encode mf name]\<rparr>
      | Inr cid \<Rightarrow>
          if map_of (car_blocks car) (cid_text cid) \<noteq> None then car
          else case checkCid mf (Inr cid) data of
            Inr _ \<Rightarrow> car\<lparr>car_blocks := car_blocks car @ [(cid_text cid, data)]\<rparr>
          | Inl _ \<Rightarrow> car\<lparr>car_bad := car_bad car @ [cid_text cid]\<rparr>)"

text \<open>The loop over the sections; that it may not end is \<^const>\<open>None\<close>.\<close>

partial_function (option) decode_blocks ::
    "multiformats \<Rightarrow> car_library \<Rightarrow> string \<Rightarrow> nat \<Rightarrow> Car \<Rightarrow> (car_error + Car) option" where
  "decode_blocks mf lib bytes pos car =
     (if pos < length bytes then
        case car_section lib bytes pos of
          Inl e \<Rightarrow> Some (Inl e)
        | Inr (block, pos') \<Rightarrow>
            if length block < CID_LENGTH then Some (Inl ShortBlock)
            else decode_blocks mf lib bytes pos' (add_block mf block car)
      else Some (Inr car))"

definition decodeCar :: "multiformats \<Rightarrow> car_library \<Rightarrow> string \<Rightarrow> (car_error + Car) option" where
  "decodeCar mf lib bytes =
     (case car_section lib bytes 0 of
        Inl e \<Rightarrow> Some (Inl e)
      | Inr (header, pos) \<Rightarrow>
          if header = [] then Some (Inl EmptyHeader)
          else case decodeHeader mf header of
            Inl e \<Rightarrow> Some (Inl e)
          | Inr roots \<Rightarrow> decode_blocks mf lib bytes pos \<lparr>car_roots = roots, car_blocks = [], car_bad = []\<rparr>)"

text \<open>\<open>encodeCar\<close>: every name parsed as a DASL CID, the container written by the library.\<close>

definition named_cid :: "multiformats \<Rightarrow> string \<Rightarrow> car_error + CID" where
  "named_cid mf name =
     (case parseCid mf name of
        Inl e \<Rightarrow> Inl (BadName e)
      | Inr cid \<Rightarrow> (case CID_decode mf (cid_bytes cid) of None \<Rightarrow> Inl (BadName CidRefused) | Some c \<Rightarrow> Inr c))"

definition encodeCar :: "multiformats \<Rightarrow> car_library \<Rightarrow> string list \<Rightarrow> (string \<times> string) list \<Rightarrow> car_error + string" where
  "encodeCar mf lib roots blocks =
     and_then (each (named_cid mf) roots) (\<lambda>cids.
     and_then (each (\<lambda>(name, data). and_then (named_cid mf name) (\<lambda>cid. Inr (cid, data))) blocks) (\<lambda>sections.
       Inr (car_write lib cids sections)))"

section \<open>The loop ends\<close>

definition varint_progress :: "car_library \<Rightarrow> bool" where
  "varint_progress lib = (\<forall>bytes pos n width. varint_decode lib bytes pos = Some (n, width) \<longrightarrow> 0 < width)"

lemma decode_blocks_ends:
  assumes "varint_progress lib"
  shows "decode_blocks mf lib bytes pos car \<noteq> None"
proof (induction "length bytes - pos" arbitrary: pos car rule: less_induct)
  case less
  show ?case
  proof (cases "pos < length bytes")
    case True
    show ?thesis
    proof (cases "car_section lib bytes pos")
      case (Inr s)
      obtain block pos' where s: "s = (block, pos')" by (cases s)
      have "pos < pos'" using Inr assms
        by (auto simp: car_section_def varint_progress_def s Let_def split: option.splits if_splits)
      then have "decode_blocks mf lib bytes pos' (add_block mf block car) \<noteq> None" using less True by simp
      then show ?thesis using Inr s True by (simp add: decode_blocks.simps [of mf lib bytes pos])
    qed (simp add: decode_blocks.simps)
  qed (simp add: decode_blocks.simps)
qed

section \<open>What is kept\<close>

text \<open>The blocks kept are those that hash to their names, each name once.\<close>

definition blocks_match :: "multiformats \<Rightarrow> Car \<Rightarrow> bool" where
  "blocks_match mf car \<longleftrightarrow> distinct (map fst (car_blocks car)) \<and>
     (\<forall>(name, data) \<in> set (car_blocks car). \<exists>cid. parseCid mf name = Inr cid \<and> cid_digest cid = sha256 mf data)"

lemma add_block_match:
  assumes "multiformats_ok mf" and "blocks_match mf car"
  shows "blocks_match mf (add_block mf block car)"
proof (cases "cidFromBytes mf (take CID_LENGTH block)")
  case (Inr cid)
  have d: "dasl_cid mf cid" using cidFromBytes_dasl [OF assms(1) Inr] by simp
  show ?thesis using assms(2) checkCid_Inr [OF assms(1) d] parseCid_Inr [OF assms(1)] d
    by (auto simp: add_block_def Let_def Inr blocks_match_def map_of_eq_None_iff split: sum.splits)
qed (use assms(2) in \<open>simp add: add_block_def Let_def blocks_match_def\<close>)

lemma add_block_roots [simp]: "car_roots (add_block mf block car) = car_roots car"
  by (simp add: add_block_def Let_def split: sum.splits)

lemma decode_blocks_match:
  "decode_blocks mf lib bytes pos car = Some y \<Longrightarrow> multiformats_ok mf \<and> blocks_match mf car \<and> y = Inr out \<Longrightarrow> blocks_match mf out"
proof (induction rule: decode_blocks.raw_induct [rotated, consumes 1, case_names step])
  case (step rec mf lib bytes pos car y)
  show ?case
  proof (cases "pos < length bytes")
    case True
    then obtain block pos' where r: "rec mf lib bytes pos' (add_block mf block car) = Some y"
      using step(2,3) by (auto split: sum.splits if_splits)
    show ?thesis by (rule step(1) [OF r]) (use step(3) add_block_match in blast)
  qed (use step(2,3) in simp)
qed

text \<open>
  C36: whatever container \<open>decodeCar\<close> accepts, a block it hands out is one whose bytes hash to
  the DASL CID it is handed out under, and no name is handed out twice.
\<close>

theorem car_blocks_match:
  assumes "multiformats_ok mf" and "decodeCar mf lib bytes = Some (Inr car)"
  shows "distinct (map fst (car_blocks car)) \<and>
    (\<forall>(name, data) \<in> set (car_blocks car). \<exists>cid. parseCid mf name = Inr cid \<and> cid_digest cid = sha256 mf data)"
proof -
  obtain pos roots where "decode_blocks mf lib bytes pos \<lparr>car_roots = roots, car_blocks = [], car_bad = []\<rparr> = Some (Inr car)"
    using assms(2) by (auto simp: decodeCar_def split: sum.splits if_splits)
  then have "blocks_match mf car" by (rule decode_blocks_match) (simp add: assms(1) blocks_match_def)
  then show ?thesis by (simp add: blocks_match_def)
qed

text \<open>
  reading a container ends, on any bytes, as long as a varint takes at least a byte.
\<close>

theorem decodeCar_ends:
  assumes "varint_progress lib"
  shows "\<exists>outcome. decodeCar mf lib bytes = Some outcome"
  using decode_blocks_ends [OF assms] by (auto simp: decodeCar_def split: sum.splits)

section \<open>A container written and read back\<close>

text \<open>A length-prefixed section, what multiformats' varint reads of it, and the container \<open>@ipld/car\<close> writes.\<close>

definition frame :: "car_library \<Rightarrow> string \<Rightarrow> string" where
  "frame lib b = varint_encode lib (length b) @ b"

definition varint_ok :: "car_library \<Rightarrow> bool" where
  "varint_ok lib = (\<forall>a n b. n < 2 ^ 53 \<longrightarrow>
     varint_decode lib (a @ varint_encode lib n @ b) (length a) = Some (n, length (varint_encode lib n)))"

definition car_header :: "CID list \<Rightarrow> drisl" where
  "car_header cids = DObject [(js ''roots'', DArray (map (\<lambda>c. DLink (fromCid c)) cids)), (js ''version'', DNumber (number_from 1))]"

definition car_writer_ok :: "car_library \<Rightarrow> bool" where
  "car_writer_ok lib = (\<forall>cids sections header. encodeDrisl (car_header cids) = Inr header \<longrightarrow>
     car_write lib cids sections = frame lib header @ concat (map (\<lambda>(c, data). frame lib (mcid_bytes c @ data)) sections))"

definition hashes_to :: "multiformats \<Rightarrow> string \<times> string \<Rightarrow> bool" where
  "hashes_to mf block = (case checkCid mf (Inl (fst block)) (snd block) of Inl _ \<Rightarrow> False | Inr _ \<Rightarrow> True)"

lemma car_section_frame:
  assumes "varint_ok lib" and "bytes = a @ frame lib b @ tail" and "pos = length a" and "length b < 2 ^ 53"
  shows "car_section lib bytes pos = Inr (b, pos + length (frame lib b))"
proof -
  have "varint_decode lib bytes pos = Some (length b, length (varint_encode lib (length b)))"
    using assms unfolding varint_ok_def frame_def by simp
  then show ?thesis by (simp add: car_section_def assms(2,3) frame_def Let_def)
qed

lemma named_cid_Inr:
  assumes "multiformats_ok mf"
  shows "named_cid mf name = Inr c \<longleftrightarrow>
    (\<exists>cid. parseCid mf name = Inr cid \<and> fromCid c = cid \<and> (\<exists>code digest. codec_ok code \<and> length digest = DIGEST_LENGTH \<and> c = profile_cid mf code digest))"
  (is "?l \<longleftrightarrow> ?r")
proof
  assume ?l
  then obtain cid where c: "parseCid mf name = Inr cid" "CID_decode mf (cid_bytes cid) = Some c"
    by (auto simp: named_cid_def split: sum.splits option.splits)
  then obtain code digest where d: "codec_ok code" "length digest = DIGEST_LENGTH" "cid = named mf code digest"
    using parseCid_Inr [OF assms] dasl_cid_named [OF assms] by auto
  then have "c = profile_cid mf code digest" using c(2) assms by (simp add: multiformats_ok_def)
  then show ?r using c(1) d by (auto simp: named_def)
next
  assume ?r
  then obtain code digest where c: "codec_ok code" "length digest = DIGEST_LENGTH" "c = profile_cid mf code digest"
    "parseCid mf name = Inr (named mf code digest)" by (auto simp: named_def)
  then show ?l using assms by (simp add: named_cid_def multiformats_ok_def)
qed

definition profile :: "multiformats \<Rightarrow> CID \<Rightarrow> bool" where
  "profile mf c = (\<exists>code digest. codec_ok code \<and> length digest = DIGEST_LENGTH \<and> c = profile_cid mf code digest)"

lemma profile_dasl:
  assumes "multiformats_ok mf" and "profile mf c"
  shows "dasl_cid mf (fromCid c)" and "length (mcid_bytes c) = 36"
  using assms dasl_cid_named [OF assms(1)]
  by (auto simp: profile_def named_def profile_cid_def cid_prefix_def DIGEST_LENGTH_def)

lemma header_keys:
  "spells (js ''roots'')" "spells (js ''version'')" "key_bytes (js ''roots'') < key_bytes (js ''version'')"
  "js ''roots'' \<noteq> js ''version''"
  by (simp_all add: spells_def key_bytes_def spell_text_def spell_head_def head_bytes_def LONE_SURROGATE_def is_high_def
      is_low_def starts_low_def utf8_encode_def point_bytes_def single_point_def js_def byte_def less_char_def Let_def)

lemma each_total: "(\<And>x. x \<in> set xs \<Longrightarrow> \<exists>y. f x = Inr y) \<Longrightarrow> \<exists>ys. each f xs = Inr ys"
  by (induction xs) auto

lemma spell_head_total: "0 \<le> n \<Longrightarrow> n < 2 ^ 64 \<Longrightarrow> \<exists>h. spell_head major n = Inr h"
  by (simp add: spell_head_def head_bytes_def TWO_64_def Let_def)

lemma header_encodes:
  assumes "multiformats_ok mf" and "\<forall>c \<in> set cids. profile mf c" and "length cids < 2 ^ 53"
  shows "\<exists>h. encodeDrisl (car_header cids) = Inr h"
proof -
  have link: "\<exists>b. spell (DLink (fromCid c)) 2 = Inr b" if "c \<in> set cids" for c
    using assms(2) that profile_dasl(2) [OF assms(1)] spell_head_total [of 37 2]
    by (auto simp: spell.simps MAX_DEPTH_def fromCid_def)
  obtain h where "spell_head 4 (int (length cids)) = Inr h" using spell_head_total [of "int (length cids)" 4] assms(3) by auto
  moreover obtain bss where "each (\<lambda>v. spell v 2) (map (\<lambda>c. DLink (fromCid c)) cids) = Inr bss"
    using each_total [of "map (\<lambda>c. DLink (fromCid c)) cids" "\<lambda>v. spell v 2"] link by auto
  ultimately obtain a where a: "spell (DArray (map (\<lambda>c. DLink (fromCid c)) cids)) 1 = Inr a"
    by (auto simp: spell.simps [of "DArray _"] MAX_DEPTH_def numeral_2_eq_2)
  have v: "\<exists>b. spell (DNumber (number_from 1)) 1 = Inr b"
    using spell_number [of 1 1] spell_head_total [of 1 0] by (simp add: MAX_DEPTH_def spell_integer_def)
  have "\<exists>bss. each (entry_bytes 1) (sort_key (\<lambda>(k, v). key_bytes k)
      [(js ''roots'', DArray (map (\<lambda>c. DLink (fromCid c)) cids)), (js ''version'', DNumber (number_from 1))]) = Inr bss"
    by (rule each_total) (use a v in \<open>auto simp: entry_bytes_def split: if_splits\<close>)
  then show ?thesis
    using spell_object [of 0] header_keys(1,2) spell_head_total [of 2 5]
    by (auto simp: encodeDrisl_spell car_header_def MAX_DEPTH_def)
qed

lemma header_decodes:
  assumes "multiformats_ok mf" and "\<forall>c \<in> set cids. profile mf c" and "encodeDrisl (car_header cids) = Inr h" and "length h < 2 ^ 53"
  shows "decodeHeader mf h = Inr (map mcid_string cids)"
proof -
  have "drisl_ok mf (car_header cids)"
    using assms(2) profile_dasl(1) [OF assms(1)] header_keys(4) by (auto simp: car_header_def list_all_iff)
  then have d: "decodeDrisl mf h = Inr (norm (car_header cids))" using decode_encoded assms(3,4) by blast
  have "norm (car_header cids) = car_header cids"
    using header_keys(3) safe_number_from [of 1]
    by (auto simp: car_header_def norm_integer_def MIN_SAFE_INTEGER_def MAX_SAFE_INTEGER_def)
  then show ?thesis using d header_keys(4)
    by (auto simp: decodeHeader_def car_header_def header_roots_def list_all_iff fromCid_def comp_def)
qed

lemma decode_sections:
  assumes "multiformats_ok mf" and "varint_ok lib" and "\<forall>(c, data) \<in> set sections. profile mf c"
    and "bytes = a @ concat (map (\<lambda>(c, data). frame lib (mcid_bytes c @ data)) sections)" and "pos = length a"
    and "length bytes < 2 ^ 53"
  shows "decode_blocks mf lib bytes pos car = Some (Inr (fold (\<lambda>(c, data). add_block mf (mcid_bytes c @ data)) sections car))"
  using assms(3-5)
proof (induction sections arbitrary: a pos car)
  case Nil
  then show ?case by (simp add: decode_blocks.simps)
next
  case (Cons s sections)
  obtain c data where s: "s = (c, data)" by (cases s)
  let ?b = "mcid_bytes c @ data" and ?tail = "concat (map (\<lambda>(c, data). frame lib (mcid_bytes c @ data)) sections)"
  have bytes: "bytes = a @ frame lib ?b @ ?tail" using Cons.prems(2) by (simp add: s)
  have len: "36 \<le> length ?b" using profile_dasl(2) [OF assms(1)] Cons.prems(1) s by fastforce
  have "length ?b < 2 ^ 53" using assms(6) by (simp add: bytes frame_def)
  then have sec: "car_section lib bytes pos = Inr (?b, pos + length (frame lib ?b))"
    by (rule car_section_frame [OF assms(2) bytes Cons.prems(3)])
  have "pos < length bytes" using len by (auto simp: bytes Cons.prems(3) frame_def)
  then have "decode_blocks mf lib bytes pos car =
      decode_blocks mf lib bytes (pos + length (frame lib ?b)) (add_block mf ?b car)"
    using sec len by (simp add: decode_blocks.simps [of mf lib bytes pos] CID_LENGTH_def)
  also have "\<dots> = Some (Inr (fold (\<lambda>(c, data). add_block mf (mcid_bytes c @ data)) sections (add_block mf ?b car)))"
    using Cons.prems(1) by (intro Cons.IH [of "a @ frame lib ?b"]) (auto simp: bytes Cons.prems(3))
  finally show ?case by (simp add: s)
qed

text \<open>A section whose name is not yet kept is kept or listed, by whether its bytes hash to the name.\<close>

lemma add_profile_block:
  assumes "multiformats_ok mf" and "profile mf c" and "mcid_string c \<notin> fst ` set (car_blocks car)"
  shows "add_block mf (mcid_bytes c @ data) car =
    (if hashes_to mf (mcid_string c, data) then car\<lparr>car_blocks := car_blocks car @ [(mcid_string c, data)]\<rparr>
     else car\<lparr>car_bad := car_bad car @ [mcid_string c]\<rparr>)"
proof -
  have d: "dasl_cid mf (fromCid c)" and len: "length (mcid_bytes c) = 36" using profile_dasl [OF assms(1,2)] by auto
  then have "cidFromBytes mf (mcid_bytes c) = Inr (fromCid c)" "parseCid mf (mcid_string c) = Inr (fromCid c)"
    using parseCid_Inr [OF assms(1)] by (auto simp: dasl_cid_def fromCid_def)
  moreover have "map_of (car_blocks car) (mcid_string c) = None" using assms(3) by (simp add: map_of_eq_None_iff)
  ultimately show ?thesis using len
    by (auto simp: add_block_def Let_def CID_LENGTH_def hashes_to_def checkCid_def fromCid_def split: sum.splits)
qed

lemma fold_sections:
  assumes "multiformats_ok mf" and "\<forall>(c, data) \<in> set sections. profile mf c"
    and "distinct (map fst (car_blocks car) @ map (\<lambda>(c, data). mcid_string c) sections)"
  shows "fold (\<lambda>(c, data). add_block mf (mcid_bytes c @ data)) sections car =
    (let blocks = map (\<lambda>(c, data). (mcid_string c, data)) sections in
     car\<lparr>car_blocks := car_blocks car @ filter (hashes_to mf) blocks,
       car_bad := car_bad car @ map fst (filter (\<lambda>b. \<not> hashes_to mf b) blocks)\<rparr>)"
  using assms(2,3)
proof (induction sections arbitrary: car)
  case (Cons s sections)
  obtain c data where s: "s = (c, data)" by (cases s)
  have "add_block mf (mcid_bytes c @ data) car =
    (if hashes_to mf (mcid_string c, data) then car\<lparr>car_blocks := car_blocks car @ [(mcid_string c, data)]\<rparr>
     else car\<lparr>car_bad := car_bad car @ [mcid_string c]\<rparr>)"
    using Cons.prems s by (intro add_profile_block [OF assms(1)]) auto
  then show ?case using Cons.IH [of "add_block mf (mcid_bytes c @ data) car"] Cons.prems by (auto simp: s Let_def)
qed simp

lemma each_named:
  assumes "multiformats_ok mf"
  shows "each (named_cid mf) names = Inr cids \<Longrightarrow> (\<forall>c \<in> set cids. profile mf c) \<and> map mcid_string cids = names"
proof (induction names arbitrary: cids)
  case (Cons name names)
  then show ?case
    using named_cid_Inr [OF assms] parseCid_Inr [OF assms] by (fastforce simp: profile_def fromCid_def)
qed simp

lemma each_section:
  assumes "multiformats_ok mf"
  shows "each (\<lambda>(name, data). and_then (named_cid mf name) (\<lambda>cid. Inr (cid, data))) blocks = Inr sections \<Longrightarrow>
    (\<forall>(c, data) \<in> set sections. profile mf c) \<and> map (\<lambda>(c, data). (mcid_string c, data)) sections = blocks"
proof (induction blocks arbitrary: sections)
  case (Cons b blocks)
  obtain name data where b: "b = (name, data)" by (cases b)
  then obtain c s where c: "sections = (c, data) # s" "named_cid mf name = Inr c"
    "each (\<lambda>(name, data). and_then (named_cid mf name) (\<lambda>cid. Inr (cid, data))) blocks = Inr s" using Cons.prems by auto
  then have "profile mf c" "mcid_string c = name" using each_named [OF assms, of "[name]" "[c]"] by auto
  then show ?case using Cons.IH [OF c(3)] c(1) b by simp
qed simp

lemma car_reads_back:
  assumes "multiformats_ok mf" and "varint_ok lib" and "car_writer_ok lib"
    and "encodeCar mf lib roots blocks = Inr bytes" and "distinct (map fst blocks)"
    and "length roots < 2 ^ 53" and "length bytes < 2 ^ 53"
  shows "decodeCar mf lib bytes = Some (Inr \<lparr>car_roots = roots, car_blocks = filter (hashes_to mf) blocks,
    car_bad = map fst (filter (\<lambda>b. \<not> hashes_to mf b) blocks)\<rparr>)"
proof -
  obtain cids sections where c: "each (named_cid mf) roots = Inr cids"
    "each (\<lambda>(name, data). and_then (named_cid mf name) (\<lambda>cid. Inr (cid, data))) blocks = Inr sections"
    and bytes: "bytes = car_write lib cids sections" using assms(4) by (auto simp: encodeCar_def)
  note r = each_named [OF assms(1) c(1)] and b = each_section [OF assms(1) c(2)]
  have "length cids < 2 ^ 53" using r assms(6) by (metis length_map)
  then obtain h where h: "encodeDrisl (car_header cids) = Inr h" using header_encodes [OF assms(1)] r by blast
  then have w: "bytes = frame lib h @ concat (map (\<lambda>(c, data). frame lib (mcid_bytes c @ data)) sections)"
    using assms(3) bytes by (simp add: car_writer_ok_def)
  have lh: "length h < 2 ^ 53" using assms(7) by (simp add: w frame_def)
  have sec: "car_section lib bytes 0 = Inr (h, length (frame lib h))"
    using car_section_frame [OF assms(2), of bytes "[]" h _ 0] w lh by simp
  have "h \<noteq> []" using h spell_nonempty by (auto simp: encodeDrisl_spell)
  moreover have "decodeHeader mf h = Inr roots" using header_decodes [OF assms(1) _ h lh] r by simp
  moreover have "map fst blocks = map (\<lambda>(c, data). mcid_string c) sections"
    using conjunct2 [OF b, symmetric] by (simp add: case_prod_unfold comp_def)
  then have "distinct (map (\<lambda>(c, data). mcid_string c) sections)" using assms(5) by simp
  then have "decode_blocks mf lib bytes (length (frame lib h)) \<lparr>car_roots = roots, car_blocks = [], car_bad = []\<rparr> =
    Some (Inr \<lparr>car_roots = roots, car_blocks = filter (hashes_to mf) blocks,
      car_bad = map fst (filter (\<lambda>b. \<not> hashes_to mf b) blocks)\<rparr>)"
    using decode_sections [OF assms(1,2) _ w refl assms(7)] fold_sections [OF assms(1)] b by (simp add: Let_def)
  ultimately show ?thesis using sec by (simp add: decodeCar_def)
qed

text \<open>
  C35: a container written from roots and distinctly named blocks reads back as those roots and
  the blocks that hash to their names, in order; the names of the others are listed.
\<close>

theorem car_round_trip:
  assumes "multiformats_ok mf" and "varint_ok lib" and "car_writer_ok lib"
    and "encodeCar mf lib roots blocks = Inr bytes" and "distinct (map fst blocks)"
    and "length roots < 2 ^ 53" and "length bytes < 2 ^ 53"
  shows "decodeCar mf lib bytes = Some (Inr \<lparr>car_roots = roots, car_blocks = filter (hashes_to mf) blocks,
    car_bad = map fst (filter (\<lambda>b. \<not> hashes_to mf b) blocks)\<rparr>)"
  using assms by (rule car_reads_back)

section \<open>An example\<close>

text \<open>Lengths of eight bytes, and a writer that follows the format.\<close>

definition demo_lib :: car_library where
  "demo_lib = (let enc = \<lambda>n. map byte (be n 8); fr = \<lambda>b. map byte (be (length b) 8) @ b in
     \<lparr>varint_decode = \<lambda>bytes pos. if length bytes < pos + 8 then None else Some (horner 0 (take 8 (drop pos bytes)), 8),
      varint_encode = enc,
      car_write = \<lambda>cids sections. case encodeDrisl (car_header cids) of Inl e \<Rightarrow> []
        | Inr header \<Rightarrow> fr header @ concat (map (\<lambda>(c, data). fr (mcid_bytes c @ data)) sections)\<rparr>)"

lemma demo_lib_ok: "varint_ok demo_lib" "varint_progress demo_lib" "car_writer_ok demo_lib"
  by (auto simp: varint_ok_def varint_progress_def car_writer_ok_def demo_lib_def frame_def horner_be Let_def split: if_splits)

definition demo_cid :: CID where
  "demo_cid = profile_cid demo_mf RAW_CODE (sha256 demo_mf ''x'')"

definition demo_blocks :: "(string \<times> string) list" where
  "demo_blocks = [(mcid_string demo_cid, ''x'')]"

definition demo_header :: string where
  "demo_header = map byte [0xa2, 0x65, 0x72, 0x6f, 0x6f, 0x74, 0x73, 0x80, 0x67, 0x76, 0x65, 0x72, 0x73, 0x69, 0x6f, 0x6e, 1]"

lemma demo_header_encodes: "encodeDrisl (car_header []) = Inr demo_header"
proof -
  have "safe_integer (number_from 1) = Some 1" by (rule safe_number_from) simp
  then show ?thesis
    by (simp add: encodeDrisl_spell car_header_def demo_header_def spell.simps spell_key_def spell_text_def spell_head_def
      spell_integer_def head_bytes_def LONE_SURROGATE_def is_high_def is_low_def starts_low_def utf8_encode_def
      point_bytes_def single_point_def js_def MAX_DEPTH_def Let_def byte_def less_char_def)
qed

definition demo_car :: string where
  "demo_car = frame demo_lib demo_header @ frame demo_lib (mcid_bytes demo_cid @ ''x'')"

lemma demo_profile: "profile demo_mf demo_cid"
  using demo_mf_ok by (auto simp: profile_def demo_cid_def codec_ok_def multiformats_ok_def)

lemma demo_written: "encodeCar demo_mf demo_lib [] demo_blocks = Inr demo_car"
proof -
  have "car_write demo_lib [] [(demo_cid, ''x'')] = demo_car"
    using demo_lib_ok(3) demo_header_encodes by (simp add: car_writer_ok_def demo_car_def)
  moreover have "named_cid demo_mf (mcid_string demo_cid) = Inr demo_cid"
    unfolding named_cid_Inr [OF demo_mf_ok]
    using demo_profile profile_dasl(1) [OF demo_mf_ok] parseCid_Inr [OF demo_mf_ok]
    by (auto simp: profile_def fromCid_def)
  ultimately show ?thesis by (simp add: encodeCar_def demo_blocks_def)
qed

lemma demo_car_length: "length demo_car < 2 ^ 53"
  by (simp add: demo_car_def frame_def demo_lib_def demo_header_def demo_cid_def profile_cid_def cid_prefix_def demo_mf_def Let_def)

theorem car_round_trip_witness:
  "decodeCar demo_mf demo_lib demo_car = Some (Inr \<lparr>car_roots = [], car_blocks = filter (hashes_to demo_mf) demo_blocks,
    car_bad = map fst (filter (\<lambda>b. \<not> hashes_to demo_mf b) demo_blocks)\<rparr>)"
  by (rule car_round_trip [OF demo_mf_ok demo_lib_ok(1,3) demo_written])
    (simp_all add: demo_blocks_def demo_car_length [simplified])

lemma demo_hashes: "hashes_to demo_mf (mcid_string demo_cid, ''x'')"
proof -
  have cid: "fromCid demo_cid = named demo_mf RAW_CODE (sha256 demo_mf ''x'')" by (simp add: demo_cid_def named_def)
  have "parseCid demo_mf (mcid_string demo_cid) = Inr (fromCid demo_cid)"
    using profile_dasl(1) [OF demo_mf_ok demo_profile] parseCid_Inr [OF demo_mf_ok] by (simp add: fromCid_def)
  then show ?thesis by (simp add: hashes_to_def checkCid_def cidOf_named [OF demo_mf_ok] cid codec_ok_def)
qed

lemma demo_read: "decodeCar demo_mf demo_lib demo_car = Some (Inr \<lparr>car_roots = [], car_blocks = demo_blocks, car_bad = []\<rparr>)"
  using car_reads_back [OF demo_mf_ok demo_lib_ok(1,3) demo_written] demo_hashes
  by (simp add: demo_blocks_def demo_car_length [simplified])

theorem car_blocks_match_witness:
  "\<exists>cid. parseCid demo_mf (mcid_string demo_cid) = Inr cid \<and> cid_digest cid = sha256 demo_mf ''x''"
  using car_blocks_match [OF demo_mf_ok demo_read] by (simp add: demo_blocks_def)

theorem decodeCar_ends_witness: "\<exists>outcome. decodeCar demo_mf demo_lib [] = Some outcome"
  by (rule decodeCar_ends [OF demo_lib_ok(2)])

end
