(* ===== verification/Continuity_Facts.thy ===== *)
theory Continuity_Facts
  imports Unicode Results Estoc_Prelude Collections
begin

text \<open>
  The facts of the continuity model and their order, \<^verbatim>\<open>packages/continuity/src/facts.ts\<close>
  and \<^verbatim>\<open>types.ts\<close>: what a fact is, how an unknown value is read as one, and
  \<open>compareUtf8\<close>, whose order is that of the strings' UTF-8 bytes
  (\<open>compareUtf8_bytes\<close>). The RFC 8785 text that identifies a fact is the package
  \<open>canonicalize\<close>'s, a parameter of what uses it.
\<close>

type_synonym did = js_string

record Channel =
  localDid :: did
  peerDid :: did

datatype Change = Rotate did | End

datatype ContinuityFact =
  PeerObservation Channel "did option"
| PeerEnding Channel
| LocalDecision Channel Change

text \<open>A value a caller may pass: an object's own members, a string, \<open>null\<close>, or anything else.\<close>

datatype unknown_value =
  UText js_string
| UNull
| UObject "(js_string \<times> unknown_value) list"
| UOther

datatype fact_fault =
  NotAnObject | Lacks js_string | UnknownMember js_string | NotText | UnpairedSurrogate | SelfPair | NoSuchChange
| NoSuchKind | RotatedFromItself | RotatedFromLocal | SuccessorIsItself | SuccessorIsPeer

text \<open>\<open>InvalidFact\<close>: the path of what is wrong, and what.\<close>

type_synonym InvalidFact = "string \<times> fact_fault"

definition FACT_MEMBERS :: "string \<Rightarrow> js_string list" where
  "FACT_MEMBERS kind =
     (if kind = ''peer-observation'' then [js ''kind'', js ''at'', js ''rotatedFrom'']
      else if kind = ''peer-ending'' then [js ''kind'', js ''at'']
      else [js ''kind'', js ''at'', js ''change''])"

definition object_of :: "unknown_value option \<Rightarrow> string \<Rightarrow> InvalidFact + (js_string \<times> unknown_value) list" where
  "object_of v path = (case v of Some (UObject ms) \<Rightarrow> Inr ms | _ \<Rightarrow> Inl (path, NotAnObject))"

definition exactMembers :: "(js_string \<times> unknown_value) list \<Rightarrow> js_string list \<Rightarrow> string \<Rightarrow> InvalidFact + unit" where
  "exactMembers value expected path =
     (case find (\<lambda>name. map_of value name = None) expected of
        Some name \<Rightarrow> Inl (path, Lacks name)
      | None \<Rightarrow>
          (case find (\<lambda>name. name \<notin> set expected) (map fst value) of
             Some name \<Rightarrow> Inl (path, UnknownMember name)
           | None \<Rightarrow> Inr ()))"

definition fact_text :: "unknown_value option \<Rightarrow> string \<Rightarrow> InvalidFact + js_string" where
  "fact_text value path =
     (case value of
        Some (UText s) \<Rightarrow>
          if s = [] then Inl (path, NotText)
          else if LONE_SURROGATE s then Inl (path, UnpairedSurrogate)
          else Inr s
      | _ \<Rightarrow> Inl (path, NotText))"

definition textOrNull :: "unknown_value option \<Rightarrow> string \<Rightarrow> InvalidFact + js_string option" where
  "textOrNull value path = (if value = Some UNull then Inr None else and_then (fact_text value path) (\<lambda>s. Inr (Some s)))"

definition fact_channel :: "unknown_value option \<Rightarrow> string \<Rightarrow> InvalidFact + Channel" where
  "fact_channel value path =
     and_then (object_of value path) (\<lambda>ms.
     and_then (exactMembers ms [js ''localDid'', js ''peerDid''] path) (\<lambda>_.
     and_then (fact_text (map_of ms (js ''localDid'')) (path @ ''.localDid'')) (\<lambda>l.
     and_then (fact_text (map_of ms (js ''peerDid'')) (path @ ''.peerDid'')) (\<lambda>p.
       if l = p then Inl (path, SelfPair) else Inr \<lparr>localDid = l, peerDid = p\<rparr>))))"

definition fact_change :: "unknown_value option \<Rightarrow> string \<Rightarrow> InvalidFact + Change" where
  "fact_change value path =
     and_then (object_of value path) (\<lambda>ms.
       let kind = map_of ms (js ''kind'') in
       if kind = Some (UText (js ''rotate'')) then
         and_then (exactMembers ms [js ''kind'', js ''successor''] path) (\<lambda>_.
         and_then (fact_text (map_of ms (js ''successor'')) (path @ ''.successor'')) (\<lambda>s. Inr (Rotate s)))
       else if kind = Some (UText (js ''end'')) then
         and_then (exactMembers ms [js ''kind''] path) (\<lambda>_. Inr End)
       else Inl (path @ ''.kind'', NoSuchChange))"

definition observation_of :: "(js_string \<times> unknown_value) list \<Rightarrow> Channel \<Rightarrow> string \<Rightarrow> InvalidFact + ContinuityFact" where
  "observation_of ms c path =
     and_then (textOrNull (map_of ms (js ''rotatedFrom'')) (path @ ''.rotatedFrom'')) (\<lambda>prior.
       if prior = Some (peerDid c) then Inl (path, RotatedFromItself)
       else if prior = Some (localDid c) then Inl (path, RotatedFromLocal)
       else Inr (PeerObservation c prior))"

definition decision_of :: "(js_string \<times> unknown_value) list \<Rightarrow> Channel \<Rightarrow> string \<Rightarrow> InvalidFact + ContinuityFact" where
  "decision_of ms c path =
     and_then (fact_change (map_of ms (js ''change'')) (path @ ''.change'')) (\<lambda>change.
       if change = Rotate (localDid c) then Inl (path, SuccessorIsItself)
       else if change = Rotate (peerDid c) then Inl (path, SuccessorIsPeer)
       else Inr (LocalDecision c change))"

definition validateFact :: "unknown_value \<Rightarrow> string \<Rightarrow> InvalidFact + ContinuityFact" where
  "validateFact value path =
     and_then (object_of (Some value) path) (\<lambda>ms.
       let kind = map_of ms (js ''kind'') in
       case find (\<lambda>k. kind = Some (UText (js k))) [''peer-observation'', ''peer-ending'', ''local-decision''] of
         None \<Rightarrow> Inl (path @ ''.kind'', NoSuchKind)
       | Some k \<Rightarrow>
           and_then (exactMembers ms (FACT_MEMBERS k) path) (\<lambda>_.
           and_then (fact_channel (map_of ms (js ''at'')) (path @ ''.at'')) (\<lambda>c.
             if k = ''peer-observation'' then observation_of ms c path
             else if k = ''peer-ending'' then Inr (PeerEnding c)
             else decision_of ms c path)))"

section \<open>Order\<close>

text \<open>\<open>codePointAt\<close> along a string: a pair is one code point, a lone surrogate is its own.\<close>

fun raw_points :: "js_string \<Rightarrow> nat list" where
  "raw_points [] = []"
| "raw_points [u] = [unat u]"
| "raw_points (u # v # us) =
     (if is_high u \<and> is_low v then pair_point u v # raw_points us else unat u # raw_points (v # us))"

fun compare_points :: "nat list \<Rightarrow> nat list \<Rightarrow> int" where
  "compare_points [] [] = 0"
| "compare_points [] (y # ys) = - 1"
| "compare_points (x # xs) [] = 1"
| "compare_points (x # xs) (y # ys) = (if x \<noteq> y then if x < y then - 1 else 1 else compare_points xs ys)"

definition compareUtf8 :: "js_string \<Rightarrow> js_string \<Rightarrow> int" where
  "compareUtf8 a b = compare_points (raw_points a) (raw_points b)"

definition compareChannels :: "Channel \<Rightarrow> Channel \<Rightarrow> int" where
  "compareChannels a b =
     (if compareUtf8 (localDid a) (localDid b) \<noteq> 0 then compareUtf8 (localDid a) (localDid b)
      else compareUtf8 (peerDid a) (peerDid b))"

definition sameChannel :: "Channel \<Rightarrow> Channel \<Rightarrow> bool" where
  "sameChannel a b = (localDid a = localDid b \<and> peerDid a = peerDid b)"

definition channelKey :: "Channel \<Rightarrow> js_string" where
  "channelKey c = localDid c @ [0] @ peerDid c"

definition channelOf :: "did \<Rightarrow> did \<Rightarrow> Channel" where
  "channelOf l p = \<lparr>localDid = l, peerDid = p\<rparr>"

definition changeKey :: "Change \<Rightarrow> js_string" where
  "changeKey change = (case change of End \<Rightarrow> js ''end'' | Rotate s \<Rightarrow> js ''rotate'' @ [0] @ s)"

definition sortedChannels :: "Channel list \<Rightarrow> Channel list" where
  "sortedChannels channels = sort_by compareChannels (add_all [] channels)"

subsection \<open>A total order\<close>

lemma raw_points_units: "concat (map point_units (raw_points s)) = s"
proof (induction s rule: raw_points.induct)
  case (3 u v us)
  then show ?case using pair_units [of u v] by (simp add: point_units_def)
qed (simp_all add: point_units_def)

lemma raw_points_inject [simp]: "raw_points a = raw_points b \<longleftrightarrow> a = b"
  using raw_points_units by metis

lemma compare_points_sign:
  "compare_points xs ys < 0 \<longleftrightarrow> xs < ys" "compare_points xs ys = 0 \<longleftrightarrow> xs = ys"
  by (induction xs ys rule: compare_points.induct) auto

lemma compareUtf8_sign:
  "compareUtf8 a b < 0 \<longleftrightarrow> raw_points a < raw_points b" "compareUtf8 a b = 0 \<longleftrightarrow> a = b"
  "compareUtf8 a b \<le> 0 \<longleftrightarrow> raw_points a \<le> raw_points b"
  using compare_points_sign [of "raw_points a" "raw_points b"] by (auto simp: compareUtf8_def le_less)

definition channel_points :: "Channel \<Rightarrow> nat list \<times> nat list" where
  "channel_points c = (raw_points (localDid c), raw_points (peerDid c))"

lemma channel_points_inject [simp]: "channel_points a = channel_points b \<longleftrightarrow> a = b"
  by (cases a; cases b) (simp add: channel_points_def)

lemma compareChannels_le: "compareChannels a b \<le> 0 \<longleftrightarrow> channel_points a \<le> channel_points b"
  using compareUtf8_sign [of "localDid a" "localDid b"] compareUtf8_sign [of "peerDid a" "peerDid b"]
  by (auto simp: compareChannels_def channel_points_def le_less)

lemma sort_channels: "sort_by compareChannels = sort_key channel_points"
  by (rule ext) (rule sort_by_key [OF compareChannels_le])

lemma sortedChannels_set [simp]: "set (sortedChannels cs) = set cs" "distinct (sortedChannels cs)"
  by (simp_all add: sortedChannels_def)

text \<open>The list depends on which channels it is given, not on their order or how often they come.\<close>

lemma sort_key_set_unique:
  assumes "distinct xs" and "distinct ys" and "set xs = set ys" and "inj f"
  shows "sort_key f xs = sort_key f ys"
proof -
  have "mset xs = mset ys" using assms(1-3) by (simp add: set_eq_iff_mset_eq_distinct)
  then show ?thesis using assms(4) by (intro sort_key_inj_key_eq) (auto intro: inj_on_subset)
qed

lemma sortedChannels_cong: "set cs = set ds \<Longrightarrow> sortedChannels cs = sortedChannels ds"
  unfolding sortedChannels_def sort_channels by (rule sort_key_set_unique) (auto simp: inj_def)

lemma channelKey_inject:
  assumes "0 \<notin> set (localDid a)" and "0 \<notin> set (localDid b)" and "channelKey a = channelKey b"
  shows "a = b"
proof -
  have split: "takeWhile (\<lambda>u. u \<noteq> 0) (channelKey c) = localDid c" if "0 \<notin> set (localDid c)" for c
    using that by (auto simp: channelKey_def takeWhile_append)
  then have "localDid a = localDid b" using assms by metis
  then show ?thesis using assms(3) by (cases a; cases b) (simp add: channelKey_def)
qed

subsection \<open>The order of the bytes\<close>

lemma raw_points_well_formed: "\<not> lone_after False s \<Longrightarrow> raw_points s = code_points s"
proof (induction s rule: code_points.induct)
  case (2 u)
  then show ?case by (auto simp: single_point_def starts_low_def)
next
  case (3 u v us)
  show ?case
  proof (cases "is_high u \<and> is_low v")
    case True
    have "\<not> is_high v" using True by (auto simp: is_high_def is_low_def)
    then show ?thesis using "3.IH"(1) [OF True] "3.prems" True by auto
  next
    case False
    then have u: "\<not> is_high u" "\<not> is_low u" using "3.prems" by (auto simp: starts_low_def)
    then show ?thesis using "3.IH"(2) [OF False] "3.prems" False by (auto simp: single_point_def)
  qed
qed simp

lemma byte_less: "m < 256 \<Longrightarrow> n < 256 \<Longrightarrow> byte m < byte n \<longleftrightarrow> m < n"
  by (simp add: less_char_def)

lemma byte_eq: "m < 256 \<Longrightarrow> n < 256 \<Longrightarrow> byte m = byte n \<longleftrightarrow> m = n"
  using of_char_byte by metis

text \<open>A smaller code point's bytes come first, whatever follows.\<close>

fun tail64 :: "nat \<Rightarrow> nat \<Rightarrow> string" where
  "tail64 0 n = []"
| "tail64 (Suc k) n = byte (128 + n div 64 ^ k mod 64) # tail64 k n"

lemma tail64_less: "m mod 64 ^ k < n mod 64 ^ k \<Longrightarrow> tail64 k m @ x < tail64 k n @ y"
proof (induction k)
  case (Suc k)
  let ?d = "\<lambda>v. v div 64 ^ k mod 64"
  have split: "v mod 64 ^ Suc k = ?d v * 64 ^ k + v mod 64 ^ k" for v :: nat
    using mod_mult2_eq [of v "64 ^ k" 64] by (simp add: mult.commute)
  have "?d m < ?d n \<or> ?d m = ?d n \<and> m mod 64 ^ k < n mod 64 ^ k"
  proof (rule ccontr)
    assume "\<not> ?thesis"
    then have "?d n < ?d m \<or> ?d n = ?d m \<and> n mod 64 ^ k \<le> m mod 64 ^ k" by linarith
    then have "n mod 64 ^ Suc k \<le> m mod 64 ^ Suc k"
    proof
      assume "?d n < ?d m"
      then have "Suc (?d n) * 64 ^ k \<le> ?d m * 64 ^ k" by (intro mult_right_mono) simp_all
      then have "64 ^ k + ?d n * 64 ^ k \<le> ?d m * 64 ^ k" by (simp only: mult_Suc)
      moreover have "n mod 64 ^ k < 64 ^ k" by simp
      ultimately show ?thesis unfolding split by linarith
    qed (unfold split, simp)
    then show False using Suc.prems by simp
  qed
  then show ?case using Suc.IH by (auto simp: byte_less byte_eq)
qed simp

definition point_class :: "nat \<Rightarrow> nat \<times> nat" where
  "point_class n = (if n < 0x80 then (0, 0) else if n < 0x800 then (0xC0, 1) else if n < 0x10000 then (0xE0, 2) else (0xF0, 3))"

lemma point_bytes_class: "point_bytes n = (case point_class n of (lead, k) \<Rightarrow> byte (lead + n div 64 ^ k) # tail64 k n)"
  by (simp add: point_bytes_def point_class_def numeral_2_eq_2 numeral_3_eq_3)

lemma lead_lt: "n < 0x110000 \<Longrightarrow> point_class n = (lead, k) \<Longrightarrow> lead + n div 64 ^ k < 256"
  by (auto simp: point_class_def less_mult_imp_div_less split: if_splits)

lemma point_bytes_less:
  assumes "m < n" and "n < 0x110000"
  shows "point_bytes m @ x < point_bytes n @ y"
proof -
  obtain a j where a: "point_class m = (a, j)" by (cases "point_class m")
  obtain b k where b: "point_class n = (b, k)" by (cases "point_class n")
  have l: "a + m div 64 ^ j < 256" "b + n div 64 ^ k < 256" using lead_lt a b assms by force+
  have "a + m div 64 ^ j < b + n div 64 ^ k \<or> a + m div 64 ^ j = b + n div 64 ^ k \<and> j = k \<and> m mod 64 ^ k < n mod 64 ^ k"
  proof (cases "(a, j) = (b, k)")
    case True
    have "m div 64 ^ k \<le> n div 64 ^ k" using assms(1) by (simp add: div_le_mono)
    moreover have "m mod 64 ^ k < n mod 64 ^ k" if "m div 64 ^ k = n div 64 ^ k"
      using assms(1) that by (metis div_mult_mod_eq nat_add_left_cancel_less)
    ultimately show ?thesis using True by auto
  next
    case False
    then have "a + m div 64 ^ j < b"
      using a b assms by (auto simp: point_class_def less_mult_imp_div_less split: if_splits)
    then show ?thesis by simp
  qed
  then show ?thesis using l tail64_less [of m k n x y] by (auto simp: point_bytes_class a b byte_less byte_eq)
qed

lemma append_less: "xs @ a < xs @ b \<longleftrightarrow> a < b" for xs :: "'a :: linorder list"
  by (induction xs) auto

lemma points_less:
  assumes "list_all scalar ps" and "list_all scalar qs" and "ps < qs"
  shows "concat (map point_bytes ps) < concat (map point_bytes qs)"
  using assms
proof (induction ps qs rule: compare_points.induct)
  case (2 y ys)
  then show ?case by (cases "point_bytes y") (auto simp: point_bytes_def split: if_splits)
next
  case (4 x xs y ys)
  show ?case
  proof (cases "x = y")
    case True
    then show ?thesis using 4 by (simp add: append_less)
  next
    case False
    then have "x < y" "y < 0x110000" using 4 by (auto simp: scalar_def)
    then show ?thesis using point_bytes_less by simp
  qed
qed simp_all

text \<open>For well-formed strings the order is that of their UTF-8 bytes.\<close>

theorem compareUtf8_bytes:
  assumes "\<not> LONE_SURROGATE a" and "\<not> LONE_SURROGATE b"
  shows "compareUtf8 a b < 0 \<longleftrightarrow> utf8_encode a < utf8_encode b"
proof -
  have p: "raw_points s = code_points s" "list_all scalar (code_points s)" if "\<not> LONE_SURROGATE s" for s
    using that raw_points_well_formed code_points_units by (auto simp: LONE_SURROGATE_def)
  note a = p [OF assms(1)] and b = p [OF assms(2)]
  have "code_points a < code_points b \<longleftrightarrow> utf8_encode a < utf8_encode b"
    unfolding utf8_encode_def using points_less [OF a(2) b(2)] points_less [OF b(2) a(2)]
    by (metis less_asym linorder_less_linear)
  then show ?thesis by (simp add: compareUtf8_sign a b)
qed

end
