(* ===== verification/Continuity_Graph.thy ===== *)
theory Continuity_Graph
  imports Continuity_Facts
begin

text \<open>
  The continuity graph, \<^verbatim>\<open>packages/continuity/src/graph.ts\<close>: channels, edges that replace
  one endpoint, and the joins two opposite edges leaving one pair imply. The maps
  \<open>out\<close> and \<open>into\<close> hold the same edge objects, so the graph is the list of its edges in
  the order they were added, and the queue names edges by their ends; a map keyed by
  \<open>channelKey\<close> is keyed by the channel (\<open>channelKey_inject\<close>: a DID has no U+0000).
  \<open>closed_graph_links\<close>: closing ends, and the links of the closed graph with their
  support are exactly those that follow from the links added, whatever their order.
\<close>

datatype Replaces = Local | Peer

type_synonym FactIdentity = js_string

record Edge =
  edge_from :: Channel
  edge_to :: Channel
  replaces :: Replaces
  support :: "FactIdentity list"
  derived :: bool

record IdentityCollision =
  collision_channels :: "Channel list"
  collision_support :: "FactIdentity list"

record Graph =
  vertices :: "Channel list"
  identityCollisions :: "IdentityCollision list"
  graph_edges :: "Edge list"
  queue :: "(Channel \<times> Channel) list"

definition new_Graph :: Graph where
  "new_Graph = \<lparr>vertices = [], identityCollisions = [], graph_edges = [], queue = []\<rparr>"

definition edge_key :: "Edge \<Rightarrow> Channel \<times> Channel" where
  "edge_key e = (edge_from e, edge_to e)"

definition graph_edge :: "Graph \<Rightarrow> Channel \<times> Channel \<Rightarrow> Edge option" where
  "graph_edge g k = find (\<lambda>e. edge_key e = k) (graph_edges g)"

definition edges_from :: "Graph \<Rightarrow> Channel \<Rightarrow> Edge list" where
  "edges_from g c = filter (\<lambda>e. edge_from e = c) (graph_edges g)"

definition edges_to :: "Graph \<Rightarrow> Channel \<Rightarrow> Edge list" where
  "edges_to g c = filter (\<lambda>e. edge_to e = c) (graph_edges g)"

definition hasOutgoing :: "Graph \<Rightarrow> Channel \<Rightarrow> bool" where
  "hasOutgoing g c = (edges_from g c \<noteq> [])"

text \<open>\<open>edges()\<close>: by the pair they leave, in the order those pairs were first left.\<close>

definition all_edges :: "Graph \<Rightarrow> Edge list" where
  "all_edges g = concat (map (edges_from g) (add_all [] (map edge_from (graph_edges g))))"

definition vertex :: "Channel \<Rightarrow> Graph \<Rightarrow> Graph" where
  "vertex c g = g\<lparr>vertices := add_new c (vertices g)\<rparr>"

text \<open>An edge already there gains the support, and its place in the queue when it gained any.\<close>

definition more_support :: "FactIdentity list \<Rightarrow> bool \<Rightarrow> Edge \<Rightarrow> Edge" where
  "more_support s by_join e = e\<lparr>support := add_all (support e) s, derived := derived e \<and> by_join\<rparr>"

definition graph_add :: "(Channel \<Rightarrow> bool) \<Rightarrow> Channel \<Rightarrow> Channel \<Rightarrow> Replaces \<Rightarrow> FactIdentity list \<Rightarrow> bool \<Rightarrow> Graph \<Rightarrow> Graph" where
  "graph_add admits a b side s by_join g =
     (if \<not> admits a \<or> \<not> admits b then g
      else
        let g = vertex b (vertex a g) in
        case graph_edge g (a, b) of
          None \<Rightarrow>
            g\<lparr>graph_edges := graph_edges g @ [\<lparr>edge_from = a, edge_to = b, replaces = side, support = add_all [] s, derived = by_join\<rparr>],
              queue := queue g @ [(a, b)]\<rparr>
        | Some e \<Rightarrow>
            g\<lparr>graph_edges := map (\<lambda>e. if edge_key e = (a, b) then more_support s by_join e else e) (graph_edges g),
              queue := queue g @ (if length (add_all (support e) s) > length (support e) then [(a, b)] else [])\<rparr>)"

definition put_collision :: "IdentityCollision \<Rightarrow> Graph \<Rightarrow> Graph" where
  "put_collision c g = g\<lparr>identityCollisions :=
     (if list_ex (\<lambda>d. collision_channels d = collision_channels c) (identityCollisions g)
      then map (\<lambda>d. if collision_channels d = collision_channels c then c else d) (identityCollisions g)
      else identityCollisions g @ [c])\<rparr>"

definition graph_join :: "(Channel \<Rightarrow> bool) \<Rightarrow> Edge \<Rightarrow> Edge \<Rightarrow> Graph \<Rightarrow> Graph" where
  "graph_join admits l p g =
     (let new_local = localDid (edge_to l); new_peer = peerDid (edge_to p);
          both = add_all (add_all [] (support l)) (support p) in
      if new_local = new_peer
      then put_collision \<lparr>collision_channels = [edge_from l, edge_to l, edge_to p], collision_support = both\<rparr> g
      else
        let joined = \<lparr>localDid = new_local, peerDid = new_peer\<rparr> in
        graph_add admits (edge_to p) joined Local both True (graph_add admits (edge_to l) joined Peer both True g))"

text \<open>One partner of the edge taken from the queue, as both are by now.\<close>

definition close_partner :: "(Channel \<Rightarrow> bool) \<Rightarrow> Channel \<times> Channel \<Rightarrow> Channel \<times> Channel \<Rightarrow> Graph \<Rightarrow> Graph" where
  "close_partner admits k partner g =
     (case (graph_edge g k, graph_edge g partner) of
        (Some e, Some p) \<Rightarrow>
          if replaces p = replaces e then g
          else if replaces e = Local then graph_join admits e p g
          else graph_join admits p e g
      | _ \<Rightarrow> g)"

definition close_step :: "(Channel \<Rightarrow> bool) \<Rightarrow> Graph \<Rightarrow> Graph" where
  "close_step admits g =
     (let k = last (queue g); g = g\<lparr>queue := butlast (queue g)\<rparr> in
      fold (close_partner admits k) (map edge_key (edges_from g (fst k))) g)"

partial_function (option) graph_close :: "(Channel \<Rightarrow> bool) \<Rightarrow> Graph \<Rightarrow> Graph option" where
  "graph_close admits g = (if queue g = [] then Some g else graph_close admits (close_step admits g))"

declare graph_close.simps [code]

section \<open>What follows from the links added\<close>

text \<open>A link of one side with a fact in its support: added, or implied by two opposite links leaving one pair.\<close>

definition pair_up :: "Channel \<Rightarrow> Channel \<Rightarrow> Channel" where
  "pair_up l p = \<lparr>localDid = localDid l, peerDid = peerDid p\<rparr>"

inductive follows :: "(Channel \<Rightarrow> bool) \<Rightarrow> (Channel \<times> Channel \<times> Replaces \<times> FactIdentity) set \<Rightarrow>
    Channel \<Rightarrow> Channel \<Rightarrow> Replaces \<Rightarrow> FactIdentity \<Rightarrow> bool" for admits base where
  added: "(a, b, side, f) \<in> base \<Longrightarrow> admits a \<Longrightarrow> admits b \<Longrightarrow> follows admits base a b side f"
| joined_peer: "follows admits base c l Local f \<Longrightarrow> follows admits base c p Peer f' \<Longrightarrow> localDid l \<noteq> peerDid p \<Longrightarrow>
    admits (pair_up l p) \<Longrightarrow> h \<in> {f, f'} \<Longrightarrow> follows admits base l (pair_up l p) Peer h"
| joined_local: "follows admits base c l Local f \<Longrightarrow> follows admits base c p Peer f' \<Longrightarrow> localDid l \<noteq> peerDid p \<Longrightarrow>
    admits (pair_up l p) \<Longrightarrow> h \<in> {f, f'} \<Longrightarrow> follows admits base p (pair_up l p) Local h"

text \<open>The ends of a link of a side: it replaces that endpoint, by another one, and keeps the other.\<close>

definition replaces_one :: "Channel \<Rightarrow> Channel \<Rightarrow> Replaces \<Rightarrow> bool" where
  "replaces_one a b side = (case side of
     Local \<Rightarrow> peerDid a = peerDid b \<and> localDid a \<noteq> localDid b
   | Peer \<Rightarrow> localDid a = localDid b \<and> peerDid a \<noteq> peerDid b)"

definition base_ok :: "(Channel \<times> Channel \<times> Replaces \<times> FactIdentity) set \<Rightarrow> bool" where
  "base_ok base = (\<forall>(a, b, side, f) \<in> base. replaces_one a b side)"

lemma follows_admits: "follows admits base a b side f \<Longrightarrow> admits a \<and> admits b"
  by (induction rule: follows.induct) auto

lemma follows_replaces_one:
  assumes "base_ok base"
  shows "follows admits base a b side f \<Longrightarrow> replaces_one a b side"
proof (induction rule: follows.induct)
  case (added a b side f)
  then show ?case using assms by (auto simp: base_ok_def)
qed (auto simp: replaces_one_def pair_up_def)

text \<open>A finite base has finitely many consequences.\<close>

definition ends :: "(Channel \<times> Channel \<times> Replaces \<times> FactIdentity) set \<Rightarrow> Channel set" where
  "ends base = (\<Union>(a, b, side, f) \<in> base. {a, b})"

definition universe :: "(Channel \<times> Channel \<times> Replaces \<times> FactIdentity) set \<Rightarrow> Channel set" where
  "universe base = {\<lparr>localDid = l, peerDid = p\<rparr> | l p. l \<in> localDid ` ends base \<and> p \<in> peerDid ` ends base}"

definition base_facts :: "(Channel \<times> Channel \<times> Replaces \<times> FactIdentity) set \<Rightarrow> FactIdentity set" where
  "base_facts base = (\<lambda>(a, b, side, f). f) ` base"

lemma universe_iff: "c \<in> universe base \<longleftrightarrow> localDid c \<in> localDid ` ends base \<and> peerDid c \<in> peerDid ` ends base"
  by (cases c) (auto simp: universe_def)

lemma finite_universe: "finite base \<Longrightarrow> finite (universe base)"
proof -
  assume "finite base"
  then have "finite (ends base)" by (auto simp: ends_def)
  moreover have "universe base = (\<lambda>(l, p). \<lparr>localDid = l, peerDid = p\<rparr>) ` (localDid ` ends base \<times> peerDid ` ends base)"
    by (auto simp: universe_def)
  ultimately show ?thesis by simp
qed

lemma follows_universe:
  "follows admits base a b side f \<Longrightarrow> a \<in> universe base \<and> b \<in> universe base \<and> f \<in> base_facts base"
proof (induction rule: follows.induct)
  case (added a b side f)
  then have "a \<in> ends base" "b \<in> ends base" "f \<in> base_facts base" by (force simp: ends_def base_facts_def)+
  then show ?case by (auto simp: universe_iff)
qed (auto simp: universe_iff pair_up_def)

section \<open>The links of a graph\<close>

text \<open>What a graph says of a pair of ends: the side of the link there and its support.\<close>

definition link_at :: "Graph \<Rightarrow> Channel \<times> Channel \<Rightarrow> (Replaces \<times> FactIdentity set) option" where
  "link_at g k = map_option (\<lambda>e. (replaces e, set (support e))) (graph_edge g k)"

lemma graph_edge_key: "graph_edge g k = Some e \<Longrightarrow> edge_key e = k \<and> e \<in> set (graph_edges g)"
  by (auto simp: graph_edge_def find_Some_iff)

lemma graph_edge_None: "graph_edge g k = None \<longleftrightarrow> k \<notin> edge_key ` set (graph_edges g)"
  by (auto simp: graph_edge_def find_None_iff)

lemma graph_edge_cong: "graph_edges g = graph_edges h \<Longrightarrow> graph_edge g k = graph_edge h k"
  by (simp add: graph_edge_def)

lemma find_append: "find P (xs @ ys) = (case find P xs of None \<Rightarrow> find P ys | Some x \<Rightarrow> Some x)"
  by (induction xs) auto

lemma find_mapped:
  assumes "\<And>x. P (f x) = P x"
  shows "find P (map f xs) = map_option f (find P xs)"
  using assms by (induction xs) auto

lemma vertex_simps [simp]:
  "graph_edges (vertex c g) = graph_edges g" "queue (vertex c g) = queue g"
  "identityCollisions (vertex c g) = identityCollisions g" "vertices (vertex c g) = add_new c (vertices g)"
  by (simp_all add: vertex_def)

lemma put_collision_simps [simp]:
  "graph_edges (put_collision c g) = graph_edges g" "queue (put_collision c g) = queue g"
  "vertices (put_collision c g) = vertices g"
  by (simp_all add: put_collision_def)

lemma more_support_simps [simp]:
  "edge_key (more_support s j e) = edge_key e" "replaces (more_support s j e) = replaces e"
  "set (support (more_support s j e)) = set (support e) \<union> set s"
  by (simp_all add: more_support_def edge_key_def)

definition merged :: "(Replaces \<times> FactIdentity set) option \<Rightarrow> Replaces \<Rightarrow> FactIdentity set \<Rightarrow> Replaces \<times> FactIdentity set" where
  "merged at_ends side s = (case at_ends of None \<Rightarrow> (side, s) | Some (old, t) \<Rightarrow> (old, t \<union> s))"

lemma graph_add_new:
  assumes "admits a" "admits b" "graph_edge g (a, b) = None"
  shows "graph_edges (graph_add admits a b side s j g) =
      graph_edges g @ [\<lparr>edge_from = a, edge_to = b, replaces = side, support = add_all [] s, derived = j\<rparr>]"
    and "queue (graph_add admits a b side s j g) = queue g @ [(a, b)]"
  using assms graph_edge_cong [of "vertex b (vertex a g)" g "(a, b)"] by (simp_all add: graph_add_def)

lemma graph_add_old:
  assumes "admits a" "admits b" "graph_edge g (a, b) = Some e"
  shows "graph_edges (graph_add admits a b side s j g) =
      map (\<lambda>e. if edge_key e = (a, b) then more_support s j e else e) (graph_edges g)"
    and "queue (graph_add admits a b side s j g) =
      queue g @ (if length (add_all (support e) s) > length (support e) then [(a, b)] else [])"
  using assms graph_edge_cong [of "vertex b (vertex a g)" g "(a, b)"] by (simp_all add: graph_add_def)

lemma graph_edge_add:
  assumes "admits a" "admits b"
  shows "graph_edge (graph_add admits a b side s j g) k =
    (if k = (a, b) then Some (case graph_edge g k of None \<Rightarrow> \<lparr>edge_from = a, edge_to = b, replaces = side, support = add_all [] s, derived = j\<rparr>
       | Some e \<Rightarrow> more_support s j e)
     else graph_edge g k)"
proof (cases "graph_edge g (a, b)")
  case None
  show ?thesis
    unfolding graph_edge_def [of "graph_add _ _ _ _ _ _ _"] graph_add_new(1) [OF assms None] find_append
    using None by (auto simp: graph_edge_def edge_key_def split: option.splits)
next
  case (Some e)
  have "find (\<lambda>e. edge_key e = k) (map (\<lambda>e. if edge_key e = (a, b) then more_support s j e else e) (graph_edges g)) =
      map_option (\<lambda>e. if edge_key e = (a, b) then more_support s j e else e) (graph_edge g k)"
    unfolding graph_edge_def by (rule find_mapped) simp
  then show ?thesis
    unfolding graph_edge_def [of "graph_add _ _ _ _ _ _ _"] graph_add_old(1) [OF assms Some]
    using Some by (cases "graph_edge g k") (auto dest: graph_edge_key)
qed

lemma link_at_add:
  "link_at (graph_add admits a b side s j g) =
     (if admits a \<and> admits b then (link_at g)((a, b) \<mapsto> merged (link_at g (a, b)) side (set s)) else link_at g)"
proof (cases "admits a \<and> admits b")
  case True
  then show ?thesis by (auto simp: link_at_def graph_edge_add merged_def split: option.splits)
qed (auto simp: graph_add_def)

text \<open>The ends of every link that changed are in the queue.\<close>

lemma queue_add:
  "queue (graph_add admits a b side s j g) =
     queue g @ (if link_at (graph_add admits a b side s j g) \<noteq> link_at g then [(a, b)] else [])"
proof (cases "admits a \<and> admits b")
  case True
  then have ad: "admits a" "admits b" by simp_all
  show ?thesis
  proof (cases "graph_edge g (a, b)")
    case None
    then have "link_at (graph_add admits a b side s j g) (a, b) \<noteq> link_at g (a, b)"
      using ad by (simp add: link_at_add) (simp add: link_at_def)
    then have "link_at (graph_add admits a b side s j g) \<noteq> link_at g" by metis
    then show ?thesis using graph_add_new(2) [OF ad None] by simp
  next
    case (Some e)
    have "length (add_all (support e) s) > length (support e) \<longleftrightarrow> \<not> set s \<subseteq> set (support e)"
      using length_add_all [of "support e" s] length_add_all_same [of "support e" s] by linarith
    moreover have "link_at (graph_add admits a b side s j g) = (link_at g)((a, b) \<mapsto> (replaces e, set (support e) \<union> set s))"
      using ad Some by (simp add: link_at_add merged_def) (simp add: link_at_def)
    moreover have "link_at g (a, b) = Some (replaces e, set (support e))" using Some by (simp add: link_at_def)
    then have "(link_at g)((a, b) \<mapsto> (replaces e, set (support e) \<union> set s)) \<noteq> link_at g \<longleftrightarrow> \<not> set s \<subseteq> set (support e)"
      by (auto simp: fun_upd_def fun_eq_iff)
    ultimately show ?thesis using graph_add_old(2) [OF ad Some] by simp
  qed
qed (auto simp: graph_add_def)

text \<open>A graph that grew: links only gain support, and what changed is in the queue.\<close>

definition grew :: "Graph \<Rightarrow> Graph \<Rightarrow> bool" where
  "grew g h \<longleftrightarrow>
     (\<forall>k side s. link_at g k = Some (side, s) \<longrightarrow> (\<exists>t. link_at h k = Some (side, t) \<and> s \<subseteq> t)) \<and>
     set (queue g) \<subseteq> set (queue h) \<and>
     (\<forall>k. link_at h k \<noteq> link_at g k \<longrightarrow> k \<in> set (queue h))"

lemma grew_refl: "grew g g"
  by (simp add: grew_def)

lemma grew_trans: "grew g h \<Longrightarrow> grew h i \<Longrightarrow> grew g i"
  unfolding grew_def by (metis (no_types, lifting) subset_iff)

lemma grew_link: "grew g h \<Longrightarrow> link_at g k = Some (side, s) \<Longrightarrow> \<exists>t. link_at h k = Some (side, t) \<and> s \<subseteq> t"
  unfolding grew_def by blast

lemma grew_same: "link_at h = link_at g \<Longrightarrow> queue h = queue g \<Longrightarrow> grew g h"
  by (simp add: grew_def)

lemma grew_add: "grew g (graph_add admits a b side s j g)"
proof -
  let ?h = "graph_add admits a b side s j g"
  have "\<exists>t. link_at ?h k = Some (d, t) \<and> r \<subseteq> t" if "link_at g k = Some (d, r)" for k d r
    using that by (auto simp: link_at_add merged_def split: option.splits)
  moreover have "k \<in> set (queue ?h)" if "link_at ?h k \<noteq> link_at g k" for k
  proof -
    have "link_at ?h \<noteq> link_at g" using that by metis
    moreover have "k = (a, b)" using that by (auto simp: link_at_add split: if_splits)
    ultimately show ?thesis by (simp add: queue_add)
  qed
  ultimately show ?thesis by (auto simp: grew_def queue_add)
qed

section \<open>Closing\<close>

text \<open>Two opposite links leaving one pair are joined when they imply nothing new.\<close>

definition joined_in :: "(Channel \<Rightarrow> bool) \<Rightarrow> Graph \<Rightarrow> Channel \<Rightarrow> Channel \<Rightarrow> FactIdentity set \<Rightarrow> bool" where
  "joined_in admits g l p s \<longleftrightarrow> localDid l = peerDid p \<or> \<not> admits (pair_up l p) \<or>
     (\<exists>d t. link_at g (l, pair_up l p) = Some (d, t) \<and> s \<subseteq> t) \<and>
     (\<exists>d t. link_at g (p, pair_up l p) = Some (d, t) \<and> s \<subseteq> t)"

text \<open>Every such pair of links is joined or waits in the queue, less the partners \<open>later\<close> that \<open>k\<close> has yet to meet.\<close>

definition joins_done :: "(Channel \<Rightarrow> bool) \<Rightarrow> Graph \<Rightarrow> Channel \<times> Channel \<Rightarrow> (Channel \<times> Channel) set \<Rightarrow> bool" where
  "joins_done admits g k later \<longleftrightarrow>
     (\<forall>c l p s t. link_at g (c, l) = Some (Local, s) \<longrightarrow> link_at g (c, p) = Some (Peer, t) \<longrightarrow>
        joined_in admits g l p (s \<union> t) \<or> (c, l) \<in> set (queue g) \<or> (c, p) \<in> set (queue g) \<or>
        (c, l) = k \<and> (c, p) \<in> later \<or> (c, p) = k \<and> (c, l) \<in> later)"

lemma joins_doneD:
  "joins_done admits g k later \<Longrightarrow> link_at g (c, l) = Some (Local, s) \<Longrightarrow> link_at g (c, p) = Some (Peer, t) \<Longrightarrow>
     joined_in admits g l p (s \<union> t) \<or> (c, l) \<in> set (queue g) \<or> (c, p) \<in> set (queue g) \<or>
     (c, l) = k \<and> (c, p) \<in> later \<or> (c, p) = k \<and> (c, l) \<in> later"
  unfolding joins_done_def by blast

lemma grew_covers: "grew g h \<Longrightarrow> \<exists>d t. link_at g k = Some (d, t) \<and> s \<subseteq> t \<Longrightarrow> \<exists>d t. link_at h k = Some (d, t) \<and> s \<subseteq> t"
  using grew_link by (meson subset_trans)

lemma joined_in_grew: "joined_in admits g l p s \<Longrightarrow> grew g h \<Longrightarrow> joined_in admits h l p s"
  using grew_covers [of g h _ s] unfolding joined_in_def by blast

lemma joins_done_grew:
  assumes "joins_done admits g k later" and "grew g h"
  shows "joins_done admits h k later"
  unfolding joins_done_def
proof (intro allI impI)
  fix c l p s t
  assume l: "link_at h (c, l) = Some (Local, s)" and p: "link_at h (c, p) = Some (Peer, t)"
  show "joined_in admits h l p (s \<union> t) \<or> (c, l) \<in> set (queue h) \<or> (c, p) \<in> set (queue h) \<or>
    (c, l) = k \<and> (c, p) \<in> later \<or> (c, p) = k \<and> (c, l) \<in> later"
  proof (cases "link_at h (c, l) = link_at g (c, l) \<and> link_at h (c, p) = link_at g (c, p)")
    case True
    then show ?thesis
      using joins_doneD [OF assms(1), of c l s p t] l p joined_in_grew [OF _ assms(2)] assms(2) unfolding grew_def by auto
  next
    case False
    then show ?thesis using assms(2) unfolding grew_def by blast
  qed
qed

text \<open>A graph whose links follow from the base, and show all of it.\<close>

definition graph_ok :: "(Channel \<Rightarrow> bool) \<Rightarrow> (Channel \<times> Channel \<times> Replaces \<times> FactIdentity) set \<Rightarrow> Graph \<Rightarrow> bool" where
  "graph_ok admits base g \<longleftrightarrow>
     (\<forall>a b side s. link_at g (a, b) = Some (side, s) \<longrightarrow>
        s \<noteq> {} \<and> replaces_one a b side \<and> (\<forall>f \<in> s. follows admits base a b side f)) \<and>
     (\<forall>k \<in> set (queue g). link_at g k \<noteq> None)"

lemma graph_okD:
  assumes "graph_ok admits base g" and "link_at g (a, b) = Some (side, s)"
  shows "s \<noteq> {}" "replaces_one a b side" "f \<in> s \<Longrightarrow> follows admits base a b side f" "admits a" "admits b"
proof -
  have *: "s \<noteq> {} \<and> replaces_one a b side \<and> (\<forall>f \<in> s. follows admits base a b side f)"
    using assms unfolding graph_ok_def by blast
  then show "s \<noteq> {}" "replaces_one a b side" "f \<in> s \<Longrightarrow> follows admits base a b side f" by blast+
  obtain h where "h \<in> s" using * by blast
  then show "admits a" "admits b" using * follows_admits by blast+
qed

lemma replaces_one_side: "replaces_one a b side \<Longrightarrow> replaces_one a b other \<Longrightarrow> side = other"
  by (auto simp: replaces_one_def split: Replaces.splits)

lemma graph_ok_add:
  assumes "graph_ok admits base g" and "s \<noteq> []" and "replaces_one a b side"
    and "\<And>f. f \<in> set s \<Longrightarrow> admits a \<Longrightarrow> admits b \<Longrightarrow> follows admits base a b side f"
  shows "graph_ok admits base (graph_add admits a b side s j g)"
proof (cases "admits a \<and> admits b")
  case True
  let ?h = "graph_add admits a b side s j g"
  have at: "link_at ?h = (link_at g)((a, b) \<mapsto> merged (link_at g (a, b)) side (set s))" using True by (simp add: link_at_add)
  have new: "merged (link_at g (a, b)) side (set s) = (side, t) \<and> t \<noteq> {} \<and> (\<forall>f \<in> t. follows admits base a b side f)"
    if "snd (merged (link_at g (a, b)) side (set s)) = t" for t
  proof (cases "link_at g (a, b)")
    case None
    then show ?thesis using that assms(2,4) True by (auto simp: merged_def)
  next
    case (Some old)
    obtain d r where old: "old = (d, r)" by (cases old)
    note o = graph_okD [OF assms(1) Some [unfolded old]]
    have "d = side" using replaces_one_side [OF o(2) assms(3)] .
    then show ?thesis using that o(1,3) assms(4) True by (auto simp: merged_def Some old)
  qed
  have "k \<in> set (queue ?h) \<Longrightarrow> link_at ?h k \<noteq> None" for k
    using assms(1) by (auto simp: graph_ok_def queue_add at split: if_splits)
  then show ?thesis using assms(1,3) new unfolding graph_ok_def at by (auto split: if_splits)
qed (use assms(1) in \<open>auto simp: graph_add_def\<close>)

lemma link_at_put [simp]: "link_at (put_collision c g) = link_at g"
  by (rule ext) (simp add: link_at_def graph_edge_def)

lemma graph_ok_put [simp]: "graph_ok admits base (put_collision c g) = graph_ok admits base g"
  by (simp add: graph_ok_def)

lemma link_at_edge: "graph_edge g k = Some e \<Longrightarrow> link_at g k = Some (replaces e, set (support e))"
  by (simp add: link_at_def)

text \<open>What joining two links does: it grows the graph, keeps it sound, and leaves them joined.\<close>

lemma join_links:
  assumes ok: "graph_ok admits base g"
    and l: "graph_edge g (c, l) = Some e" "replaces e = Local" and p: "graph_edge g (c, p) = Some q" "replaces q = Peer"
  defines "h \<equiv> graph_join admits e q g"
  shows "grew g h" and "graph_ok admits base h" and "joined_in admits h l p (set (support e) \<union> set (support q))"
proof -
  have ends: "edge_from e = c" "edge_to e = l" "edge_from q = c" "edge_to q = p"
    using graph_edge_key [OF l(1)] graph_edge_key [OF p(1)] by (auto simp: edge_key_def)
  note el = graph_okD [OF ok link_at_edge [OF l(1)]] and qp = graph_okD [OF ok link_at_edge [OF p(1)]]
  define both where "both = add_all (add_all [] (support e)) (support q)"
  have b: "set both = set (support e) \<union> set (support q)" "both \<noteq> []" using el(1) by (auto simp: both_def simp flip: set_empty2)
  show "grew g h" and "graph_ok admits base h" and "joined_in admits h l p (set (support e) \<union> set (support q))"
  proof (atomize (full), cases "localDid l = peerDid p")
    case True
    then show "grew g h \<and> graph_ok admits base h \<and> joined_in admits h l p (set (support e) \<union> set (support q))"
      using ok by (simp add: h_def graph_join_def ends joined_in_def grew_same)
  next
    case False
    let ?j = "pair_up l p"
    define g1 where "g1 = graph_add admits l ?j Peer both True g"
    have h: "h = graph_add admits p ?j Local both True g1"
      using False by (simp add: h_def graph_join_def ends g1_def both_def pair_up_def Let_def)
    have one: "replaces_one l ?j Peer" "replaces_one p ?j Local"
      using el(2) qp(2) l(2) p(2) by (auto simp: replaces_one_def pair_up_def)
    obtain f f' where f: "f \<in> set (support e)" "f' \<in> set (support q)" using el(1) qp(1) by (meson ex_in_conv)
    have joins: "follows admits base l ?j Peer x \<and> follows admits base p ?j Local x"
      if "x \<in> set both" "admits ?j" for x
    proof -
      have "x \<in> set (support e) \<or> x \<in> set (support q)" using that(1) b(1) by blast
      then obtain y y' where y: "y \<in> set (support e)" "y' \<in> set (support q)" "x \<in> {y, y'}" using f by blast
      have "follows admits base c l Local y" "follows admits base c p Peer y'"
        using el(3) [OF y(1)] qp(3) [OF y(2)] l(2) p(2) by simp_all
      note fl = this False that(2) y(3)
      show ?thesis using follows.joined_peer [OF fl] follows.joined_local [OF fl] by blast
    qed
    have ok1: "graph_ok admits base g1" unfolding g1_def using ok b(2) one(1) joins by (intro graph_ok_add) auto
    have ok2: "graph_ok admits base h" unfolding h using ok1 b(2) one(2) joins by (intro graph_ok_add) auto
    have gr: "grew g g1" "grew g1 h" by (simp_all add: g1_def h grew_add)
    have "joined_in admits h l p (set both)"
    proof (cases "admits ?j")
      case True
      have ad: "admits l" "admits p" using el(5) qp(5) by simp_all
      have "\<exists>d t. link_at g1 (l, ?j) = Some (d, t) \<and> set both \<subseteq> t"
        using True ad by (auto simp: g1_def link_at_add merged_def split: option.splits)
      then have "\<exists>d t. link_at h (l, ?j) = Some (d, t) \<and> set both \<subseteq> t" by (rule grew_covers [OF gr(2)])
      moreover have "\<exists>d t. link_at h (p, ?j) = Some (d, t) \<and> set both \<subseteq> t"
        using True ad by (auto simp: h link_at_add merged_def split: option.splits)
      ultimately show ?thesis by (simp add: joined_in_def)
    qed (simp add: joined_in_def)
    then show "grew g h \<and> graph_ok admits base h \<and> joined_in admits h l p (set (support e) \<union> set (support q))"
      using grew_trans [OF gr] ok2 b(1) by simp
  qed
qed

lemma close_partner_step:
  assumes ok: "graph_ok admits base g" and d: "joins_done admits g k (insert q later)" and from_same: "fst k = fst q"
  shows "grew g (close_partner admits k q g) \<and> graph_ok admits base (close_partner admits k q g) \<and>
    joins_done admits (close_partner admits k q g) k later"
proof -
  obtain c a b where k: "k = (c, a)" "q = (c, b)" using from_same by (cases k; cases q) auto
  have joined: "grew g (graph_join admits e e' g) \<and> graph_ok admits base (graph_join admits e e' g) \<and>
      joins_done admits (graph_join admits e e' g) k later"
    if e: "graph_edge g (c, l) = Some e" "replaces e = Local" and p: "graph_edge g (c, p) = Some e'" "replaces e' = Peer"
      and these: "l = a \<and> p = b \<or> l = b \<and> p = a" for l p e e'
  proof -
    define h where "h = graph_join admits e e' g"
    note j = join_links [OF ok e p, folded h_def]
    have d': "joins_done admits h k (insert q later)" by (rule joins_done_grew [OF d j(1)])
    have at: "link_at g (c, l) = Some (Local, set (support e))" "link_at g (c, p) = Some (Peer, set (support e'))"
      using link_at_edge [OF e(1)] link_at_edge [OF p(1)] e(2) p(2) by simp_all
    have now: "joined_in admits h l p (s \<union> t) \<or> (c, l) \<in> set (queue h) \<or> (c, p) \<in> set (queue h)"
      if "link_at h (c, l) = Some (Local, s)" "link_at h (c, p) = Some (Peer, t)" for s t
    proof (cases "link_at h (c, l) = link_at g (c, l) \<and> link_at h (c, p) = link_at g (c, p)")
      case True
      then show ?thesis using that j(3) at by simp
    next
      case False
      then show ?thesis using j(1) unfolding grew_def by blast
    qed
    obtain s t where sides: "link_at h (c, l) = Some (Local, s)" "link_at h (c, p) = Some (Peer, t)"
      using grew_link [OF j(1) at(1)] grew_link [OF j(1) at(2)] by blast
    have "joins_done admits h k later"
      unfolding joins_done_def
    proof (intro allI impI)
      fix c' l' p' s' t'
      assume lp: "link_at h (c', l') = Some (Local, s')" "link_at h (c', p') = Some (Peer, t')"
      show "joined_in admits h l' p' (s' \<union> t') \<or> (c', l') \<in> set (queue h) \<or> (c', p') \<in> set (queue h) \<or>
        (c', l') = k \<and> (c', p') \<in> later \<or> (c', p') = k \<and> (c', l') \<in> later"
      proof (cases "c' = c \<and> l' = l \<and> p' = p")
        case True
        then show ?thesis using now lp by blast
      next
        case False
        then have "\<not> ((c', l') = k \<and> (c', p') = q \<or> (c', p') = k \<and> (c', l') = q)"
          using these k lp sides by auto
        then show ?thesis using joins_doneD [OF d' lp] by blast
      qed
    qed
    then show ?thesis using j(1,2) unfolding h_def by blast
  qed
  have skip: "grew g g \<and> graph_ok admits base g \<and> joins_done admits g k later"
    if alone: "\<not> (\<exists>e e'. graph_edge g k = Some e \<and> graph_edge g q = Some e' \<and> replaces e \<noteq> replaces e')"
  proof -
    have no: False if "link_at g k = Some (x, s)" "link_at g q = Some (y, t)" "x \<noteq> y" for x y s t
      using that alone by (auto simp: link_at_def)
    then have "joins_done admits g k later" using d unfolding joins_done_def by (metis Replaces.distinct(1) insertE)
    then show ?thesis using ok grew_refl by blast
  qed
  show ?thesis
  proof (cases "\<exists>e e'. graph_edge g k = Some e \<and> graph_edge g q = Some e' \<and> replaces e \<noteq> replaces e'")
    case False
    then have "close_partner admits k q g = g" by (auto simp: close_partner_def split: option.splits)
    then show ?thesis using skip [OF False] by simp
  next
    case True
    then obtain e e' where e: "graph_edge g k = Some e" "graph_edge g q = Some e'" "replaces e \<noteq> replaces e'" by blast
    show ?thesis
    proof (cases "replaces e")
      case Local
      then have "replaces e' = Peer" using e(3) by (cases "replaces e'") auto
      then show ?thesis using joined [of a e b e'] e Local by (simp add: close_partner_def k)
    next
      case Peer
      then have "replaces e' = Local" using e(3) by (cases "replaces e'") auto
      then show ?thesis using joined [of b e' a e] e Peer by (simp add: close_partner_def k)
    qed
  qed
qed

section \<open>Closing ends\<close>

text \<open>The support of a graph as a finite set, which every place in the queue made larger.\<close>

definition supported :: "Graph \<Rightarrow> ((Channel \<times> Channel) \<times> FactIdentity) set" where
  "supported g = {(k, f). \<exists>side s. link_at g k = Some (side, s) \<and> f \<in> s}"

definition room_left :: "(Channel \<times> Channel \<times> Replaces \<times> FactIdentity) set \<Rightarrow> Graph \<Rightarrow> nat" where
  "room_left base g = card ((universe base \<times> universe base) \<times> base_facts base) - card (supported g)"

lemma supported_bound:
  assumes "finite base" and "graph_ok admits base g"
  shows "supported g \<subseteq> (universe base \<times> universe base) \<times> base_facts base" and "finite (supported g)"
    and "card (supported g) \<le> card ((universe base \<times> universe base) \<times> base_facts base)"
proof -
  have fin: "finite ((universe base \<times> universe base) \<times> base_facts base)"
    using assms(1) finite_universe by (simp add: base_facts_def)
  show sub: "supported g \<subseteq> (universe base \<times> universe base) \<times> base_facts base"
    using graph_okD(3) [OF assms(2)] follows_universe by (fastforce simp: supported_def)
  show "finite (supported g)" using finite_subset [OF sub fin] .
  show "card (supported g) \<le> card ((universe base \<times> universe base) \<times> base_facts base)" using card_mono [OF fin sub] .
qed

text \<open>Places in the queue are paid for by new support.\<close>

definition paid :: "Graph \<Rightarrow> Graph \<Rightarrow> bool" where
  "paid g h \<longleftrightarrow> supported g \<subseteq> supported h \<and>
     length (queue h) + card (supported g) \<le> length (queue g) + card (supported h)"

lemma paid_add:
  assumes "finite (supported g)" and "s \<noteq> []"
  shows "paid g (graph_add admits a b side s j g) \<and> finite (supported (graph_add admits a b side s j g))"
proof -
  let ?h = "graph_add admits a b side s j g"
  have cases: "link_at ?h = link_at g \<or> (\<exists>d t. link_at ?h = (link_at g)((a, b) \<mapsto> (d, t)) \<and>
      t = set s \<union> (case link_at g (a, b) of None \<Rightarrow> {} | Some (_, r) \<Rightarrow> r))"
    by (auto simp: link_at_add merged_def Un_commute split: option.splits)
  show ?thesis
  proof (cases "link_at ?h = link_at g")
    case True
    then have "supported ?h = supported g" "queue ?h = queue g" by (simp_all add: supported_def queue_add)
    then show ?thesis using assms(1) by (simp add: paid_def)
  next
    case False
    then obtain d t where h: "link_at ?h = (link_at g)((a, b) \<mapsto> (d, t))"
      "t = set s \<union> (case link_at g (a, b) of None \<Rightarrow> {} | Some (_, r) \<Rightarrow> r)" using cases by blast
    have eq: "supported ?h = supported g \<union> {(a, b)} \<times> set s"
      unfolding supported_def h by (auto split: option.splits if_splits)
    have "supported ?h \<noteq> supported g"
    proof
      assume same: "supported ?h = supported g"
      then have sub: "set s \<subseteq> {f. ((a, b), f) \<in> supported g}" using eq by blast
      obtain d' r where r: "link_at g (a, b) = Some (d', r)" using sub assms(2) by (cases s) (auto simp: supported_def)
      then have "set s \<subseteq> r" using sub by (auto simp: supported_def)
      then have "link_at ?h = link_at g" using r by (auto simp: link_at_add merged_def Un_absorb2)
      then show False using False by blast
    qed
    then have "card (supported g) < card (supported ?h)" using eq assms(1) by (intro psubset_card_mono) auto
    moreover have "length (queue ?h) = Suc (length (queue g))" using False by (simp add: queue_add)
    ultimately show ?thesis using eq assms(1) by (auto simp: paid_def)
  qed
qed

lemma paid_trans: "paid g h \<Longrightarrow> paid h i \<Longrightarrow> paid g i"
  by (auto simp: paid_def)

lemma paid_put: "paid g (put_collision c g)"
  by (simp add: paid_def supported_def)

lemma paid_join:
  assumes "finite (supported g)" and "support e \<noteq> []"
  shows "paid g (graph_join admits e q g) \<and> finite (supported (graph_join admits e q g))"
proof -
  define both where "both = add_all (add_all [] (support e)) (support q)"
  have "set both \<noteq> {}" using assms(2) by (auto simp: both_def)
  then have b: "both \<noteq> []" by auto
  let ?j = "\<lparr>localDid = localDid (edge_to e), peerDid = peerDid (edge_to q)\<rparr>"
  have one: "paid g (graph_add admits (edge_to e) ?j Peer both True g) \<and>
      finite (supported (graph_add admits (edge_to e) ?j Peer both True g))"
    by (rule paid_add [OF assms(1) b])
  show ?thesis
  proof (cases "localDid (edge_to e) = peerDid (edge_to q)")
    case True
    then show ?thesis using assms(1) paid_put by (simp add: graph_join_def supported_def)
  next
    case False
    then have "graph_join admits e q g = graph_add admits (edge_to q) ?j Local both True (graph_add admits (edge_to e) ?j Peer both True g)"
      by (simp add: graph_join_def both_def Let_def)
    then show ?thesis using paid_add [OF conjunct2 [OF one] b] paid_trans [OF conjunct1 [OF one]] by auto
  qed
qed

lemma paid_partner:
  assumes "finite (supported g)" and "graph_ok admits base g"
  shows "paid g (close_partner admits k q g) \<and> finite (supported (close_partner admits k q g))"
proof -
  have ne: "support e \<noteq> []" if "graph_edge g (a, b) = Some e" for a b e
    using graph_okD(1) [OF assms(2) link_at_edge [OF that]] by simp
  show ?thesis
    using assms(1) ne paid_join [OF assms(1)]
    by (cases k; cases q) (auto simp: close_partner_def paid_def split: option.splits)
qed

lemma close_partners:
  assumes "graph_ok admits base g" and "joins_done admits g k (set qs)" and "\<forall>q \<in> set qs. fst q = fst k"
    and "finite (supported g)"
  shows "grew g (fold (close_partner admits k) qs g) \<and> graph_ok admits base (fold (close_partner admits k) qs g) \<and>
    joins_done admits (fold (close_partner admits k) qs g) k {} \<and> paid g (fold (close_partner admits k) qs g)"
  using assms
proof (induction qs arbitrary: g)
  case Nil
  then show ?case by (simp add: grew_refl paid_def)
next
  case (Cons q qs)
  let ?h = "close_partner admits k q g"
  have h: "grew g ?h" "graph_ok admits base ?h" "joins_done admits ?h k (set qs)"
    using close_partner_step [OF Cons.prems(1), of k q "set qs"] Cons.prems by auto
  have p: "paid g ?h" "finite (supported ?h)" using paid_partner [OF Cons.prems(4,1)] by blast+
  show ?case using Cons.IH [OF h(2,3) _ p(2)] Cons.prems(3) grew_trans [OF h(1)] paid_trans [OF p(1)] by auto
qed

lemma close_step_ok:
  assumes base: "finite base" and ok: "graph_ok admits base g" and d: "joins_done admits g k {}" and q: "queue g \<noteq> []"
  shows "graph_ok admits base (close_step admits g)" and "\<exists>k'. joins_done admits (close_step admits g) k' {}"
    and "2 * room_left base (close_step admits g) + length (queue (close_step admits g)) < 2 * room_left base g + length (queue g)"
    and "link_at g key = Some (side, s) \<Longrightarrow> \<exists>t. link_at (close_step admits g) key = Some (side, t) \<and> s \<subseteq> t"
proof -
  define k' where "k' = last (queue g)"
  define g0 where "g0 = g\<lparr>queue := butlast (queue g)\<rparr>"
  define qs where "qs = map edge_key (edges_from g0 (fst k'))"
  have step: "close_step admits g = fold (close_partner admits k') qs g0"
    by (simp add: close_step_def k'_def g0_def qs_def Let_def)
  have at: "link_at g0 = link_at g" by (rule ext) (simp add: link_at_def graph_edge_def g0_def)
  have split: "queue g = queue g0 @ [k']" using q by (simp add: g0_def k'_def)
  have ok0: "graph_ok admits base g0" using ok by (auto simp: graph_ok_def at split)
  have froms: "\<forall>q \<in> set qs. fst q = fst k'" by (auto simp: qs_def edges_from_def edge_key_def)
  have all: "p \<in> set qs" if there: "link_at g0 p \<noteq> None" and leaves: "fst p = fst k'" for p
  proof -
    obtain e where "graph_edge g0 p = Some e" using there unfolding link_at_def by (cases "graph_edge g0 p") auto
    then have "e \<in> set (edges_from g0 (fst k'))" "edge_key e = p"
      using graph_edge_key [of g0 p e] leaves by (auto simp: edges_from_def edge_key_def)
    then show ?thesis by (auto simp: qs_def)
  qed
  have d0: "joins_done admits g0 k' (set qs)"
    unfolding joins_done_def
  proof (intro allI impI)
    fix c l p s t
    assume lp: "link_at g0 (c, l) = Some (Local, s)" "link_at g0 (c, p) = Some (Peer, t)"
    then have "joined_in admits g l p (s \<union> t) \<or> (c, l) \<in> set (queue g) \<or> (c, p) \<in> set (queue g)"
      using joins_doneD [OF d] unfolding at by blast
    moreover have "joined_in admits g0 l p (s \<union> t) = joined_in admits g l p (s \<union> t)" by (simp add: joined_in_def at)
    ultimately show "joined_in admits g0 l p (s \<union> t) \<or> (c, l) \<in> set (queue g0) \<or> (c, p) \<in> set (queue g0) \<or>
        (c, l) = k' \<and> (c, p) \<in> set qs \<or> (c, p) = k' \<and> (c, l) \<in> set qs"
      using all lp unfolding split by auto
  qed
  have fin: "finite (supported g0)" by (rule supported_bound(2) [OF base ok0])
  note end_state = close_partners [OF ok0 d0 froms fin, folded step]
  then show ok1: "graph_ok admits base (close_step admits g)" and "\<exists>k'. joins_done admits (close_step admits g) k' {}" by blast+
  show "link_at g key = Some (side, s) \<Longrightarrow> \<exists>t. link_at (close_step admits g) key = Some (side, t) \<and> s \<subseteq> t"
    using end_state grew_link at by metis
  have "card (supported g0) = card (supported g)" by (simp add: supported_def at)
  moreover have "length (queue g) = Suc (length (queue g0))" by (simp add: split)
  moreover have "card (supported (close_step admits g)) \<le> card ((universe base \<times> universe base) \<times> base_facts base)"
    by (rule supported_bound(3) [OF base ok1])
  moreover have "card (supported g0) \<le> card (supported (close_step admits g))"
    using end_state supported_bound(2) [OF base ok1] by (auto simp: paid_def intro: card_mono)
  moreover have "length (queue (close_step admits g)) + card (supported g0) \<le> length (queue g0) + card (supported (close_step admits g))"
    using end_state by (simp add: paid_def)
  ultimately show "2 * room_left base (close_step admits g) + length (queue (close_step admits g)) < 2 * room_left base g + length (queue g)"
    unfolding room_left_def by linarith
qed

text \<open>Closing ends, in a graph whose links still follow from the base, all joins made.\<close>

lemma graph_close_ends:
  assumes "finite base"
  shows "graph_ok admits base g \<Longrightarrow> \<exists>k. joins_done admits g k {} \<Longrightarrow>
    \<exists>h. graph_close admits g = Some h \<and> graph_ok admits base h \<and> (\<exists>k. joins_done admits h k {}) \<and> queue h = [] \<and>
      (\<forall>k side s. link_at g k = Some (side, s) \<longrightarrow> (\<exists>t. link_at h k = Some (side, t) \<and> s \<subseteq> t))"
proof (induction "2 * room_left base g + length (queue g)" arbitrary: g rule: less_induct)
  case less
  show ?case
  proof (cases "queue g = []")
    case True
    then show ?thesis using less.prems by (intro exI [of _ g]) (auto simp: graph_close.simps)
  next
    case False
    obtain k where d: "joins_done admits g k {}" using less.prems(2) by blast
    let ?g = "close_step admits g"
    note step = close_step_ok [OF assms less.prems(1) d False]
    obtain h where h: "graph_close admits ?g = Some h" "graph_ok admits base h" "\<exists>k. joins_done admits h k {}" "queue h = []"
      "\<forall>k side s. link_at ?g k = Some (side, s) \<longrightarrow> (\<exists>t. link_at h k = Some (side, t) \<and> s \<subseteq> t)"
      using less.hyps [OF step(3) step(1) step(2)] by blast
    have "graph_close admits g = Some h" using h(1) False by (simp add: graph_close.simps [of admits g])
    moreover have "\<exists>t. link_at h k = Some (side, t) \<and> s \<subseteq> t" if "link_at g k = Some (side, s)" for k side s
      using step(4) [OF that] h(5) by (meson subset_trans)
    ultimately show ?thesis using h(2-4) by blast
  qed
qed

section \<open>The closed graph\<close>

text \<open>Links added to an empty graph, as \<open>build\<close> of \<open>closure\<close> adds them: the ends, the side and the support of each.\<close>

type_synonym added_link = "Channel \<times> Channel \<times> Replaces \<times> FactIdentity list"

definition add_links :: "(Channel \<Rightarrow> bool) \<Rightarrow> added_link list \<Rightarrow> Graph \<Rightarrow> Graph" where
  "add_links admits links g = fold (\<lambda>(a, b, side, s). graph_add admits a b side s False) links g"

definition link_base :: "added_link list \<Rightarrow> (Channel \<times> Channel \<times> Replaces \<times> FactIdentity) set" where
  "link_base links = (\<Union>(a, b, side, s) \<in> set links. {a} \<times> {b} \<times> {side} \<times> set s)"

definition links_ok :: "added_link list \<Rightarrow> bool" where
  "links_ok links = (\<forall>(a, b, side, s) \<in> set links. replaces_one a b side \<and> s \<noteq> [])"

lemma finite_link_base: "finite (link_base links)"
  by (auto simp: link_base_def)

lemma add_links_grew: "grew g (add_links admits links g)"
  unfolding add_links_def
proof (induction links arbitrary: g)
  case (Cons l links)
  obtain a b side s where l: "l = (a, b, side, s)" by (cases l)
  show ?case using grew_trans [OF grew_add Cons] by (simp add: l)
qed (simp add: grew_refl)

lemma add_links_ok:
  assumes "links_ok links" and "set links \<subseteq> set all" and "graph_ok admits (link_base all) g"
  shows "graph_ok admits (link_base all) (add_links admits links g)"
  using assms
proof (induction links arbitrary: g)
  case (Cons l links)
  obtain a b side s where l: "l = (a, b, side, s)" by (cases l)
  have "graph_ok admits (link_base all) (graph_add admits a b side s False g)"
  proof (rule graph_ok_add [OF Cons.prems(3)])
    show "s \<noteq> []" "replaces_one a b side" using Cons.prems(1) by (auto simp: links_ok_def l)
    show "follows admits (link_base all) a b side f" if "f \<in> set s" "admits a" "admits b" for f
      using that Cons.prems(2) by (intro follows.added) (force simp: link_base_def l)+
  qed
  then show ?case using Cons by (simp add: add_links_def l links_ok_def)
qed (simp add: add_links_def)

lemma add_links_all:
  assumes "(a, b, side, s) \<in> set links" and "admits a" "admits b"
  shows "\<exists>d t. link_at (add_links admits links g) (a, b) = Some (d, t) \<and> set s \<subseteq> t"
  using assms(1)
proof (induction links arbitrary: g)
  case (Cons l links)
  obtain a' b' side' s' where l: "l = (a', b', side', s')" by (cases l)
  show ?case
  proof (cases "(a, b, side, s) = l")
    case True
    have "\<exists>d t. link_at (graph_add admits a b side s False g) (a, b) = Some (d, t) \<and> set s \<subseteq> t"
      using assms(2,3) by (auto simp: link_at_add merged_def split: option.splits)
    then show ?thesis
      using grew_covers [OF add_links_grew [of "graph_add admits a b side s False g" admits links]] True
      by (auto simp: add_links_def)
  next
    case False
    then have "(a, b, side, s) \<in> set links" using Cons.prems by auto
    then show ?thesis using Cons.IH [of "graph_add admits a' b' side' s' False g"] by (simp add: add_links_def l)
  qed
qed simp

lemma new_graph_links [simp]: "link_at new_Graph k = None" "queue new_Graph = []"
  by (simp_all add: link_at_def graph_edge_def new_Graph_def)

definition build_graph :: "(Channel \<Rightarrow> bool) \<Rightarrow> added_link list \<Rightarrow> Graph option" where
  "build_graph admits links = graph_close admits (add_links admits links new_Graph)"

text \<open>
  The closed graph ends up with exactly the links that follow from those added, each
  with exactly the support that follows.
\<close>

lemma closed_graph_links:
  assumes "links_ok links"
  shows "\<exists>g. build_graph admits links = Some g \<and> queue g = [] \<and>
    (\<forall>a b side f. (\<exists>s. link_at g (a, b) = Some (side, s) \<and> f \<in> s) \<longleftrightarrow> follows admits (link_base links) a b side f)"
proof -
  let ?g = "add_links admits links new_Graph" and ?base = "link_base links"
  have ok: "graph_ok admits ?base ?g" using assms by (intro add_links_ok) (auto simp: graph_ok_def)
  have base_ok: "base_ok ?base" using assms by (force simp: base_ok_def link_base_def links_ok_def)
  have queued: "k \<in> set (queue ?g)" if "link_at ?g k \<noteq> None" for k
    using add_links_grew [of new_Graph admits links] that unfolding grew_def by (metis new_graph_links(1))
  then have "\<exists>k. joins_done admits ?g k {}" unfolding joins_done_def by auto
  then obtain h k where h: "graph_close admits ?g = Some h" "graph_ok admits ?base h" "joins_done admits h k {}" "queue h = []"
    and kept: "\<forall>k side s. link_at ?g k = Some (side, s) \<longrightarrow> (\<exists>t. link_at h k = Some (side, t) \<and> s \<subseteq> t)"
    using graph_close_ends [OF finite_link_base ok] by blast
  have complete: "\<exists>s. link_at h (a, b) = Some (side, s) \<and> f \<in> s" if "follows admits ?base a b side f" for a b side f
    using that
  proof (induction rule: follows.induct)
    case (added a b side f)
    then obtain s where s: "(a, b, side, s) \<in> set links" "f \<in> set s" by (auto simp: link_base_def)
    obtain d t where t: "link_at h (a, b) = Some (d, t)" "f \<in> t"
      using add_links_all [OF s(1) added(2,3), of new_Graph] kept s(2) by blast
    have "replaces_one a b side" using assms s(1) by (auto simp: links_ok_def)
    then have "d = side" using replaces_one_side [OF graph_okD(2) [OF h(2) t(1)]] by simp
    then show ?case using t by blast
  next
    case (joined_peer c l f p f' x)
    then obtain s t where st: "link_at h (c, l) = Some (Local, s)" "f \<in> s" "link_at h (c, p) = Some (Peer, t)" "f' \<in> t" by blast
    then have "joined_in admits h l p (s \<union> t)" using joins_doneD [OF h(3) st(1,3)] h(4) by simp
    then obtain d u where u: "link_at h (l, pair_up l p) = Some (d, u)" "s \<union> t \<subseteq> u"
      using joined_peer.hyps(3,4) unfolding joined_in_def by blast
    have "replaces_one l (pair_up l p) Peer"
      using follows_replaces_one [OF base_ok] joined_peer.hyps follows.joined_peer by blast
    then have "d = Peer" using replaces_one_side [OF graph_okD(2) [OF h(2) u(1)]] by simp
    then show ?case using u st joined_peer.hyps(5) by blast
  next
    case (joined_local c l f p f' x)
    then obtain s t where st: "link_at h (c, l) = Some (Local, s)" "f \<in> s" "link_at h (c, p) = Some (Peer, t)" "f' \<in> t" by blast
    then have "joined_in admits h l p (s \<union> t)" using joins_doneD [OF h(3) st(1,3)] h(4) by simp
    then obtain d u where u: "link_at h (p, pair_up l p) = Some (d, u)" "s \<union> t \<subseteq> u"
      using joined_local.hyps(3,4) unfolding joined_in_def by blast
    have "replaces_one p (pair_up l p) Local"
      using follows_replaces_one [OF base_ok] joined_local.hyps follows.joined_local by blast
    then have "d = Local" using replaces_one_side [OF graph_okD(2) [OF h(2) u(1)]] by simp
    then show ?case using u st joined_local.hyps(5) by blast
  qed
  have "follows admits ?base a b side f" if "link_at h (a, b) = Some (side, s)" "f \<in> s" for a b side s f
    using graph_okD(3) [OF h(2) that(1)] that(2) by blast
  then show ?thesis using h(1,4) complete unfolding build_graph_def by blast
qed

end
