(* ===== verification/Continuity_Reach.thy ===== *)
theory Continuity_Reach
  imports Continuity_Graph
begin

text \<open>
  The breadth first search of \<^verbatim>\<open>packages/continuity/src/graph.ts\<close>: \<open>Graph.reach\<close>, the
  \<open>Reach\<close> it fills and the paths rebuilt from it. A search reaches exactly the channels
  a walk of its kind leads to, and the path to each is a shortest walk.
\<close>

text \<open>A \<open>Reach\<close>: each channel with the edge it was first reached by, in the order reached.\<close>

type_synonym Reach = "(Channel \<times> Edge option) list"

definition new_Reach :: "Channel \<Rightarrow> Reach" where
  "new_Reach start = [(start, None)]"

definition arrive :: "Channel \<Rightarrow> Edge \<Rightarrow> Reach \<Rightarrow> bool \<times> Reach" where
  "arrive c via r = (if c \<in> fst ` set r then (False, r) else (True, r @ [(c, Some via)]))"

definition reach_has :: "Reach \<Rightarrow> Channel \<Rightarrow> bool" where
  "reach_has r c = (map_of r c \<noteq> None)"

definition reach_channels :: "Reach \<Rightarrow> Channel list" where
  "reach_channels r = map fst r"

text \<open>\<open>pathTo\<close> follows the edges back to the start; \<^const>\<open>None\<close> where it is not reached or the way back is broken.\<close>

partial_function (option) path_back :: "Reach \<Rightarrow> Edge option \<Rightarrow> Edge list \<Rightarrow> Edge list option" where
  "path_back r via found =
     (case via of
        None \<Rightarrow> Some found
      | Some e \<Rightarrow> (case map_of r (edge_from e) of None \<Rightarrow> None | Some via' \<Rightarrow> path_back r via' (e # found)))"

declare path_back.simps [code]

definition pathTo :: "Reach \<Rightarrow> Channel \<Rightarrow> Edge list option" where
  "pathTo r c = (case map_of r c of None \<Rightarrow> None | Some via \<Rightarrow> path_back r via [])"

text \<open>A search for edges of one side, or of any (\<^const>\<open>None\<close>).\<close>

definition side_ok :: "Replaces option \<Rightarrow> Edge \<Rightarrow> bool" where
  "side_ok side e = (side = None \<or> side = Some (replaces e))"

text \<open>The edges of one channel: the reach, the frontier, and whether the search is over.\<close>

fun reach_edges :: "Replaces option \<Rightarrow> Channel option \<Rightarrow> Edge list \<Rightarrow> Reach \<Rightarrow> Channel list \<Rightarrow> Reach \<times> Channel list \<times> bool" where
  "reach_edges side stop [] r frontier = (r, frontier, False)"
| "reach_edges side stop (e # es) r frontier =
     (if \<not> side_ok side e then reach_edges side stop es r frontier
      else case arrive (edge_to e) e r of
        (False, _) \<Rightarrow> reach_edges side stop es r frontier
      | (True, r') \<Rightarrow>
          if stop = Some (edge_to e) then (r', frontier, True)
          else reach_edges side stop es r' (frontier @ [edge_to e]))"

definition sorted_edges :: "Graph \<Rightarrow> Channel \<Rightarrow> Edge list" where
  "sorted_edges g c = sort_by (\<lambda>a b. compareChannels (edge_to a) (edge_to b)) (edges_from g c)"

lemma set_sorted_edges [simp]: "set (sorted_edges g c) = {e \<in> set (graph_edges g). edge_from e = c}"
  by (auto simp: sorted_edges_def edges_from_def)

text \<open>Each channel pushed to the frontier was not reached before.\<close>

definition unreached :: "Graph \<Rightarrow> Reach \<Rightarrow> Channel set" where
  "unreached g r = edge_to ` set (graph_edges g) - fst ` set r"

lemma finite_unreached [simp]: "finite (unreached g r)"
  by (simp add: unreached_def)

lemma reach_edges_room:
  assumes "reach_edges side stop es r frontier = (r', frontier', done')" and "set es \<subseteq> set (graph_edges g)"
  shows "length frontier' + card (unreached g r') \<le> length frontier + card (unreached g r) \<and> card (unreached g r') \<le> card (unreached g r)"
  using assms
proof (induction es arbitrary: r frontier)
  case (Cons e es)
  show ?case
  proof (cases "side_ok side e \<and> edge_to e \<notin> fst ` set r")
    case True
    have "unreached g (r @ [(edge_to e, Some e)]) = unreached g r - {edge_to e}" by (auto simp: unreached_def)
    moreover have "edge_to e \<in> unreached g r" using True Cons.prems(2) by (auto simp: unreached_def)
    ultimately have "Suc (card (unreached g (r @ [(edge_to e, Some e)]))) = card (unreached g r)"
      using card_Suc_Diff1 [OF finite_unreached] by simp
    note room = this
    show ?thesis
    proof (cases "stop = Some (edge_to e)")
      case stopped: True
      then have "r' = r @ [(edge_to e, Some e)]" "frontier' = frontier" using Cons.prems(1) True by (simp_all add: arrive_def)
      then show ?thesis using room by simp
    next
      case False
      then have "reach_edges side stop es (r @ [(edge_to e, Some e)]) (frontier @ [edge_to e]) = (r', frontier', done')"
        using Cons.prems(1) True by (simp add: arrive_def)
      then have "length frontier' + card (unreached g r') \<le> length (frontier @ [edge_to e]) + card (unreached g (r @ [(edge_to e, Some e)])) \<and>
          card (unreached g r') \<le> card (unreached g (r @ [(edge_to e, Some e)]))"
        using Cons.prems(2) by (intro Cons.IH) auto
      then show ?thesis using room by simp
    qed
  next
    case False
    then have "reach_edges side stop es r frontier = (r', frontier', done')" using Cons.prems(1) by (auto simp: arrive_def split: if_splits)
    then show ?thesis using Cons.IH Cons.prems(2) by simp
  qed
qed simp

function reach_loop :: "Graph \<Rightarrow> Replaces option \<Rightarrow> Channel option \<Rightarrow> Channel list \<Rightarrow> nat \<Rightarrow> Reach \<Rightarrow> Reach" where
  "reach_loop g side stop frontier i r =
     (if i < length frontier then
        case reach_edges side stop (sorted_edges g (frontier ! i)) r frontier of
          (r', frontier', over) \<Rightarrow> if over then r' else reach_loop g side stop frontier' (i + 1) r'
      else r)"
  by pat_completeness auto
termination
proof (relation "measure (\<lambda>(g, side, stop, frontier, i, r). card (unreached g r) + (length frontier + card (unreached g r) - i))", goal_cases)
  case (2 g side stop frontier i r r' y frontier' over)
  then have "reach_edges side stop (sorted_edges g (frontier ! i)) r frontier = (r', frontier', over)" by simp
  then have "length frontier' + card (unreached g r') \<le> length frontier + card (unreached g r) \<and> card (unreached g r') \<le> card (unreached g r)"
    by (rule reach_edges_room) auto
  then show ?case using 2(1) unfolding in_measure prod.case by linarith
qed simp

declare reach_loop.simps [simp del]

definition graph_reach :: "Graph \<Rightarrow> Channel \<Rightarrow> Replaces option \<Rightarrow> Channel option \<Rightarrow> Reach" where
  "graph_reach g start side stop =
     (if stop = Some start then new_Reach start
      else reach_loop g side stop [start] 0 (new_Reach start))"

definition graph_path :: "Graph \<Rightarrow> Channel \<Rightarrow> Channel \<Rightarrow> Edge list option" where
  "graph_path g a b = pathTo (graph_reach g a None (Some b)) b"

section \<open>Walks\<close>

fun walk :: "Graph \<Rightarrow> Replaces option \<Rightarrow> Channel \<Rightarrow> Edge list \<Rightarrow> Channel \<Rightarrow> bool" where
  "walk g side a [] b = (a = b)"
| "walk g side a (e # es) b = (e \<in> set (graph_edges g) \<and> edge_from e = a \<and> side_ok side e \<and> walk g side (edge_to e) es b)"

lemma walk_append: "walk g side a (es @ fs) c \<longleftrightarrow> (\<exists>b. walk g side a es b \<and> walk g side b fs c)"
  by (induction es arbitrary: a) auto

text \<open>
  A search in progress, with the distance of each channel reached: each was reached by an
  edge from one before it, distances do not decrease, and the channels before \<open>i\<close> are done.
\<close>

definition searched :: "Graph \<Rightarrow> Replaces option \<Rightarrow> Channel \<Rightarrow> Reach \<Rightarrow> nat list \<Rightarrow> bool" where
  "searched g side start r ds \<longleftrightarrow> length ds = length r \<and> distinct (map fst r) \<and> sorted ds \<and>
     r \<noteq> [] \<and> r ! 0 = (start, None) \<and> ds ! 0 = 0 \<and>
     (\<forall>k. 0 < k \<longrightarrow> k < length r \<longrightarrow> (\<exists>e j. snd (r ! k) = Some e \<and> e \<in> set (graph_edges g) \<and> side_ok side e \<and>
        edge_to e = fst (r ! k) \<and> j < k \<and> fst (r ! j) = edge_from e \<and> ds ! k = Suc (ds ! j)))"

definition expanded :: "Graph \<Rightarrow> Replaces option \<Rightarrow> Reach \<Rightarrow> nat list \<Rightarrow> nat \<Rightarrow> bool" where
  "expanded g side r ds i \<longleftrightarrow> (\<forall>j < i. \<forall>e \<in> set (graph_edges g). edge_from e = fst (r ! j) \<longrightarrow> side_ok side e \<longrightarrow>
     (\<exists>k < length r. fst (r ! k) = edge_to e \<and> ds ! k \<le> Suc (ds ! j)))"


definition reached_within :: "Reach \<Rightarrow> nat list \<Rightarrow> Channel \<Rightarrow> nat \<Rightarrow> bool" where
  "reached_within r ds c n \<longleftrightarrow> (\<exists>k < length r. fst (r ! k) = c \<and> ds ! k \<le> n)"

lemma expanded_iff: "expanded g side r ds i \<longleftrightarrow>
    (\<forall>j < i. \<forall>e \<in> set (graph_edges g). edge_from e = fst (r ! j) \<longrightarrow> side_ok side e \<longrightarrow> reached_within r ds (edge_to e) (Suc (ds ! j)))"
  by (simp add: expanded_def reached_within_def)

lemma reached_within_append: "length ds = length r \<Longrightarrow> reached_within r ds c n \<Longrightarrow> reached_within (r @ rx) (ds @ dx) c n"
  unfolding reached_within_def by (auto simp: nth_append intro: less_SucI)

lemma searched_new: "searched g side start (new_Reach start) [0]"
  by (auto simp: searched_def new_Reach_def)

lemma searched_arrive:
  assumes s: "searched g side start r ds" and i: "i < length r" and d: "\<forall>x \<in> set ds. x \<le> Suc (ds ! i)"
    and e: "e \<in> set (graph_edges g)" "edge_from e = fst (r ! i)" "side_ok side e" and new: "edge_to e \<notin> fst ` set r"
  shows "searched g side start (r @ [(edge_to e, Some e)]) (ds @ [Suc (ds ! i)])"
proof -
  let ?r = "r @ [(edge_to e, Some e)]" and ?ds = "ds @ [Suc (ds ! i)]"
  have len: "length ds = length r" "0 < length r" using s by (auto simp: searched_def)
  have "\<exists>e j. snd (?r ! k) = Some e \<and> e \<in> set (graph_edges g) \<and> side_ok side e \<and> edge_to e = fst (?r ! k) \<and> j < k \<and>
      fst (?r ! j) = edge_from e \<and> ?ds ! k = Suc (?ds ! j)" if k: "0 < k" "k < length ?r" for k
  proof (cases "k = length r")
    case True
    then show ?thesis using e i len by (intro exI [of _ e] exI [of _ i]) (simp add: nth_append)
  next
    case False
    then have "k < length r" using k by simp
    then obtain e' j where "snd (r ! k) = Some e'" "e' \<in> set (graph_edges g)" "side_ok side e'" "edge_to e' = fst (r ! k)" "j < k"
      "fst (r ! j) = edge_from e'" "ds ! k = Suc (ds ! j)"
      using s k unfolding searched_def by blast
    then show ?thesis using \<open>k < length r\<close> len by (intro exI [of _ e'] exI [of _ j]) (simp add: nth_append)
  qed
  moreover have "distinct (map fst ?r)" "sorted ?ds" "?r ! 0 = (start, None)" "?ds ! 0 = 0"
    using s new d len by (auto simp: searched_def sorted_append nth_append)
  ultimately show ?thesis using len unfolding searched_def by auto
qed

text \<open>The edges of the channel at \<open>i\<close>: what was reached stays, at its distance; the rest is at most one further.\<close>

lemma reach_edges_searched:
  assumes "reach_edges side stop es r (map fst r) = (r', frontier', over)"
    and "searched g side start r ds" and "i < length r" and "\<forall>x \<in> set ds. x \<le> Suc (ds ! i)"
    and "\<forall>e \<in> set es. e \<in> set (graph_edges g) \<and> edge_from e = fst (r ! i)"
  shows "\<exists>rx dx. r' = r @ rx \<and> searched g side start r' (ds @ dx) \<and> (\<forall>x \<in> set (ds @ dx). x \<le> Suc (ds ! i)) \<and>
    (\<not> over \<longrightarrow> frontier' = map fst r' \<and> (\<forall>e \<in> set es. side_ok side e \<longrightarrow> reached_within r' (ds @ dx) (edge_to e) (Suc (ds ! i))) \<and>
       (\<forall>c \<in> fst ` set rx. stop \<noteq> Some c)) \<and>
    (over \<longrightarrow> (\<exists>c. stop = Some c \<and> c \<in> fst ` set rx))"
  using assms
proof (induction es arbitrary: r ds)
  case Nil
  then show ?case by (intro exI [of _ "[]"]) auto
next
  case (Cons e es)
  note s = Cons.prems(2) and i = Cons.prems(3) and d = Cons.prems(4)
  have len: "length ds = length r" using s by (simp add: searched_def)
  have e: "e \<in> set (graph_edges g)" "edge_from e = fst (r ! i)" using Cons.prems(5) by auto
  show ?case
  proof (cases "side_ok side e \<and> edge_to e \<notin> fst ` set r")
    case skip: False
    then have "reach_edges side stop es r (map fst r) = (r', frontier', over)" using Cons.prems(1) by (auto simp: arrive_def split: if_splits)
    from Cons.IH [OF this s i d] Cons.prems(5) obtain rx dx where
      r': "r' = r @ rx" and s': "searched g side start r' (ds @ dx)" and d': "\<forall>x \<in> set (ds @ dx). x \<le> Suc (ds ! i)"
      and go: "\<not> over \<longrightarrow> frontier' = map fst r' \<and> (\<forall>e \<in> set es. side_ok side e \<longrightarrow> reached_within r' (ds @ dx) (edge_to e) (Suc (ds ! i))) \<and>
         (\<forall>c \<in> fst ` set rx. stop \<noteq> Some c)"
      and ov: "over \<longrightarrow> (\<exists>c. stop = Some c \<and> c \<in> fst ` set rx)" by auto
    have "reached_within r' (ds @ dx) (edge_to e) (Suc (ds ! i))" if "side_ok side e"
    proof -
      have "edge_to e \<in> fst ` set r" using skip that by blast
      then obtain k where "k < length r" "fst (r ! k) = edge_to e" by (auto simp: in_set_conv_nth)
      moreover from this have "ds ! k \<le> Suc (ds ! i)" using d len by simp
      ultimately have "reached_within r ds (edge_to e) (Suc (ds ! i))" by (auto simp: reached_within_def)
      then show ?thesis unfolding r' by (rule reached_within_append [OF len])
    qed
    then show ?thesis using r' s' d' go ov by (intro exI [of _ rx] exI [of _ dx]) simp
  next
    case take_it: True
    let ?r = "r @ [(edge_to e, Some e)]" and ?ds = "ds @ [Suc (ds ! i)]"
    have s1: "searched g side start ?r ?ds" using searched_arrive [OF s i d e] take_it by blast
    have at_i: "?ds ! i = ds ! i" "?r ! i = r ! i" using i len by (simp_all add: nth_append)
    have d1: "\<forall>x \<in> set ?ds. x \<le> Suc (?ds ! i)" using d at_i by simp
    have here: "reached_within ?r ?ds (edge_to e) (Suc (ds ! i))"
      unfolding reached_within_def using len by (intro exI [of _ "length r"]) (simp add: nth_append)
    show ?thesis
    proof (cases "stop = Some (edge_to e)")
      case True
      then have "r' = ?r" "over" using Cons.prems(1) take_it by (simp_all add: arrive_def)
      then show ?thesis using True s1 d1 at_i by (intro exI [of _ "[(edge_to e, Some e)]"] exI [of _ "[Suc (ds ! i)]"]) simp
    next
      case go_on: False
      then have "reach_edges side stop es ?r (map fst ?r) = (r', frontier', over)" using Cons.prems(1) take_it by (simp add: arrive_def)
      from Cons.IH [OF this s1 _ d1] i Cons.prems(5) at_i obtain rx dx where
        r': "r' = ?r @ rx" and s': "searched g side start r' (?ds @ dx)" and d': "\<forall>x \<in> set (?ds @ dx). x \<le> Suc (ds ! i)"
        and go: "\<not> over \<longrightarrow> frontier' = map fst r' \<and> (\<forall>e \<in> set es. side_ok side e \<longrightarrow> reached_within r' (?ds @ dx) (edge_to e) (Suc (ds ! i))) \<and>
           (\<forall>c \<in> fst ` set rx. stop \<noteq> Some c)"
        and ov: "over \<longrightarrow> (\<exists>c. stop = Some c \<and> c \<in> fst ` set rx)" by auto
      have "reached_within r' (?ds @ dx) (edge_to e) (Suc (ds ! i))"
        unfolding r' using len by (intro reached_within_append [OF _ here]) simp
      then show ?thesis using r' s' d' go ov go_on
        by (intro exI [of _ "(edge_to e, Some e) # rx"] exI [of _ "Suc (ds ! i) # dx"]) auto
    qed
  qed
qed

text \<open>While the channel at \<open>i\<close> is next, every walk no longer than its distance was already followed.\<close>

lemma expanded_walk:
  assumes s: "searched g side start r ds" and x: "expanded g side r ds i"
  shows "walk g side start es c \<Longrightarrow> (i < length r \<Longrightarrow> length es \<le> ds ! i) \<Longrightarrow> i \<le> length r \<Longrightarrow> reached_within r ds c (length es)"
proof (induction es arbitrary: c rule: rev_induct)
  case Nil
  have "0 < length r" "r ! 0 = (start, None)" "ds ! 0 = 0" using s by (auto simp: searched_def)
  then show ?case using Nil.prems(1) unfolding reached_within_def by (intro exI [of _ 0]) simp
next
  case (snoc e es)
  then have w: "walk g side start es (edge_from e)" and e: "e \<in> set (graph_edges g)" "side_ok side e" "edge_to e = c"
    by (auto simp: walk_append)
  have "length es \<le> ds ! i" if "i < length r" using snoc.prems(2) [OF that] by simp
  then have "reached_within r ds (edge_from e) (length es)" using snoc.IH [OF w] snoc.prems(3) by blast
  then obtain j where j: "j < length r" "fst (r ! j) = edge_from e" "ds ! j \<le> length es" by (auto simp: reached_within_def)
  have "j < i"
  proof (cases "i < length r")
    case True
    show ?thesis
    proof (rule ccontr)
      assume "\<not> j < i"
      moreover have "length ds = length r" "sorted ds" using s by (simp_all add: searched_def)
      ultimately have "ds ! i \<le> ds ! j" using j(1) by (intro sorted_nth_mono) simp_all
      then show False using j(3) snoc.prems(2) True by simp
    qed
  qed (use j(1) snoc.prems(3) in simp)
  then have "reached_within r ds c (Suc (ds ! j))" using x e j(2) by (auto simp: expanded_iff)
  then show ?case using j(3) unfolding reached_within_def by force
qed

text \<open>What a finished search has found: every walk to a channel it must know, and no longer way there.\<close>

definition searched_all :: "Graph \<Rightarrow> Replaces option \<Rightarrow> Channel \<Rightarrow> Channel option \<Rightarrow> Reach \<Rightarrow> nat list \<Rightarrow> bool" where
  "searched_all g side start stop r ds \<longleftrightarrow> searched g side start r ds \<and>
     (\<forall>es c. walk g side start es c \<longrightarrow> (stop = None \<or> stop = Some c) \<longrightarrow> reached_within r ds c (length es))"

lemma reach_loop_searched:
  assumes "searched g side start r ds" and "expanded g side r ds i" and "i \<le> length r"
    and "\<forall>x \<in> set ds. i < length r \<longrightarrow> x \<le> Suc (ds ! i)" and "\<forall>c \<in> fst ` set r. stop \<noteq> Some c"
    and "frontier = map fst r"
  shows "\<exists>ds'. searched_all g side start stop (reach_loop g side stop frontier i r) ds'"
  using assms
proof (induction g side stop frontier i r arbitrary: ds rule: reach_loop.induct)
  case (1 g side stop frontier i r)
  note s = "1.prems"(1) and x = "1.prems"(2) and d = "1.prems"(4) and unstopped = "1.prems"(5) and frontier = "1.prems"(6)
  have len: "length ds = length r" using s by (simp add: searched_def)
  show ?case
  proof (cases "i < length r")
    case False
    then have "searched_all g side start stop r ds"
      using s expanded_walk [OF s x] "1.prems"(3) by (auto simp: searched_all_def)
    then show ?thesis using False frontier by (auto simp: reach_loop.simps)
  next
    case i: True
    obtain r' frontier' over where run: "reach_edges side stop (sorted_edges g (fst (r ! i))) r (map fst r) = (r', frontier', over)"
      by (cases "reach_edges side stop (sorted_edges g (fst (r ! i))) r (map fst r)") auto
    have d': "\<forall>y \<in> set ds. y \<le> Suc (ds ! i)" using d i by blast
    obtain rx dx where r': "r' = r @ rx" and s': "searched g side start r' (ds @ dx)" and near: "\<forall>y \<in> set (ds @ dx). y \<le> Suc (ds ! i)"
      and go: "\<not> over \<longrightarrow> frontier' = map fst r' \<and>
         (\<forall>e \<in> set (sorted_edges g (fst (r ! i))). side_ok side e \<longrightarrow> reached_within r' (ds @ dx) (edge_to e) (Suc (ds ! i))) \<and>
         (\<forall>c \<in> fst ` set rx. stop \<noteq> Some c)"
      and ov: "over \<longrightarrow> (\<exists>c. stop = Some c \<and> c \<in> fst ` set rx)"
      using reach_edges_searched [OF run s i d'] by auto
    have len': "length (ds @ dx) = length r'" using s' by (simp add: searched_def)
    show ?thesis
    proof (cases over)
      case True
      then obtain c where c: "stop = Some c" "c \<in> fst ` set rx" using ov by blast
      have "c \<notin> fst ` set r" using unstopped c(1) by blast
      have far: "reached_within r' (ds @ dx) c (length es)" if w: "walk g side start es c" for es
      proof -
        have "\<not> length es \<le> ds ! i"
        proof
          assume "length es \<le> ds ! i"
          then have "reached_within r ds c (length es)" using expanded_walk [OF s x w] i by simp
          then show False using \<open>c \<notin> fst ` set r\<close> by (auto simp: reached_within_def)
        qed
        moreover have "c \<in> fst ` set r'" using c(2) unfolding r' by auto
        then obtain k where k: "k < length r'" "fst (r' ! k) = c" by (auto simp: in_set_conv_nth)
        then have "(ds @ dx) ! k \<in> set (ds @ dx)" using len' by (metis nth_mem)
        then have "(ds @ dx) ! k \<le> Suc (ds ! i)" using near by blast
        ultimately show ?thesis using k unfolding reached_within_def by (intro exI [of _ k]) simp
      qed
      then have "searched_all g side start stop r' (ds @ dx)" using s' c(1) by (simp add: searched_all_def)
      moreover have "reach_loop g side stop (map fst r) i r = r'" using i run True by (simp add: reach_loop.simps [of _ _ _ _ i])
      ultimately show ?thesis using frontier by auto
    next
      case False
      then have fr: "frontier' = map fst r'" and all: "\<forall>e \<in> set (sorted_edges g (fst (r ! i))). side_ok side e \<longrightarrow> reached_within r' (ds @ dx) (edge_to e) (Suc (ds ! i))"
        and free: "\<forall>c \<in> fst ` set rx. stop \<noteq> Some c" using go by auto
      have step: "reach_loop g side stop (map fst r) i r = reach_loop g side stop (map fst r') (i + 1) r'"
        using i run False fr by (simp add: reach_loop.simps [of _ _ _ _ i])
      have x': "expanded g side r' (ds @ dx) (i + 1)"
        unfolding expanded_iff
      proof (intro allI impI ballI)
        fix j e assume j: "j < i + 1" and e: "e \<in> set (graph_edges g)" "edge_from e = fst (r' ! j)" "side_ok side e"
        have jr: "j < length r" using j i by simp
        then have same: "r' ! j = r ! j" "(ds @ dx) ! j = ds ! j" using len by (simp_all add: r' nth_append)
        show "reached_within r' (ds @ dx) (edge_to e) (Suc ((ds @ dx) ! j))"
        proof (cases "j = i")
          case True
          then show ?thesis using all e same by simp
        next
          case False
          then have "reached_within r ds (edge_to e) (Suc (ds ! j))" using x j e same unfolding expanded_iff by auto
          then show ?thesis unfolding r' using reached_within_append [OF len] same(2) by simp
        qed
      qed
      have close: "\<forall>y \<in> set (ds @ dx). i + 1 < length r' \<longrightarrow> y \<le> Suc ((ds @ dx) ! (i + 1))"
      proof (intro ballI impI)
        fix y assume y: "y \<in> set (ds @ dx)" and "i + 1 < length r'"
        moreover have "sorted (ds @ dx)" using s' by (simp add: searched_def)
        ultimately have "(ds @ dx) ! i \<le> (ds @ dx) ! (i + 1)" using len' by (intro sorted_nth_mono) simp_all
        moreover have "(ds @ dx) ! i = ds ! i" using i len by (simp add: nth_append)
        ultimately show "y \<le> Suc ((ds @ dx) ! (i + 1))" using near y by fastforce
      qed
      have clear: "\<forall>c \<in> fst ` set r'. stop \<noteq> Some c" using unstopped free by (auto simp: r')
      have "i + 1 \<le> length r'" using i by (simp add: r')
      then have "\<exists>ds'. searched_all g side start stop (reach_loop g side stop (map fst r') (i + 1) r') ds'"
        using "1.IH" [of r' "(frontier', over)" frontier' over "ds @ dx"] i run False fr s' x' close clear frontier by auto
      then show ?thesis using step frontier by simp
    qed
  qed
qed


section \<open>What a search finds\<close>

lemma reach_nth:
  assumes "searched g side start r ds" and "k < length r"
  shows "map_of r (fst (r ! k)) = Some (snd (r ! k))"
  using assms by (intro map_of_is_SomeI) (auto simp: searched_def)

lemma reach_path:
  assumes s: "searched g side start r ds" and "k < length r"
  shows "\<exists>es. path_back r (snd (r ! k)) found = Some (es @ found) \<and> walk g side start es (fst (r ! k)) \<and> length es = ds ! k"
  using assms(2)
proof (induction k arbitrary: found rule: less_induct)
  case (less k)
  show ?case
  proof (cases "k = 0")
    case True
    then show ?thesis using s by (auto simp: searched_def path_back.simps)
  next
    case False
    then obtain e j where e: "snd (r ! k) = Some e" "e \<in> set (graph_edges g)" "side_ok side e" "edge_to e = fst (r ! k)" "j < k"
      "fst (r ! j) = edge_from e" "ds ! k = Suc (ds ! j)"
      using s less.prems unfolding searched_def by blast
    obtain es where es: "path_back r (snd (r ! j)) (e # found) = Some (es @ e # found)" "walk g side start es (fst (r ! j))" "length es = ds ! j"
      using less.IH [OF e(5)] e(5) less.prems by (meson less_trans)
    have "path_back r (snd (r ! k)) found = path_back r (snd (r ! j)) (e # found)"
      using reach_nth [OF s, of j] e(1,5,6) less.prems by (simp add: path_back.simps [of r "Some e"])
    moreover have "walk g side start (es @ [e]) (fst (r ! k))" using es(2) e(2-4,6) by (auto simp: walk_append)
    ultimately show ?thesis using es(1,3) e(7) by (intro exI [of _ "es @ [e]"]) simp
  qed
qed

lemma graph_reach_searched: "\<exists>ds. searched_all g side start stop (graph_reach g start side stop) ds"
proof (cases "stop = Some start")
  case True
  have "reached_within (new_Reach start) [0] start n" for n by (auto simp: reached_within_def new_Reach_def)
  then have "searched_all g side start stop (new_Reach start) [0]" using True searched_new by (auto simp: searched_all_def)
  then show ?thesis using True by (auto simp: graph_reach_def)
next
  case False
  have "\<exists>ds. searched_all g side start stop (reach_loop g side stop [start] 0 (new_Reach start)) ds"
    using False by (intro reach_loop_searched [OF searched_new]) (auto simp: expanded_def new_Reach_def)
  then show ?thesis using False by (simp add: graph_reach_def)
qed

text \<open>A search with no stop reaches exactly the channels some walk of its kind leads to, and rebuilds a shortest walk to each.\<close>

lemma pathTo_searched:
  assumes "searched_all g side start stop r ds" and "stop = None \<or> stop = Some c"
  shows "case pathTo r c of
      None \<Rightarrow> \<not> reach_has r c \<and> (\<nexists>es. walk g side start es c)
    | Some es \<Rightarrow> reach_has r c \<and> walk g side start es c \<and> (\<forall>fs. walk g side start fs c \<longrightarrow> length es \<le> length fs)"
proof (cases "map_of r c")
  case None
  then have "\<not> reached_within r ds c n" for n by (auto simp: reached_within_def map_of_eq_None_iff)
  then show ?thesis using None assms by (auto simp: pathTo_def reach_has_def searched_all_def)
next
  case (Some via)
  have s: "searched g side start r ds" using assms(1) by (simp add: searched_all_def)
  obtain k where k: "k < length r" "r ! k = (c, via)" using map_of_SomeD [OF Some] by (auto simp: in_set_conv_nth)
  obtain es where es: "path_back r via [] = Some es" "walk g side start es c" "length es = ds ! k"
    using reach_path [OF s k(1), of "[]"] k(2) by auto
  have "length es \<le> length fs" if "walk g side start fs c" for fs
  proof -
    have "reached_within r ds c (length fs)" using assms that by (auto simp: searched_all_def)
    then obtain j where j: "j < length r" "fst (r ! j) = c" "ds ! j \<le> length fs" by (auto simp: reached_within_def)
    have "distinct (map fst r)" using s by (simp add: searched_def)
    then have "j = k" using j(1,2) k by (simp add: nth_eq_iff_index_eq [of "map fst r", symmetric])
    then show ?thesis using j(3) es(3) by simp
  qed
  then show ?thesis using Some es by (auto simp: pathTo_def reach_has_def)
qed

lemma graph_reach_path:
  "case pathTo (graph_reach g start side None) c of
      None \<Rightarrow> \<not> reach_has (graph_reach g start side None) c \<and> (\<nexists>es. walk g side start es c)
    | Some es \<Rightarrow> reach_has (graph_reach g start side None) c \<and> walk g side start es c \<and>
        (\<forall>fs. walk g side start fs c \<longrightarrow> length es \<le> length fs)"
  using graph_reach_searched [of g side start None] pathTo_searched by blast

lemma graph_reach_has: "reach_has (graph_reach g start side None) c \<longleftrightarrow> (\<exists>es. walk g side start es c)"
  using graph_reach_path [of g start side c] by (auto split: option.splits)

lemma graph_path_shortest:
  "case graph_path g a b of
      None \<Rightarrow> \<nexists>es. walk g None a es b
    | Some es \<Rightarrow> walk g None a es b \<and> (\<forall>fs. walk g None a fs b \<longrightarrow> length es \<le> length fs)"
proof -
  obtain ds where "searched_all g None a (Some b) (graph_reach g a None (Some b)) ds" using graph_reach_searched by blast
  then show ?thesis using pathTo_searched [where c = b] unfolding graph_path_def by (fastforce split: option.splits)
qed

lemma reach_channels_has: "set (reach_channels r) = {c. reach_has r c}"
  by (auto simp: reach_channels_def reach_has_def map_of_eq_None_iff)

end
