(* ===== verification/Continuity_Closure.thy ===== *)
theory Continuity_Closure
  imports Continuity_Reach
begin

text \<open>
  \<open>closure\<close> of \<^verbatim>\<open>packages/continuity/src/graph.ts\<close>: the least graph over the peer links
  and the candidates a graph built without them confirms. Its contract, for any rule of
  confirmation that more links never defeat, is the locale \<open>confirmation_rule\<close>:
  the rounds end, and the candidates admitted are the least set that holds each candidate
  the links of that set confirm.
\<close>

record Link =
  link_identity :: FactIdentity
  link_from :: Channel
  link_to :: Channel

definition closure_links :: "Link list \<Rightarrow> (Link \<times> FactIdentity list) list \<Rightarrow> added_link list" where
  "closure_links peerLinks admitted =
     map (\<lambda>l. (link_from l, link_to l, Peer, [link_identity l])) peerLinks @
     map (\<lambda>(l, s). (link_from l, link_to l, Local, link_identity l # s)) admitted"

definition closure_build :: "(Channel \<Rightarrow> bool) \<Rightarrow> Link list \<Rightarrow> (Link \<times> FactIdentity list) list \<Rightarrow> Graph option" where
  "closure_build admits peerLinks admitted = build_graph admits (closure_links peerLinks admitted)"

text \<open>One round over the waiting candidates, each judged against the graph of the round's start.\<close>

definition admit_link :: "(Graph \<Rightarrow> Link \<Rightarrow> FactIdentity list option) \<Rightarrow> Graph \<Rightarrow> Link \<Rightarrow>
    (Link \<times> FactIdentity list) list \<Rightarrow> (Link \<times> FactIdentity list) list" where
  "admit_link confirms g l admitted =
     (if l \<in> fst ` set admitted then admitted
      else case confirms g l of None \<Rightarrow> admitted | Some s \<Rightarrow> admitted @ [(l, s)])"

definition admit_round :: "(Graph \<Rightarrow> Link \<Rightarrow> FactIdentity list option) \<Rightarrow> Graph \<Rightarrow> Link list \<Rightarrow>
    (Link \<times> FactIdentity list) list \<Rightarrow> (Link \<times> FactIdentity list) list" where
  "admit_round confirms g waiting admitted = fold (admit_link confirms g) waiting admitted"

lemma admit_link_length: "length admitted \<le> length (admit_link confirms g l admitted)"
  by (simp add: admit_link_def split: option.splits)

lemma admit_round_set:
  "fst ` set (admit_round confirms g waiting admitted) =
     fst ` set admitted \<union> {l \<in> set waiting. l \<in> fst ` set admitted \<or> confirms g l \<noteq> None}"
proof (induction waiting arbitrary: admitted)
  case (Cons l ws)
  have "fst ` set (admit_link confirms g l admitted) =
      fst ` set admitted \<union> (if l \<in> fst ` set admitted \<or> confirms g l \<noteq> None then {l} else {})"
    by (auto simp: admit_link_def split: option.splits)
  moreover have "admit_round confirms g (l # ws) admitted = admit_round confirms g ws (admit_link confirms g l admitted)"
    by (simp add: admit_round_def)
  ultimately show ?case using Cons.IH [of "admit_link confirms g l admitted"] by (auto split: if_splits)
qed (simp add: admit_round_def)

lemma admit_round_same:
  "length (admit_round confirms g waiting admitted) = length admitted \<or>
     (\<exists>l \<in> set waiting. l \<notin> fst ` set admitted \<and> confirms g l \<noteq> None)"
proof (induction waiting)
  case (Cons l ws)
  show ?case
  proof (cases "l \<in> fst ` set admitted \<or> confirms g l = None")
    case True
    then have "admit_link confirms g l admitted = admitted" by (auto simp: admit_link_def)
    then show ?thesis using Cons by (auto simp: admit_round_def)
  qed auto
qed (simp add: admit_round_def)

lemma admit_round_distinct: "distinct (map fst admitted) \<Longrightarrow> distinct (map fst (admit_round confirms g waiting admitted))"
  unfolding admit_round_def
  by (induction waiting arbitrary: admitted) (auto simp: admit_link_def split: option.splits)

lemma admit_round_keeps: "\<exists>new. admit_round confirms g waiting admitted = admitted @ new"
  unfolding admit_round_def
proof (induction waiting arbitrary: admitted)
  case (Cons l ws)
  obtain new where "fold (admit_link confirms g) ws (admit_link confirms g l admitted) = admit_link confirms g l admitted @ new"
    using Cons by blast
  moreover have "\<exists>one. admit_link confirms g l admitted = admitted @ one" by (simp add: admit_link_def split: option.splits)
  ultimately show ?case by auto
qed simp

function closure_loop :: "(Channel \<Rightarrow> bool) \<Rightarrow> (Graph \<Rightarrow> Link \<Rightarrow> FactIdentity list option) \<Rightarrow> Link list \<Rightarrow> Link list \<Rightarrow>
    (Link \<times> FactIdentity list) list \<Rightarrow> Graph \<Rightarrow> (Graph \<times> (Link \<times> FactIdentity list) list) option" where
  "closure_loop admits confirms peerLinks waiting admitted g =
     (let admitted' = admit_round confirms g waiting admitted in
      if length admitted' = length admitted then Some (g, admitted)
      else case closure_build admits peerLinks admitted' of
        None \<Rightarrow> None
      | Some g' \<Rightarrow> closure_loop admits confirms peerLinks waiting admitted' g')"
  by pat_completeness auto
termination
proof (relation "measure (\<lambda>(admits, confirms, peerLinks, waiting, admitted, g). card (set waiting - fst ` set admitted))", goal_cases)
  case (2 admits confirms peerLinks waiting admitted g admitted' g')
  then have "length (admit_round confirms g waiting admitted) \<noteq> length admitted" by simp
  then obtain l where l: "l \<in> set waiting" "l \<notin> fst ` set admitted" "confirms g l \<noteq> None"
    using admit_round_same [of confirms g waiting admitted] by blast
  have "set waiting - fst ` set admitted' \<subset> set waiting - fst ` set admitted"
    using l unfolding 2(1) admit_round_set by blast
  then have "card (set waiting - fst ` set admitted') < card (set waiting - fst ` set admitted)" by (intro psubset_card_mono) auto
  then show ?case by simp
qed simp

declare closure_loop.simps [simp del]

text \<open>The graph, the candidates admitted with what confirms each, and those still waiting.\<close>

definition closure :: "Link list \<Rightarrow> Link list \<Rightarrow> (Channel \<Rightarrow> bool) \<Rightarrow> (Graph \<Rightarrow> Link \<Rightarrow> FactIdentity list option) \<Rightarrow>
    (Graph \<times> (Link \<times> FactIdentity list) list \<times> Link list) option" where
  "closure peerLinks candidates admits confirms =
     (let waiting = add_all [] candidates in
      case closure_build admits peerLinks [] of
        None \<Rightarrow> None
      | Some g \<Rightarrow>
          case closure_loop admits confirms peerLinks waiting [] g of
            None \<Rightarrow> None
          | Some (g, admitted) \<Rightarrow> Some (g, admitted, filter (\<lambda>l. l \<notin> fst ` set admitted) waiting))"

section \<open>The edges of a graph that was built\<close>

text \<open>One edge for each pair of ends, supported, between admitted channels that are vertices.\<close>

definition sound_graph :: "(Channel \<Rightarrow> bool) \<Rightarrow> Graph \<Rightarrow> bool" where
  "sound_graph admits g \<longleftrightarrow> distinct (map edge_key (graph_edges g)) \<and>
     (\<forall>e \<in> set (graph_edges g). support e \<noteq> [] \<and> admits (edge_from e) \<and> admits (edge_to e) \<and>
        edge_from e \<in> set (vertices g) \<and> edge_to e \<in> set (vertices g))"

lemma sound_new: "sound_graph admits new_Graph"
  by (simp add: sound_graph_def new_Graph_def)

lemma sound_queue [simp]: "sound_graph admits (g\<lparr>queue := q\<rparr>) = sound_graph admits g"
  by (simp add: sound_graph_def)

lemma sound_put [simp]: "sound_graph admits (put_collision c g) = sound_graph admits g"
  by (simp add: sound_graph_def)

lemma sound_vertex: "sound_graph admits g \<Longrightarrow> sound_graph admits (vertex c g)"
  by (simp add: sound_graph_def)

lemma vertices_add:
  "vertices (graph_add admits a b side s j g) = (if admits a \<and> admits b then add_new b (add_new a (vertices g)) else vertices g)"
  by (simp add: graph_add_def Let_def split: option.splits)

lemma sound_add:
  assumes "sound_graph admits g" and "s \<noteq> []"
  shows "sound_graph admits (graph_add admits a b side s j g)"
proof (cases "admits a \<and> admits b")
  case False
  then show ?thesis using assms by (simp add: graph_add_def)
next
  case True
  then have ad: "admits a" "admits b" by simp_all
  have vs: "vertices (graph_add admits a b side s j g) = add_new b (add_new a (vertices g))" using True by (simp add: vertices_add)
  have new: "add_all xs s \<noteq> []" for xs using assms(2) set_add_all [of xs s] by (metis Un_empty set_empty)
  show ?thesis
  proof (cases "graph_edge g (a, b)")
    case None
    then have "(a, b) \<notin> edge_key ` set (graph_edges g)" by (simp add: graph_edge_None)
    then show ?thesis
      using assms True new unfolding sound_graph_def vs graph_add_new(1) [OF ad None] by (auto simp: edge_key_def)
  next
    case (Some e)
    have keys: "map edge_key (map (\<lambda>e. if edge_key e = (a, b) then more_support s j e else e) es) = map edge_key es" for es by simp
    have ends: "edge_from (more_support s j e) = edge_from e" "edge_to (more_support s j e) = edge_to e"
      "support (more_support s j e) \<noteq> []" for e using new by (simp_all add: more_support_def)
    have "distinct (map edge_key (map (\<lambda>e. if edge_key e = (a, b) then more_support s j e else e) (graph_edges g)))"
      using assms(1) unfolding keys by (simp add: sound_graph_def)
    then show ?thesis
      using assms ends unfolding sound_graph_def vs graph_add_old(1) [OF ad Some] by auto
  qed
qed

lemma sound_join:
  assumes "sound_graph admits g" and "support l \<noteq> []"
  shows "sound_graph admits (graph_join admits l p g)"
proof -
  have "set (add_all (add_all [] (support l)) (support p)) \<noteq> {}" using assms(2) by simp
  then have "add_all (add_all [] (support l)) (support p) \<noteq> []" by (metis set_empty)
  then show ?thesis using assms(1) by (simp add: graph_join_def Let_def sound_add)
qed

lemma sound_partner:
  assumes "sound_graph admits g"
  shows "sound_graph admits (close_partner admits k q g)"
  using assms graph_edge_key [of g k] graph_edge_key [of g q]
  by (auto simp: close_partner_def sound_graph_def [of admits g] split: option.splits intro!: sound_join)

lemma sound_step: "sound_graph admits g \<Longrightarrow> sound_graph admits (close_step admits g)"
proof -
  assume g: "sound_graph admits g"
  have "sound_graph admits h \<Longrightarrow> sound_graph admits (fold (close_partner admits k) qs h)" for k qs h
    by (induction qs arbitrary: h) (auto intro: sound_partner)
  then show ?thesis using g by (simp add: close_step_def Let_def)
qed

lemma sound_close: "graph_close admits g = Some h \<Longrightarrow> sound_graph admits g \<Longrightarrow> sound_graph admits h"
proof (induction rule: graph_close.raw_induct [rotated, consumes 1, case_names step])
  case (step close admits g h)
  then show ?case using sound_step by (auto split: if_splits)
qed

lemma sound_build:
  assumes "build_graph admits links = Some g" and "\<forall>(a, b, side, s) \<in> set links. s \<noteq> []"
  shows "sound_graph admits g"
proof -
  have "sound_graph admits h \<Longrightarrow> sound_graph admits (add_links admits links h)" for h
    using assms(2) unfolding add_links_def by (induction links arbitrary: h) (auto intro: sound_add)
  then show ?thesis using assms(1) sound_close sound_new unfolding build_graph_def by blast
qed

lemma sound_edge: "sound_graph admits g \<Longrightarrow> e \<in> set (graph_edges g) \<Longrightarrow> graph_edge g (edge_key e) = Some e"
proof -
  assume "sound_graph admits g" "e \<in> set (graph_edges g)"
  moreover have "distinct (map edge_key es) \<Longrightarrow> e \<in> set es \<Longrightarrow> find (\<lambda>x. edge_key x = edge_key e) es = Some e" for es
    by (induction es) (auto simp: rev_image_eqI)
  ultimately show ?thesis by (simp add: sound_graph_def graph_edge_def)
qed

section \<open>Links without their facts\<close>

definition linked :: "Graph \<Rightarrow> Channel \<Rightarrow> Channel \<Rightarrow> Replaces \<Rightarrow> bool" where
  "linked g a b side \<longleftrightarrow> (\<exists>e \<in> set (graph_edges g). edge_from e = a \<and> edge_to e = b \<and> replaces e = side)"

inductive leads :: "(Channel \<Rightarrow> bool) \<Rightarrow> (Channel \<times> Channel \<times> Replaces) set \<Rightarrow> Channel \<Rightarrow> Channel \<Rightarrow> Replaces \<Rightarrow> bool"
  for admits E where
  given: "(a, b, side) \<in> E \<Longrightarrow> admits a \<Longrightarrow> admits b \<Longrightarrow> leads admits E a b side"
| peer_join: "leads admits E c l Local \<Longrightarrow> leads admits E c p Peer \<Longrightarrow> localDid l \<noteq> peerDid p \<Longrightarrow>
    admits (pair_up l p) \<Longrightarrow> leads admits E l (pair_up l p) Peer"
| local_join: "leads admits E c l Local \<Longrightarrow> leads admits E c p Peer \<Longrightarrow> localDid l \<noteq> peerDid p \<Longrightarrow>
    admits (pair_up l p) \<Longrightarrow> leads admits E p (pair_up l p) Local"

definition unsupported :: "(Channel \<times> Channel \<times> Replaces \<times> FactIdentity) set \<Rightarrow> (Channel \<times> Channel \<times> Replaces) set" where
  "unsupported base = (\<lambda>(a, b, side, f). (a, b, side)) ` base"

lemma leads_follows: "leads admits (unsupported base) a b side \<longleftrightarrow> (\<exists>f. follows admits base a b side f)"
proof
  assume "leads admits (unsupported base) a b side"
  then show "\<exists>f. follows admits base a b side f"
  proof (induction rule: leads.induct)
    case (given a b side)
    then show ?case unfolding unsupported_def by (auto intro: follows.added)
  next
    case (peer_join c l p)
    then obtain f f' where ff: "follows admits base c l Local f" "follows admits base c p Peer f'" by blast
    show ?case by (intro exI [of _ f]) (rule follows.joined_peer [OF ff peer_join.hyps(3,4)], simp)
  next
    case (local_join c l p)
    then obtain f f' where ff: "follows admits base c l Local f" "follows admits base c p Peer f'" by blast
    show ?case by (intro exI [of _ f]) (rule follows.joined_local [OF ff local_join.hyps(3,4)], simp)
  qed
next
  assume "\<exists>f. follows admits base a b side f"
  then obtain f where "follows admits base a b side f" by blast
  then show "leads admits (unsupported base) a b side"
  proof (induction rule: follows.induct)
    case (added a b side f)
    then show ?case by (auto simp: unsupported_def intro!: leads.given rev_image_eqI)
  qed (auto intro: leads.intros)
qed

lemma leads_mono: "leads admits E a b side \<Longrightarrow> E \<subseteq> F \<Longrightarrow> leads admits F a b side"
  by (induction rule: leads.induct) (auto intro: leads.intros)

lemma leads_admits: "leads admits E a b side \<Longrightarrow> admits a \<and> admits b"
  by (induction rule: leads.induct) auto

lemma built_linked:
  assumes "links_ok links"
  shows "\<exists>g. build_graph admits links = Some g \<and> sound_graph admits g \<and>
    (\<forall>a b side. linked g a b side \<longleftrightarrow> leads admits (unsupported (link_base links)) a b side)"
proof -
  obtain g where g: "build_graph admits links = Some g"
    and at: "\<And>a b side f. (\<exists>s. link_at g (a, b) = Some (side, s) \<and> f \<in> s) \<longleftrightarrow> follows admits (link_base links) a b side f"
    using closed_graph_links [OF assms, of admits] by blast
  have "\<forall>(a, b, side, s) \<in> set links. s \<noteq> []" using assms unfolding links_ok_def by blast
  then have sound: "sound_graph admits g" by (rule sound_build [OF g])
  have "linked g a b side \<longleftrightarrow> (\<exists>f s. link_at g (a, b) = Some (side, s) \<and> f \<in> s)" for a b side
  proof
    assume "linked g a b side"
    then obtain e where e: "e \<in> set (graph_edges g)" "edge_key e = (a, b)" "replaces e = side" by (auto simp: linked_def edge_key_def)
    then have "link_at g (a, b) = Some (side, set (support e))" using sound_edge [OF sound e(1)] link_at_edge by metis
    moreover have "support e \<noteq> []" using sound e(1) by (simp add: sound_graph_def)
    ultimately show "\<exists>f s. link_at g (a, b) = Some (side, s) \<and> f \<in> s" by (metis list.set_intros(1) neq_Nil_conv)
  next
    assume "\<exists>f s. link_at g (a, b) = Some (side, s) \<and> f \<in> s"
    then obtain e where "graph_edge g (a, b) = Some e" "replaces e = side" by (auto simp: link_at_def)
    then show "linked g a b side" using graph_edge_key [of g "(a, b)" e] by (auto simp: linked_def edge_key_def)
  qed
  then have "linked g a b side \<longleftrightarrow> leads admits (unsupported (link_base links)) a b side" for a b side
    unfolding leads_follows using at by blast
  then show ?thesis using g sound by blast
qed

section \<open>The least graph\<close>

definition peer_ends :: "Link list \<Rightarrow> (Channel \<times> Channel \<times> Replaces) set" where
  "peer_ends ls = {(link_from l, link_to l, Peer) | l. l \<in> set ls}"

definition local_ends :: "Link set \<Rightarrow> (Channel \<times> Channel \<times> Replaces) set" where
  "local_ends A = {(link_from l, link_to l, Local) | l. l \<in> A}"

definition closure_ok :: "Link list \<Rightarrow> Link list \<Rightarrow> bool" where
  "closure_ok peerLinks candidates \<longleftrightarrow> (\<forall>l \<in> set peerLinks. replaces_one (link_from l) (link_to l) Peer) \<and>
     (\<forall>l \<in> set candidates. replaces_one (link_from l) (link_to l) Local)"

lemma closure_links_ends:
  "unsupported (link_base (closure_links peerLinks admitted)) = peer_ends peerLinks \<union> local_ends (fst ` set admitted)"
proof (intro set_eqI iffI)
  fix x assume "x \<in> unsupported (link_base (closure_links peerLinks admitted))"
  then show "x \<in> peer_ends peerLinks \<union> local_ends (fst ` set admitted)"
    by (force simp: unsupported_def link_base_def closure_links_def peer_ends_def local_ends_def)
next
  fix x assume "x \<in> peer_ends peerLinks \<union> local_ends (fst ` set admitted)"
  then have "\<exists>(l :: Link) side s. x = (link_from l, link_to l, side) \<and> (link_from l, link_to l, side, link_identity l # s) \<in> set (closure_links peerLinks admitted)"
  proof
    assume "x \<in> peer_ends peerLinks"
    then obtain l where "l \<in> set peerLinks" "x = (link_from l, link_to l, Peer)" by (auto simp: peer_ends_def)
    then show ?thesis by (intro exI [of _ l] exI [of _ Peer] exI [of _ "[] :: FactIdentity list"]) (simp add: closure_links_def)
  next
    assume "x \<in> local_ends (fst ` set admitted)"
    then obtain l s where "(l, s) \<in> set admitted" "x = (link_from l, link_to l, Local)" by (auto simp: local_ends_def)
    then show ?thesis by (intro exI [of _ l] exI [of _ Local] exI [of _ s]) (force simp: closure_links_def)
  qed
  then obtain l :: Link and side s where l: "x = (link_from l, link_to l, side)" "(link_from l, link_to l, side, link_identity l # s) \<in> set (closure_links peerLinks admitted)"
    by blast
  then have "(link_from l, link_to l, side, link_identity l) \<in> link_base (closure_links peerLinks admitted)"
    unfolding link_base_def by (intro UN_I [OF l(2)]) simp
  then show "x \<in> unsupported (link_base (closure_links peerLinks admitted))"
    unfolding unsupported_def l(1) by (intro image_eqI) simp_all
qed

lemma closure_built:
  assumes "closure_ok peerLinks candidates" and "fst ` set admitted \<subseteq> set candidates"
  shows "\<exists>g. closure_build admits peerLinks admitted = Some g \<and> sound_graph admits g \<and>
    (\<forall>a b side. linked g a b side \<longleftrightarrow> leads admits (peer_ends peerLinks \<union> local_ends (fst ` set admitted)) a b side)"
proof -
  have "links_ok (closure_links peerLinks admitted)"
    using assms by (force simp: links_ok_def closure_links_def closure_ok_def)
  then show ?thesis unfolding closure_build_def using built_linked closure_links_ends by metis
qed

locale confirmation_rule =
  fixes confirms :: "Graph \<Rightarrow> Link \<Rightarrow> FactIdentity list option"
    and confirmed :: "(Channel \<Rightarrow> Channel \<Rightarrow> Replaces \<Rightarrow> bool) \<Rightarrow> Link \<Rightarrow> bool"
  assumes decides: "confirms g l \<noteq> None \<longleftrightarrow> confirmed (linked g) l"
    and more_links: "(\<And>a b side. R a b side \<Longrightarrow> R' a b side) \<Longrightarrow> confirmed R l \<Longrightarrow> confirmed R' l"
begin

definition grounds :: "(Channel \<Rightarrow> bool) \<Rightarrow> Link list \<Rightarrow> Link list \<Rightarrow> Link set \<Rightarrow> Link set" where
  "grounds admits peerLinks candidates A = {l \<in> set candidates. confirmed (leads admits (peer_ends peerLinks \<union> local_ends A)) l}"

lemma mono_grounds: "mono (grounds admits peerLinks candidates)"
proof (rule monoI)
  fix A B :: "Link set" assume "A \<subseteq> B"
  then have more: "peer_ends peerLinks \<union> local_ends A \<subseteq> peer_ends peerLinks \<union> local_ends B" by (auto simp: local_ends_def)
  have "confirmed (leads admits (peer_ends peerLinks \<union> local_ends A)) l \<Longrightarrow>
      confirmed (leads admits (peer_ends peerLinks \<union> local_ends B)) l" for l
    by (rule more_links) (rule leads_mono [OF _ more])
  then show "grounds admits peerLinks candidates A \<subseteq> grounds admits peerLinks candidates B" by (auto simp: grounds_def)
qed

lemma lfp_grounds: "lfp (grounds admits peerLinks candidates) \<subseteq> set candidates"
  by (rule lfp_lowerbound) (auto simp: grounds_def)

lemma closure_loop_least:
  assumes "closure_ok peerLinks candidates" and "set waiting = set candidates"
    and "closure_build admits peerLinks admitted = Some g"
    and "fst ` set admitted \<subseteq> lfp (grounds admits peerLinks candidates)" and "distinct (map fst admitted)"
  shows "\<exists>g' admitted'. closure_loop admits confirms peerLinks waiting admitted g = Some (g', admitted') \<and>
    closure_build admits peerLinks admitted' = Some g' \<and> distinct (map fst admitted') \<and>
    fst ` set admitted' = lfp (grounds admits peerLinks candidates)"
  using assms(2-)
proof (induction "card (set waiting - fst ` set admitted)" arbitrary: admitted g rule: less_induct)
  case less
  let ?F = "grounds admits peerLinks candidates"
  define admitted' where "admitted' = admit_round confirms g waiting admitted"
  have lfp_sub: "lfp ?F \<subseteq> set candidates" by (rule lfp_grounds)
  then have sub: "fst ` set admitted \<subseteq> set candidates" using less.prems(3) by blast
  obtain g0 where "closure_build admits peerLinks admitted = Some g0"
    and "\<forall>a b side. linked g0 a b side \<longleftrightarrow> leads admits (peer_ends peerLinks \<union> local_ends (fst ` set admitted)) a b side"
    using closure_built [OF assms(1) sub, of admits] by blast
  then have links: "linked g = leads admits (peer_ends peerLinks \<union> local_ends (fst ` set admitted))"
    using less.prems(2) by (intro ext) auto
  have "(confirms g l \<noteq> None) = confirmed (leads admits (peer_ends peerLinks \<union> local_ends (fst ` set admitted))) l" for l
    unfolding decides links ..
  then have new: "{l \<in> set waiting. confirms g l \<noteq> None} = ?F (fst ` set admitted)"
    unfolding grounds_def less.prems(1) by blast
  have set': "fst ` set admitted' = fst ` set admitted \<union> ?F (fst ` set admitted)"
  proof -
    have "{l \<in> set waiting. l \<in> fst ` set admitted \<or> confirms g l \<noteq> None} = fst ` set admitted \<union> {l \<in> set waiting. confirms g l \<noteq> None}"
      using sub less.prems(1) by blast
    then show ?thesis unfolding admitted'_def admit_round_set new by blast
  qed
  show ?case
  proof (cases "length admitted' = length admitted")
    case True
    then have "admitted' = admitted" using admit_round_keeps [of confirms g waiting admitted] by (auto simp: admitted'_def)
    then have "?F (fst ` set admitted) \<subseteq> fst ` set admitted" using set' by blast
    then have "fst ` set admitted = lfp ?F" using less.prems(3) lfp_lowerbound by blast
    moreover have "closure_loop admits confirms peerLinks waiting admitted g = Some (g, admitted)"
      using True by (simp add: closure_loop.simps [of _ _ _ _ admitted] admitted'_def)
    ultimately show ?thesis using less.prems(2,4) by blast
  next
    case False
    then obtain l where l: "l \<in> set waiting" "l \<notin> fst ` set admitted" "confirms g l \<noteq> None"
      using admit_round_same [of confirms g waiting admitted] unfolding admitted'_def by blast
    then have "l \<in> fst ` set admitted'" using set' new by blast
    then have "set waiting - fst ` set admitted' \<subset> set waiting - fst ` set admitted" using l(1,2) set' by blast
    then have less_left: "card (set waiting - fst ` set admitted') < card (set waiting - fst ` set admitted)" by (intro psubset_card_mono) auto
    have "?F (fst ` set admitted) \<subseteq> ?F (lfp ?F)" using monoD [OF mono_grounds less.prems(3)] .
    then have below: "fst ` set admitted' \<subseteq> lfp ?F"
      using set' less.prems(3) lfp_unfold [OF mono_grounds, of admits peerLinks candidates] by blast
    then obtain g' where g': "closure_build admits peerLinks admitted' = Some g'"
      using closure_built [OF assms(1), of admitted' admits] lfp_sub by blast
    have "distinct (map fst admitted')" unfolding admitted'_def by (rule admit_round_distinct) (rule less.prems(4))
    then obtain h last_admitted where "closure_loop admits confirms peerLinks waiting admitted' g' = Some (h, last_admitted)"
      "closure_build admits peerLinks last_admitted = Some h" "distinct (map fst last_admitted)" "fst ` set last_admitted = lfp ?F"
      using less.hyps [OF less_left less.prems(1) g' below] by blast
    moreover have "closure_loop admits confirms peerLinks waiting admitted g = closure_loop admits confirms peerLinks waiting admitted' g'"
      using False g' by (simp add: closure_loop.simps [of _ _ _ _ admitted] admitted'_def)
    ultimately show ?thesis by auto
  qed
qed

text \<open>The closure ends with the least set of candidates that its own links confirm, and the graph of its links.\<close>

lemma closure_least:
  assumes "closure_ok peerLinks candidates"
  shows "\<exists>g admitted waiting. closure peerLinks candidates admits confirms = Some (g, admitted, waiting) \<and>
    fst ` set admitted = lfp (grounds admits peerLinks candidates) \<and> distinct (map fst admitted) \<and>
    set waiting = set candidates - lfp (grounds admits peerLinks candidates) \<and> sound_graph admits g \<and>
    (\<forall>a b side. linked g a b side \<longleftrightarrow>
       leads admits (peer_ends peerLinks \<union> local_ends (lfp (grounds admits peerLinks candidates))) a b side)"
proof -
  let ?F = "grounds admits peerLinks candidates" and ?w = "add_all [] candidates"
  obtain g0 where g0: "closure_build admits peerLinks [] = Some g0" using closure_built [OF assms, of "[]" admits] by auto
  obtain g admitted where run: "closure_loop admits confirms peerLinks ?w [] g0 = Some (g, admitted)"
    and g: "closure_build admits peerLinks admitted = Some g" "distinct (map fst admitted)" "fst ` set admitted = lfp ?F"
    using closure_loop_least [OF assms, of ?w admits "[]" g0] g0 by auto
  have sub: "lfp ?F \<subseteq> set candidates" by (rule lfp_grounds)
  then obtain g1 where "closure_build admits peerLinks admitted = Some g1" "sound_graph admits g1"
    "\<forall>a b side. linked g1 a b side \<longleftrightarrow> leads admits (peer_ends peerLinks \<union> local_ends (lfp ?F)) a b side"
    using closure_built [OF assms, of admitted admits] g(3) by auto
  then show ?thesis using g g0 run by (auto simp: closure_def Let_def)
qed

end

end
