(* ===== verification/Continuity_Cycles.thy ===== *)
theory Continuity_Cycles
  imports Continuity_Closure
begin

text \<open>
  \<open>Graph.cycles\<close> of \<^verbatim>\<open>packages/continuity/src/graph.ts\<close>: Tarjan's algorithm on an
  explicit stack. The maps and sets keyed by \<open>channelKey\<close> are keyed by the channel; the
  stack and the path are listed top first, and a frame of the path holds the edges its
  iterator has left. The search ends, and lists exactly the strongly connected sets of
  more than one channel (\<open>cycles_listed\<close>).
\<close>

record Tarjan =
  tj_index :: "Channel \<rightharpoonup> nat"
  tj_low :: "Channel \<rightharpoonup> nat"
  tj_onStack :: "Channel set"
  tj_stack :: "Channel list"
  tj_path :: "(Channel \<times> Edge list) list"
  tj_cycles :: "Channel list list"
  tj_next :: nat

definition new_Tarjan :: Tarjan where
  "new_Tarjan = \<lparr>tj_index = Map.empty, tj_low = Map.empty, tj_onStack = {}, tj_stack = [], tj_path = [], tj_cycles = [], tj_next = 0\<rparr>"

definition tarjan_enter :: "Graph \<Rightarrow> Channel \<Rightarrow> Tarjan \<Rightarrow> Tarjan" where
  "tarjan_enter g c t = t\<lparr>
     tj_index := (tj_index t)(c \<mapsto> tj_next t),
     tj_low := (tj_low t)(c \<mapsto> tj_next t),
     tj_next := tj_next t + 1,
     tj_stack := c # tj_stack t,
     tj_onStack := insert c (tj_onStack t),
     tj_path := (c, edges_from g c) # tj_path t\<rparr>"

definition lower :: "Channel \<Rightarrow> nat \<Rightarrow> Tarjan \<Rightarrow> Tarjan" where
  "lower c n t = t\<lparr>tj_low := (tj_low t)(c \<mapsto> min (the (tj_low t c)) n)\<rparr>"

text \<open>One edge of the frame on top, its channel \<open>c\<close>: the frame already moved past it.\<close>

definition tarjan_edge :: "Graph \<Rightarrow> Channel \<Rightarrow> Edge \<Rightarrow> Tarjan \<Rightarrow> Tarjan" where
  "tarjan_edge g c e t =
     (case tj_index t (edge_to e) of
        None \<Rightarrow> tarjan_enter g (edge_to e) t
      | Some n \<Rightarrow> if edge_to e \<in> tj_onStack t then lower c n t else t)"

text \<open>The members from the top of the stack down to \<open>c\<close>; \<^const>\<open>None\<close> for a stack without it.\<close>

fun pop_component :: "Channel \<Rightarrow> Channel list \<Rightarrow> (Channel list \<times> Channel list) option" where
  "pop_component c [] = None"
| "pop_component c (m # stack) =
     (if m = c then Some ([m], stack)
      else map_option (\<lambda>(component, stack). (m # component, stack)) (pop_component c stack))"

definition tarjan_component :: "Channel \<Rightarrow> Tarjan \<Rightarrow> Tarjan option" where
  "tarjan_component c t =
     (if tj_low t c \<noteq> tj_index t c then Some t
      else case pop_component c (tj_stack t) of
        None \<Rightarrow> None
      | Some (component, stack) \<Rightarrow>
          Some (t\<lparr>tj_stack := stack, tj_onStack := tj_onStack t - set component,
            tj_cycles := tj_cycles t @ (if length component > 1 then [sort_by compareChannels component] else [])\<rparr>))"

text \<open>The frame of \<open>c\<close> is over and off the path.\<close>

definition tarjan_leave :: "Channel \<Rightarrow> Tarjan \<Rightarrow> Tarjan option" where
  "tarjan_leave c t =
     map_option (\<lambda>t. case tj_path t of [] \<Rightarrow> t | (parent, _) # _ \<Rightarrow> lower parent (the (tj_low t c)) t) (tarjan_component c t)"

definition tarjan_step :: "Graph \<Rightarrow> Tarjan \<Rightarrow> Tarjan option" where
  "tarjan_step g t =
     (case tj_path t of
        [] \<Rightarrow> Some t
      | (c, e # es) # frames \<Rightarrow> Some (tarjan_edge g c e (t\<lparr>tj_path := (c, es) # frames\<rparr>))
      | (c, []) # frames \<Rightarrow> tarjan_leave c (t\<lparr>tj_path := frames\<rparr>))"

partial_function (option) tarjan_run :: "Graph \<Rightarrow> Tarjan \<Rightarrow> Tarjan option" where
  "tarjan_run g t =
     (if tj_path t = [] then Some t
      else case tarjan_step g t of None \<Rightarrow> None | Some t \<Rightarrow> tarjan_run g t)"

declare tarjan_run.simps [code]

fun tarjan_roots :: "Graph \<Rightarrow> Channel list \<Rightarrow> Tarjan \<Rightarrow> Tarjan option" where
  "tarjan_roots g [] t = Some t"
| "tarjan_roots g (c # cs) t =
     (if tj_index t c \<noteq> None then tarjan_roots g cs t
      else case tarjan_run g (tarjan_enter g c t) of None \<Rightarrow> None | Some t \<Rightarrow> tarjan_roots g cs t)"

definition cycles :: "Graph \<Rightarrow> Channel list list option" where
  "cycles g = map_option (\<lambda>t. sort_by (\<lambda>a b. compareChannels (hd a) (hd b)) (tj_cycles t)) (tarjan_roots g (vertices g) new_Tarjan)"

section \<open>The invariant of the search\<close>

definition arcs :: "Graph \<Rightarrow> (Channel \<times> Channel) set" where
  "arcs g = edge_key ` set (graph_edges g)"

abbreviation gets_to :: "Graph \<Rightarrow> Channel \<Rightarrow> Channel \<Rightarrow> bool" where
  "gets_to g a b \<equiv> (a, b) \<in> (arcs g)\<^sup>*"

definition scc :: "Graph \<Rightarrow> Channel \<Rightarrow> Channel set" where
  "scc g c = {d. gets_to g c d \<and> gets_to g d c}"

definition rank :: "Tarjan \<Rightarrow> Channel \<Rightarrow> nat" where
  "rank t c = the (tj_index t c)"

definition low :: "Tarjan \<Rightarrow> Channel \<Rightarrow> nat" where
  "low t c = the (tj_low t c)"

abbreviation on_path :: "Tarjan \<Rightarrow> Channel set" where
  "on_path t \<equiv> fst ` set (tj_path t)"

abbreviation finished :: "Tarjan \<Rightarrow> Channel set" where
  "finished t \<equiv> dom (tj_index t) - set (tj_stack t)"

text \<open>The order of the stack and the path.\<close>

definition tj_order :: "Graph \<Rightarrow> Tarjan \<Rightarrow> bool" where
  "tj_order g t \<longleftrightarrow>
     (\<forall>c \<in> dom (tj_index t). rank t c < tj_next t \<and> tj_low t c \<noteq> None) \<and>
     set (tj_stack t) \<subseteq> dom (tj_index t) \<and> tj_onStack t = set (tj_stack t) \<and>
     sorted_wrt (\<lambda>a b. rank t b < rank t a) (tj_stack t) \<and>
     sorted_wrt (\<lambda>a b. rank t b < rank t a) (map fst (tj_path t)) \<and> on_path t \<subseteq> set (tj_stack t) \<and>
     (\<forall>(c, es) \<in> set (tj_path t). set es \<subseteq> set (edges_from g c)) \<and> dom (tj_index t) \<subseteq> set (vertices g)"

text \<open>What is reached from where, and what the low links know.\<close>

definition pending :: "Tarjan \<Rightarrow> Channel \<Rightarrow> Channel \<Rightarrow> bool" where
  "pending t a b \<longleftrightarrow> (\<exists>es. (a, es) \<in> set (tj_path t) \<and> b \<in> edge_to ` set es)"

definition seen_by :: "Tarjan \<Rightarrow> Channel \<Rightarrow> Channel \<Rightarrow> bool" where
  "seen_by t a b \<longleftrightarrow> (\<exists>c \<in> on_path t. low t c \<le> rank t b \<and> (\<forall>x \<in> on_path t. rank t x \<le> rank t a \<longrightarrow> rank t x \<le> rank t c))"

definition tj_reaches :: "Graph \<Rightarrow> Tarjan \<Rightarrow> bool" where
  "tj_reaches g t \<longleftrightarrow>
     (\<forall>x \<in> set (tj_stack t). \<forall>y \<in> set (tj_stack t). rank t x \<le> rank t y \<longrightarrow> gets_to g x y) \<and>
     (\<forall>y \<in> set (tj_stack t). \<exists>x \<in> on_path t. rank t x \<le> rank t y \<and> gets_to g y x) \<and>
     (\<forall>c \<in> on_path t. \<exists>z \<in> set (tj_stack t). low t c = rank t z \<and> gets_to g c z \<and> rank t z \<le> rank t c)"

definition tj_seen :: "Graph \<Rightarrow> Tarjan \<Rightarrow> bool" where
  "tj_seen g t \<longleftrightarrow>
     (\<forall>(a, b) \<in> arcs g. a \<in> finished t \<longrightarrow> b \<in> finished t) \<and>
     (\<forall>(a, b) \<in> arcs g. a \<in> set (tj_stack t) \<longrightarrow>
        pending t a b \<or> b \<in> dom (tj_index t) \<and> (b \<in> set (tj_stack t) \<longrightarrow> seen_by t a b))"

definition tj_listed :: "Graph \<Rightarrow> Tarjan \<Rightarrow> bool" where
  "tj_listed g t \<longleftrightarrow> distinct (map set (tj_cycles t)) \<and>
     (\<forall>cy \<in> set (tj_cycles t). cy = sortedChannels cy \<and> 1 < length cy \<and> set cy \<subseteq> finished t \<and> (\<exists>c. set cy = scc g c)) \<and>
     (\<forall>c \<in> finished t. scc g c \<noteq> {c} \<longrightarrow> scc g c \<in> set ` set (tj_cycles t))"

definition tj_ok :: "Graph \<Rightarrow> Tarjan \<Rightarrow> bool" where
  "tj_ok g t \<longleftrightarrow> tj_order g t \<and> tj_reaches g t \<and> tj_seen g t \<and> tj_listed g t"

lemma tj_ok_new: "tj_ok g new_Tarjan"
  by (simp add: tj_ok_def tj_order_def tj_reaches_def tj_seen_def tj_listed_def new_Tarjan_def)

lemma arcs_edges: "(a, b) \<in> arcs g \<longleftrightarrow> (\<exists>e \<in> set (edges_from g a). edge_to e = b)"
  by (auto simp: arcs_def edges_from_def edge_key_def image_iff)

lemma rank_stack_inj:
  assumes "tj_order g t" and "x \<in> set (tj_stack t)" and "y \<in> set (tj_stack t)" and "rank t x = rank t y"
  shows "x = y"
proof -
  have s: "sorted_wrt (\<lambda>a b. rank t b < rank t a) (tj_stack t)" using assms(1) by (simp add: tj_order_def)
  obtain i j where ij: "i < length (tj_stack t)" "tj_stack t ! i = x" "j < length (tj_stack t)" "tj_stack t ! j = y"
    using assms(2,3) by (auto simp: in_set_conv_nth)
  show ?thesis
  proof (rule ccontr)
    assume "x \<noteq> y"
    then have "i < j \<or> j < i" using ij by (metis nat_neq_iff)
    then show False using sorted_wrt_nth_less [OF s] ij assms(4) by fastforce
  qed
qed

text \<open>The frame on top has the greatest rank of the path; what is on the path is reached from what is lower.\<close>

lemma top_frame:
  assumes "tj_order g t" and "tj_path t = (c, es) # frames"
  shows "c \<in> set (tj_stack t)" and "x \<in> on_path t \<Longrightarrow> rank t x \<le> rank t c" and "x \<in> fst ` set frames \<Longrightarrow> rank t x < rank t c"
    and "c \<in> dom (tj_index t)"
  using assms by (auto simp: tj_order_def)

section \<open>Entering a channel\<close>

lemma enter_simps [simp]:
  "tj_index (tarjan_enter g c t) = (tj_index t)(c \<mapsto> tj_next t)" "tj_low (tarjan_enter g c t) = (tj_low t)(c \<mapsto> tj_next t)"
  "tj_onStack (tarjan_enter g c t) = insert c (tj_onStack t)" "tj_stack (tarjan_enter g c t) = c # tj_stack t"
  "tj_path (tarjan_enter g c t) = (c, edges_from g c) # tj_path t" "tj_cycles (tarjan_enter g c t) = tj_cycles t"
  "tj_next (tarjan_enter g c t) = tj_next t + 1"
  "rank (tarjan_enter g c t) = (rank t)(c := tj_next t)" "low (tarjan_enter g c t) = (low t)(c := tj_next t)"
  by (auto simp: tarjan_enter_def rank_def low_def fun_eq_iff)

text \<open>The invariant with one arc of the top frame taken from its iterator and not yet followed.\<close>

definition tj_mid :: "Graph \<Rightarrow> Channel option \<Rightarrow> Channel \<Rightarrow> Tarjan \<Rightarrow> bool" where
  "tj_mid g from c t \<longleftrightarrow> tj_order g t \<and> tj_reaches g t \<and> tj_listed g t \<and>
     (\<forall>(a, b) \<in> arcs g. a \<in> finished t \<longrightarrow> b \<in> finished t) \<and>
     (\<forall>(a, b) \<in> arcs g. a \<in> set (tj_stack t) \<longrightarrow>
        pending t a b \<or> (from = Some a \<and> b = c) \<or> b \<in> dom (tj_index t) \<and> (b \<in> set (tj_stack t) \<longrightarrow> seen_by t a b)) \<and>
     (case from of None \<Rightarrow> tj_path t = [] | Some f \<Rightarrow> (f, c) \<in> arcs g \<and> tj_path t \<noteq> [] \<and> f = fst (hd (tj_path t)))"


lemma tj_dom:
  assumes "tj_order g t"
  shows "x \<in> on_path t \<Longrightarrow> x \<in> set (tj_stack t)" and "x \<in> set (tj_stack t) \<Longrightarrow> x \<in> dom (tj_index t)"
    and "x \<in> set (tj_stack t) \<Longrightarrow> rank t x < tj_next t" and "tj_onStack t = set (tj_stack t)"
proof -
  have *: "\<forall>c \<in> dom (tj_index t). rank t c < tj_next t \<and> tj_low t c \<noteq> None" "set (tj_stack t) \<subseteq> dom (tj_index t)" "on_path t \<subseteq> set (tj_stack t)"
    "tj_onStack t = set (tj_stack t)"
    using assms unfolding tj_order_def by simp_all
  then show "x \<in> on_path t \<Longrightarrow> x \<in> set (tj_stack t)" "x \<in> set (tj_stack t) \<Longrightarrow> x \<in> dom (tj_index t)"
    "x \<in> set (tj_stack t) \<Longrightarrow> rank t x < tj_next t" "tj_onStack t = set (tj_stack t)" by blast+
qed

lemma tj_reachesD:
  assumes "tj_reaches g t"
  shows "x \<in> set (tj_stack t) \<Longrightarrow> y \<in> set (tj_stack t) \<Longrightarrow> rank t x \<le> rank t y \<Longrightarrow> gets_to g x y"
    and "y \<in> set (tj_stack t) \<Longrightarrow> \<exists>x \<in> on_path t. rank t x \<le> rank t y \<and> gets_to g y x"
    and "c \<in> on_path t \<Longrightarrow> \<exists>z \<in> set (tj_stack t). low t c = rank t z \<and> gets_to g c z \<and> rank t z \<le> rank t c"
  using assms unfolding tj_reaches_def by blast+

text \<open>A path that is empty leaves nothing on the stack; the top of the path is reached from all of the stack.\<close>

lemma path_empty: "tj_reaches g t \<Longrightarrow> tj_path t = [] \<Longrightarrow> tj_stack t = []"
  by (cases "tj_stack t") (auto simp: tj_reaches_def)

lemma to_top:
  assumes "tj_order g t" and "tj_reaches g t" and "tj_path t = (f, es) # frames" and "y \<in> set (tj_stack t)"
  shows "gets_to g y f"
proof -
  obtain x where x: "x \<in> on_path t" "gets_to g y x" using tj_reachesD(2) [OF assms(2,4)] by blast
  have "gets_to g x f"
    using tj_reachesD(1) [OF assms(2) tj_dom(1) [OF assms(1) x(1)] top_frame(1) [OF assms(1,3)]] top_frame(2) [OF assms(1,3) x(1)] .
  then show ?thesis using x(2) by (rule rtrancl_trans [rotated])
qed

lemma enter_order:
  assumes o: "tj_order g t" and new: "c \<notin> dom (tj_index t)" and v: "c \<in> set (vertices g)"
  shows "tj_order g (tarjan_enter g c t)"
proof -
  have old: "x \<noteq> c \<and> rank t x < tj_next t" if "x \<in> set (tj_stack t)" for x using tj_dom(2,3) [OF o that] new by blast
  have "sorted_wrt (\<lambda>a b. ((rank t)(c := tj_next t)) b < ((rank t)(c := tj_next t)) a) xs"
    if "sorted_wrt (\<lambda>a b. rank t b < rank t a) xs" "set xs \<subseteq> set (tj_stack t)" for xs
    by (rule sorted_wrt_mono_rel [OF _ that(1)]) (use that(2) old in auto)
  moreover have "set (map fst (tj_path t)) \<subseteq> set (tj_stack t)" using tj_dom(1) [OF o] by auto
  ultimately show ?thesis
    using o old v tj_dom(1) [OF o] unfolding tj_order_def by (auto simp: less_Suc_eq)
qed

lemma enter_reaches:
  assumes o: "tj_order g t" and r: "tj_reaches g t" and new: "c \<notin> dom (tj_index t)"
    and from_stack: "\<forall>x \<in> set (tj_stack t). gets_to g x c"
  shows "tj_reaches g (tarjan_enter g c t)"
proof -
  have old: "x \<noteq> c" "rank t x < tj_next t" if "x \<in> set (tj_stack t)" for x using tj_dom(2,3) [OF o that] new by blast+
  have old_path: "x \<in> set (tj_stack t)" "x \<noteq> c" if "x \<in> on_path t" for x using tj_dom(1) [OF o that] old by blast+
  show ?thesis
    unfolding tj_reaches_def
  proof (intro conjI ballI impI)
    fix x y assume "x \<in> set (tj_stack (tarjan_enter g c t))" "y \<in> set (tj_stack (tarjan_enter g c t))"
      "rank (tarjan_enter g c t) x \<le> rank (tarjan_enter g c t) y"
    then show "gets_to g x y" using from_stack old tj_reachesD(1) [OF r] by (cases "x = c"; cases "y = c") (fastforce split: if_splits)+
  next
    fix y assume y: "y \<in> set (tj_stack (tarjan_enter g c t))"
    show "\<exists>x \<in> on_path (tarjan_enter g c t). rank (tarjan_enter g c t) x \<le> rank (tarjan_enter g c t) y \<and> gets_to g y x"
    proof (cases "y = c")
      case False
      then have "y \<in> set (tj_stack t)" using y by simp
      then obtain x where "x \<in> on_path t" "rank t x \<le> rank t y" "gets_to g y x" using tj_reachesD(2) [OF r] by blast
      then show ?thesis using False old_path(2) by (intro bexI [of _ x]) auto
    qed auto
  next
    fix d assume d: "d \<in> on_path (tarjan_enter g c t)"
    show "\<exists>z \<in> set (tj_stack (tarjan_enter g c t)). low (tarjan_enter g c t) d = rank (tarjan_enter g c t) z \<and> gets_to g d z \<and>
        rank (tarjan_enter g c t) z \<le> rank (tarjan_enter g c t) d"
    proof (cases "d = c")
      case False
      then have "d \<in> on_path t" using d by simp
      then obtain z where "z \<in> set (tj_stack t)" "low t d = rank t z" "gets_to g d z" "rank t z \<le> rank t d"
        using tj_reachesD(3) [OF r] by blast
      then show ?thesis using False old(1) by (intro bexI [of _ z]) auto
    qed auto
  qed
qed

lemma enter_seen:
  assumes o: "tj_order g t" and new: "c \<notin> dom (tj_index t)" and mid: "tj_mid g from c t"
  shows "tj_seen g (tarjan_enter g c t)"
proof -
  let ?t = "tarjan_enter g c t"
  have fin: "finished ?t = finished t" using new by auto
  have closed: "\<forall>(a, b) \<in> arcs g. a \<in> finished ?t \<longrightarrow> b \<in> finished ?t"
    using mid unfolding tj_mid_def fin by blast
  have "b \<in> dom (tj_index ?t) \<and> (b \<in> set (tj_stack ?t) \<longrightarrow> seen_by ?t a b)"
    if ab: "(a, b) \<in> arcs g" and a: "a \<in> set (tj_stack ?t)" and np: "\<not> pending ?t a b" for a b
  proof -
    have ac: "a \<noteq> c"
    proof
      assume "a = c"
      then have "pending ?t a b" using ab arcs_edges unfolding pending_def by (auto simp: image_iff)
      then show False using np by simp
    qed
    have "\<not> pending t a b" using np by (auto simp: pending_def)
    then have cases: "(from = Some a \<and> b = c) \<or> b \<in> dom (tj_index t) \<and> (b \<in> set (tj_stack t) \<longrightarrow> seen_by t a b)"
      using ab a ac mid unfolding tj_mid_def by auto
    have "seen_by ?t a b" if "b \<in> set (tj_stack ?t)"
    proof (cases "b = c")
      case True
      have "rank t x \<le> tj_next t" if "x \<in> on_path t" for x using tj_dom(1,3) [OF o] that by (simp add: less_imp_le)
      then show ?thesis unfolding seen_by_def using True new tj_dom(1,2) [OF o]
        by (intro bexI [of _ c]) auto
    next
      case False
      then have b: "b \<in> set (tj_stack t)" "seen_by t a b" using cases that by auto
      then obtain d where d: "d \<in> on_path t" "low t d \<le> rank t b" "\<forall>x \<in> on_path t. rank t x \<le> rank t a \<longrightarrow> rank t x \<le> rank t d"
        unfolding seen_by_def by blast
      have "d \<noteq> c" using tj_dom(1,2) [OF o] d(1) new by blast
      have a_old: "rank t a < tj_next t" using a ac tj_dom(3) [OF o] by simp
      show ?thesis unfolding seen_by_def
      proof (intro bexI [of _ d] conjI ballI impI)
        show "low ?t d \<le> rank ?t b" "d \<in> on_path ?t" using d(1,2) \<open>d \<noteq> c\<close> False by auto
        fix x assume x: "x \<in> on_path ?t" "rank ?t x \<le> rank ?t a"
        then have "x \<noteq> c" using ac a_old by auto
        then have "x \<in> on_path t" "rank t x \<le> rank t a" using x ac by auto
        then have "rank t x \<le> rank t d" using d(3) by blast
        then show "rank ?t x \<le> rank ?t d" using \<open>x \<noteq> c\<close> \<open>d \<noteq> c\<close> by simp
      qed
    qed
    then show ?thesis using cases by auto
  qed
  then show ?thesis using closed unfolding tj_seen_def by blast
qed

lemma enter_ok:
  assumes mid: "tj_mid g from c t" and new: "c \<notin> dom (tj_index t)" and v: "c \<in> set (vertices g)"
  shows "tj_ok g (tarjan_enter g c t)"
proof -
  have o: "tj_order g t" and r: "tj_reaches g t" and l: "tj_listed g t" using mid by (simp_all add: tj_mid_def)
  have "\<forall>x \<in> set (tj_stack t). gets_to g x c"
  proof (cases "from")
    case None
    then have "tj_path t = []" using mid by (simp add: tj_mid_def)
    then show ?thesis using path_empty [OF r] by simp
  next
    case (Some f)
    then obtain es frames where "tj_path t = (f, es) # frames" "(f, c) \<in> arcs g"
      using mid unfolding tj_mid_def by (cases "tj_path t") auto
    then show ?thesis using to_top [OF o r] by (meson rtrancl.rtrancl_into_rtrancl)
  qed
  moreover have "finished (tarjan_enter g c t) = finished t" using new by auto
  then have "tj_listed g (tarjan_enter g c t)" using l unfolding tj_listed_def by simp
  ultimately show ?thesis using enter_order [OF o new v] enter_reaches [OF o r new] enter_seen [OF o new mid] by (simp add: tj_ok_def)
qed


section \<open>Following an arc to a channel visited before\<close>

lemma lower_simps [simp]:
  "tj_index (lower c n t) = tj_index t" "tj_onStack (lower c n t) = tj_onStack t" "tj_stack (lower c n t) = tj_stack t"
  "tj_path (lower c n t) = tj_path t" "tj_cycles (lower c n t) = tj_cycles t" "tj_next (lower c n t) = tj_next t"
  "rank (lower c n t) = rank t" "low (lower c n t) = (low t)(c := min (low t c) n)"
  "dom (tj_low (lower c n t)) = insert c (dom (tj_low t))"
  by (auto simp: lower_def rank_def low_def fun_eq_iff)

lemma lower_order: "tj_order g t \<Longrightarrow> tj_order g (lower c n t)"
  unfolding tj_order_def by (auto simp: lower_def rank_def)

lemma lower_reaches:
  assumes r: "tj_reaches g t" and c: "c \<in> on_path t" and z: "z \<in> set (tj_stack t)" "gets_to g c z"
  shows "tj_reaches g (lower c (rank t z) t)"
proof -
  have "\<exists>z' \<in> set (tj_stack t). min (low t c) (rank t z) = rank t z' \<and> gets_to g c z' \<and> rank t z' \<le> rank t c"
  proof -
    obtain y where y: "y \<in> set (tj_stack t)" "low t c = rank t y" "gets_to g c y" "rank t y \<le> rank t c"
      using tj_reachesD(3) [OF r c] by blast
    show ?thesis
    proof (cases "rank t y \<le> rank t z")
      case True
      then show ?thesis using y by (intro bexI [of _ y]) auto
    next
      case False
      then show ?thesis using y z by (intro bexI [of _ z]) auto
    qed
  qed
  then show ?thesis using r unfolding tj_reaches_def by auto
qed

lemma lower_seen: "seen_by t a b \<Longrightarrow> seen_by (lower c n t) a b"
  unfolding seen_by_def by (auto simp: min_le_iff_disj)

lemma pending_path: "tj_path t = tj_path t' \<Longrightarrow> pending t a b = pending t' a b"
  by (simp add: pending_def)

lemma take_edge:
  assumes ok: "tj_ok g t" and path: "tj_path t = (c, e # es) # frames"
  defines "t0 \<equiv> t\<lparr>tj_path := (c, es) # frames\<rparr>"
  shows "tj_mid g (Some c) (edge_to e) t0"
proof -
  have same: "tj_index t0 = tj_index t" "tj_stack t0 = tj_stack t" "tj_onStack t0 = tj_onStack t" "tj_low t0 = tj_low t"
    "tj_next t0 = tj_next t" "tj_cycles t0 = tj_cycles t" "on_path t0 = on_path t" "rank t0 = rank t" "low t0 = low t"
    "map fst (tj_path t0) = map fst (tj_path t)"
    using path by (simp_all add: t0_def rank_def low_def fun_eq_iff)
  have "set (e # es) \<subseteq> set (edges_from g c)" using ok path unfolding tj_ok_def tj_order_def by auto
  then have e: "(c, edge_to e) \<in> arcs g" and es: "set es \<subseteq> set (edges_from g c)" using arcs_edges by auto
  have "tj_order g t" using ok by (simp add: tj_ok_def)
  then have order: "tj_order g t0" using es path unfolding tj_order_def same by (auto simp: t0_def)
  have reaches: "tj_reaches g t0" using ok unfolding tj_ok_def tj_reaches_def same by blast
  have listed: "tj_listed g t0" using ok unfolding tj_ok_def tj_listed_def same by blast
  have seen: "tj_seen g t" using ok by (simp add: tj_ok_def)
  have "seen_by t0 a b = seen_by t a b" for a b unfolding seen_by_def same ..
  moreover have "pending t0 a b \<or> a = c \<and> b = edge_to e" if "pending t a b" for a b
  proof -
    obtain xs where xs: "(a, xs) \<in> set (tj_path t)" "b \<in> edge_to ` set xs" using \<open>pending t a b\<close> unfolding pending_def by blast
    then have "(a, xs) = (c, e # es) \<or> (a, xs) \<in> set (tj_path t0)" using path by (auto simp: t0_def)
    then show ?thesis
    proof
      assume "(a, xs) = (c, e # es)"
      then have "a = c" "b = edge_to e \<or> b \<in> edge_to ` set es" using xs(2) by auto
      moreover have "(c, es) \<in> set (tj_path t0)" by (simp add: t0_def)
      ultimately show ?thesis unfolding pending_def by blast
    qed (use xs(2) in \<open>auto simp: pending_def\<close>)
  qed
  ultimately have "\<forall>(a, b) \<in> arcs g. a \<in> set (tj_stack t0) \<longrightarrow>
      pending t0 a b \<or> (Some c = Some a \<and> b = edge_to e) \<or> b \<in> dom (tj_index t0) \<and> (b \<in> set (tj_stack t0) \<longrightarrow> seen_by t0 a b)"
    using seen unfolding tj_seen_def same by blast
  moreover have "\<forall>(a, b) \<in> arcs g. a \<in> finished t0 \<longrightarrow> b \<in> finished t0" using seen unfolding tj_seen_def same by blast
  ultimately show ?thesis using order reaches listed e unfolding tj_mid_def by (simp add: t0_def)
qed

lemma tarjan_edge_ok:
  assumes ok: "tj_ok g t" and path: "tj_path t = (c, e # es) # frames" and v: "edge_to e \<in> set (vertices g)"
  shows "tj_ok g (tarjan_edge g c e (t\<lparr>tj_path := (c, es) # frames\<rparr>))"
proof -
  let ?b = "edge_to e"
  define t0 where "t0 = t\<lparr>tj_path := (c, es) # frames\<rparr>"
  have mid: "tj_mid g (Some c) ?b t0" unfolding t0_def by (rule take_edge [OF ok path])
  then have o: "tj_order g t0" and r: "tj_reaches g t0" and l: "tj_listed g t0" and arc: "(c, ?b) \<in> arcs g"
    and closed: "\<forall>(a, b) \<in> arcs g. a \<in> finished t0 \<longrightarrow> b \<in> finished t0"
    and rest: "\<forall>(a, b) \<in> arcs g. a \<in> set (tj_stack t0) \<longrightarrow>
        pending t0 a b \<or> (c = a \<and> b = ?b) \<or> b \<in> dom (tj_index t0) \<and> (b \<in> set (tj_stack t0) \<longrightarrow> seen_by t0 a b)"
    unfolding tj_mid_def option.case option.inject by blast+
  have path0: "tj_path t0 = (c, es) # frames" by (simp add: t0_def)
  show ?thesis
  proof (cases "tj_index t0 ?b")
    case None
    then have "tj_ok g (tarjan_enter g ?b t0)" using enter_ok [OF mid _ v] by blast
    then show ?thesis using None by (simp add: tarjan_edge_def t0_def)
  next
    case (Some n)
    show ?thesis
    proof (cases "?b \<in> set (tj_stack t0)")
      case False
      then have "tj_seen g t0" using rest closed Some unfolding tj_seen_def by blast
      then show ?thesis using o r l False Some tj_dom(4) [OF o] by (simp add: tj_ok_def tarjan_edge_def t0_def)
    next
      case True
      have n: "n = rank t0 ?b" using Some by (simp add: rank_def)
      have c: "c \<in> on_path t0" by (simp add: path0)
      let ?t = "lower c n t0"
      have "gets_to g c ?b" using arc by blast
      then have "tj_reaches g ?t" unfolding n by (rule lower_reaches [OF r c True])
      moreover have "tj_listed g ?t" using l by (simp add: tj_listed_def)
      moreover have "seen_by ?t c ?b" unfolding seen_by_def
        using c top_frame(2) [OF o path0] n by (intro bexI [of _ c]) auto
      note at_b = this
      have "pending ?t a b \<or> b \<in> dom (tj_index t0) \<and> (b \<in> set (tj_stack t0) \<longrightarrow> seen_by ?t a b)"
        if "(a, b) \<in> arcs g" "a \<in> set (tj_stack t0)" for a b
      proof -
        have "pending t0 a b \<or> (c = a \<and> b = ?b) \<or> b \<in> dom (tj_index t0) \<and> (b \<in> set (tj_stack t0) \<longrightarrow> seen_by t0 a b)"
          using rest that by blast
        moreover have "pending ?t a b = pending t0 a b" by (simp add: pending_def)
        ultimately show ?thesis using at_b True tj_dom(2) [OF o True] lower_seen [of t0 a b c n] by blast
      qed
      then have "tj_seen g ?t" using closed unfolding tj_seen_def lower_simps by blast
      ultimately show ?thesis using lower_order [OF o, of c n] True Some tj_dom(4) [OF o] by (simp add: tj_ok_def tarjan_edge_def t0_def)
    qed
  qed
qed


section \<open>Leaving a channel\<close>

lemma pop_component_split:
  "c \<in> set stack \<Longrightarrow> \<exists>above below. stack = above @ c # below \<and> c \<notin> set above \<and> pop_component c stack = Some (above @ [c], below)"
proof (induction stack)
  case (Cons m stack)
  show ?case
  proof (cases "m = c")
    case False
    then obtain above below where "stack = above @ c # below" "c \<notin> set above" "pop_component c stack = Some (above @ [c], below)"
      using Cons by auto
    then show ?thesis using False by (intro exI [of _ "m # above"] exI [of _ below]) simp
  qed (rule exI [of _ "[]"], rule exI [of _ stack], simp)
qed simp

text \<open>The arcs seen through the frame that is over, once its low link is its parent's.\<close>

lemma seen_by_below:
  assumes o: "tj_order g t" and path: "tj_path t = (c, es) # frames" and s: "seen_by t a b" and d: "rank t b < low t c"
  shows "\<exists>d \<in> fst ` set frames. low t d \<le> rank t b \<and> (\<forall>x \<in> fst ` set frames. rank t x \<le> rank t a \<longrightarrow> rank t x \<le> rank t d)"
proof -
  obtain d where d: "d \<in> on_path t" "low t d \<le> rank t b" "\<forall>x \<in> on_path t. rank t x \<le> rank t a \<longrightarrow> rank t x \<le> rank t d"
    using s unfolding seen_by_def by blast
  then have "d \<noteq> c" using assms(4) by auto
  then have "d \<in> fst ` set frames" using d(1) path by auto
  moreover have "fst ` set frames \<subseteq> on_path t" using path by auto
  ultimately show ?thesis using d(2,3) by blast
qed

lemma leave_merged:
  assumes ok: "tj_ok g t" and path: "tj_path t = (c, []) # frames" and low: "low t c \<noteq> rank t c"
  defines "t0 \<equiv> t\<lparr>tj_path := frames\<rparr>"
  shows "\<exists>p es fs. frames = (p, es) # fs \<and> tj_ok g (lower p (low t c) t0)"
proof -
  have o: "tj_order g t" and r: "tj_reaches g t" and l: "tj_listed g t" and s: "tj_seen g t" using ok by (simp_all add: tj_ok_def)
  have same: "tj_index t0 = tj_index t" "tj_stack t0 = tj_stack t" "tj_onStack t0 = tj_onStack t" "tj_low t0 = tj_low t"
    "tj_next t0 = tj_next t" "tj_cycles t0 = tj_cycles t" "rank t0 = rank t" "low t0 = low t" "tj_path t0 = frames"
    by (simp_all add: t0_def rank_def low_def fun_eq_iff)
  have on: "on_path t = insert c (on_path t0)" by (simp add: same path)
  then have c: "c \<in> on_path t" by simp
  obtain z where z: "z \<in> set (tj_stack t)" "low t c = rank t z" "gets_to g c z" "rank t z \<le> rank t c" using tj_reachesD(3) [OF r c] by blast
  then have "rank t z < rank t c" using low by simp
  obtain x where x: "x \<in> on_path t" "rank t x \<le> rank t z" "gets_to g z x" using tj_reachesD(2) [OF r z(1)] by blast
  then have x0: "x \<in> on_path t0" using on \<open>rank t z < rank t c\<close> by auto
  then obtain p es fs where p: "frames = (p, es) # fs" using same(9) by (cases frames) auto
  have order: "tj_order g t0" using o path unfolding tj_order_def same by simp
  have "\<exists>x \<in> on_path t0. rank t x \<le> rank t y \<and> gets_to g y x" if y: "y \<in> set (tj_stack t)" for y
  proof -
    obtain w where w: "w \<in> on_path t" "rank t w \<le> rank t y" "gets_to g y w" using tj_reachesD(2) [OF r y] by blast
    show ?thesis
    proof (cases "w = c")
      case True
      then have "gets_to g y x" using w(3) z(3) x(3) by (meson rtrancl_trans)
      moreover have "rank t x \<le> rank t y" using w(2) True x(2) z(4) by simp
      ultimately show ?thesis using x0 by blast
    qed (use w on in blast)
  qed
  moreover have "\<exists>z \<in> set (tj_stack t). low t d = rank t z \<and> gets_to g d z \<and> rank t z \<le> rank t d" if "d \<in> on_path t0" for d
    using tj_reachesD(3) [OF r, of d] that on by blast
  ultimately have reaches: "tj_reaches g t0" using tj_reachesD(1) [OF r] unfolding tj_reaches_def same by blast
  have p_on: "p \<in> on_path t0" by (simp add: same p)
  have "gets_to g p c"
    using to_top [OF o r path] tj_dom(1) [OF order p_on] same by simp
  then have "gets_to g p z" using z(3) by (rule rtrancl_trans)
  then have "tj_reaches g (lower p (low t c) t0)" using lower_reaches [OF reaches p_on, of z] z(1,2) same by simp
  moreover have "tj_order g (lower p (low t c) t0)" using order by (rule lower_order)
  moreover have "tj_listed g (lower p (low t c) t0)" using l unfolding tj_listed_def lower_simps same .
  moreover have "tj_seen g (lower p (low t c) t0)"
  proof -
    let ?t = "lower p (low t c) t0"
    have "pending ?t a b = pending t a b" for a b using path by (auto simp: pending_def same)
    moreover have "seen_by ?t a b" if ab: "seen_by t a b" for a b
    proof (cases "low t c \<le> rank t b")
      case True
      then have "low ?t p \<le> rank ?t b" by (simp add: same)
      moreover have "rank ?t x \<le> rank ?t p" if "x \<in> on_path ?t" for x
        using top_frame(2) [OF order, of p es fs x] that by (simp add: same p)
      ultimately show ?thesis unfolding seen_by_def using p_on by (metis lower_simps(4))
    next
      case False
      then have "seen_by t0 a b" using seen_by_below [OF o path ab] unfolding seen_by_def same by simp
      then show ?thesis by (rule lower_seen)
    qed
    ultimately show ?thesis using s unfolding tj_seen_def lower_simps same by blast
  qed
  ultimately show ?thesis using p by (auto simp: tj_ok_def)
qed


text \<open>A component popped is the strongly connected set of its channel.\<close>

lemma closed_reach: "gets_to g a b \<Longrightarrow> a \<in> A \<Longrightarrow> (\<And>a b. (a, b) \<in> arcs g \<Longrightarrow> a \<in> A \<Longrightarrow> b \<in> A) \<Longrightarrow> b \<in> A"
  by (induction rule: rtrancl_induct) blast+

lemma component_facts:
  assumes ok: "tj_ok g t" and path: "tj_path t = (c, []) # frames" and low: "low t c = rank t c"
    and split: "tj_stack t = upper @ c # below"
  defines "C \<equiv> set (upper @ [c])"
  shows "C \<union> set below = set (tj_stack t)" and "v \<in> C \<Longrightarrow> rank t c \<le> rank t v" and "v \<in> set below \<Longrightarrow> rank t v < rank t c"
    and "(a, b) \<in> arcs g \<Longrightarrow> a \<in> C \<Longrightarrow> b \<in> C \<union> finished t" and "C = scc g c"
proof -
  have o: "tj_order g t" and r: "tj_reaches g t" and s: "tj_seen g t" using ok by (simp_all add: tj_ok_def)
  have sorted: "sorted_wrt (\<lambda>a b. rank t b < rank t a) (upper @ c # below)" using o split unfolding tj_order_def by simp
  show all: "C \<union> set below = set (tj_stack t)" by (auto simp: C_def split)
  show upper: "rank t c \<le> rank t v" if "v \<in> C" for v using sorted that by (auto simp: C_def sorted_wrt_append intro: less_imp_le)
  show below: "rank t v < rank t c" if "v \<in> set below" for v using sorted that by (auto simp: sorted_wrt_append)
  have arcs_out: "b \<in> C \<union> finished t" if ab: "(a, b) \<in> arcs g" and a: "a \<in> C" for a b
  proof -
    have on: "a \<in> set (tj_stack t)" using a all by blast
    have "\<not> pending t a b"
    proof
      assume "pending t a b"
      then obtain es where es: "(a, es) \<in> set (tj_path t)" "b \<in> edge_to ` set es" unfolding pending_def by blast
      then have "(a, es) \<in> set frames" using path by auto
      then have "rank t a < rank t c" using top_frame(3) [OF o path] by force
      then show False using upper [OF a] by simp
    qed
    then have b: "b \<in> dom (tj_index t)" "b \<in> set (tj_stack t) \<Longrightarrow> seen_by t a b" using s ab on unfolding tj_seen_def by blast+
    have "b \<in> C" if on_stack: "b \<in> set (tj_stack t)"
    proof -
      obtain d where d: "d \<in> on_path t" "low t d \<le> rank t b" "\<forall>x \<in> on_path t. rank t x \<le> rank t a \<longrightarrow> rank t x \<le> rank t d"
        using b(2) [OF on_stack] unfolding seen_by_def by blast
      have c_on: "c \<in> on_path t" by (simp add: path)
      then have "rank t c \<le> rank t d" using d(3) upper [OF a] by blast
      then have "rank t d = rank t c" using top_frame(2) [OF o path d(1)] by simp
      then have "d = c" using rank_stack_inj [OF o tj_dom(1) [OF o d(1)] tj_dom(1) [OF o c_on]] by blast
      then have "\<not> rank t b < rank t c" using d(2) low by simp
      then show ?thesis using all on_stack below by blast
    qed
    then show ?thesis using b(1) by blast
  qed
  then show "(a, b) \<in> arcs g \<Longrightarrow> a \<in> C \<Longrightarrow> b \<in> C \<union> finished t" .
  have cC: "c \<in> C" by (simp add: C_def)
  have closed: "(a, b) \<in> arcs g \<Longrightarrow> a \<in> finished t \<Longrightarrow> b \<in> finished t" for a b using s unfolding tj_seen_def by blast
  show "C = scc g c"
  proof (intro set_eqI iffI)
    fix v assume v: "v \<in> C"
    then have on: "v \<in> set (tj_stack t)" "c \<in> set (tj_stack t)" using all cC by blast+
    have "gets_to g c v" using tj_reachesD(1) [OF r on(2,1) upper [OF v]] .
    moreover have "gets_to g v c" using to_top [OF o r path on(1)] .
    ultimately show "v \<in> scc g c" by (simp add: scc_def)
  next
    fix v assume "v \<in> scc g c"
    then have v: "gets_to g c v" "gets_to g v c" by (simp_all add: scc_def)
    have "v \<in> C \<union> finished t" using closed_reach [OF v(1), of "C \<union> finished t"] cC arcs_out closed by blast
    moreover have "v \<notin> finished t"
    proof
      assume "v \<in> finished t"
      then have "c \<in> finished t" using closed_reach [OF v(2), of "finished t"] closed by blast
      then show False using all cC by blast
    qed
    ultimately show "v \<in> C" by blast
  qed
qed

lemma scc_same: "d \<in> scc g c \<Longrightarrow> scc g d = scc g c"
  unfolding scc_def by (auto intro: rtrancl_trans)

lemma add_all_distinct: "distinct xs \<Longrightarrow> add_all [] xs = xs"
proof -
  have "distinct (ys @ xs) \<Longrightarrow> add_all ys xs = ys @ xs" for ys
    unfolding add_all_def by (induction xs arbitrary: ys) (auto simp: add_new_def)
  then show "distinct xs \<Longrightarrow> add_all [] xs = xs" by (metis append_Nil)
qed

lemma sort_channels_fixed:
  assumes "distinct cs"
  shows "sortedChannels (sort_by compareChannels cs) = sort_by compareChannels cs"
proof -
  have "sortedChannels (sort_by compareChannels cs) = sortedChannels cs" by (rule sortedChannels_cong) simp
  then show ?thesis using assms by (simp add: sortedChannels_def add_all_distinct)
qed

lemma leave_component:
  assumes ok: "tj_ok g t" and path: "tj_path t = (c, []) # frames" and low: "low t c = rank t c"
    and split: "tj_stack t = upper @ c # below"
  defines "t1 \<equiv> t\<lparr>tj_path := frames, tj_stack := below, tj_onStack := tj_onStack t - set (upper @ [c]),
    tj_cycles := tj_cycles t @ (if length (upper @ [c]) > 1 then [sort_by compareChannels (upper @ [c])] else [])\<rparr>"
  shows "tj_ok g t1"
proof -
  let ?C = "set (upper @ [c])"
  have o: "tj_order g t" and r: "tj_reaches g t" and l: "tj_listed g t" and s: "tj_seen g t" using ok by (simp_all add: tj_ok_def)
  note facts = component_facts [OF ok path low split]
  have same: "tj_index t1 = tj_index t" "tj_stack t1 = below" "tj_low t1 = tj_low t" "tj_next t1 = tj_next t" "tj_path t1 = frames"
    "rank t1 = rank t" "low t1 = low t" "tj_onStack t1 = tj_onStack t - ?C"
    "tj_cycles t1 = tj_cycles t @ (if length (upper @ [c]) > 1 then [sort_by compareChannels (upper @ [c])] else [])"
    by (simp_all add: t1_def rank_def low_def fun_eq_iff)
  have on: "on_path t = insert c (on_path t1)" by (simp add: same path)
  have disj: "?C \<inter> set below = {}" using facts(2,3) by fastforce
  have low_c: "d \<in> set below" if "d \<in> set (tj_stack t)" "rank t d < rank t c" for d
    using that facts(1,2) by (metis Un_iff leD)
  have frames_low: "rank t d < rank t c" "d \<in> set below" if "d \<in> on_path t1" for d
  proof -
    have "d \<in> fst ` set frames" using that by (simp add: same)
    then show "rank t d < rank t c" by (rule top_frame(3) [OF o path])
    then show "d \<in> set below" using low_c tj_dom(1) [OF o, of d] that on by blast
  qed
  have sorted: "sorted_wrt (\<lambda>a b. rank t b < rank t a) below" using o split unfolding tj_order_def by (simp add: sorted_wrt_append)
  have order: "tj_order g t1"
    using o path sorted frames_low(2) facts(1) disj unfolding tj_order_def same by auto
  have reaches: "tj_reaches g t1"
    unfolding tj_reaches_def same(2,5,6,7)
  proof (intro conjI ballI impI)
    fix x y assume "x \<in> set below" "y \<in> set below" "rank t x \<le> rank t y"
    then show "gets_to g x y" using tj_reachesD(1) [OF r] facts(1) by blast
  next
    fix y assume y: "y \<in> set below"
    then obtain x where x: "x \<in> on_path t" "rank t x \<le> rank t y" "gets_to g y x" using tj_reachesD(2) [OF r] facts(1) by blast
    then have "x \<noteq> c" using facts(3) [OF y] by auto
    then show "\<exists>x \<in> fst ` set frames. rank t x \<le> rank t y \<and> gets_to g y x" using x path by auto
  next
    fix d assume "d \<in> fst ` set frames"
    then have d: "d \<in> on_path t1" "d \<in> on_path t" using on by (auto simp: same)
    then obtain z where z: "z \<in> set (tj_stack t)" "low t d = rank t z" "gets_to g d z" "rank t z \<le> rank t d"
      using tj_reachesD(3) [OF r] by blast
    then have "z \<in> set below" using low_c frames_low(1) [OF d(1)] by simp
    then show "\<exists>z \<in> set below. low t d = rank t z \<and> gets_to g d z \<and> rank t z \<le> rank t d" using z by blast
  qed
  have fin: "finished t1 = finished t \<union> ?C"
  proof -
    have "?C \<subseteq> dom (tj_index t)" using facts(1) tj_dom(2) [OF o] by blast
    then show ?thesis using facts(1) disj unfolding same by blast
  qed
  have seen: "tj_seen g t1"
  proof -
    have "b \<in> finished t1" if "(a, b) \<in> arcs g" "a \<in> finished t1" for a b
      using that facts(4) s unfolding fin tj_seen_def by blast
    moreover have "pending t1 a b \<or> b \<in> dom (tj_index t1) \<and> (b \<in> set below \<longrightarrow> seen_by t1 a b)"
      if ab: "(a, b) \<in> arcs g" and a: "a \<in> set below" for a b
    proof -
      have "pending t1 a b = pending t a b" using path by (auto simp: pending_def same)
      moreover have "pending t a b \<or> b \<in> dom (tj_index t) \<and> (b \<in> set (tj_stack t) \<longrightarrow> seen_by t a b)"
        using s ab a facts(1) unfolding tj_seen_def by blast
      moreover have "seen_by t1 a b" if "seen_by t a b" "b \<in> set below"
        using seen_by_below [OF o path that(1)] facts(3) [OF that(2)] low unfolding seen_by_def same by simp
      ultimately show ?thesis using facts(1) unfolding same by blast
    qed
    ultimately show ?thesis unfolding tj_seen_def same(2) by blast
  qed
  have listed: "tj_listed g t1"
  proof -
    have dist: "distinct (upper @ [c])"
    proof -
      have "distinct xs" if "sorted_wrt (\<lambda>a b. rank t b < rank t a) xs" for xs using that by (induction xs) auto
      then show ?thesis using o split unfolding tj_order_def by (metis distinct.simps(2) distinct_append append.assoc append_Cons append_Nil)
    qed
    note parts = l [unfolded tj_listed_def]
    have old1: "distinct (map set (tj_cycles t))" by (rule conjunct1 [OF parts])
    have old2: "cy = sortedChannels cy \<and> 1 < length cy \<and> set cy \<subseteq> finished t \<and> (\<exists>c. set cy = scc g c)" if "cy \<in> set (tj_cycles t)" for cy
      using conjunct1 [OF conjunct2 [OF parts]] that by (rule bspec)
    have old3: "scc g d \<noteq> {d} \<longrightarrow> scc g d \<in> set ` set (tj_cycles t)" if "d \<in> finished t" for d
      using conjunct2 [OF conjunct2 [OF parts]] that by (rule bspec)
    have fresh: "?C \<notin> set ` set (tj_cycles t)" 
    proof
      assume "?C \<in> set ` set (tj_cycles t)"
      then obtain cy where "cy \<in> set (tj_cycles t)" "?C = set cy" by blast
      then have "?C \<subseteq> finished t" using old2 by blast
      moreover have "c \<in> ?C" by simp
      ultimately show False using facts(1) by blast
    qed
    show ?thesis
    proof (cases "length (upper @ [c]) > 1")
      case True
      let ?new = "sort_by compareChannels (upper @ [c])"
      have cy: "tj_cycles t1 = tj_cycles t @ [?new]" using True by (simp add: same)
      have "length ?new = card ?C" using dist by (metis distinct_card distinct_sort_by set_sort_by)
      then have new_ok: "?new = sortedChannels ?new" "1 < length ?new" "set ?new = scc g c"
        using sort_channels_fixed [OF dist] True dist facts(5) distinct_card [OF dist] by simp_all
      have "scc g d \<in> set ` set (tj_cycles t1)" if "d \<in> finished t1" "scc g d \<noteq> {d}" for d
      proof (cases "d \<in> finished t")
        case False
        then have "d \<in> scc g c" using that(1) fin facts(5) by blast
        then show ?thesis using scc_same new_ok(3) unfolding cy by auto
      qed (use old3 that cy in auto)
      moreover have "distinct (map set (tj_cycles t1))" using old1 fresh unfolding cy by simp
      moreover have "cy = sortedChannels cy \<and> 1 < length cy \<and> set cy \<subseteq> finished t1 \<and> (\<exists>c. set cy = scc g c)"
        if "cy \<in> set (tj_cycles t1)" for cy
      proof (cases "cy = ?new")
        case True
        moreover have "set ?new \<subseteq> finished t1" unfolding fin by auto
        ultimately show ?thesis using new_ok by metis
      next
        case False
        then have "cy \<in> set (tj_cycles t)" using that cy by auto
        then show ?thesis using old2 fin by blast
      qed
      ultimately show ?thesis unfolding tj_listed_def by blast
    next
      case False
      then have upper: "upper = []" and cy: "tj_cycles t1 = tj_cycles t" by (simp_all add: same)
      have "scc g d \<in> set ` set (tj_cycles t)" if "d \<in> finished t1" "scc g d \<noteq> {d}" for d
        using that old3 fin facts(5) upper by auto
      moreover have "set cs \<subseteq> finished t1" if "cs \<in> set (tj_cycles t)" for cs using old2 [OF that] fin by blast
      ultimately show ?thesis using old1 old2 unfolding tj_listed_def cy by blast
    qed
  qed
  show ?thesis using order reaches seen listed by (simp add: tj_ok_def)
qed


lemma lower_same: "tj_low t p \<noteq> None \<Longrightarrow> low t p \<le> n \<Longrightarrow> lower p n t = t"
  by (auto simp: lower_def low_def)

lemma leave_ok:
  assumes ok: "tj_ok g t" and path: "tj_path t = (c, []) # frames"
  shows "\<exists>t'. tarjan_step g t = Some t' \<and> tj_ok g t' \<and> tj_path t' = frames \<and> tj_index t' = tj_index t"
proof -
  have o: "tj_order g t" and r: "tj_reaches g t" using ok by (simp_all add: tj_ok_def)
  define t0 where "t0 = t\<lparr>tj_path := frames\<rparr>"
  have step: "tarjan_step g t = tarjan_leave c t0" using path by (simp add: tarjan_step_def t0_def)
  have c: "c \<in> dom (tj_index t)" "c \<in> set (tj_stack t)" using top_frame(1,4) [OF o path] by blast+
  then obtain n where n: "tj_low t c = Some n" using o unfolding tj_order_def by blast
  then have at_c: "tj_low t c = Some (low t c)" "tj_index t c = Some (rank t c)" using c by (auto simp: low_def rank_def)
  show ?thesis
  proof (cases "low t c = rank t c")
    case False
    obtain p es fs where p: "frames = (p, es) # fs" "tj_ok g (lower p (low t c) t0)"
      using leave_merged [OF ok path False] unfolding t0_def by blast
    have "tj_low t0 c \<noteq> tj_index t0 c" "the (tj_low t0 c) = low t c" using at_c(2) n False by (auto simp: t0_def low_def)
    then have "tarjan_leave c t0 = Some (lower p (low t c) t0)"
      using p(1) by (simp add: tarjan_leave_def tarjan_component_def) (simp add: t0_def)
    then show ?thesis using step p by (auto simp: t0_def)
  next
    case True
    obtain upper below where split: "tj_stack t = upper @ c # below" "pop_component c (tj_stack t) = Some (upper @ [c], below)"
      using pop_component_split [OF c(2)] by blast
    define t1 where "t1 = t\<lparr>tj_path := frames, tj_stack := below, tj_onStack := tj_onStack t - set (upper @ [c]),
      tj_cycles := tj_cycles t @ (if length (upper @ [c]) > 1 then [sort_by compareChannels (upper @ [c])] else [])\<rparr>"
    have ok1: "tj_ok g t1" unfolding t1_def by (rule leave_component [OF ok path True split(1)])
    have "tj_low t0 c = tj_index t0 c" using at_c True by (simp add: t0_def)
    then have comp: "tarjan_component c t0 = Some t1"
      using split(2) by (simp add: tarjan_component_def t0_def t1_def)
    have "tarjan_leave c t0 = Some t1"
    proof (cases frames)
      case Nil
      then show ?thesis using comp by (simp add: tarjan_leave_def t1_def)
    next
      case (Cons f fs)
      obtain p es where f: "f = (p, es)" by (cases f)
      have p: "p \<in> on_path t1" "p \<in> on_path t" "p \<in> fst ` set frames" using path by (simp_all add: t1_def Cons f)
      have "p \<in> dom (tj_index t)" using tj_dom(1,2) [OF o] p(2) by blast
      then have "tj_low t1 p \<noteq> None" using o unfolding tj_order_def by (simp add: t1_def)
      moreover have "low t1 p \<le> the (tj_low t1 c)"
      proof -
        obtain z where "low t p = rank t z" "rank t z \<le> rank t p" using tj_reachesD(3) [OF r p(2)] by blast
        moreover have "rank t p < rank t c" using top_frame(3) [OF o path p(3)] .
        ultimately have "low t p \<le> rank t c" by simp
        then show ?thesis using at_c True by (simp add: t1_def low_def)
      qed
      ultimately have "lower p (the (tj_low t1 c)) t1 = t1" by (rule lower_same)
      moreover have "tj_path t1 = (p, es) # fs" by (simp add: t1_def Cons f)
      moreover have "tj_low t0 c = tj_low t1 c" by (simp add: t0_def t1_def)
      ultimately show ?thesis using comp by (simp add: tarjan_leave_def)
    qed
    then show ?thesis using step ok1 by (simp add: t1_def)
  qed
qed

section \<open>The whole search\<close>

text \<open>What is left to do: every edge once, entering and leaving each channel.\<close>

definition tj_work :: "Graph \<Rightarrow> Tarjan \<Rightarrow> nat" where
  "tj_work g t = (\<Sum>c \<in> set (vertices g) - dom (tj_index t). 2 + length (edges_from g c)) + (\<Sum>(c, es) \<leftarrow> tj_path t. 1 + length es)"

lemma enter_work:
  assumes "c \<in> set (vertices g)" and "c \<notin> dom (tj_index t)"
  shows "tj_work g (tarjan_enter g c t) + 1 = tj_work g t"
proof -
  let ?f = "\<lambda>c. 2 + length (edges_from g c)"
  have "set (vertices g) - dom (tj_index (tarjan_enter g c t)) = (set (vertices g) - dom (tj_index t)) - {c}" by auto
  moreover have "sum ?f (set (vertices g) - dom (tj_index t)) = ?f c + sum ?f ((set (vertices g) - dom (tj_index t)) - {c})"
    using assms by (intro sum.remove) auto
  ultimately show ?thesis by (simp add: tj_work_def)
qed

lemma tarjan_run_ok:
  assumes verts: "\<forall>e \<in> set (graph_edges g). edge_to e \<in> set (vertices g)"
  shows "tj_ok g t \<Longrightarrow> \<exists>t'. tarjan_run g t = Some t' \<and> tj_ok g t' \<and> tj_path t' = [] \<and> dom (tj_index t) \<subseteq> dom (tj_index t')"
proof (induction "tj_work g t" arbitrary: t rule: less_induct)
  case less
  show ?case
  proof (cases "tj_path t")
    case Nil
    then show ?thesis using less.prems by (intro exI [of _ t]) (simp add: tarjan_run.simps)
  next
    case (Cons f frames)
    obtain c es where f: "f = (c, es)" by (cases f)
    have "\<exists>t'. tarjan_step g t = Some t' \<and> tj_ok g t' \<and> tj_work g t' < tj_work g t \<and> dom (tj_index t) \<subseteq> dom (tj_index t')"
    proof (cases es)
      case Nil
      then have path: "tj_path t = (c, []) # frames" using Cons f by simp
      obtain t' where t': "tarjan_step g t = Some t'" "tj_ok g t'" "tj_path t' = frames" "tj_index t' = tj_index t"
        using leave_ok [OF less.prems path] by blast
      then have "tj_work g t' < tj_work g t" by (simp add: tj_work_def path)
      then show ?thesis using t' by auto
    next
      case es: (Cons e es')
      then have path: "tj_path t = (c, e # es') # frames" using Cons f by simp
      have "set (e # es') \<subseteq> set (edges_from g c)" using less.prems path unfolding tj_ok_def tj_order_def by auto
      then have v: "edge_to e \<in> set (vertices g)" using verts by (auto simp: edges_from_def)
      define t0 where "t0 = t\<lparr>tj_path := (c, es') # frames\<rparr>"
      have step: "tarjan_step g t = Some (tarjan_edge g c e t0)" using path by (simp add: tarjan_step_def t0_def)
      have ok: "tj_ok g (tarjan_edge g c e t0)" unfolding t0_def by (rule tarjan_edge_ok [OF less.prems path v])
      have w0: "tj_work g t = tj_work g t0 + 1" by (simp add: tj_work_def path t0_def)
      have dom0: "tj_index t0 = tj_index t" by (simp add: t0_def)
      have "tj_work g (tarjan_edge g c e t0) \<le> tj_work g t0 \<and> dom (tj_index t0) \<subseteq> dom (tj_index (tarjan_edge g c e t0))"
      proof (cases "tj_index t0 (edge_to e)")
        case None
        then show ?thesis using enter_work [OF v, of t0] by (auto simp: tarjan_edge_def domIff)
      next
        case (Some n)
        then show ?thesis by (simp add: tarjan_edge_def tj_work_def)
      qed
      then show ?thesis using step ok w0 dom0 by auto
    qed
    then obtain t' where t': "tarjan_step g t = Some t'" "tj_ok g t'" "tj_work g t' < tj_work g t" "dom (tj_index t) \<subseteq> dom (tj_index t')" by blast
    obtain t'' where "tarjan_run g t' = Some t''" "tj_ok g t''" "tj_path t'' = []" "dom (tj_index t') \<subseteq> dom (tj_index t'')"
      using less.hyps [OF t'(3,2)] by blast
    moreover have "tarjan_run g t = tarjan_run g t'" using Cons t'(1) by (simp add: tarjan_run.simps [of g t])
    ultimately show ?thesis using t'(4) by auto
  qed
qed

lemma root_mid: "tj_ok g t \<Longrightarrow> tj_path t = [] \<Longrightarrow> tj_mid g None c t"
  unfolding tj_ok_def tj_mid_def tj_seen_def by simp

lemma tarjan_roots_ok:
  assumes verts: "\<forall>e \<in> set (graph_edges g). edge_to e \<in> set (vertices g)"
  shows "tj_ok g t \<Longrightarrow> tj_path t = [] \<Longrightarrow> set cs \<subseteq> set (vertices g) \<Longrightarrow>
    \<exists>t'. tarjan_roots g cs t = Some t' \<and> tj_ok g t' \<and> tj_path t' = [] \<and> dom (tj_index t) \<union> set cs \<subseteq> dom (tj_index t')"
proof (induction cs arbitrary: t)
  case (Cons c cs)
  show ?case
  proof (cases "tj_index t c = None")
    case False
    then obtain t' where "tarjan_roots g cs t = Some t'" "tj_ok g t'" "tj_path t' = []" "dom (tj_index t) \<union> set cs \<subseteq> dom (tj_index t')"
      using Cons.IH [OF Cons.prems(1,2)] Cons.prems(3) by auto
    moreover have "c \<in> dom (tj_index t)" using False by blast
    ultimately show ?thesis using False by auto
  next
    case True
    then have "tj_ok g (tarjan_enter g c t)" using enter_ok [OF root_mid [OF Cons.prems(1,2)]] Cons.prems(3) by auto
    then obtain t1 where t1: "tarjan_run g (tarjan_enter g c t) = Some t1" "tj_ok g t1" "tj_path t1 = []"
      "dom (tj_index (tarjan_enter g c t)) \<subseteq> dom (tj_index t1)"
      using tarjan_run_ok [OF verts] by blast
    then obtain t2 where "tarjan_roots g cs t1 = Some t2" "tj_ok g t2" "tj_path t2 = []" "dom (tj_index t1) \<union> set cs \<subseteq> dom (tj_index t2)"
      using Cons.IH [OF t1(2,3)] Cons.prems(3) by auto
    moreover have "insert c (dom (tj_index t)) \<subseteq> dom (tj_index t1)" using t1(4) by auto
    ultimately have "dom (tj_index t) \<union> set (c # cs) \<subseteq> dom (tj_index t2)" unfolding list.set by blast
    then show ?thesis using True t1(1) \<open>tarjan_roots g cs t1 = Some t2\<close> \<open>tj_ok g t2\<close> \<open>tj_path t2 = []\<close> by simp
  qed
qed simp

lemma compare_heads: "compareChannels (hd a) (hd b) \<le> 0 \<longleftrightarrow> channel_points (hd a) \<le> channel_points (hd b)"
  by (rule compareChannels_le)

lemma cycles_listed:
  assumes verts: "\<forall>e \<in> set (graph_edges g). edge_to e \<in> set (vertices g)"
  shows "\<exists>cs. cycles g = Some cs \<and> distinct (map set cs) \<and> sorted_wrt (\<lambda>a b. compareChannels (hd a) (hd b) \<le> 0) cs \<and>
    (\<forall>cy \<in> set cs. cy = sortedChannels cy) \<and> set ` set cs = {scc g c | c. c \<in> set (vertices g) \<and> scc g c \<noteq> {c}}"
proof -
  obtain t where t: "tarjan_roots g (vertices g) new_Tarjan = Some t" "tj_ok g t" "tj_path t = []" "set (vertices g) \<subseteq> dom (tj_index t)"
    using tarjan_roots_ok [OF verts tj_ok_new, of "vertices g"] by (auto simp: new_Tarjan_def)
  have o: "tj_order g t" and l: "tj_listed g t" and r: "tj_reaches g t" using t(2) by (simp_all add: tj_ok_def)
  have "tj_stack t = []" using path_empty [OF r t(3)] .
  moreover have "dom (tj_index t) \<subseteq> set (vertices g)" using o unfolding tj_order_def by blast
  ultimately have fin: "finished t = set (vertices g)" using t(4) by auto
  let ?cs = "sort_by (\<lambda>a b. compareChannels (hd a) (hd b)) (tj_cycles t)"
  have keyed: "?cs = sort_key (\<lambda>a. channel_points (hd a)) (tj_cycles t)" by (rule sort_by_key) (rule compare_heads)
  note parts = l [unfolded tj_listed_def fin]
  have "mset (map set ?cs) = mset (map set (tj_cycles t))" unfolding keyed by simp
  then have "distinct (map set ?cs)" using conjunct1 [OF parts] mset_eq_imp_distinct_iff by blast
  moreover have "sorted_wrt (\<lambda>a b. compareChannels (hd a) (hd b) \<le> 0) ?cs"
    unfolding keyed compareChannels_le by (metis sorted_map sorted_sort_key)
  moreover have all: "cy = sortedChannels cy \<and> 1 < length cy \<and> set cy \<subseteq> set (vertices g) \<and> (\<exists>c. set cy = scc g c)" if "cy \<in> set (tj_cycles t)" for cy
    using conjunct1 [OF conjunct2 [OF parts]] that by (rule bspec)
  moreover have "set ` set (tj_cycles t) = {scc g c | c. c \<in> set (vertices g) \<and> scc g c \<noteq> {c}}"
  proof (intro set_eqI iffI)
    fix X assume "X \<in> set ` set (tj_cycles t)"
    then obtain cy where cy: "cy \<in> set (tj_cycles t)" "X = set cy" by blast
    then obtain c where c: "set cy = scc g c" using all by blast
    have c_in: "c \<in> scc g c" by (simp add: scc_def)
    have "distinct cy" using all [OF cy(1)] by (metis sortedChannels_set(2))
    then have "1 < card (set cy)" using all [OF cy(1)] by (simp add: distinct_card)
    then have "scc g c \<noteq> {c}" using c by auto
    then show "X \<in> {scc g c | c. c \<in> set (vertices g) \<and> scc g c \<noteq> {c}}" using all [OF cy(1)] cy(2) c c_in by blast
  next
    fix X assume "X \<in> {scc g c | c. c \<in> set (vertices g) \<and> scc g c \<noteq> {c}}"
    then show "X \<in> set ` set (tj_cycles t)" using conjunct2 [OF conjunct2 [OF parts]] by blast
  qed
  moreover have "cycles g = Some ?cs" by (simp add: cycles_def t(1))
  ultimately show ?thesis by (intro exI [of _ ?cs]) simp
qed

end
