(* ===== verification/Continuity_Contexts.thy ===== *)
theory Continuity_Contexts
  imports Continuity_Graph
begin

text \<open>
  The contexts one kind of edge connects, \<open>Contexts\<close> of
  \<^verbatim>\<open>packages/continuity/src/graph.ts\<close>: a union-find over channel keys with path
  compression, the smaller key the root. \<open>contexts_least\<close>: building it ends, and the
  root of a key is the least key of those connected to it, whatever the order of the edges.
\<close>

type_synonym Parents = "js_string \<rightharpoonup> js_string"

partial_function (option) find_root :: "Parents \<Rightarrow> js_string \<Rightarrow> js_string option" where
  "find_root p root =
     (case p root of
        None \<Rightarrow> Some root
      | Some q \<Rightarrow> if q = root then Some root else find_root p q)"

text \<open>Every node on the way is set to the root; a node with no parent before the root is not on the way.\<close>

partial_function (option) compress :: "Parents \<Rightarrow> js_string \<Rightarrow> js_string \<Rightarrow> Parents option" where
  "compress p node root =
     (if node = root then Some p
      else case p node of None \<Rightarrow> None | Some q \<Rightarrow> compress (p(node \<mapsto> root)) q root)"

declare find_root.simps [code] compress.simps [code]

definition uf_find :: "js_string \<Rightarrow> Parents \<Rightarrow> (js_string \<times> Parents) option" where
  "uf_find key p =
     (case find_root p key of
        None \<Rightarrow> None
      | Some root \<Rightarrow> map_option (Pair root) (compress p key root))"

definition uf_own :: "js_string \<Rightarrow> Parents \<Rightarrow> Parents" where
  "uf_own a p = (if p a = None then p(a \<mapsto> a) else p)"

definition uf_union :: "js_string \<Rightarrow> js_string \<Rightarrow> Parents \<Rightarrow> Parents option" where
  "uf_union a b p =
     (case uf_find a (uf_own b (uf_own a p)) of
        None \<Rightarrow> None
      | Some (ra, p) \<Rightarrow>
          case uf_find b p of
            None \<Rightarrow> None
          | Some (rb, p) \<Rightarrow>
              Some (if ra = rb then p else if compareUtf8 ra rb < 0 then p(rb \<mapsto> ra) else p(ra \<mapsto> rb)))"

fun uf_unions :: "(js_string \<times> js_string) list \<Rightarrow> Parents \<Rightarrow> Parents option" where
  "uf_unions [] p = Some p"
| "uf_unions ((a, b) # pairs) p = (case uf_union a b p of None \<Rightarrow> None | Some p \<Rightarrow> uf_unions pairs p)"

definition side_pairs :: "Graph \<Rightarrow> Replaces \<Rightarrow> (js_string \<times> js_string) list" where
  "side_pairs g side = map (\<lambda>e. (channelKey (edge_from e), channelKey (edge_to e))) (filter (\<lambda>e. replaces e = side) (all_edges g))"

definition new_Contexts :: "Graph \<Rightarrow> Replaces \<Rightarrow> Parents option" where
  "new_Contexts g side = uf_unions (side_pairs g side) Map.empty"

definition context_root :: "js_string \<Rightarrow> Parents \<Rightarrow> (js_string \<times> Parents) option" where
  "context_root key p = (if p key \<noteq> None then uf_find key p else Some (key, p))"

section \<open>Roots\<close>

text \<open>A parent is never a greater key.\<close>

definition uf_ok :: "Parents \<Rightarrow> bool" where
  "uf_ok p \<longleftrightarrow> finite (dom p) \<and> (\<forall>k q. p k = Some q \<longrightarrow> raw_points q \<le> raw_points k \<and> q \<in> dom p)"

definition below :: "Parents \<Rightarrow> js_string \<Rightarrow> nat" where
  "below p k = card {q \<in> dom p. raw_points q < raw_points k}"

lemma below_less:
  assumes "uf_ok p" and "p k = Some q" and "q \<noteq> k"
  shows "below p q < below p k"
proof -
  have "raw_points q \<noteq> raw_points k" using assms(3) by simp
  then have q: "raw_points q < raw_points k" "q \<in> dom p" using assms by (auto simp: uf_ok_def intro: le_neq_trans)
  have "finite {q \<in> dom p. raw_points q < raw_points k}" using assms(1) by (simp add: uf_ok_def)
  moreover have "{x \<in> dom p. raw_points x < raw_points q} \<subset> {x \<in> dom p. raw_points x < raw_points k}"
    using q by (auto intro: less_trans)
  ultimately show ?thesis unfolding below_def by (rule psubset_card_mono)
qed

definition rep :: "Parents \<Rightarrow> js_string \<Rightarrow> js_string" where
  "rep p k = the (find_root p k)"

lemma uf_induct [consumes 1, case_names step]:
  assumes "uf_ok p" and "\<And>k. (\<And>q. p k = Some q \<Longrightarrow> q \<noteq> k \<Longrightarrow> P q) \<Longrightarrow> P k"
  shows "P k"
proof (induction "below p k" arbitrary: k rule: less_induct)
  case less
  then show ?case using below_less [OF assms(1)] assms(2) by blast
qed

lemma find_root_some:
  assumes "uf_ok p"
  shows "find_root p k = Some (rep p k)"
  using assms
proof (induction k rule: uf_induct)
  case (step k)
  show ?case
  proof (cases "\<exists>q. p k = Some q \<and> q \<noteq> k")
    case True
    then obtain q where q: "p k = Some q" "q \<noteq> k" by blast
    then have "find_root p k = find_root p q" by (simp add: find_root.simps [of p k])
    moreover have "find_root p q = Some (rep p q)" using step [OF q] .
    ultimately show ?thesis unfolding rep_def by (metis option.sel)
  next
    case False
    then have "p k = None \<or> p k = Some k" by (cases "p k") auto
    then have "find_root p k = Some k" by (auto simp: find_root.simps [of p k])
    then show ?thesis by (simp add: rep_def)
  qed
qed

lemma rep_step: "rep p k = (case p k of None \<Rightarrow> k | Some q \<Rightarrow> if q = k then k else rep p q)"
  by (simp add: rep_def find_root.simps [of p k] split: option.splits)

lemma rep_root:
  assumes "uf_ok p"
  shows "p (rep p k) = None \<or> p (rep p k) = Some (rep p k)"
  using assms
proof (induction k rule: uf_induct)
  case (step k)
  then show ?case using rep_step [of p k] by (cases "p k") (auto split: if_splits)
qed

lemma rep_le:
  assumes "uf_ok p"
  shows "raw_points (rep p k) \<le> raw_points k"
  using assms
proof (induction k rule: uf_induct)
  case (step k)
  show ?case
  proof (cases "p k")
    case (Some q)
    then have "raw_points q \<le> raw_points k" using assms by (auto simp: uf_ok_def)
    then show ?thesis using Some step rep_step [of p k] by (auto intro: order_trans)
  qed (use rep_step [of p k] in simp)
qed

lemma rep_dom:
  assumes "uf_ok p"
  shows "k \<in> dom p \<Longrightarrow> rep p k \<in> dom p"
  using assms
proof (induction k rule: uf_induct)
  case (step k)
  then obtain q where q: "p k = Some q" by auto
  then have "q \<in> dom p" using assms by (auto simp: uf_ok_def)
  then show ?case using step q rep_step [of p k] by (cases "q = k") simp_all
qed

lemma rep_fixed: "uf_ok p \<Longrightarrow> p r = None \<or> p r = Some r \<Longrightarrow> rep p r = r"
  by (auto simp: rep_step [of p r])

text \<open>One parent changed: the root of each key is that of where it now leads.\<close>

lemma rep_update:
  assumes "uf_ok p" and "uf_ok (p(k \<mapsto> r))" and f: "f k = f r" "f r = r" "r = k \<or> p r = None \<or> p r = Some r"
    and other: "\<And>x. x \<noteq> k \<Longrightarrow> f x = (case p x of None \<Rightarrow> x | Some q \<Rightarrow> if q = x then x else f q)"
  shows "rep (p(k \<mapsto> r)) x = f x"
proof -
  define p' where "p' = p(k \<mapsto> r)"
  have ok: "uf_ok p'" using assms(2) by (simp add: p'_def)
  have at: "p' k = Some r" "\<And>x. x \<noteq> k \<Longrightarrow> p' x = p x" by (simp_all add: p'_def)
  have "rep p' r = r" using f(3) at by (intro rep_fixed [OF ok]) (cases "r = k"; auto)
  then have k: "rep p' k = f k" using rep_step [of p' k] at f(1,2) by simp
  have "rep p' x = f x" using ok
  proof (induction x rule: uf_induct)
    case (step x)
    show ?case
    proof (cases "x = k")
      case False
      then show ?thesis using step.IH other [OF False] rep_step [of p' x] at(2) [of x] by (cases "p x") auto
    qed (simp add: k)
  qed
  then show ?thesis by (simp add: p'_def)
qed

lemma uf_ok_update:
  assumes "uf_ok p" and "raw_points r \<le> raw_points k" and "r \<in> dom p \<or> r = k"
  shows "uf_ok (p(k \<mapsto> r))"
  using assms by (auto simp: uf_ok_def)

lemma compress_ok:
  "uf_ok p \<Longrightarrow> rep p node = root \<Longrightarrow> \<exists>p'. compress p node root = Some p' \<and> uf_ok p' \<and> dom p' = dom p \<and> rep p' = rep p"
proof (induction "below p node" arbitrary: p node rule: less_induct)
  case less
  show ?case
  proof (cases "node = root")
    case True
    then show ?thesis using less.prems by (auto simp: compress.simps)
  next
    case False
    obtain q where q: "p node = Some q" "q \<noteq> node"
      using False less.prems rep_step [of p node] by (cases "p node") (auto split: if_splits)
    have root: "rep p q = root" using rep_step [of p node] q less.prems(2) by simp
    have r: "raw_points root \<le> raw_points node" "root \<in> dom p" "p root = Some root"
      using rep_le [OF less.prems(1), of node] rep_dom [OF less.prems(1), of node] rep_root [OF less.prems(1), of node] q less.prems(2) by auto
    let ?p = "p(node \<mapsto> root)"
    have ok: "uf_ok ?p" using less.prems(1) r by (intro uf_ok_update) auto
    have same: "rep ?p = rep p"
    proof
      fix x
      show "rep ?p x = rep p x"
        using less.prems r rep_step rep_fixed [OF less.prems(1)]
        by (intro rep_update [OF less.prems(1) ok]) auto
    qed
    have dom: "dom ?p = dom p" using q by auto
    then have "below ?p q < below p node" using below_less [OF less.prems(1) q] by (simp add: below_def)
    then obtain p' where p': "compress ?p q root = Some p'" "uf_ok p'" "dom p' = dom ?p" "rep p' = rep ?p"
      using less.hyps [of ?p q] ok root same by auto
    then show ?thesis using False q same dom by (intro exI [of _ p']) (simp add: compress.simps [of p])
  qed
qed

lemma uf_find_ok:
  assumes "uf_ok p"
  shows "\<exists>p'. uf_find k p = Some (rep p k, p') \<and> uf_ok p' \<and> dom p' = dom p \<and> rep p' = rep p"
  using compress_ok [OF assms refl, of k] by (auto simp: uf_find_def find_root_some [OF assms])

text \<open>A query compresses paths and moves no root.\<close>

lemma context_root_ok:
  assumes "uf_ok p"
  shows "\<exists>p'. context_root k p = Some (rep p k, p') \<and> uf_ok p' \<and> dom p' = dom p \<and> rep p' = rep p"
  using uf_find_ok [OF assms, of k] assms by (auto simp: context_root_def rep_step [of p k])

lemma uf_own_ok:
  assumes "uf_ok p"
  shows "uf_ok (uf_own a p)" and "rep (uf_own a p) = rep p" and "a \<in> dom (uf_own a p)" and "dom p \<subseteq> dom (uf_own a p)"
proof -
  show ok: "uf_ok (uf_own a p)" using assms by (auto simp: uf_own_def intro: uf_ok_update)
  show "rep (uf_own a p) = rep p"
  proof (cases "p a")
    case None
    then have own: "uf_own a p = p(a \<mapsto> a)" by (simp add: uf_own_def)
    show ?thesis
    proof
      fix x
      show "rep (uf_own a p) x = rep p x"
        unfolding own using ok None rep_step rep_fixed [OF assms]
        by (intro rep_update [OF assms]) (auto simp: own)
    qed
  qed (simp add: uf_own_def)
qed (auto simp: uf_own_def)

lemma uf_union_ok:
  assumes "uf_ok p"
  shows "\<exists>p' lo hi. uf_union a b p = Some p' \<and> uf_ok p' \<and> {lo, hi} = {rep p a, rep p b} \<and>
    (\<forall>x. rep p' x = (if rep p x = hi then lo else rep p x))"
proof -
  define p0 where "p0 = uf_own b (uf_own a p)"
  have p0: "uf_ok p0" "rep p0 = rep p" "a \<in> dom p0" "b \<in> dom p0"
    using uf_own_ok [OF assms, of a] uf_own_ok [of "uf_own a p" b] by (auto simp: p0_def)
  obtain p1 where p1: "uf_find a p0 = Some (rep p a, p1)" "uf_ok p1" "dom p1 = dom p0" "rep p1 = rep p"
    using uf_find_ok [OF p0(1), of a] p0(2) by auto
  obtain p2 where p2: "uf_find b p1 = Some (rep p b, p2)" "uf_ok p2" "dom p2 = dom p0" "rep p2 = rep p"
    using uf_find_ok [OF p1(2), of b] p1(3,4) by auto
  have run: "uf_union a b p = Some (if rep p a = rep p b then p2
      else if compareUtf8 (rep p a) (rep p b) < 0 then p2(rep p b \<mapsto> rep p a) else p2(rep p a \<mapsto> rep p b))"
    using p1(1) p2(1) by (simp add: uf_union_def p0_def)
  show ?thesis
  proof (cases "rep p a = rep p b")
    case True
    then show ?thesis using run p2 by (intro exI [of _ p2] exI [of _ "rep p a"]) auto
  next
    case False
    define lo where "lo = (if compareUtf8 (rep p a) (rep p b) < 0 then rep p a else rep p b)"
    define hi where "hi = (if compareUtf8 (rep p a) (rep p b) < 0 then rep p b else rep p a)"
    have both: "{lo, hi} = {rep p a, rep p b}" "lo \<noteq> hi" using False by (auto simp: lo_def hi_def)
    have le: "raw_points lo \<le> raw_points hi" using compareUtf8_sign [of "rep p a" "rep p b"] by (auto simp: lo_def hi_def)
    have roots: "p2 lo = Some lo" "p2 hi = Some hi"
      using rep_root [OF p2(2), of a] rep_root [OF p2(2), of b] rep_dom [OF p2(2), of a] rep_dom [OF p2(2), of b] p0(3,4) p2(3,4) by (auto simp: lo_def hi_def)
    have still: "rep p lo = lo" "rep p hi = hi" using rep_fixed [OF p2(2)] roots p2(4) by auto
    have run': "uf_union a b p = Some (p2(hi \<mapsto> lo))" using run False by (auto simp: lo_def hi_def)
    have ok: "uf_ok (p2(hi \<mapsto> lo))" using p2(2) le roots by (intro uf_ok_update) auto
    have "rep (p2(hi \<mapsto> lo)) x = (if rep p x = hi then lo else rep p x)" for x
    proof (rule rep_update [OF p2(2) ok])
      fix x assume "x \<noteq> hi"
      then show "(if rep p x = hi then lo else rep p x) =
          (case p2 x of None \<Rightarrow> x | Some q \<Rightarrow> if q = x then x else if rep p q = hi then lo else rep p q)"
        using rep_step [of p2 x] still unfolding p2(4) by (cases "p2 x") auto
    qed (use still both roots in auto)
    then show ?thesis using run' ok both(1) by blast
  qed
qed

section \<open>Connected keys\<close>

inductive connected :: "(js_string \<times> js_string) set \<Rightarrow> js_string \<Rightarrow> js_string \<Rightarrow> bool" for E where
  stay [intro]: "connected E a a"
| along: "connected E a b \<Longrightarrow> (b, c) \<in> E \<Longrightarrow> connected E a c"
| against: "connected E a b \<Longrightarrow> (c, b) \<in> E \<Longrightarrow> connected E a c"

lemma connected_trans: "connected E b c \<Longrightarrow> connected E a b \<Longrightarrow> connected E a c"
  by (induction rule: connected.induct) (auto intro: connected.intros)

lemma connected_sym: "connected E a b \<Longrightarrow> connected E b a"
proof (induction rule: connected.induct)
  case (along a b c)
  have "connected E c b" using connected.against [OF stay along.hyps(2)] .
  then show ?case using connected_trans [OF along.IH] by blast
next
  case (against a b c)
  have "connected E c b" using connected.along [OF stay against.hyps(2)] .
  then show ?case using connected_trans [OF against.IH] by blast
qed auto

lemma connected_mono: "connected E a b \<Longrightarrow> E \<subseteq> F \<Longrightarrow> connected F a b"
  by (induction rule: connected.induct) (auto intro: connected.intros)

text \<open>Each key is connected to its root, and the ends of each pair have one root.\<close>

definition represents :: "Parents \<Rightarrow> (js_string \<times> js_string) set \<Rightarrow> bool" where
  "represents p E \<longleftrightarrow> uf_ok p \<and> (\<forall>x. connected E x (rep p x)) \<and> (\<forall>(a, b) \<in> E. rep p a = rep p b)"

lemma represents_union:
  assumes "represents p E"
  shows "\<exists>p'. uf_union a b p = Some p' \<and> represents p' (insert (a, b) E)"
proof -
  have p: "uf_ok p" and to_root: "\<And>x. connected E x (rep p x)" and pairs: "\<And>a b. (a, b) \<in> E \<Longrightarrow> rep p a = rep p b"
    using assms by (auto simp: represents_def)
  let ?E = "insert (a, b) E"
  obtain p' lo hi where p': "uf_union a b p = Some p'" "uf_ok p'" "{lo, hi} = {rep p a, rep p b}"
    "\<And>x. rep p' x = (if rep p x = hi then lo else rep p x)"
    using uf_union_ok [OF p, of a b] by blast
  have root': "connected ?E x (rep p x)" for x using connected_mono [OF to_root] by blast
  have ab: "connected ?E a b" using connected.along [of ?E a a b] by auto
  have "connected ?E (rep p a) (rep p b)"
    using connected_trans [OF connected_trans [OF root' ab] connected_sym [OF root']] .
  then have "connected ?E hi lo" using p'(3) connected_sym by (auto simp: doubleton_eq_iff)
  then have "connected ?E x (rep p' x)" for x using root' [of x] connected_trans by (auto simp: p'(4))
  moreover have "rep p' c = rep p' d" if "(c, d) \<in> ?E" for c d
    using that pairs p'(3) by (auto simp: p'(4) doubleton_eq_iff)
  ultimately show ?thesis using p'(1,2) by (auto simp: represents_def)
qed

lemma represents_unions:
  "represents p E \<Longrightarrow> \<exists>p'. uf_unions pairs p = Some p' \<and> represents p' (E \<union> set pairs)"
proof (induction pairs arbitrary: p E)
  case (Cons ab pairs)
  obtain a b where ab: "ab = (a, b)" by (cases ab)
  obtain p1 where "uf_union a b p = Some p1" "represents p1 (insert (a, b) E)" using represents_union [OF Cons.prems] by blast
  then show ?case using Cons.IH [of p1 "insert (a, b) E"] by (auto simp: ab)
qed simp

lemma represents_root:
  assumes "represents p E"
  shows "rep p a = rep p b \<longleftrightarrow> connected E a b"
proof
  assume "rep p a = rep p b"
  moreover have "connected E a (rep p a)" "connected E b (rep p b)" using assms by (auto simp: represents_def)
  ultimately show "connected E a b" using connected_trans connected_sym by metis
next
  assume "connected E a b"
  then show "rep p a = rep p b"
  proof (induction rule: connected.induct)
    case (along a b c)
    then show ?case using assms by (auto simp: represents_def)
  next
    case (against a b c)
    then have "rep p c = rep p b" using assms by (auto simp: represents_def)
    then show ?case using against.IH by simp
  qed simp
qed

text \<open>The contexts of a side: built from its edges, each key's root is the least key connected to it.\<close>

lemma contexts_built:
  "\<exists>p. new_Contexts g side = Some p \<and> uf_ok p \<and> (\<forall>a b. rep p a = rep p b \<longleftrightarrow> connected (set (side_pairs g side)) a b) \<and>
    (\<forall>k p'. context_root k p = Some p' \<longrightarrow> fst p' = rep p k)"
proof -
  have "uf_ok Map.empty" by (simp add: uf_ok_def)
  moreover have "rep Map.empty x = x" for x by (simp add: rep_def find_root.simps)
  ultimately have "represents Map.empty {}" by (auto simp: represents_def)
  then obtain p where p: "new_Contexts g side = Some p" "represents p (set (side_pairs g side))"
    using represents_unions [of Map.empty "{}" "side_pairs g side"] by (auto simp: new_Contexts_def)
  moreover have ok: "uf_ok p" using p(2) by (simp add: represents_def)
  moreover have "fst p' = rep p k" if "context_root k p = Some p'" for k p' using context_root_ok [OF ok, of k] that by auto
  ultimately show ?thesis using represents_root by blast
qed

lemma contexts_least:
  "\<exists>p. new_Contexts g side = Some p \<and> (\<forall>k. \<exists>r p'. context_root k p = Some (r, p') \<and>
     connected (set (side_pairs g side)) k r \<and> (\<forall>j. connected (set (side_pairs g side)) k j \<longrightarrow> compareUtf8 r j \<le> 0))"
proof -
  obtain p where p: "new_Contexts g side = Some p" "uf_ok p"
    and eq: "\<And>a b. rep p a = rep p b \<longleftrightarrow> connected (set (side_pairs g side)) a b"
    using contexts_built [of g side] by blast
  have "\<exists>r p'. context_root k p = Some (r, p') \<and> connected (set (side_pairs g side)) k r \<and>
      (\<forall>j. connected (set (side_pairs g side)) k j \<longrightarrow> compareUtf8 r j \<le> 0)" for k
  proof -
    obtain p' where "context_root k p = Some (rep p k, p')" using context_root_ok [OF p(2), of k] by blast
    moreover have "connected (set (side_pairs g side)) k (rep p k)"
      using eq rep_fixed [OF p(2) rep_root [OF p(2)]] by metis
    moreover have "compareUtf8 (rep p k) j \<le> 0" if "connected (set (side_pairs g side)) k j" for j
    proof -
      have "rep p k = rep p j" using eq that by blast
      then show ?thesis using rep_le [OF p(2), of j] compareUtf8_sign [of "rep p k" j] by auto
    qed
    ultimately show ?thesis by blast
  qed
  then show ?thesis using p(1) by blast
qed

end
