(* ===== verification/Continuity_Model.thy ===== *)
theory Continuity_Model
  imports Didcomm_Documents Continuity_Cycles Continuity_Contexts
begin

text \<open>
  The continuity model, \<^verbatim>\<open>packages/continuity/src/model.ts\<close>: the facts accepted, the
  positive closure, the contexts and conflicts over it, the usable closure, and the
  queries. \<open>serialize\<close>, the RFC 8785 text of a fact, is a parameter. A map keyed by
  \<open>channelKey\<close> is keyed by the channel; a query that walks a union-find compresses its
  paths, which moves no root (\<open>context_root_ok\<close>), so a query does not return the
  model anew.
\<close>

type_synonym identity_text = "ContinuityFact \<Rightarrow> FactIdentity"

section \<open>Facts and the claims they make\<close>

text \<open>\<open>Map.set\<close>: a key keeps its place.\<close>

definition put_fact :: "FactIdentity \<times> ContinuityFact \<Rightarrow> (FactIdentity \<times> ContinuityFact) list \<Rightarrow> (FactIdentity \<times> ContinuityFact) list" where
  "put_fact entry m =
     (if fst entry \<in> fst ` set m then map (\<lambda>e. if fst e = fst entry then entry else e) m else m @ [entry])"

fun accept_from :: "identity_text \<Rightarrow> nat \<Rightarrow> unknown_value list \<Rightarrow> (FactIdentity \<times> ContinuityFact) list \<Rightarrow>
    InvalidFact + (FactIdentity \<times> ContinuityFact) list" where
  "accept_from serialize i [] accepted = Inr accepted"
| "accept_from serialize i (value # values) accepted =
     and_then (validateFact value (''facts['' @ decimal i @ '']'')) (\<lambda>f.
       accept_from serialize (i + 1) values (put_fact (serialize f, f) accepted))"

definition accept :: "identity_text \<Rightarrow> unknown_value list \<Rightarrow> InvalidFact + (FactIdentity \<times> ContinuityFact) list" where
  "accept serialize values =
     and_then (accept_from serialize 0 values []) (\<lambda>accepted. Inr (sort_by (\<lambda>a b. compareUtf8 (fst a) (fst b)) accepted))"

fun fact_at :: "ContinuityFact \<Rightarrow> Channel" where
  "fact_at (PeerObservation c prior) = c"
| "fact_at (PeerEnding c) = c"
| "fact_at (LocalDecision c change) = c"

record Claim =
  claim_side :: Replaces
  claim_at :: Channel
  claim_change :: Change
  claim_to :: "Channel option"

fun claimOf :: "ContinuityFact \<Rightarrow> Claim option" where
  "claimOf (PeerObservation c prior) =
     (case prior of
        None \<Rightarrow> None
      | Some old \<Rightarrow> Some \<lparr>claim_side = Peer, claim_at = channelOf (localDid c) old, claim_change = Rotate (peerDid c), claim_to = Some c\<rparr>)"
| "claimOf (PeerEnding c) = Some \<lparr>claim_side = Peer, claim_at = c, claim_change = End, claim_to = None\<rparr>"
| "claimOf (LocalDecision c change) =
     Some \<lparr>claim_side = Local, claim_at = c, claim_change = change,
       claim_to = (case change of End \<Rightarrow> None | Rotate successor \<Rightarrow> Some (channelOf successor (peerDid c)))\<rparr>"

record Entry =
  entry_fact :: ContinuityFact
  entry_identity :: FactIdentity
  entry_claim :: "Claim option"
  entry_sites :: "Channel list"
  entry_pairs :: "Channel list"

definition entryOf :: "FactIdentity \<Rightarrow> ContinuityFact \<Rightarrow> Entry" where
  "entryOf i f =
     (let claim = claimOf f;
          sites = sortedChannels (fact_at f # (case claim of None \<Rightarrow> [] | Some c \<Rightarrow> [claim_at c])) in
      \<lparr>entry_fact = f, entry_identity = i, entry_claim = claim, entry_sites = sites,
       entry_pairs = sortedChannels (sites @ (case claim of None \<Rightarrow> [] | Some c \<Rightarrow> (case claim_to c of None \<Rightarrow> [] | Some d \<Rightarrow> [d])))\<rparr>)"

text \<open>The entries that claim a change of a side, with the claim.\<close>

definition claiming :: "Replaces \<Rightarrow> Entry \<Rightarrow> Claim option" where
  "claiming side e = (case entry_claim e of None \<Rightarrow> None | Some c \<Rightarrow> if claim_side c = side then Some c else None)"

section \<open>Confirmation\<close>

definition claim_link :: "Replaces \<Rightarrow> Entry \<Rightarrow> Link option" where
  "claim_link side e =
     (case claiming side e of
        None \<Rightarrow> None
      | Some c \<Rightarrow> map_option (\<lambda>d. \<lparr>link_identity = entry_identity e, link_from = claim_at c, link_to = d\<rparr>) (claim_to c))"

definition peerLinks :: "(Entry \<Rightarrow> bool) \<Rightarrow> Entry list \<Rightarrow> Link list" where
  "peerLinks admits es = List.map_filter (claim_link Peer) (filter admits es)"

definition candidates :: "(Entry \<Rightarrow> bool) \<Rightarrow> Entry list \<Rightarrow> Link list" where
  "candidates admits es = List.map_filter (claim_link Local) (filter admits es)"

text \<open>By local DID, then by peer DID, the observations of the peer writing to that local DID.\<close>

type_synonym Writers = "did \<rightharpoonup> (did \<rightharpoonup> Entry list)"

definition add_writer :: "Entry \<Rightarrow> Writers \<Rightarrow> Writers" where
  "add_writer e w =
     (let c = fact_at (entry_fact e);
          peers = (case w (localDid c) of None \<Rightarrow> Map.empty | Some peers \<Rightarrow> peers);
          seen = (case peers (peerDid c) of None \<Rightarrow> [] | Some seen \<Rightarrow> seen) in
      w(localDid c \<mapsto> peers(peerDid c \<mapsto> seen @ [e])))"

fun is_observation :: "ContinuityFact \<Rightarrow> bool" where
  "is_observation (PeerObservation c prior) = True"
| "is_observation f = False"

definition writersOf :: "(Entry \<Rightarrow> bool) \<Rightarrow> Entry list \<Rightarrow> Writers" where
  "writersOf admits es = fold add_writer (filter (\<lambda>e. is_observation (entry_fact e) \<and> admits e) es) Map.empty"

definition path_support :: "Edge list \<Rightarrow> FactIdentity list" where
  "path_support via = concat (map support via)"

definition confirming :: "Writers \<Rightarrow> Graph \<Rightarrow> Link \<Rightarrow> FactIdentity list option" where
  "confirming writers g l =
     (case writers (localDid (link_from l)) of
        None \<Rightarrow> None
      | Some peers \<Rightarrow>
          let reach = graph_reach g (link_from l) (Some Peer) None;
              found = concat (map (\<lambda>c.
                case peers (peerDid c) of
                  None \<Rightarrow> []
                | Some seen \<Rightarrow> concat (map (\<lambda>ob. entry_identity ob # path_support (the (pathTo reach c))) seen)) (reach_channels reach)) in
          if found = [] then None else Some found)"

section \<open>Conflicts\<close>

datatype Conflict =
  CompetingChanges Replaces "Channel list" "(Change \<times> ContinuityFact list) list" "Channel list"
| Cycle "Channel list" "ContinuityFact list" "Channel list"
| Collision "Channel list" "ContinuityFact list" "Channel list"

fun conflict_scope :: "Conflict \<Rightarrow> Channel list" where
  "conflict_scope (CompetingChanges side context changes scope) = scope"
| "conflict_scope (Cycle channels facts scope) = scope"
| "conflict_scope (Collision channels facts scope) = scope"

fun conflict_kind :: "Conflict \<Rightarrow> js_string" where
  "conflict_kind (CompetingChanges side context changes scope) = js ''competing-changes''"
| "conflict_kind (Cycle channels facts scope) = js ''cycle''"
| "conflict_kind (Collision channels facts scope) = js ''identity-collision''"

fun firstChannelOf :: "Conflict \<Rightarrow> Channel" where
  "firstChannelOf (CompetingChanges side context changes scope) = hd context"
| "firstChannelOf (Cycle channels facts scope) = hd channels"
| "firstChannelOf (Collision channels facts scope) = hd channels"

definition factsOf :: "Entry list \<Rightarrow> FactIdentity list \<Rightarrow> ContinuityFact list" where
  "factsOf es identities =
     map (\<lambda>i. the (map_of (map (\<lambda>e. (entry_identity e, entry_fact e)) es) i)) (sort_by compareUtf8 (add_all [] identities))"

text \<open>The root of a key, as a query finds it.\<close>

definition root_in :: "Parents \<Rightarrow> js_string \<Rightarrow> js_string" where
  "root_in p key = (case context_root key p of None \<Rightarrow> key | Some (top_key, _) \<Rightarrow> top_key)"

definition contextOf :: "Parents \<Rightarrow> Graph \<Rightarrow> Channel \<Rightarrow> Channel list" where
  "contextOf contexts g c =
     sortedChannels (c # filter (\<lambda>v. root_in contexts (channelKey v) = root_in contexts (channelKey c)) (vertices g))"

text \<open>The claims of one side grouped by their context, and in it by the change they claim.\<close>

record ChangeGroup =
  group_root :: js_string
  group_channel :: Channel
  group_successors :: "Channel list"
  group_changes :: "(Change \<times> FactIdentity list) list"

definition add_change :: "Change \<Rightarrow> FactIdentity \<Rightarrow> (Change \<times> FactIdentity list) list \<Rightarrow> (Change \<times> FactIdentity list) list" where
  "add_change change i changes =
     (if list_ex (\<lambda>(c, _). changeKey c = changeKey change) changes
      then map (\<lambda>(c, is). if changeKey c = changeKey change then (c, is @ [i]) else (c, is)) changes
      else changes @ [(change, [i])])"

definition open_group :: "js_string \<Rightarrow> Claim \<Rightarrow> ChangeGroup list \<Rightarrow> ChangeGroup list" where
  "open_group r c groups =
     (if list_ex (\<lambda>gr. group_root gr = r) groups then groups
      else groups @ [\<lparr>group_root = r, group_channel = claim_at c, group_successors = [], group_changes = []\<rparr>])"

definition note_claim :: "js_string \<Rightarrow> FactIdentity \<Rightarrow> Claim \<Rightarrow> ChangeGroup \<Rightarrow> ChangeGroup" where
  "note_claim r i c gr =
     (if group_root gr = r
      then gr\<lparr>group_changes := add_change (claim_change c) i (group_changes gr),
        group_successors := group_successors gr @ (case claim_to c of None \<Rightarrow> [] | Some d \<Rightarrow> [d])\<rparr>
      else gr)"

definition add_claim :: "Parents \<Rightarrow> FactIdentity \<times> Claim \<Rightarrow> ChangeGroup list \<Rightarrow> ChangeGroup list" where
  "add_claim contexts ic groups =
     (let (i, c) = ic; r = root_in contexts (channelKey (claim_at c)) in
      map (note_claim r i c) (open_group r c groups))"

definition claims_of :: "Replaces \<Rightarrow> Entry list \<Rightarrow> (FactIdentity \<times> Claim) list" where
  "claims_of side es = List.map_filter (\<lambda>e. map_option (Pair (entry_identity e)) (claiming side e)) es"

definition competing :: "Entry list \<Rightarrow> Graph \<Rightarrow> Parents \<Rightarrow> Replaces \<Rightarrow> (Conflict \<times> FactIdentity list) list" where
  "competing es g contexts side =
     map (\<lambda>gr.
       let listed = sort_by (\<lambda>a b. compareUtf8 (changeKey (fst a)) (changeKey (fst b))) (group_changes gr);
           context = contextOf contexts g (group_channel gr) in
       (CompetingChanges side context (map (\<lambda>(change, is). (change, factsOf es is)) listed)
          (sortedChannels (context @ group_successors gr)), concat (map snd listed)))
     (filter (\<lambda>gr. 2 \<le> length (group_changes gr)) (fold (add_claim contexts) (claims_of side es) []))"

definition cycle_conflict :: "Entry list \<Rightarrow> Graph \<Rightarrow> Channel list \<Rightarrow> Conflict \<times> FactIdentity list" where
  "cycle_conflict es g channels =
     (let identities = concat (map (\<lambda>c. concat (map (\<lambda>e. if edge_to e \<in> set channels then support e else []) (edges_from g c))) channels) in
      (Cycle channels (factsOf es identities) channels, identities))"

definition collision_conflict :: "Entry list \<Rightarrow> IdentityCollision \<Rightarrow> Conflict \<times> FactIdentity list" where
  "collision_conflict es c =
     (Collision (collision_channels c) (factsOf es (collision_support c)) (sortedChannels (collision_channels c)), collision_support c)"

definition compare_conflicts :: "Conflict \<times> FactIdentity list \<Rightarrow> Conflict \<times> FactIdentity list \<Rightarrow> int" where
  "compare_conflicts a b =
     (let k = compareUtf8 (conflict_kind (fst a)) (conflict_kind (fst b)) in
      if k \<noteq> 0 then k else compareChannels (firstChannelOf (fst a)) (firstChannelOf (fst b)))"

definition findConflicts :: "Entry list \<Rightarrow> Graph \<Rightarrow> Parents \<Rightarrow> Parents \<Rightarrow> (Conflict \<times> FactIdentity list) list option" where
  "findConflicts es g samePeer sameLocal =
     (case cycles g of
        None \<Rightarrow> None
      | Some cs \<Rightarrow> Some (sort_by compare_conflicts
          (competing es g samePeer Peer @ competing es g sameLocal Local @ map (cycle_conflict es g) cs @
           map (collision_conflict es) (identityCollisions g))))"


section \<open>The model\<close>

record Model =
  entries :: "Entry list"
  positive :: Graph
  positiveWaiting :: "FactIdentity list"
  samePeer :: Parents
  sameLocal :: Parents
  conflictsFound :: "(Conflict \<times> FactIdentity list) list"
  usable :: Graph
  usableAdmitted :: "(FactIdentity \<times> FactIdentity list) list"
  usableSamePeer :: Parents
  usableSameLocal :: Parents

text \<open>\<open>conflictsAt\<close>: the facts of every conflict whose scope reaches the channel, \<^const>\<open>None\<close> for one none reaches.\<close>

definition conflictsAt :: "(Conflict \<times> FactIdentity list) list \<Rightarrow> Channel \<Rightarrow> FactIdentity list option" where
  "conflictsAt found c =
     (if list_ex (\<lambda>(k, _). c \<in> set (conflict_scope k)) found
      then Some (concat (map (\<lambda>(k, identities). concat (map (\<lambda>d. if d = c then identities else []) (conflict_scope k))) found))
      else None)"

definition affected :: "(Conflict \<times> FactIdentity list) list \<Rightarrow> Channel \<Rightarrow> bool" where
  "affected found c = (conflictsAt found c \<noteq> None)"

definition clear :: "(Conflict \<times> FactIdentity list) list \<Rightarrow> Entry \<Rightarrow> bool" where
  "clear found e = list_all (\<lambda>c. \<not> affected found c) (entry_pairs e)"

definition derive_model :: "Entry list \<Rightarrow> Model option" where
  "derive_model es =
     (case closure (peerLinks (\<lambda>_. True) es) (candidates (\<lambda>_. True) es) (\<lambda>_. True) (confirming (writersOf (\<lambda>_. True) es)) of
        None \<Rightarrow> None
      | Some (g, _, waiting) \<Rightarrow>
     (let pos = fold vertex (concat (map entry_sites es)) g in
      case new_Contexts pos Local of None \<Rightarrow> None | Some peer_context \<Rightarrow>
      case new_Contexts pos Peer of None \<Rightarrow> None | Some local_context \<Rightarrow>
      case findConflicts es pos peer_context local_context of None \<Rightarrow> None | Some found \<Rightarrow>
      case closure (peerLinks (clear found) es) (candidates (clear found) es) (\<lambda>c. \<not> affected found c)
          (confirming (writersOf (clear found) es)) of
        None \<Rightarrow> None
      | Some (use, admitted, _) \<Rightarrow>
      case new_Contexts use Local of None \<Rightarrow> None | Some use_peer \<Rightarrow>
      case new_Contexts use Peer of None \<Rightarrow> None | Some use_local \<Rightarrow>
        Some \<lparr>entries = es, positive = pos, positiveWaiting = map link_identity waiting,
          samePeer = peer_context, sameLocal = local_context, conflictsFound = found, usable = use,
          usableAdmitted = map (\<lambda>(l, s). (link_identity l, s)) admitted,
          usableSamePeer = use_peer, usableSameLocal = use_local\<rparr>))"

definition deriveContinuity :: "identity_text \<Rightarrow> unknown_value list \<Rightarrow> InvalidFact + Model option" where
  "deriveContinuity serialize values =
     and_then (accept serialize values) (\<lambda>accepted. Inr (derive_model (map (\<lambda>(i, f). entryOf i f) accepted)))"

section \<open>Queries\<close>

definition facts_named :: "Model \<Rightarrow> FactIdentity list \<Rightarrow> ContinuityFact list" where
  "facts_named m identities = factsOf (entries m) identities"

definition conflictFactsAt :: "Model \<Rightarrow> Channel \<Rightarrow> FactIdentity list" where
  "conflictFactsAt m c = (case conflictsAt (conflictsFound m) c of None \<Rightarrow> [] | Some is \<Rightarrow> is)"

definition conflictingWith :: "Model \<Rightarrow> Entry \<Rightarrow> FactIdentity list" where
  "conflictingWith m e = concat (map (conflictFactsAt m) (entry_pairs e))"

definition contextsOf :: "Model \<Rightarrow> Replaces \<Rightarrow> Parents" where
  "contextsOf m side = (if side = Peer then samePeer m else sameLocal m)"

definition usableContextRoot :: "Model \<Rightarrow> Channel \<Rightarrow> Replaces \<Rightarrow> js_string" where
  "usableContextRoot m c side = root_in (if side = Peer then usableSamePeer m else usableSameLocal m) (channelKey c)"

definition usableChanges :: "Model \<Rightarrow> Replaces \<Rightarrow> did \<Rightarrow> Edge list" where
  "usableChanges m side successor =
     filter (\<lambda>e. replaces e = side \<and> (if replaces e = Local then localDid (edge_to e) else peerDid (edge_to e)) = successor) (all_edges (usable m))"

definition usablyEstablished :: "Model \<Rightarrow> Replaces \<Rightarrow> Channel \<Rightarrow> did \<Rightarrow> bool" where
  "usablyEstablished m side c successor =
     list_ex (\<lambda>e. usableContextRoot m (edge_from e) side = usableContextRoot m c side) (usableChanges m side successor)"

definition context_claims :: "Model \<Rightarrow> Channel \<Rightarrow> Replaces \<Rightarrow> (Entry \<times> Claim) list" where
  "context_claims m c side =
     List.map_filter (\<lambda>e. case claiming side e of
        None \<Rightarrow> None
      | Some cl \<Rightarrow>
          if root_in (contextsOf m side) (channelKey (claim_at cl)) = root_in (contextsOf m side) (channelKey c)
          then Some (e, cl) else None) (entries m)"

definition endingsAt :: "Model \<Rightarrow> Channel \<Rightarrow> Replaces \<Rightarrow> (Entry \<times> Claim) list" where
  "endingsAt m c side = filter (\<lambda>(e, cl). claim_change cl = End) (context_claims m c side)"

text \<open>\<open>rotationsByContext\<close>: the saved local rotations of the context of a channel.\<close>

definition rotationsAt :: "Model \<Rightarrow> Channel \<Rightarrow> (Entry \<times> Claim \<times> did) list" where
  "rotationsAt m c =
     List.map_filter (\<lambda>(e, cl). case claim_change cl of End \<Rightarrow> None | Rotate successor \<Rightarrow> Some (e, cl, successor)) (context_claims m c Local)"

definition known_channel :: "Model \<Rightarrow> Channel \<Rightarrow> bool" where
  "known_channel m c = (c \<in> set (vertices (positive m)))"

definition established :: "Model \<Rightarrow> Channel \<Rightarrow> bool" where
  "established m c = (c \<in> set (concat (map entry_sites (entries m))) \<or> edges_to (usable m) c \<noteq> [])"

datatype FactStatus =
  Unknown
| InConflict "ContinuityFact list"
| Waiting bool
| Usable "ContinuityFact list"

text \<open>\<open>statusOf\<close>; \<open>Waiting True\<close> where no observation confirms at all, \<open>Waiting False\<close> where only unusable continuity does.\<close>

definition statusOf :: "Model \<Rightarrow> Entry \<Rightarrow> FactStatus" where
  "statusOf m e =
     (let conflict = conflictingWith m e in
      if conflict \<noteq> [] then InConflict (facts_named m conflict)
      else case entry_fact e of
        LocalDecision c (Rotate successor) \<Rightarrow>
          (case map_of (usableAdmitted m) (entry_identity e) of
             Some found \<Rightarrow> Usable (facts_named m (entry_identity e # found))
           | None \<Rightarrow> Waiting (entry_identity e \<in> set (positiveWaiting m)))
      | f \<Rightarrow> Usable [f])"

definition model_status :: "identity_text \<Rightarrow> Model \<Rightarrow> unknown_value \<Rightarrow> InvalidFact + FactStatus" where
  "model_status serialize m value =
     and_then (validateFact value ''fact'') (\<lambda>f.
       Inr (case find (\<lambda>e. entry_identity e = serialize f) (entries m) of None \<Rightarrow> Unknown | Some e \<Rightarrow> statusOf m e))"

definition changes :: "Model \<Rightarrow> Channel \<Rightarrow> Replaces \<Rightarrow> (ContinuityFact \<times> Channel \<times> Change \<times> Channel option \<times> FactStatus) list" where
  "changes m c side =
     map (\<lambda>(e, cl). (entry_fact e, claim_at cl, claim_change cl, claim_to cl, statusOf m e)) (context_claims m c side)"

definition localDecisions :: "Model \<Rightarrow> Channel \<Rightarrow> (ContinuityFact \<times> Channel \<times> Change \<times> Channel option \<times> FactStatus) list" where
  "localDecisions m c = changes m c Local"

definition conflicts :: "Model \<Rightarrow> Conflict list" where
  "conflicts m = map fst (conflictsFound m)"

datatype PathResult = PathFound "Channel list" "ContinuityFact list" | NoPath | PathConflict "ContinuityFact list"

definition path :: "Model \<Rightarrow> Channel \<Rightarrow> Channel \<Rightarrow> PathResult" where
  "path m a b =
     (let conflict = conflictFactsAt m a @ conflictFactsAt m b in
      if conflict \<noteq> [] then PathConflict (facts_named m conflict)
      else if \<not> known_channel m a then NoPath
      else case graph_path (usable m) a b of
        None \<Rightarrow> NoPath
      | Some es \<Rightarrow> PathFound (a # map edge_to es) (facts_named m (path_support es)))"

datatype ConfirmationResult =
  Confirmed "(ContinuityFact \<times> ContinuityFact list) list" | Unconfirmed "ContinuityFact list" | ConfirmationConflict "ContinuityFact list"

text \<open>The observations at exactly a local DID that a usable peer path reaches, each with that path.\<close>

definition observations_at :: "Model \<Rightarrow> did \<Rightarrow> did \<Rightarrow> (Entry \<times> Edge list) list" where
  "observations_at m l p =
     (if l = p then []
      else let reach = graph_reach (usable m) (channelOf l p) (Some Peer) None in
        List.map_filter (\<lambda>e.
          if \<not> is_observation (entry_fact e) \<or> localDid (fact_at (entry_fact e)) \<noteq> l then None
          else map_option (Pair e) (pathTo reach (fact_at (entry_fact e)))) (entries m))"

definition confirmation :: "Model \<Rightarrow> did \<Rightarrow> did \<Rightarrow> ConfirmationResult" where
  "confirmation m l p =
     (let conflict = conflictFactsAt m (channelOf l p) in
      if conflict \<noteq> [] then ConfirmationConflict (facts_named m conflict)
      else
        let reached = observations_at m l p;
            observations = map (\<lambda>(e, via). (entry_fact e, facts_named m (entry_identity e # path_support via)))
              (filter (\<lambda>(e, via). clear (conflictsFound m) e) reached) in
        if observations \<noteq> [] then Confirmed observations
        else Unconfirmed (map (\<lambda>(e, via). entry_fact e) (filter (\<lambda>(e, via). \<not> clear (conflictsFound m) e) reached)))"


subsection \<open>History\<close>

text \<open>One turn over the edges: the end not in the component joins the one that is.\<close>

definition join_ends :: "Edge \<Rightarrow> Channel list \<Rightarrow> Channel list" where
  "join_ends e component =
     (if (edge_from e \<in> set component) = (edge_to e \<in> set component) then component
      else add_new (edge_to e) (add_new (edge_from e) component))"

lemma join_ends_set:
  "set component \<subseteq> set (fold join_ends es component) \<and>
   set (fold join_ends es component) \<subseteq> set component \<union> (edge_from ` set es \<union> edge_to ` set es)"
proof (induction es arbitrary: component)
  case (Cons e es)
  have "set component \<subseteq> set (join_ends e component)" "set (join_ends e component) \<subseteq> set component \<union> {edge_from e, edge_to e}"
    by (auto simp: join_ends_def)
  then show ?case using Cons [of "join_ends e component"] by auto
qed simp

lemma join_ends_grow: "fold join_ends es component = component \<or> set component \<subset> set (fold join_ends es component)"
proof (induction es arbitrary: component)
  case (Cons e es)
  show ?case
  proof (cases "(edge_from e \<in> set component) = (edge_to e \<in> set component)")
    case True
    then show ?thesis using Cons [of component] by (simp add: join_ends_def)
  next
    case False
    then have "set component \<subset> set (join_ends e component)" by (auto simp: join_ends_def)
    also have "\<dots> \<subseteq> set (fold join_ends (e # es) component)" using join_ends_set [of "join_ends e component" es] by simp
    finally show ?thesis by blast
  qed
qed simp

lemma left_shrinks: "A \<subset> B \<Longrightarrow> B \<subseteq> A \<union> X \<Longrightarrow> X - B \<subset> X - A"
  by blast

function grow_component :: "Edge list \<Rightarrow> Channel list \<Rightarrow> Channel list" where
  "grow_component es component =
     (let component' = fold join_ends es component in
      if length component' = length component then component else grow_component es component')"
  by pat_completeness auto
termination
proof (relation "measure (\<lambda>(es, component). card ((edge_from ` set es \<union> edge_to ` set es) - set component))", goal_cases)
  case (2 es component component')
  then have "component' \<noteq> component" by auto
  then have "set component \<subset> set component'" using 2(1) join_ends_grow [of es component] by simp
  moreover have "set component' \<subseteq> set component \<union> (edge_from ` set es \<union> edge_to ` set es)"
    using 2(1) join_ends_set [of component es] by simp
  ultimately have "(edge_from ` set es \<union> edge_to ` set es) - set component' \<subset> (edge_from ` set es \<union> edge_to ` set es) - set component"
    by (rule left_shrinks)
  then show ?case by (simp add: psubset_card_mono)
qed simp

declare grow_component.simps [simp del]

record PositiveLink =
  pl_from :: Channel
  pl_to :: Channel
  pl_replaces :: Replaces
  pl_support :: "ContinuityFact list"
  pl_derived :: bool
  pl_usable :: bool

definition positive_link :: "Model \<Rightarrow> Edge \<Rightarrow> PositiveLink" where
  "positive_link m e = \<lparr>pl_from = edge_from e, pl_to = edge_to e, pl_replaces = replaces e,
     pl_support = facts_named m (support e), pl_derived = derived e, pl_usable = (graph_edge (usable m) (edge_key e) \<noteq> None)\<rparr>"

record History =
  history_links :: "PositiveLink list"
  history_endings :: "(ContinuityFact \<times> Replaces \<times> FactStatus) list"
  history_samePeer :: "Channel list"
  history_sameLocal :: "Channel list"

definition compare_links :: "PositiveLink \<Rightarrow> PositiveLink \<Rightarrow> int" where
  "compare_links a b =
     (if compareChannels (pl_from a) (pl_from b) \<noteq> 0 then compareChannels (pl_from a) (pl_from b)
      else compareChannels (pl_to a) (pl_to b))"

definition history :: "Model \<Rightarrow> Channel \<Rightarrow> History" where
  "history m c =
     (let component = grow_component (all_edges (positive m)) [c];
          ending = sort_by (\<lambda>a b. compareUtf8 (entry_identity (fst a)) (entry_identity (fst b))) (endingsAt m c Peer @ endingsAt m c Local) in
      \<lparr>history_links = sort_by compare_links
         (map (positive_link m) (filter (\<lambda>e. edge_from e \<in> set component) (all_edges (positive m)))),
       history_endings = map (\<lambda>(e, cl). (entry_fact e, claim_side cl, statusOf m e)) ending,
       history_samePeer = contextOf (samePeer m) (positive m) c,
       history_sameLocal = contextOf (sameLocal m) (positive m) c\<rparr>)"

subsection \<open>Head\<close>

datatype HeadResult =
  Head Channel "ContinuityFact list"
| Ended "ContinuityFact list"
| Unresolved "ContinuityFact list"
| HeadConflict "ContinuityFact list"
| NoEvidence

text \<open>What the search gathers: the facts in conflict, the endings, the rotations waiting, the support of the links.\<close>

record Findings =
  in_conflict :: "FactIdentity list"
  ending :: "FactIdentity list"
  waiting :: "FactIdentity list"
  holds :: "FactIdentity list"

definition no_findings :: Findings where
  "no_findings = \<lparr>in_conflict = [], ending = [], waiting = [], holds = []\<rparr>"

definition find_conflict :: "FactIdentity list \<Rightarrow> Findings \<Rightarrow> Findings" where
  "find_conflict is f = f\<lparr>in_conflict := in_conflict f @ is\<rparr>"

definition pendingDecision :: "Model \<Rightarrow> Entry \<Rightarrow> Findings \<Rightarrow> Findings" where
  "pendingDecision m e f =
     (let conflicting = conflictingWith m e; f = find_conflict conflicting f in
      if conflicting = [] \<and> map_of (usableAdmitted m) (entry_identity e) = None
      then f\<lparr>waiting := waiting f @ [entry_identity e]\<rparr> else f)"

definition head_edge :: "Model \<Rightarrow> Channel \<Rightarrow> Edge \<Rightarrow> Findings \<Rightarrow> Findings" where
  "head_edge m c e f =
     (case graph_edge (usable m) (edge_key e) of
        Some u \<Rightarrow> f\<lparr>holds := holds f @ support u\<rparr>
      | None \<Rightarrow>
          if usablyEstablished m (replaces e) c (if replaces e = Local then localDid (edge_to e) else peerDid (edge_to e)) then f
          else find_conflict (support e) f)"

definition head_endings :: "Model \<Rightarrow> Channel \<Rightarrow> Replaces \<Rightarrow> Findings \<Rightarrow> Findings" where
  "head_endings m c side f =
     (let found = endingsAt m c side;
          affirmative = filter (\<lambda>(e, cl). usableContextRoot m (claim_at cl) side = usableContextRoot m c side) found;
          f = f\<lparr>ending := ending f @ map (\<lambda>(e, cl). entry_identity e) affirmative\<rparr> in
      if affirmative = [] then find_conflict (map (\<lambda>(e, cl). entry_identity e) found) f else f)"

definition head_rotation :: "Model \<Rightarrow> Channel \<Rightarrow> Entry \<times> Claim \<times> did \<Rightarrow> Findings \<Rightarrow> Findings" where
  "head_rotation m c rotation f =
     (let (e, cl, successor) = rotation in
      if usablyEstablished m Local c successor then f
      else if usableContextRoot m (claim_at cl) Local = usableContextRoot m c Local then pendingDecision m e f
      else find_conflict [entry_identity e] f)"

text \<open>One channel the positive graph reaches.\<close>

definition head_at :: "Model \<Rightarrow> Reach \<Rightarrow> Channel \<Rightarrow> Findings \<Rightarrow> Findings" where
  "head_at m usable_reach c f =
     (if \<not> reach_has usable_reach c then
        if hasOutgoing (positive m) c then f
        else find_conflict (concat (map support (edges_to (positive m) c))) f
      else
        fold (head_rotation m c) (rotationsAt m c)
          (head_endings m c Local (head_endings m c Peer (fold (head_edge m c) (edges_from (positive m) c) f))))"

definition unknown_head :: "Model \<Rightarrow> Channel \<Rightarrow> HeadResult" where
  "unknown_head m c =
     (if conflictFactsAt m c \<noteq> [] then HeadConflict (facts_named m (conflictFactsAt m c))
      else
        let f = fold (\<lambda>e f. case claiming Local e of
            Some cl \<Rightarrow> (case claim_to cl of Some d \<Rightarrow> if sameChannel d c then pendingDecision m e f else f | None \<Rightarrow> f)
          | None \<Rightarrow> f) (entries m) no_findings in
        if in_conflict f \<noteq> [] then HeadConflict (facts_named m (in_conflict f))
        else if waiting f \<noteq> [] then Unresolved (facts_named m (waiting f))
        else NoEvidence)"

definition model_head :: "Model \<Rightarrow> Channel \<Rightarrow> HeadResult" where
  "model_head m c =
     (if \<not> known_channel m c then unknown_head m c
      else
        let reach = graph_reach (positive m) c None None;
            reached_conflict = concat (map (conflictFactsAt m) (reach_channels reach)) @
              (if established m c then [] else concat (map support (edges_to (positive m) c))) in
        if reached_conflict \<noteq> [] then HeadConflict (facts_named m reached_conflict)
        else
          let usable_reach = graph_reach (usable m) c None None;
              f = fold (head_at m usable_reach) (reach_channels reach) no_findings in
          if in_conflict f \<noteq> [] then HeadConflict (facts_named m (in_conflict f))
          else if ending f \<noteq> [] then Ended (facts_named m (ending f))
          else if waiting f \<noteq> [] then Unresolved (facts_named m (waiting f))
          else case filter (\<lambda>d. \<not> hasOutgoing (usable m) d) (reach_channels usable_reach) of
            [d] \<Rightarrow> Head d (facts_named m (holds f))
          | _ \<Rightarrow> HeadConflict (facts_named m (holds f)))"

end
