(* ===== verification/Continuity_Laws.thy ===== *)
theory Continuity_Laws
  imports Continuity_Model
begin

text \<open>
  What the continuity model promises: which values are facts, that the model rests on the
  set of facts alone and is always derived, and what the usable graph is: part of the
  positive one, away from every conflict, without cycles, and with one link at most of
  each side leaving a pair.
\<close>

section \<open>Facts\<close>

definition did_ok :: "js_string \<Rightarrow> bool" where
  "did_ok d \<longleftrightarrow> d \<noteq> [] \<and> \<not> LONE_SURROGATE d"

definition channel_ok :: "Channel \<Rightarrow> bool" where
  "channel_ok c \<longleftrightarrow> did_ok (localDid c) \<and> did_ok (peerDid c) \<and> localDid c \<noteq> peerDid c"

fun fact_ok :: "ContinuityFact \<Rightarrow> bool" where
  "fact_ok (PeerObservation c prior) \<longleftrightarrow> channel_ok c \<and>
     (case prior of None \<Rightarrow> True | Some old \<Rightarrow> did_ok old \<and> old \<noteq> peerDid c \<and> old \<noteq> localDid c)"
| "fact_ok (PeerEnding c) \<longleftrightarrow> channel_ok c"
| "fact_ok (LocalDecision c change) \<longleftrightarrow> channel_ok c \<and>
     (case change of End \<Rightarrow> True | Rotate s \<Rightarrow> did_ok s \<and> s \<noteq> localDid c \<and> s \<noteq> peerDid c)"

text \<open>A fact as the value a caller passes.\<close>

definition channel_value :: "Channel \<Rightarrow> unknown_value" where
  "channel_value c = UObject [(js ''localDid'', UText (localDid c)), (js ''peerDid'', UText (peerDid c))]"

fun fact_value :: "ContinuityFact \<Rightarrow> unknown_value" where
  "fact_value (PeerObservation c prior) =
     UObject [(js ''kind'', UText (js ''peer-observation'')), (js ''at'', channel_value c),
       (js ''rotatedFrom'', case prior of None \<Rightarrow> UNull | Some old \<Rightarrow> UText old)]"
| "fact_value (PeerEnding c) = UObject [(js ''kind'', UText (js ''peer-ending'')), (js ''at'', channel_value c)]"
| "fact_value (LocalDecision c change) =
     UObject [(js ''kind'', UText (js ''local-decision'')), (js ''at'', channel_value c),
       (js ''change'', case change of End \<Rightarrow> UObject [(js ''kind'', UText (js ''end''))]
          | Rotate s \<Rightarrow> UObject [(js ''kind'', UText (js ''rotate'')), (js ''successor'', UText s)])]"

lemma fact_text_Inr [simp]: "fact_text v loc = Inr s \<longleftrightarrow> v = Some (UText s) \<and> did_ok s"
  by (auto simp: fact_text_def did_ok_def split: option.splits unknown_value.splits)

lemma js_inject [simp]: "js a = js b \<longleftrightarrow> a = b"
proof -
  have "inj (\<lambda>c. of_nat (of_char c) :: 16 word)"
  proof (rule injI)
    fix x y :: char assume eq: "(of_nat (of_char x) :: 16 word) = of_nat (of_char y)"
    have "unat (of_nat (of_char z) :: 16 word) = of_char z" for z :: char
      using less_trans [OF nat_of_char_less_256 [of z], of 65536] by (simp add: unat_of_nat)
    then have "(of_char x :: nat) = of_char y" using eq by metis
    then show "x = y" by simp
  qed
  then show ?thesis unfolding js_def by (simp add: inj_map_eq_map)
qed

text \<open>
  Which values spell a fact: objects with exactly the members of the fact, no more and no fewer, in any order,
  each with what that member says.
\<close>

definition object_with :: "(js_string \<times> (unknown_value \<Rightarrow> bool)) list \<Rightarrow> unknown_value \<Rightarrow> bool" where
  "object_with ps v \<longleftrightarrow> (\<exists>ms. v = UObject ms \<and> fst ` set ms = fst ` set ps \<and>
     (\<forall>(name, P) \<in> set ps. \<exists>x. map_of ms name = Some x \<and> P x))"

definition spells_channel :: "Channel \<Rightarrow> unknown_value \<Rightarrow> bool" where
  "spells_channel c = object_with [(js ''localDid'', (=) (UText (localDid c))), (js ''peerDid'', (=) (UText (peerDid c)))]"

fun spells_change :: "Change \<Rightarrow> unknown_value \<Rightarrow> bool" where
  "spells_change (Rotate s) = object_with [(js ''kind'', (=) (UText (js ''rotate''))), (js ''successor'', (=) (UText s))]"
| "spells_change End = object_with [(js ''kind'', (=) (UText (js ''end'')))]"

fun spells_fact :: "ContinuityFact \<Rightarrow> unknown_value \<Rightarrow> bool" where
  "spells_fact (PeerObservation c prior) = object_with
     [(js ''kind'', (=) (UText (js ''peer-observation''))), (js ''at'', spells_channel c),
      (js ''rotatedFrom'', (=) (case prior of None \<Rightarrow> UNull | Some old \<Rightarrow> UText old))]"
| "spells_fact (PeerEnding c) = object_with [(js ''kind'', (=) (UText (js ''peer-ending''))), (js ''at'', spells_channel c)]"
| "spells_fact (LocalDecision c change) = object_with
     [(js ''kind'', (=) (UText (js ''local-decision''))), (js ''at'', spells_channel c), (js ''change'', spells_change change)]"

lemma object_with_object [simp]: "object_with ps (UObject ms) \<longleftrightarrow> fst ` set ms = fst ` set ps \<and>
    (\<forall>(name, P) \<in> set ps. \<exists>x. map_of ms name = Some x \<and> P x)"
  by (simp add: object_with_def)

lemma no_object:
  assumes "\<nexists>ms. v = UObject ms"
  shows "\<not> object_with ps v" and "object_of (Some v) loc = Inl (loc, NotAnObject)"
  using assms by (auto simp: object_with_def object_of_def split: unknown_value.split)

lemma object_of_object [simp]: "object_of None loc = Inl (loc, NotAnObject)" "object_of (Some (UObject ms)) loc = Inr ms"
  by (simp_all add: object_of_def)

lemma exactMembers_Inr [simp]: "exactMembers ms names loc = Inr u \<longleftrightarrow> fst ` set ms = set names"
proof -
  have "exactMembers ms names loc = Inr u \<longleftrightarrow>
      find (\<lambda>name. map_of ms name = None) names = None \<and> find (\<lambda>name. name \<notin> set names) (map fst ms) = None"
    by (simp add: exactMembers_def split: option.split)
  also have "\<dots> \<longleftrightarrow> set names \<subseteq> fst ` set ms \<and> fst ` set ms \<subseteq> set names"
    by (auto simp: find_None_iff map_of_eq_None_iff)
  finally show ?thesis by (simp only: set_eq_subset conj_commute)
qed

lemma textOrNull_Inr: "textOrNull v loc = Inr p \<longleftrightarrow>
    v = Some (case p of None \<Rightarrow> UNull | Some s \<Rightarrow> UText s) \<and> (case p of None \<Rightarrow> True | Some s \<Rightarrow> did_ok s)"
  by (cases p) (auto simp: textOrNull_def)

lemma fact_channel_Inr: "fact_channel v loc = Inr c \<longleftrightarrow> (\<exists>u. v = Some u \<and> spells_channel c u) \<and> channel_ok c"
proof (cases "\<exists>ms. v = Some (UObject ms)")
  case True
  then show ?thesis by (cases c) (auto simp: fact_channel_def spells_channel_def channel_ok_def split: if_splits)
next
  case False
  then show ?thesis by (cases v) (auto simp: fact_channel_def spells_channel_def no_object)
qed

lemma fact_change_Inr: "fact_change v loc = Inr h \<longleftrightarrow>
    (\<exists>u. v = Some u \<and> spells_change h u) \<and> (case h of Rotate s \<Rightarrow> did_ok s | End \<Rightarrow> True)"
proof (cases "\<exists>ms. v = Some (UObject ms)")
  case True
  then obtain ms where v: "v = Some (UObject ms)" by blast
  show ?thesis unfolding fact_change_def v object_of_object and_then.simps Let_def by (cases h) (auto split: if_splits)
next
  case False
  then show ?thesis by (cases v; cases h) (auto simp: fact_change_def no_object)
qed

lemma observation_of_Inr: "observation_of ms c loc = Inr f \<longleftrightarrow>
    (\<exists>prior. textOrNull (map_of ms (js ''rotatedFrom'')) (loc @ ''.rotatedFrom'') = Inr prior \<and>
       prior \<noteq> Some (peerDid c) \<and> prior \<noteq> Some (localDid c) \<and> f = PeerObservation c prior)"
  by (auto simp: observation_of_def split: if_splits)

lemma decision_of_Inr: "decision_of ms c loc = Inr f \<longleftrightarrow>
    (\<exists>change. fact_change (map_of ms (js ''change'')) (loc @ ''.change'') = Inr change \<and>
       change \<noteq> Rotate (localDid c) \<and> change \<noteq> Rotate (peerDid c) \<and> f = LocalDecision c change)"
  by (auto simp: decision_of_def split: if_splits)

lemma validateFact_Inr: "validateFact v loc = Inr f \<longleftrightarrow> spells_fact f v \<and> fact_ok f"
proof (cases "\<exists>ms. v = UObject ms")
  case True
  then obtain ms where v: "v = UObject ms" by blast
  have head: "find (\<lambda>k. kind = Some (UText (js k))) [''peer-observation'', ''peer-ending'', ''local-decision''] = Some k \<longleftrightarrow>
      k \<in> {''peer-observation'', ''peer-ending'', ''local-decision''} \<and> kind = Some (UText (js k))" for k kind
    by auto
  have "validateFact v loc = Inr f \<longleftrightarrow> (\<exists>k c. map_of ms (js ''kind'') = Some (UText (js k)) \<and> fst ` set ms = set (FACT_MEMBERS k) \<and>
      fact_channel (map_of ms (js ''at'')) (loc @ ''.at'') = Inr c \<and>
      (k = ''peer-observation'' \<and> observation_of ms c loc = Inr f \<or> k = ''peer-ending'' \<and> f = PeerEnding c \<or>
       k = ''local-decision'' \<and> decision_of ms c loc = Inr f))"
    unfolding validateFact_def v object_of_object and_then.simps Let_def
    by (auto simp: head split: if_splits option.split)
  also have "\<dots> \<longleftrightarrow> spells_fact f v \<and> fact_ok f"
    by (cases f)
      (auto simp: v FACT_MEMBERS_def fact_channel_Inr fact_change_Inr observation_of_Inr textOrNull_Inr decision_of_Inr
        split: option.splits Change.splits)
  finally show ?thesis .
next
  case False
  then show ?thesis by (cases f) (auto simp: validateFact_def no_object)
qed

lemma validateFact_ok: "validateFact v loc = Inr f \<Longrightarrow> fact_ok f"
  by (simp add: validateFact_Inr)

lemma spells_value: "spells_channel c (channel_value c)" "spells_fact f (fact_value f)"
proof -
  show c: "spells_channel c (channel_value c)" for c by (simp add: spells_channel_def channel_value_def)
  show "spells_fact f (fact_value f)" by (cases f) (auto simp: c split: Change.split)
qed

lemma validateFact_value: "fact_ok f \<Longrightarrow> validateFact (fact_value f) loc = Inr f"
  by (simp add: validateFact_Inr spells_value)

section \<open>Facts accepted\<close>

lemma accept_from_all:
  "accept_from serialize i (map fact_value fs) m = (if \<forall>f \<in> set fs. fact_ok f then Inr (fold (\<lambda>f. put_fact (serialize f, f)) fs m)
     else accept_from serialize i (map fact_value fs) m)"
proof (induction fs arbitrary: i m)
  case (Cons f fs)
  then show ?case by (cases "fact_ok f") (auto simp: validateFact_value)
qed simp

text \<open>With an injective identity, each fact is there once, under its own identity.\<close>

definition identified :: "identity_text \<Rightarrow> (FactIdentity \<times> ContinuityFact) list \<Rightarrow> bool" where
  "identified serialize m \<longleftrightarrow> distinct (map fst m) \<and> (\<forall>(i, f) \<in> set m. i = serialize f)"

lemma put_identified:
  assumes "inj serialize" and "identified serialize m"
  shows "identified serialize (put_fact (serialize f, f) m)" and "snd ` set (put_fact (serialize f, f) m) = insert f (snd ` set m)"
proof -
  have ids: "i = serialize f" if "(i, f) \<in> set m" for i f using assms(2) that by (auto simp: identified_def)
  have same: "map (\<lambda>e. if fst e = serialize f then (serialize f, f) else e) m = m" if "serialize f \<in> fst ` set m"
  proof (rule map_idI)
    fix e assume e: "e \<in> set m"
    obtain i h where ih: "e = (i, h)" by (cases e)
    then have "i = serialize h" using ids e by blast
    then show "(if fst e = serialize f then (serialize f, f) else e) = e"
      using injD [OF assms(1), of h f] by (auto simp: ih)
  qed
  show "identified serialize (put_fact (serialize f, f) m)"
    using assms(2) same by (auto simp: put_fact_def identified_def)
  show "snd ` set (put_fact (serialize f, f) m) = insert f (snd ` set m)"
  proof (cases "serialize f \<in> fst ` set m")
    case True
    then obtain g where "(serialize f, g) \<in> set m" by auto
    then have "f \<in> snd ` set m" using ids injD [OF assms(1), of f g] by force
    then show ?thesis using same True by (auto simp: put_fact_def)
  qed (auto simp: put_fact_def)
qed

lemma puts_identified:
  assumes "inj serialize"
  shows "identified serialize m \<Longrightarrow> identified serialize (fold (\<lambda>f. put_fact (serialize f, f)) fs m) \<and>
    snd ` set (fold (\<lambda>f. put_fact (serialize f, f)) fs m) = snd ` set m \<union> set fs"
proof (induction fs arbitrary: m)
  case (Cons f fs)
  show ?case using Cons.IH [OF put_identified(1) [OF assms Cons.prems, of f]] put_identified(2) [OF assms Cons.prems, of f] by simp
qed simp

definition by_identity :: "identity_text \<Rightarrow> ContinuityFact set \<Rightarrow> (FactIdentity \<times> ContinuityFact) list \<Rightarrow> bool" where
  "by_identity serialize F m \<longleftrightarrow> identified serialize m \<and> snd ` set m = F \<and> sorted (map (raw_points \<circ> fst) m)"

lemma accept_ok:
  assumes "inj serialize" and "\<forall>f \<in> set fs. fact_ok f"
  shows "\<exists>m. accept serialize (map fact_value fs) = Inr m \<and> by_identity serialize (set fs) m"
proof -
  let ?m = "fold (\<lambda>f. put_fact (serialize f, f)) fs []"
  have key: "sort_by (\<lambda>a b. compareUtf8 (fst a) (fst b)) ms = sort_key (raw_points \<circ> fst) ms" for ms :: "(FactIdentity \<times> ContinuityFact) list"
    by (rule sort_by_key) (simp add: compareUtf8_sign)
  have "identified serialize ?m \<and> snd ` set ?m = set fs"
    using puts_identified [OF assms(1), of "[]" fs] by (simp add: identified_def)
  moreover have "distinct (map fst (sort_key (raw_points \<circ> fst) ms)) = distinct (map fst ms)" for ms :: "(FactIdentity \<times> ContinuityFact) list"
    by (metis mset_eq_imp_distinct_iff mset_map mset_sort)
  ultimately have "by_identity serialize (set fs) (sort_key (raw_points \<circ> fst) ?m)"
    by (simp add: by_identity_def identified_def)
  moreover have "accept serialize (map fact_value fs) = Inr (sort_key (raw_points \<circ> fst) ?m)"
    using accept_from_all [of serialize 0 fs "[]"] assms(2) by (simp add: accept_def key)
  ultimately show ?thesis by blast
qed

lemma by_identity_unique:
  assumes "by_identity serialize F m" and "by_identity serialize F n"
  shows "m = n"
proof -
  have one: "set m = (\<lambda>f. (serialize f, f)) ` F" if "by_identity serialize F m" for m
  proof -
    have ids: "\<forall>(i, f) \<in> set m. i = serialize f" and F: "F = snd ` set m" using that by (auto simp: by_identity_def identified_def)
    show ?thesis unfolding F image_image using ids by force
  qed
  have dist: "distinct (map (raw_points \<circ> fst) m)" if "by_identity serialize F m" for m
  proof -
    have "distinct (map fst m)" using that by (simp add: by_identity_def identified_def)
    then show ?thesis by (simp add: distinct_map inj_on_def)
  qed
  have "set n = set m" using one assms by simp
  then have inj: "inj_on (raw_points \<circ> fst) (set m \<union> set n)" using dist [OF assms(1)] by (simp add: distinct_map)
  have "map (raw_points \<circ> fst) m = map (raw_points \<circ> fst) n"
  proof (rule sorted_distinct_set_unique)
    show "sorted (map (raw_points \<circ> fst) m)" "sorted (map (raw_points \<circ> fst) n)" using assms by (simp_all add: by_identity_def)
    show "distinct (map (raw_points \<circ> fst) m)" "distinct (map (raw_points \<circ> fst) n)" using dist assms by blast+
    show "set (map (raw_points \<circ> fst) m) = set (map (raw_points \<circ> fst) n)" using one assms by simp
  qed
  then show ?thesis using inj by (metis map_inj_on)
qed

text \<open>The model depends on which facts there are, not on their order or how often they come.\<close>

lemma derived_from_set:
  assumes "inj serialize" and "\<forall>f \<in> set fs. fact_ok f" and "set fs = set gs"
  shows "deriveContinuity serialize (map fact_value fs) = deriveContinuity serialize (map fact_value gs)"
proof -
  obtain m where m: "accept serialize (map fact_value fs) = Inr m" "by_identity serialize (set fs) m" using accept_ok [OF assms(1,2)] by blast
  obtain n where n: "accept serialize (map fact_value gs) = Inr n" "by_identity serialize (set gs) n"
    using accept_ok [OF assms(1), of gs] assms(2,3) by auto
  have "m = n" using by_identity_unique m(2) n(2) assms(3) by metis
  then show ?thesis by (simp add: deriveContinuity_def m(1) n(1))
qed

end
