(* ===== verification/Continuity_Usable.thy ===== *)
theory Continuity_Usable
  imports Continuity_Laws
begin

text \<open>
  The two closures of the continuity model: each admits the least set of local rotations
  that its own links confirm (\<open>confirming\<close> is a \<open>confirmation_rule\<close>), the model is
  always derived, and the usable graph is part of the positive one, away from every
  conflict, without cycles, and with one link at most of each side leaving a pair.
\<close>

lemma set_map_filter: "set (List.map_filter f xs) = {y. \<exists>x \<in> set xs. f x = Some y}"
  by (force simp: List.map_filter_def)

section \<open>Entries\<close>

definition entries_ok :: "Entry list \<Rightarrow> bool" where
  "entries_ok es \<longleftrightarrow> distinct (map entry_identity es) \<and> (\<forall>e \<in> set es. \<exists>f. fact_ok f \<and> e = entryOf (entry_identity e) f)"

lemma entryOf_simps [simp]:
  "entry_fact (entryOf i f) = f" "entry_identity (entryOf i f) = i" "entry_claim (entryOf i f) = claimOf f"
  "set (entry_sites (entryOf i f)) = insert (fact_at f) (case claimOf f of None \<Rightarrow> {} | Some c \<Rightarrow> {claim_at c})"
  "set (entry_pairs (entryOf i f)) = set (entry_sites (entryOf i f)) \<union>
     (case claimOf f of None \<Rightarrow> {} | Some c \<Rightarrow> (case claim_to c of None \<Rightarrow> {} | Some d \<Rightarrow> {d}))"
  by (auto simp: entryOf_def Let_def split: option.splits)

text \<open>A claim of a successor replaces one endpoint, and names it.\<close>

definition new_end :: "Replaces \<Rightarrow> Channel \<Rightarrow> did" where
  "new_end side c = (if side = Local then localDid c else peerDid c)"

lemma claim_ok:
  assumes "fact_ok f" and "claimOf f = Some c" and "claim_to c = Some d"
  shows "replaces_one (claim_at c) d (claim_side c)" and "claim_change c = Rotate (new_end (claim_side c) d)"
  using assms by (cases f; auto simp: replaces_one_def channelOf_def new_end_def split: option.splits Change.splits)+

lemma claim_link_of:
  "claim_link side e = Some l \<longleftrightarrow> (\<exists>c. claiming side e = Some c \<and> claim_to c = Some (link_to l) \<and>
     link_from l = claim_at c \<and> link_identity l = entry_identity e)"
proof -
  have "(\<exists>d. claim_to c = Some d \<and> l = \<lparr>link_identity = i, link_from = a, link_to = d\<rparr>) \<longleftrightarrow>
      claim_to c = Some (link_to l) \<and> link_from l = a \<and> link_identity l = i" for c i a
    by (cases l) auto
  then show ?thesis by (auto simp: claim_link_def split: option.splits)
qed

lemma claiming_of: "claiming side e = Some c \<longleftrightarrow> entry_claim e = Some c \<and> claim_side c = side"
  by (auto simp: claiming_def split: option.splits)

lemma entry_claims:
  assumes "entries_ok es" and "e \<in> set es" and "claiming side e = Some c" and "claim_to c = Some d"
  shows "replaces_one (claim_at c) d side" and "claim_change c = Rotate (new_end side d)"
    and "claim_at c \<in> set (entry_sites e)" and "claim_at c \<in> set (entry_pairs e)" and "d \<in> set (entry_pairs e)"
proof -
  obtain f where f: "fact_ok f" "e = entryOf (entry_identity e) f" using assms(1,2) by (auto simp: entries_ok_def)
  then have c: "claimOf f = Some c" "claim_side c = side" using assms(3) unfolding claiming_of by (metis entryOf_simps(3))+
  show "replaces_one (claim_at c) d side" "claim_change c = Rotate (new_end side d)"
    using claim_ok [OF f(1) c(1) assms(4)] c(2) by simp_all
  show "claim_at c \<in> set (entry_sites e)" "claim_at c \<in> set (entry_pairs e)" "d \<in> set (entry_pairs e)"
    using c(1) assms(4) by (subst f(2); simp)+
qed

section \<open>Confirmation\<close>

definition writers_at :: "Writers \<Rightarrow> did \<Rightarrow> did \<Rightarrow> Entry list" where
  "writers_at w l p = (case w l of None \<Rightarrow> [] | Some peers \<Rightarrow> (case peers p of None \<Rightarrow> [] | Some seen \<Rightarrow> seen))"

lemma writers_at_add:
  "writers_at (add_writer e w) l p = writers_at w l p @ (if fact_at (entry_fact e) = channelOf l p then [e] else [])"
  by (cases "fact_at (entry_fact e)") (auto simp: writers_at_def add_writer_def Let_def channelOf_def split: option.splits)

lemma writers_at_of:
  "writers_at (writersOf P es) l p = filter (\<lambda>e. is_observation (entry_fact e) \<and> P e \<and> fact_at (entry_fact e) = channelOf l p) es"
proof -
  have "writers_at (fold add_writer xs w) l p = writers_at w l p @ filter (\<lambda>e. fact_at (entry_fact e) = channelOf l p) xs" for xs w
    by (induction xs arbitrary: w) (simp_all add: writers_at_add)
  from this [of "filter (\<lambda>e. is_observation (entry_fact e) \<and> P e) es" Map.empty] show ?thesis
    unfolding writersOf_def by (simp add: writers_at_def conj_commute conj_left_commute)
qed

lemma walk_linked: "(\<exists>es. walk g (Some side) a es b) \<longleftrightarrow> (\<lambda>a b. linked g a b side)\<^sup>*\<^sup>* a b"
proof
  assume "\<exists>es. walk g (Some side) a es b"
  then obtain es where "walk g (Some side) a es b" ..
  then show "(\<lambda>a b. linked g a b side)\<^sup>*\<^sup>* a b"
  proof (induction es arbitrary: a)
    case (Cons e es)
    then have "linked g a (edge_to e) side" by (auto simp: linked_def side_ok_def)
    then show ?case using Cons by (auto intro: converse_rtranclp_into_rtranclp)
  qed simp
next
  assume "(\<lambda>a b. linked g a b side)\<^sup>*\<^sup>* a b"
  then show "\<exists>es. walk g (Some side) a es b"
  proof (induction rule: converse_rtranclp_induct)
    case base
    show ?case by (rule exI [of _ "[]"]) simp
  next
    case (step a c)
    then obtain e es where "e \<in> set (graph_edges g)" "edge_from e = a" "edge_to e = c" "replaces e = side" "walk g (Some side) c es b"
      by (auto simp: linked_def)
    then show ?case by (intro exI [of _ "e # es"]) (simp add: side_ok_def)
  qed
qed

lemma walk_arcs: "(\<exists>es. walk g None a es b) \<longleftrightarrow> gets_to g a b"
proof
  assume "\<exists>es. walk g None a es b"
  then obtain es where "walk g None a es b" ..
  then show "gets_to g a b"
  proof (induction es arbitrary: a)
    case (Cons e es)
    then have "(a, edge_to e) \<in> arcs g" by (auto simp: arcs_def edge_key_def)
    then show ?case using Cons by (auto intro: converse_rtrancl_into_rtrancl)
  qed simp
next
  assume "gets_to g a b"
  then show "\<exists>es. walk g None a es b"
  proof (induction rule: converse_rtrancl_induct)
    case base
    show ?case by (rule exI [of _ "[]"]) simp
  next
    case (step a c)
    then obtain e es where "e \<in> set (graph_edges g)" "edge_from e = a" "edge_to e = c" "walk g None c es b"
      by (auto simp: arcs_def edge_key_def)
    then show ?case by (intro exI [of _ "e # es"]) (simp add: side_ok_def)
  qed
qed

text \<open>A candidate is confirmed by an observation, at its local DID, of a peer that peer links lead to.\<close>

definition confirmed_by :: "Writers \<Rightarrow> (Channel \<Rightarrow> Channel \<Rightarrow> Replaces \<Rightarrow> bool) \<Rightarrow> Link \<Rightarrow> bool" where
  "confirmed_by w R l \<longleftrightarrow>
     (\<exists>c. (\<lambda>a b. R a b Peer)\<^sup>*\<^sup>* (link_from l) c \<and> writers_at w (localDid (link_from l)) (peerDid c) \<noteq> [])"

lemma confirming_found:
  "confirming w g l =
     (let reach = graph_reach g (link_from l) (Some Peer) None;
          found = concat (map (\<lambda>c. concat (map (\<lambda>ob. entry_identity ob # path_support (the (pathTo reach c)))
            (writers_at w (localDid (link_from l)) (peerDid c)))) (reach_channels reach)) in
      if found = [] then None else Some found)"
proof (cases "w (localDid (link_from l))")
  case None
  then show ?thesis by (simp add: confirming_def writers_at_def)
next
  case (Some peers)
  have "(case peers p of None \<Rightarrow> [] | Some seen \<Rightarrow> concat (map h seen)) =
      concat (map h (writers_at w (localDid (link_from l)) p))" for p and h :: "Entry \<Rightarrow> FactIdentity list"
    by (simp add: writers_at_def Some split: option.splits)
  then show ?thesis by (simp add: confirming_def Some Let_def)
qed

interpretation confirm_rule: confirmation_rule "confirming w" "confirmed_by w" for w
proof
  fix g and l :: Link
  have "set (reach_channels (graph_reach g (link_from l) (Some Peer) None)) = {c. (\<lambda>a b. linked g a b Peer)\<^sup>*\<^sup>* (link_from l) c}"
    by (simp add: reach_channels_has graph_reach_has walk_linked)
  then show "(confirming w g l \<noteq> None) = confirmed_by w (linked g) l"
    by (auto simp: confirming_found Let_def confirmed_by_def)
next
  fix R R' :: "Channel \<Rightarrow> Channel \<Rightarrow> Replaces \<Rightarrow> bool" and l :: Link
  assume more: "\<And>a b side. R a b side \<Longrightarrow> R' a b side" and "confirmed_by w R l"
  then obtain c where "(\<lambda>a b. R a b Peer)\<^sup>*\<^sup>* (link_from l) c" "writers_at w (localDid (link_from l)) (peerDid c) \<noteq> []"
    by (auto simp: confirmed_by_def)
  moreover have "(\<lambda>a b. R a b Peer)\<^sup>*\<^sup>* \<le> (\<lambda>a b. R' a b Peer)\<^sup>*\<^sup>*" by (rule rtranclp_mono) (use more in auto)
  ultimately show "confirmed_by w R' l" by (auto simp: confirmed_by_def)
qed

lemma links_closure_ok:
  assumes "entries_ok es"
  shows "closure_ok (peerLinks P es) (candidates P es)"
proof -
  have "replaces_one (link_from l) (link_to l) side" if "e \<in> set es" "claim_link side e = Some l" for side e l
    using that entry_claims(1) [OF assms that(1)] unfolding claim_link_of by force
  then show ?thesis by (auto simp: closure_ok_def peerLinks_def candidates_def set_map_filter)
qed

text \<open>The links of a closure over the entries: what the peer links and the grounded local rotations lead to.\<close>

definition grounded :: "(Entry \<Rightarrow> bool) \<Rightarrow> (Channel \<Rightarrow> bool) \<Rightarrow> Entry list \<Rightarrow> Link set" where
  "grounded P admits es = lfp (\<lambda>A. {l \<in> set (candidates P es).
     confirmed_by (writersOf P es) (leads admits (peer_ends (peerLinks P es) \<union> local_ends A)) l})"

lemma grounded_rule: "grounded P admits es = lfp (confirm_rule.grounds (writersOf P es) admits (peerLinks P es) (candidates P es))"
  unfolding grounded_def confirm_rule.grounds_def ..

definition entry_links :: "(Entry \<Rightarrow> bool) \<Rightarrow> (Channel \<Rightarrow> bool) \<Rightarrow> Entry list \<Rightarrow> Channel \<Rightarrow> Channel \<Rightarrow> Replaces \<Rightarrow> bool" where
  "entry_links P admits es = leads admits (peer_ends (peerLinks P es) \<union> local_ends (grounded P admits es))"

lemma entry_closure:
  assumes "entries_ok es"
  shows "\<exists>g admitted waiting. closure (peerLinks P es) (candidates P es) admits (confirming (writersOf P es)) = Some (g, admitted, waiting) \<and>
    fst ` set admitted = grounded P admits es \<and> distinct (map fst admitted) \<and>
    set waiting = set (candidates P es) - grounded P admits es \<and> sound_graph admits g \<and> linked g = entry_links P admits es"
proof -
  obtain g admitted waiting where g: "closure (peerLinks P es) (candidates P es) admits (confirming (writersOf P es)) = Some (g, admitted, waiting)"
    "fst ` set admitted = grounded P admits es" "distinct (map fst admitted)" "set waiting = set (candidates P es) - grounded P admits es"
    "sound_graph admits g"
    and links: "\<forall>a b side. linked g a b side \<longleftrightarrow> leads admits (peer_ends (peerLinks P es) \<union> local_ends (grounded P admits es)) a b side"
    using confirm_rule.closure_least [OF links_closure_ok [OF assms], where w = "writersOf P es" and admits = admits] unfolding grounded_rule by blast
  have "linked g = entry_links P admits es" using links unfolding entry_links_def by (intro ext) blast
  then show ?thesis using g by blast
qed


section \<open>The model derived\<close>

lemma vertices_only:
  "graph_edges (fold vertex cs g) = graph_edges g" "set (vertices (fold vertex cs g)) = set (vertices g) \<union> set cs"
  "identityCollisions (fold vertex cs g) = identityCollisions g"
  by (induction cs arbitrary: g) auto

lemma same_edges: "graph_edges h = graph_edges g \<Longrightarrow> linked h = linked g"
  by (intro ext) (simp add: linked_def)

definition model_of :: "Entry list \<Rightarrow> Model \<Rightarrow> bool" where
  "model_of es m \<longleftrightarrow> entries m = es \<and>
     sound_graph (\<lambda>_. True) (positive m) \<and> linked (positive m) = entry_links (\<lambda>_. True) (\<lambda>_. True) es \<and>
     (\<forall>e \<in> set es. set (entry_sites e) \<subseteq> set (vertices (positive m))) \<and>
     new_Contexts (positive m) Local = Some (samePeer m) \<and> new_Contexts (positive m) Peer = Some (sameLocal m) \<and>
     findConflicts es (positive m) (samePeer m) (sameLocal m) = Some (conflictsFound m) \<and>
     sound_graph (\<lambda>c. \<not> affected (conflictsFound m) c) (usable m) \<and>
     linked (usable m) = entry_links (clear (conflictsFound m)) (\<lambda>c. \<not> affected (conflictsFound m) c) es \<and>
     new_Contexts (usable m) Local = Some (usableSamePeer m) \<and> new_Contexts (usable m) Peer = Some (usableSameLocal m) \<and>
     (\<exists>admitted. fst ` set admitted = grounded (clear (conflictsFound m)) (\<lambda>c. \<not> affected (conflictsFound m) c) es \<and>
        usableAdmitted m = map (\<lambda>(l, s). (link_identity l, s)) admitted)"

lemma sound_vertices:
  assumes "sound_graph admits g"
  shows "\<forall>e \<in> set (graph_edges g). edge_to e \<in> set (vertices g)"
  using assms by (simp add: sound_graph_def)

lemma model_derived:
  assumes "entries_ok es"
  shows "\<exists>m. derive_model es = Some m \<and> model_of es m"
proof -
  let ?all = "\<lambda>_ :: Entry. True" and ?every = "\<lambda>_ :: Channel. True"
  obtain g a w where g: "closure (peerLinks ?all es) (candidates ?all es) ?every (confirming (writersOf ?all es)) = Some (g, a, w)"
    "sound_graph ?every g" "linked g = entry_links ?all ?every es"
    using entry_closure [OF assms, of ?all ?every] by blast
  define pos where "pos = fold vertex (concat (map entry_sites es)) g"
  have pos: "sound_graph ?every pos" "linked pos = entry_links ?all ?every es" "\<forall>e \<in> set es. set (entry_sites e) \<subseteq> set (vertices pos)"
    using g(2,3) same_edges [of pos g] unfolding pos_def by (auto simp: sound_graph_def vertices_only)
  obtain pc where pc: "new_Contexts pos Local = Some pc" using contexts_built [of pos Local] by blast
  obtain lc where lc: "new_Contexts pos Peer = Some lc" using contexts_built [of pos Peer] by blast
  obtain found where found: "findConflicts es pos pc lc = Some found"
    using cycles_listed [OF sound_vertices [OF pos(1)]] by (auto simp: findConflicts_def)
  let ?P = "clear found" and ?ad = "\<lambda>c. \<not> affected found c"
  obtain u ua uw where u: "closure (peerLinks ?P es) (candidates ?P es) ?ad (confirming (writersOf ?P es)) = Some (u, ua, uw)"
    "fst ` set ua = grounded ?P ?ad es" "sound_graph ?ad u" "linked u = entry_links ?P ?ad es"
    using entry_closure [OF assms, of ?P ?ad] by blast
  obtain upc where upc: "new_Contexts u Local = Some upc" using contexts_built [of u Local] by blast
  obtain ulc where ulc: "new_Contexts u Peer = Some ulc" using contexts_built [of u Peer] by blast
  show ?thesis
    using g(1) pc lc found u upc ulc pos
    by (intro exI [of _ "\<lparr>entries = es, positive = pos, positiveWaiting = map link_identity w, samePeer = pc, sameLocal = lc,
      conflictsFound = found, usable = u, usableAdmitted = map (\<lambda>(l, s). (link_identity l, s)) ua, usableSamePeer = upc, usableSameLocal = ulc\<rparr>"])
      (auto simp: derive_model_def pos_def [symmetric] model_of_def Let_def)
qed

section \<open>The usable graph\<close>

lemma affected_scope: "affected found c \<longleftrightarrow> (\<exists>(k, i) \<in> set found. c \<in> set (conflict_scope k))"
  by (auto simp: affected_def conflictsAt_def list_ex_iff)

lemma leads_more: "leads admits E a b side \<Longrightarrow> E \<subseteq> F \<Longrightarrow> leads (\<lambda>_. True) F a b side"
  by (induction rule: leads.induct) (auto intro: leads.intros)

text \<open>Fewer entries and fewer channels admitted lead to fewer links.\<close>

lemma grounded_less: "grounded P admits es \<subseteq> grounded (\<lambda>_. True) (\<lambda>_. True) es"
  unfolding grounded_def
proof (intro lfp_mono subsetI, clarify)
  fix A :: "Link set" and l
  assume l: "l \<in> set (candidates P es)" "confirmed_by (writersOf P es) (leads admits (peer_ends (peerLinks P es) \<union> local_ends A)) l"
  let ?R = "leads admits (peer_ends (peerLinks P es) \<union> local_ends A)"
    and ?S = "leads (\<lambda>_. True) (peer_ends (peerLinks (\<lambda>_. True) es) \<union> local_ends A)"
  have "peer_ends (peerLinks P es) \<union> local_ends A \<subseteq> peer_ends (peerLinks (\<lambda>_. True) es) \<union> local_ends A"
    by (auto simp: peer_ends_def peerLinks_def set_map_filter)
  then have more: "\<And>a b side. ?R a b side \<Longrightarrow> ?S a b side" by (rule leads_more [rotated])
  obtain c where c: "(\<lambda>a b. ?R a b Peer)\<^sup>*\<^sup>* (link_from l) c" "writers_at (writersOf P es) (localDid (link_from l)) (peerDid c) \<noteq> []"
    using l(2) by (auto simp: confirmed_by_def)
  have "(\<lambda>a b. ?R a b Peer)\<^sup>*\<^sup>* \<le> (\<lambda>a b. ?S a b Peer)\<^sup>*\<^sup>*" by (rule rtranclp_mono) (use more in auto)
  moreover have "writers_at (writersOf (\<lambda>_. True) es) (localDid (link_from l)) (peerDid c) \<noteq> []"
    using c(2) unfolding writers_at_of by (auto simp: filter_empty_conv)
  ultimately have "confirmed_by (writersOf (\<lambda>_. True) es) ?S l" using c(1) unfolding confirmed_by_def by blast
  moreover have "l \<in> set (candidates (\<lambda>_. True) es)" using l(1) by (auto simp: candidates_def set_map_filter)
  ultimately show "l \<in> set (candidates (\<lambda>_. True) es) \<and> confirmed_by (writersOf (\<lambda>_. True) es) ?S l" by blast
qed

lemma entry_links_less: "entry_links P admits es a b side \<Longrightarrow> entry_links (\<lambda>_. True) (\<lambda>_. True) es a b side"
proof -
  assume l: "entry_links P admits es a b side"
  have "peer_ends (peerLinks P es) \<union> local_ends (grounded P admits es) \<subseteq>
      peer_ends (peerLinks (\<lambda>_. True) es) \<union> local_ends (grounded (\<lambda>_. True) (\<lambda>_. True) es)"
    using grounded_less [of P admits es] by (auto simp: peer_ends_def peerLinks_def set_map_filter local_ends_def)
  then show ?thesis using l unfolding entry_links_def by (rule leads_more [rotated])
qed

lemma model_ofD:
  assumes "model_of es m"
  shows "entries m = es" "sound_graph (\<lambda>_. True) (positive m)" "linked (positive m) = entry_links (\<lambda>_. True) (\<lambda>_. True) es"
    "e \<in> set es \<Longrightarrow> set (entry_sites e) \<subseteq> set (vertices (positive m))"
    "new_Contexts (positive m) Local = Some (samePeer m)" "new_Contexts (positive m) Peer = Some (sameLocal m)"
    "findConflicts es (positive m) (samePeer m) (sameLocal m) = Some (conflictsFound m)"
    "sound_graph (\<lambda>c. \<not> affected (conflictsFound m) c) (usable m)"
    "linked (usable m) = entry_links (clear (conflictsFound m)) (\<lambda>c. \<not> affected (conflictsFound m) c) es"
    "new_Contexts (usable m) Local = Some (usableSamePeer m)" "new_Contexts (usable m) Peer = Some (usableSameLocal m)"
  using assms unfolding model_of_def by simp_all

lemma usable_links:
  assumes "model_of es m" and "linked (usable m) a b side"
  shows "linked (positive m) a b side" and "\<not> affected (conflictsFound m) a" and "\<not> affected (conflictsFound m) b"
proof -
  show "linked (positive m) a b side"
    using entry_links_less assms(2) unfolding model_ofD(3) [OF assms(1)] model_ofD(9) [OF assms(1)] .
  have "leads (\<lambda>c. \<not> affected (conflictsFound m) c) (peer_ends (peerLinks (clear (conflictsFound m)) es) \<union>
      local_ends (grounded (clear (conflictsFound m)) (\<lambda>c. \<not> affected (conflictsFound m) c) es)) a b side"
    using assms(2) unfolding model_ofD(9) [OF assms(1)] entry_links_def .
  then show "\<not> affected (conflictsFound m) a" "\<not> affected (conflictsFound m) b" using leads_admits by blast+
qed

lemma arcs_linked: "(a, b) \<in> arcs g \<longleftrightarrow> (\<exists>side. linked g a b side)"
  by (auto simp: arcs_def linked_def edge_key_def)

lemma leads_replaces_one:
  assumes "\<And>a b side. (a, b, side) \<in> E \<Longrightarrow> replaces_one a b side"
  shows "leads admits E a b side \<Longrightarrow> replaces_one a b side"
proof (induction rule: leads.induct)
  case (given a b side)
  then show ?case using assms by blast
qed (auto simp: replaces_one_def pair_up_def)

lemma entry_links_replace:
  assumes "entries_ok es" and "entry_links P admits es a b side"
  shows "replaces_one a b side"
proof -
  have ok: "closure_ok (peerLinks P es) (candidates P es)" by (rule links_closure_ok [OF assms(1)])
  have "grounded P admits es \<subseteq> set (candidates P es)" unfolding grounded_rule by (rule confirm_rule.lfp_grounds)
  then have "replaces_one x y s" if "(x, y, s) \<in> peer_ends (peerLinks P es) \<union> local_ends (grounded P admits es)" for x y s
    using that ok by (auto simp: closure_ok_def peer_ends_def local_ends_def)
  then show ?thesis using leads_replaces_one assms(2) unfolding entry_links_def by blast
qed

text \<open>A cycle is in conflict, and so no usable link is on one.\<close>

lemma found_set:
  assumes "findConflicts es g p l = Some found"
  shows "\<exists>cs. cycles g = Some cs \<and> set found = set (competing es g p Peer) \<union> set (competing es g l Local) \<union>
    cycle_conflict es g ` set cs \<union> collision_conflict es ` set (identityCollisions g)"
  using assms by (auto simp: findConflicts_def split: option.splits)

lemma cycle_affected:
  assumes m: "model_of es m" and c: "c \<in> set (vertices (positive m))" and "scc (positive m) c \<noteq> {c}"
  shows "affected (conflictsFound m) c"
proof -
  obtain cs where cs: "cycles (positive m) = Some cs" "cycle_conflict es (positive m) ` set cs \<subseteq> set (conflictsFound m)"
    using found_set [OF model_ofD(7) [OF m]] by blast
  have "scc (positive m) c \<in> set ` set cs"
    using cycles_listed [OF sound_vertices [OF model_ofD(2) [OF m]]] cs(1) c assms(3) by auto
  then obtain cy where cy: "cy \<in> set cs" "set cy = scc (positive m) c" by auto
  have "c \<in> scc (positive m) c" by (simp add: scc_def)
  then have "c \<in> set (conflict_scope (fst (cycle_conflict es (positive m) cy)))" using cy(2) by (simp add: cycle_conflict_def Let_def)
  then show ?thesis using cs(2) cy(1) unfolding affected_scope by (metis (no_types, lifting) case_prod_beta image_subset_iff)
qed

lemma usable_no_cycle:
  assumes es: "entries_ok es" and m: "model_of es m"
  shows "(a, a) \<notin> (arcs (usable m))\<^sup>+"
proof
  assume "(a, a) \<in> (arcs (usable m))\<^sup>+"
  then obtain b where ab: "(a, b) \<in> arcs (usable m)" and ba: "gets_to (usable m) b a" by (meson tranclD)
  have sub: "arcs (usable m) \<subseteq> arcs (positive m)" using usable_links(1) [OF m] unfolding arcs_linked subset_iff by (metis arcs_linked surj_pair)
  obtain side where side: "linked (usable m) a b side" using ab arcs_linked by blast
  have "replaces_one a b side" using side unfolding model_ofD(9) [OF m] by (rule entry_links_replace [OF es])
  then have "a \<noteq> b" by (auto simp: replaces_one_def split: Replaces.splits)
  moreover have "gets_to (positive m) a b" using ab sub by blast
  moreover have "gets_to (positive m) b a" using ba rtrancl_mono [OF sub] by blast
  ultimately have "scc (positive m) a \<noteq> {a}" unfolding scc_def by auto
  moreover obtain e where "e \<in> set (graph_edges (positive m))" "edge_from e = a"
    using usable_links(1) [OF m side] by (auto simp: linked_def)
  then have "a \<in> set (vertices (positive m))" using model_ofD(2) [OF m] unfolding sound_graph_def by blast
  ultimately show False using cycle_affected [OF m] usable_links(2) [OF m side] by blast
qed


section \<open>Competing changes\<close>

lemma changeKey_inject [simp]: "changeKey a = changeKey b \<longleftrightarrow> a = b"
proof -
  have "js ''rotate'' @ 0 # s \<noteq> js ''end''" "js ''end'' \<noteq> js ''rotate'' @ 0 # s" for s by (simp_all add: js_def)
  then show ?thesis by (cases a; cases b) (auto simp: changeKey_def)
qed

lemma add_change_keys: "fst ` set (add_change change i cs) = insert change (fst ` set cs)"
  by (force simp: add_change_def list_ex_iff split: if_splits)

definition claim_listed :: "Parents \<Rightarrow> ChangeGroup list \<Rightarrow> Claim \<Rightarrow> bool" where
  "claim_listed contexts groups c \<longleftrightarrow> (\<exists>gr \<in> set groups. group_root gr = root_in contexts (channelKey (claim_at c)) \<and>
     claim_change c \<in> fst ` set (group_changes gr))"

definition groups_ok :: "Parents \<Rightarrow> ChangeGroup list \<Rightarrow> bool" where
  "groups_ok contexts groups \<longleftrightarrow> distinct (map group_root groups) \<and>
     (\<forall>gr \<in> set groups. root_in contexts (channelKey (group_channel gr)) = group_root gr)"

lemma add_claim_ok:
  assumes "groups_ok contexts groups"
  shows "groups_ok contexts (add_claim contexts (i, c) groups)" and "claim_listed contexts (add_claim contexts (i, c) groups) c"
    and "claim_listed contexts groups d \<Longrightarrow> claim_listed contexts (add_claim contexts (i, c) groups) d"
proof -
  let ?r = "root_in contexts (channelKey (claim_at c))"
  have run: "add_claim contexts (i, c) groups = map (note_claim ?r i c) (open_group ?r c groups)" by (simp add: add_claim_def Let_def)
  have kept: "group_root (note_claim ?r i c gr) = group_root gr" "group_channel (note_claim ?r i c gr) = group_channel gr"
    "fst ` set (group_changes gr) \<subseteq> fst ` set (group_changes (note_claim ?r i c gr))" for gr
    by (auto simp: note_claim_def add_change_keys)
  have opened: "groups_ok contexts (open_group ?r c groups)" "set groups \<subseteq> set (open_group ?r c groups)"
    using assms by (auto simp: groups_ok_def open_group_def list_ex_iff)
  have roots: "map group_root (map (note_claim ?r i c) gs) = map group_root gs" for gs by (simp add: kept(1))
  show "groups_ok contexts (add_claim contexts (i, c) groups)"
    using opened(1) unfolding run groups_ok_def roots by (auto simp: kept)
  have "\<exists>gr \<in> set (open_group ?r c groups). group_root gr = ?r" by (auto simp: list_ex_iff open_group_def)
  then obtain gr where gr: "gr \<in> set (open_group ?r c groups)" "group_root gr = ?r" by blast
  then have "claim_change c \<in> fst ` set (group_changes (note_claim ?r i c gr))" by (simp add: note_claim_def add_change_keys)
  moreover have "note_claim ?r i c gr \<in> set (add_claim contexts (i, c) groups)" unfolding run using gr(1) by simp
  ultimately show "claim_listed contexts (add_claim contexts (i, c) groups) c"
    unfolding claim_listed_def using gr(2) kept(1) by metis
  assume "claim_listed contexts groups d"
  then obtain gd where gd: "gd \<in> set groups" "group_root gd = root_in contexts (channelKey (claim_at d))"
    "claim_change d \<in> fst ` set (group_changes gd)" by (auto simp: claim_listed_def)
  then have "note_claim ?r i c gd \<in> set (add_claim contexts (i, c) groups)" unfolding run using opened(2) by auto
  moreover have "claim_change d \<in> fst ` set (group_changes (note_claim ?r i c gd))" using gd(3) kept(3) [of gd] by blast
  ultimately show "claim_listed contexts (add_claim contexts (i, c) groups) d"
    unfolding claim_listed_def using gd(2) kept(1) [of gd] by metis
qed

lemma claims_grouped:
  assumes "groups_ok contexts groups"
  shows "groups_ok contexts (fold (add_claim contexts) ics groups) \<and>
    (\<forall>d. claim_listed contexts groups d \<or> d \<in> snd ` set ics \<longrightarrow> claim_listed contexts (fold (add_claim contexts) ics groups) d)"
  using assms
proof (induction ics arbitrary: groups)
  case (Cons ic ics)
  obtain i c where ic: "ic = (i, c)" by (cases ic)
  have ih: "groups_ok contexts (fold (add_claim contexts) ics (add_claim contexts (i, c) groups)) \<and>
    (\<forall>d. claim_listed contexts (add_claim contexts (i, c) groups) d \<or> d \<in> snd ` set ics \<longrightarrow>
      claim_listed contexts (fold (add_claim contexts) ics (add_claim contexts (i, c) groups)) d)"
    by (rule Cons.IH [OF add_claim_ok(1) [OF Cons.prems]])
  show ?case
    using ih add_claim_ok(2) [OF Cons.prems, of i c] add_claim_ok(3) [OF Cons.prems, of _ i c] unfolding ic by auto
qed simp

text \<open>Two claims of different changes in one context are a conflict, whose scope is that context.\<close>

lemma competing_found:
  assumes "e \<in> set es" "claiming side e = Some c" and "e' \<in> set es" "claiming side e' = Some c'"
    and same_root: "root_in contexts (channelKey (claim_at c)) = root_in contexts (channelKey (claim_at c'))"
    and differ: "claim_change c \<noteq> claim_change c'"
    and v: "v \<in> set (vertices g)" "root_in contexts (channelKey v) = root_in contexts (channelKey (claim_at c))"
  shows "\<exists>(k, i) \<in> set (competing es g contexts side). v \<in> set (conflict_scope k)"
proof -
  let ?groups = "fold (add_claim contexts) (claims_of side es) []"
  have both: "c \<in> snd ` set (claims_of side es)" "c' \<in> snd ` set (claims_of side es)"
    using assms(1-4) by (force simp: claims_of_def set_map_filter image_iff)+
  have grouped: "groups_ok contexts ?groups \<and> (\<forall>d. claim_listed contexts [] d \<or> d \<in> snd ` set (claims_of side es) \<longrightarrow> claim_listed contexts ?groups d)"
    by (rule claims_grouped) (simp add: groups_ok_def)
  then have ok: "groups_ok contexts ?groups" and "claim_listed contexts ?groups c" "claim_listed contexts ?groups c'" using both by blast+
  then obtain gr gr' where gr: "gr \<in> set ?groups" "group_root gr = root_in contexts (channelKey (claim_at c))" "claim_change c \<in> fst ` set (group_changes gr)"
    and gr': "gr' \<in> set ?groups" "group_root gr' = root_in contexts (channelKey (claim_at c))" "claim_change c' \<in> fst ` set (group_changes gr')"
    unfolding claim_listed_def same_root [symmetric] by blast
  have "distinct (map group_root ?groups)" using ok by (simp add: groups_ok_def)
  then have "gr' = gr" using gr(1,2) gr'(1,2) by (metis distinct_map inj_onD)
  then have "{claim_change c, claim_change c'} \<subseteq> fst ` set (group_changes gr)" using gr(3) gr'(3) by simp
  moreover have "card {claim_change c, claim_change c'} = 2" using differ by simp
  ultimately have "2 \<le> card (fst ` set (group_changes gr))" by (metis card_mono finite_imageI finite_set)
  also have "\<dots> \<le> length (group_changes gr)" by (meson card_image_le card_length finite_set order_trans)
  finally have "gr \<in> set (filter (\<lambda>gr. 2 \<le> length (group_changes gr)) ?groups)" using gr(1) by simp
  moreover have "v \<in> set (contextOf contexts g (group_channel gr))"
    using v gr(1,2) ok by (simp add: contextOf_def groups_ok_def)
  ultimately show ?thesis unfolding competing_def Let_def by force
qed

section \<open>Where a link comes from\<close>

lemma set_all_edges [simp]: "set (all_edges g) = set (graph_edges g)"
  by (auto simp: all_edges_def edges_from_def)

lemma connected_linked:
  assumes "linked g a b side"
  shows "connected (set (side_pairs g side)) (channelKey a) (channelKey b)"
proof -
  have "(channelKey a, channelKey b) \<in> set (side_pairs g side)" using assms by (force simp: linked_def side_pairs_def)
  then show ?thesis by (rule connected.along [OF connected.stay])
qed

lemma root_connected:
  assumes "new_Contexts g side = Some p"
  shows "root_in p a = root_in p b \<longleftrightarrow> connected (set (side_pairs g side)) a b"
proof -
  obtain q where q: "new_Contexts g side = Some q" "uf_ok q" "\<forall>a b. rep q a = rep q b \<longleftrightarrow> connected (set (side_pairs g side)) a b"
    using contexts_built [of g side] by blast
  have "p = q" using assms q(1) by simp
  moreover have "root_in q k = rep q k" for k using context_root_ok [OF q(2), of k] by (auto simp: root_in_def)
  ultimately show ?thesis using q(3) by simp
qed

text \<open>A link of a side rests on a claim of that side of the same new end, in its context.\<close>

definition other_side :: "Replaces \<Rightarrow> Replaces" where
  "other_side side = (if side = Local then Peer else Local)"

lemma link_origin:
  assumes es: "entries_ok es" and "linked g = entry_links P admits es" and "entry_links P admits es a b side"
  shows "\<exists>e c. e \<in> set es \<and> claiming side e = Some c \<and> claim_change c = Rotate (new_end side b) \<and>
    connected (set (side_pairs g (other_side side))) (channelKey (claim_at c)) (channelKey a)"
proof -
  let ?E = "peer_ends (peerLinks P es) \<union> local_ends (grounded P admits es)"
  have from_entry: "\<exists>e c. e \<in> set es \<and> claiming side e = Some c \<and> claim_to c = Some b \<and> claim_at c = a" if "(a, b, side) \<in> ?E" for a b side
  proof -
    have "grounded P admits es \<subseteq> set (candidates P es)" unfolding grounded_rule by (rule confirm_rule.lfp_grounds)
    then have "\<exists>l e. e \<in> set es \<and> claim_link side e = Some l \<and> a = link_from l \<and> b = link_to l"
      using that by (cases side) (auto simp: peer_ends_def local_ends_def peerLinks_def candidates_def set_map_filter subset_iff, blast)
    then show ?thesis unfolding claim_link_of by auto
  qed
  have step: "connected (set (side_pairs g side)) (channelKey a) (channelKey b)" if "leads admits ?E a b side" for a b side
    using connected_linked that assms(2) unfolding entry_links_def by metis
  have "leads admits ?E a b side" using assms(3) unfolding entry_links_def .
  then show ?thesis
  proof (induction rule: leads.induct)
    case (given a b side)
    then obtain e c where e: "e \<in> set es" "claiming side e = Some c" "claim_to c = Some b" "claim_at c = a" using from_entry by blast
    have "claim_change c = Rotate (new_end side b)" using entry_claims(2) [OF es e(1-3)] .
    then show ?case using e connected.stay by blast
  next
    case (peer_join c l p)
    obtain e d where e: "e \<in> set es" "claiming Peer e = Some d" "claim_change d = Rotate (new_end Peer p)"
      "connected (set (side_pairs g Local)) (channelKey (claim_at d)) (channelKey c)"
      using peer_join.IH(2) by (auto simp: other_side_def)
    have "connected (set (side_pairs g Local)) (channelKey (claim_at d)) (channelKey l)"
      using connected_trans [OF step [OF peer_join.hyps(1)] e(4)] .
    then show ?case using e(1-3) by (auto simp: other_side_def new_end_def pair_up_def)
  next
    case (local_join c l p)
    obtain e d where e: "e \<in> set es" "claiming Local e = Some d" "claim_change d = Rotate (new_end Local l)"
      "connected (set (side_pairs g Peer)) (channelKey (claim_at d)) (channelKey c)"
      using local_join.IH(1) by (auto simp: other_side_def)
    have "connected (set (side_pairs g Peer)) (channelKey (claim_at d)) (channelKey p)"
      using connected_trans [OF step [OF local_join.hyps(2)] e(4)] .
    then show ?case using e(1-3) by (auto simp: other_side_def new_end_def pair_up_def)
  qed
qed

lemma fork_affected:
  assumes es: "entries_ok es" and m: "model_of es m" and ab: "linked (positive m) a b side" and ac: "linked (positive m) a c side" and "b \<noteq> c"
  shows "affected (conflictsFound m) a"
proof -
  let ?p = "contextsOf m side"
  have ctx: "new_Contexts (positive m) (other_side side) = Some ?p"
    using model_ofD(5,6) [OF m] by (cases side) (simp_all add: other_side_def contextsOf_def)
  have el: "entry_links (\<lambda>_. True) (\<lambda>_. True) es a b side" "entry_links (\<lambda>_. True) (\<lambda>_. True) es a c side"
    using ab ac unfolding model_ofD(3) [OF m] by blast+
  note origin = link_origin [OF es model_ofD(3) [OF m]]
  obtain e d where e: "e \<in> set es" "claiming side e = Some d" "claim_change d = Rotate (new_end side b)"
    "connected (set (side_pairs (positive m) (other_side side))) (channelKey (claim_at d)) (channelKey a)" using origin [OF el(1)] by blast
  obtain e' d' where e': "e' \<in> set es" "claiming side e' = Some d'" "claim_change d' = Rotate (new_end side c)"
    "connected (set (side_pairs (positive m) (other_side side))) (channelKey (claim_at d')) (channelKey a)" using origin [OF el(2)] by blast
  have roots: "root_in ?p (channelKey (claim_at d)) = root_in ?p (channelKey a)" "root_in ?p (channelKey (claim_at d')) = root_in ?p (channelKey a)"
    using e(4) e'(4) root_connected [OF ctx] by blast+
  have "new_end side b \<noteq> new_end side c"
    using entry_links_replace [OF es el(1)] entry_links_replace [OF es el(2)] \<open>b \<noteq> c\<close>
    by (cases b; cases c; cases side) (auto simp: replaces_one_def new_end_def)
  then have "claim_change d \<noteq> claim_change d'" using e(3) e'(3) by simp
  moreover have "a \<in> set (vertices (positive m))"
    using ab model_ofD(2) [OF m] by (auto simp: linked_def sound_graph_def)
  moreover have "root_in ?p (channelKey (claim_at d)) = root_in ?p (channelKey (claim_at d'))" by (rule trans [OF roots(1) roots(2) [symmetric]])
  ultimately have "\<exists>(k, i) \<in> set (competing es (positive m) ?p side). a \<in> set (conflict_scope k)"
    by (intro competing_found [OF e(1,2) e'(1,2) _ _ _ roots(1) [symmetric]])
  then obtain k i where "(k, i) \<in> set (competing es (positive m) ?p side)" "a \<in> set (conflict_scope k)" by blast
  moreover have "set (competing es (positive m) ?p side) \<subseteq> set (conflictsFound m)"
    using found_set [OF model_ofD(7) [OF m]] by (cases side) (auto simp: contextsOf_def)
  ultimately show ?thesis unfolding affected_scope by blast
qed

text \<open>The usable graph is without forks of one side.\<close>

lemma usable_no_fork:
  assumes "entries_ok es" and "model_of es m" and "linked (usable m) a b side" and "linked (usable m) a c side"
  shows "b = c"
  using fork_affected [OF assms(1,2)] usable_links [OF assms(2)] assms(3,4) by blast

end
