(* ===== verification/Continuity_Queries.thy ===== *)
theory Continuity_Queries
  imports Continuity_Usable
begin

text \<open>
  What the queries of the continuity model answer: a path is a shortest usable walk, a
  confirmation lists exactly the clear observations usable peer links lead to, and a head
  is the one end of the usable links, with nothing the search reaches left open.
\<close>

section \<open>Models of facts\<close>

lemma entries_of_accepted:
  assumes "by_identity serialize F ms" and "\<forall>f \<in> F. fact_ok f"
  shows "entries_ok (map (\<lambda>(i, f). entryOf i f) ms)" and "entry_fact ` set (map (\<lambda>(i, f). entryOf i f) ms) = F"
proof -
  have ids: "map entry_identity (map (\<lambda>(i, f). entryOf i f) ms) = map fst ms" by (auto simp: split_beta)
  have "distinct (map fst ms)" using assms(1) by (simp add: by_identity_def identified_def)
  moreover have "fact_ok f" if "(i, f) \<in> set ms" for i f using assms that by (force simp: by_identity_def)
  ultimately show "entries_ok (map (\<lambda>(i, f). entryOf i f) ms)" unfolding entries_ok_def ids by (auto, blast)
  show "entry_fact ` set (map (\<lambda>(i, f). entryOf i f) ms) = F"
    using assms(1) by (force simp: by_identity_def image_image split_beta)
qed

lemma facts_derive:
  assumes "inj serialize" and "\<forall>f \<in> set fs. fact_ok f"
  shows "\<exists>m. deriveContinuity serialize (map fact_value fs) = Inr (Some m) \<and> entries_ok (entries m) \<and> model_of (entries m) m \<and>
    entry_fact ` set (entries m) = set fs"
proof -
  obtain ms where ms: "accept serialize (map fact_value fs) = Inr ms" "by_identity serialize (set fs) ms"
    using accept_ok [OF assms] by blast
  let ?es = "map (\<lambda>(i, f). entryOf i f) ms"
  have es: "entries_ok ?es" "entry_fact ` set ?es = set fs" using entries_of_accepted [OF ms(2) assms(2)] by blast+
  obtain m where m: "derive_model ?es = Some m" "model_of ?es m" using model_derived [OF es(1)] by blast
  have "entries m = ?es" using m(2) by (rule model_ofD(1))
  then show ?thesis using ms(1) m es by (auto simp: deriveContinuity_def)
qed

lemma derived_model:
  assumes "inj serialize" and "\<forall>f \<in> set fs. fact_ok f" and "deriveContinuity serialize (map fact_value fs) = Inr (Some m)"
  shows "entries_ok (entries m)" and "model_of (entries m) m" and "entry_fact ` set (entries m) = set fs"
  using facts_derive [OF assms(1,2)] assms(3) by auto

section \<open>Paths and confirmations\<close>

lemma fst_filter: "fst ` set (filter (\<lambda>(e, x). Q e) xs) = {e \<in> fst ` set xs. Q e}"
  by force

lemma map_of_renamed: "map_of (map (\<lambda>(l, y). (h l, y)) xs) k \<noteq> None \<Longrightarrow> k \<in> h ` fst ` set xs"
  by (induction xs) (auto split: if_splits)

lemma path_answer:
  "case path m a b of
     PathFound cs fs \<Rightarrow> (\<exists>es. walk (usable m) None a es b \<and> cs = a # map edge_to es \<and> fs = facts_named m (path_support es) \<and>
       (\<forall>es'. walk (usable m) None a es' b \<longrightarrow> length es \<le> length es')) \<and> conflictFactsAt m a = [] \<and> conflictFactsAt m b = []
   | NoPath \<Rightarrow> known_channel m a \<longrightarrow> (\<nexists>es. walk (usable m) None a es b)
   | PathConflict fs \<Rightarrow> conflictFactsAt m a \<noteq> [] \<or> conflictFactsAt m b \<noteq> []"
  using graph_path_shortest [of "usable m" a b] by (auto simp: path_def Let_def split: option.splits)

lemma observations_reached:
  assumes "(e, via) \<in> set (observations_at m l p)"
  shows "e \<in> set (entries m)" and "is_observation (entry_fact e)" and "localDid (fact_at (entry_fact e)) = l"
    and "walk (usable m) (Some Peer) (channelOf l p) via (fact_at (entry_fact e))"
proof -
  have *: "e \<in> set (entries m) \<and> is_observation (entry_fact e) \<and> localDid (fact_at (entry_fact e)) = l \<and>
      pathTo (graph_reach (usable m) (channelOf l p) (Some Peer) None) (fact_at (entry_fact e)) = Some via"
    using assms by (auto simp: observations_at_def Let_def set_map_filter split: if_splits)
  then show "e \<in> set (entries m)" "is_observation (entry_fact e)" "localDid (fact_at (entry_fact e)) = l" by blast+
  show "walk (usable m) (Some Peer) (channelOf l p) via (fact_at (entry_fact e))"
    using * graph_reach_path [of "usable m" "channelOf l p" "Some Peer" "fact_at (entry_fact e)"] by simp
qed

lemma observations_all:
  assumes "l \<noteq> p" and "e \<in> set (entries m)" and "is_observation (entry_fact e)" and "localDid (fact_at (entry_fact e)) = l"
    and "walk (usable m) (Some Peer) (channelOf l p) es (fact_at (entry_fact e))"
  shows "\<exists>via. (e, via) \<in> set (observations_at m l p)"
  using assms graph_reach_path [of "usable m" "channelOf l p" "Some Peer" "fact_at (entry_fact e)"]
  by (auto simp: observations_at_def Let_def set_map_filter split: option.splits)

text \<open>The observations of the peer, or of a usable successor of it, at exactly this local DID.\<close>

definition witnesses :: "Model \<Rightarrow> did \<Rightarrow> did \<Rightarrow> Entry set" where
  "witnesses m l p = {e \<in> set (entries m). is_observation (entry_fact e) \<and> localDid (fact_at (entry_fact e)) = l \<and>
     (\<exists>es. walk (usable m) (Some Peer) (channelOf l p) es (fact_at (entry_fact e)))}"

lemma observations_witnesses: "l \<noteq> p \<Longrightarrow> fst ` set (observations_at m l p) = witnesses m l p"
proof (intro set_eqI iffI)
  fix e assume "e \<in> fst ` set (observations_at m l p)"
  then obtain via where "(e, via) \<in> set (observations_at m l p)" by auto
  note reached = observations_reached [OF this]
  show "e \<in> witnesses m l p" unfolding witnesses_def using reached by blast
next
  fix e assume "l \<noteq> p" and e: "e \<in> witnesses m l p"
  then obtain es where "e \<in> set (entries m)" "is_observation (entry_fact e)" "localDid (fact_at (entry_fact e)) = l"
    "walk (usable m) (Some Peer) (channelOf l p) es (fact_at (entry_fact e))"
    unfolding witnesses_def by blast
  then obtain via where "(e, via) \<in> set (observations_at m l p)" using observations_all [OF \<open>l \<noteq> p\<close>] by blast
  then show "e \<in> fst ` set (observations_at m l p)" by force
qed

lemma confirmation_answer:
  assumes "l \<noteq> p"
  shows "case confirmation m l p of
      Confirmed os \<Rightarrow> fst ` set os = entry_fact ` {e \<in> witnesses m l p. clear (conflictsFound m) e} \<and> os \<noteq> []
    | Unconfirmed fs \<Rightarrow> set fs = entry_fact ` witnesses m l p \<and> (\<forall>e \<in> witnesses m l p. \<not> clear (conflictsFound m) e)
    | ConfirmationConflict fs \<Rightarrow> conflictFactsAt m (channelOf l p) \<noteq> []"
proof -
  let ?os = "observations_at m l p"
  have all: "fst ` set ?os = witnesses m l p" by (rule observations_witnesses [OF assms])
  have clears: "entry_fact ` fst ` set (filter (\<lambda>(e, via). clear (conflictsFound m) e) ?os) = entry_fact ` {e \<in> witnesses m l p. clear (conflictsFound m) e}"
    unfolding fst_filter all ..
  have empty: "filter (\<lambda>(e, via). clear (conflictsFound m) e) ?os = [] \<longleftrightarrow> (\<forall>e \<in> witnesses m l p. \<not> clear (conflictsFound m) e)"
    unfolding all [symmetric] by (force simp: filter_empty_conv)
  have firsts: "fst ` (\<lambda>(e, via). (entry_fact e, h e via)) ` A = entry_fact ` fst ` A" for A :: "(Entry \<times> Edge list) set" and h :: "Entry \<Rightarrow> Edge list \<Rightarrow> ContinuityFact list"
    by force
  have rest_all: "filter (\<lambda>(e, via). \<not> clear (conflictsFound m) e) ?os = ?os" if "filter (\<lambda>(e, via). clear (conflictsFound m) e) ?os = []"
    using that by (auto simp: filter_empty_conv filter_id_conv)
  show ?thesis
  proof (cases "conflictFactsAt m (channelOf l p) = []")
    case False
    then show ?thesis by (simp add: confirmation_def)
  next
    case clean: True
    show ?thesis
    proof (cases "filter (\<lambda>(e, via). clear (conflictsFound m) e) ?os = []")
      case True
      have "(\<lambda>(e, via). entry_fact e) ` set ?os = entry_fact ` witnesses m l p" unfolding all [symmetric] by force
      then show ?thesis using clean True empty rest_all by (simp add: confirmation_def Let_def)
    next
      case False
      have "fst ` set (map (\<lambda>(e, via). (entry_fact e, facts_named m (entry_identity e # path_support via)))
          (filter (\<lambda>(e, via). clear (conflictsFound m) e) ?os)) = entry_fact ` {e \<in> witnesses m l p. clear (conflictsFound m) e}"
        unfolding set_map firsts clears ..
      then show ?thesis using clean False by (simp add: confirmation_def Let_def)
    qed
  qed
qed

section \<open>Heads\<close>

text \<open>A usable rotation admitted is in the usable graph, at its own pair.\<close>

lemma admitted_established:
  assumes es: "entries_ok (entries m)" and m: "model_of (entries m) m" and e: "e \<in> set (entries m)" and c: "claiming Local e = Some cl"
    and change: "claim_change cl = Rotate s" and adm: "map_of (usableAdmitted m) (entry_identity e) \<noteq> None"
    and same: "usableContextRoot m (claim_at cl) Local = usableContextRoot m x Local"
  shows "usablyEstablished m Local x s"
proof -
  let ?found = "conflictsFound m"
  obtain admitted where a: "fst ` set admitted = grounded (clear ?found) (\<lambda>c. \<not> affected ?found c) (entries m)"
    "usableAdmitted m = map (\<lambda>(l, s). (link_identity l, s)) admitted"
    using m unfolding model_of_def by blast
  have "entry_identity e \<in> link_identity ` fst ` set admitted"
    using adm unfolding a(2) by (rule map_of_renamed)
  then obtain l where l: "l \<in> grounded (clear ?found) (\<lambda>c. \<not> affected ?found c) (entries m)" "link_identity l = entry_identity e"
    unfolding a(1) by auto
  have "l \<in> set (candidates (clear ?found) (entries m))"
    using l(1) confirm_rule.lfp_grounds unfolding grounded_rule by blast
  then obtain e' where e': "e' \<in> set (entries m)" "clear ?found e'" "claim_link Local e' = Some l"
    by (auto simp: candidates_def set_map_filter)
  then obtain cl' where cl': "claiming Local e' = Some cl'" "claim_to cl' = Some (link_to l)" "link_from l = claim_at cl'" "link_identity l = entry_identity e'"
    unfolding claim_link_of by blast
  have "entry_identity e' = entry_identity e" using cl'(4) l(2) by simp
  moreover have "distinct (map entry_identity (entries m))" using es by (simp add: entries_ok_def)
  ultimately have "e' = e" using e e'(1) by (metis distinct_map inj_onD)
  then have "cl' = cl" using cl'(1) c by simp
  note pairs = entry_claims [OF es e'(1) cl'(1,2)]
  have "(link_from l, link_to l, Local) \<in> local_ends (grounded (clear ?found) (\<lambda>c. \<not> affected ?found c) (entries m))"
    using l(1) by (auto simp: local_ends_def)
  moreover have "\<not> affected ?found (link_from l)" "\<not> affected ?found (link_to l)"
    using e'(2) pairs(4,5) cl'(3) by (auto simp: clear_def list_all_iff)
  ultimately have "linked (usable m) (link_from l) (link_to l) Local"
    unfolding model_ofD(9) [OF m] entry_links_def by (intro leads.given) auto
  then obtain u where u: "u \<in> set (graph_edges (usable m))" "edge_from u = link_from l" "edge_to u = link_to l" "replaces u = Local"
    by (auto simp: linked_def)
  have "s = localDid (link_to l)" using pairs(2) change \<open>cl' = cl\<close> by (simp add: new_end_def)
  then have "u \<in> set (usableChanges m Local s)" using u by (simp add: usableChanges_def)
  moreover have "usableContextRoot m (edge_from u) Local = usableContextRoot m x Local" using same u(2) cl'(3) \<open>cl' = cl\<close> by simp
  ultimately show ?thesis by (auto simp: usablyEstablished_def list_ex_iff)
qed

definition quiet :: "Findings \<Rightarrow> bool" where
  "quiet f \<longleftrightarrow> in_conflict f = [] \<and> ending f = [] \<and> waiting f = []"

lemma quiet_fold:
  assumes "\<And>x f. x \<in> set xs \<Longrightarrow> quiet (h x f) \<Longrightarrow> quiet f \<and> C x"
  shows "quiet (fold h xs f) \<Longrightarrow> quiet f \<and> (\<forall>x \<in> set xs. C x)"
  using assms
proof (induction xs arbitrary: f)
  case (Cons x xs)
  have "quiet (h x f) \<and> (\<forall>y \<in> set xs. C y)" using Cons.prems by (intro Cons.IH) auto
  then show ?case using Cons.prems(2) [of x f] by auto
qed simp

lemma quiet_conflict: "quiet (find_conflict is f) \<longleftrightarrow> quiet f \<and> is = []"
  by (auto simp: quiet_def find_conflict_def)

text \<open>A positive link that is usable, or makes a change usable links make anyway in that context.\<close>

definition link_answered :: "Model \<Rightarrow> Channel \<Rightarrow> Edge \<Rightarrow> bool" where
  "link_answered m c e \<longleftrightarrow> graph_edge (usable m) (edge_key e) \<noteq> None \<or> usablyEstablished m (replaces e) c (new_end (replaces e) (edge_to e))"

lemma quiet_edge:
  assumes "quiet (head_edge m c e f)" and "support e \<noteq> []"
  shows "quiet f \<and> link_answered m c e"
proof (cases "graph_edge (usable m) (edge_key e)")
  case None
  then show ?thesis using assms by (auto simp: head_edge_def quiet_conflict link_answered_def new_end_def split: if_splits)
next
  case (Some u)
  then show ?thesis using assms by (simp add: head_edge_def link_answered_def quiet_def)
qed

lemma quiet_endings: "quiet (head_endings m c side f) \<Longrightarrow> quiet f \<and> endingsAt m c side = []"
  by (auto simp: head_endings_def Let_def quiet_def find_conflict_def split: if_splits)

lemma quiet_pending:
  "quiet (pendingDecision m e f) \<Longrightarrow> quiet f \<and> map_of (usableAdmitted m) (entry_identity e) \<noteq> None"
  by (auto simp: pendingDecision_def Let_def quiet_def find_conflict_def split: if_splits)

lemma rotations_claims:
  assumes "(e, cl, s) \<in> set (rotationsAt m c)"
  shows "e \<in> set (entries m)" and "claiming Local e = Some cl" and "claim_change cl = Rotate s"
proof -
  obtain e' cl' where c: "(e', cl') \<in> set (context_claims m c Local)"
    and r: "(case claim_change cl' of End \<Rightarrow> None | Rotate successor \<Rightarrow> Some (e', cl', successor)) = Some (e, cl, s)"
    using assms by (auto simp: rotationsAt_def set_map_filter)
  then have same: "e' = e" "cl' = cl" and "claim_change cl = Rotate s" by (cases "claim_change cl'"; simp)+
  then show "claim_change cl = Rotate s" by simp
  have "e' \<in> set (entries m) \<and> claiming Local e' = Some cl'"
    using c by (auto simp: context_claims_def set_map_filter split: option.splits if_splits)
  then show "e \<in> set (entries m)" "claiming Local e = Some cl" unfolding same by blast+
qed

text \<open>Nothing is left open at a channel the usable links reach.\<close>

definition answered :: "Model \<Rightarrow> Channel \<Rightarrow> bool" where
  "answered m c \<longleftrightarrow> (\<forall>e \<in> set (edges_from (positive m) c). link_answered m c e) \<and>
     endingsAt m c Peer = [] \<and> endingsAt m c Local = [] \<and>
     (\<forall>(e, cl, s) \<in> set (rotationsAt m c). usablyEstablished m Local c s)"

lemma quiet_at:
  assumes es: "entries_ok (entries m)" and m: "model_of (entries m) m" and q: "quiet (head_at m r c f)" and "reach_has r c"
  shows "quiet f \<and> answered m c"
proof -
  let ?f1 = "fold (head_edge m c) (edges_from (positive m) c) f"
  let ?f2 = "head_endings m c Local (head_endings m c Peer ?f1)"
  have run: "head_at m r c f = fold (head_rotation m c) (rotationsAt m c) ?f2" using assms(4) by (simp add: head_at_def)
  have rot: "quiet ?f2 \<and> (\<forall>x \<in> set (rotationsAt m c). case x of (e, cl, s) \<Rightarrow> usablyEstablished m Local c s)"
  proof (rule quiet_fold [OF _ q [unfolded run]])
    fix x f assume x: "x \<in> set (rotationsAt m c)" and quiet: "quiet (head_rotation m c x f)"
    obtain e cl s where ecs: "x = (e, cl, s)" by (cases x)
    note claims = rotations_claims [OF x [unfolded ecs]]
    show "quiet f \<and> (case x of (e, cl, s) \<Rightarrow> usablyEstablished m Local c s)"
    proof (cases "usablyEstablished m Local c s")
      case True
      then show ?thesis using quiet by (simp add: ecs head_rotation_def)
    next
      case False
      then have same: "usableContextRoot m (claim_at cl) Local = usableContextRoot m c Local" and "quiet (pendingDecision m e f)"
        using quiet by (auto simp: ecs head_rotation_def quiet_conflict split: if_splits)
      then have "quiet f" "map_of (usableAdmitted m) (entry_identity e) \<noteq> None" using quiet_pending by blast+
      then show ?thesis using admitted_established [OF es m claims _ same] False by blast
    qed
  qed
  then have "quiet (head_endings m c Peer ?f1)" "endingsAt m c Local = []" using quiet_endings by blast+
  then have q1: "quiet ?f1" and ends: "endingsAt m c Peer = []" "endingsAt m c Local = []" using quiet_endings by blast+
  have supported: "support e \<noteq> []" if "e \<in> set (edges_from (positive m) c)" for e
    using that model_ofD(2) [OF m] by (auto simp: edges_from_def sound_graph_def)
  have "quiet f \<and> (\<forall>e \<in> set (edges_from (positive m) c). link_answered m c e)"
    by (rule quiet_fold [OF _ q1]) (rule quiet_edge [OF _ supported])
  then show ?thesis using rot ends by (auto simp: answered_def)
qed

lemma quiet_beyond:
  assumes "model_of es m" and "quiet (head_at m r c f)" and "\<not> reach_has r c"
  shows "quiet f \<and> (hasOutgoing (positive m) c \<or> edges_to (positive m) c = [])"
proof (cases "hasOutgoing (positive m) c")
  case False
  then have "quiet f" "concat (map support (edges_to (positive m) c)) = []" using assms(2,3) by (simp_all add: head_at_def quiet_conflict)
  moreover have "support e \<noteq> []" if "e \<in> set (edges_to (positive m) c)" for e
    using that model_ofD(2) [OF assms(1)] by (auto simp: edges_to_def sound_graph_def)
  ultimately have "edges_to (positive m) c = []" by (cases "edges_to (positive m) c") auto
  then show ?thesis using \<open>quiet f\<close> by simp
qed (use assms(2,3) in \<open>simp add: head_at_def\<close>)

lemma head_answer:
  assumes es: "entries_ok (entries m)" and m: "model_of (entries m) m" and h: "model_head m c = Head d fs"
  shows "{x. gets_to (usable m) c x \<and> \<not> hasOutgoing (usable m) x} = {d}"
    and "gets_to (positive m) c x \<Longrightarrow> conflictFactsAt m x = []"
    and "gets_to (usable m) c x \<Longrightarrow> answered m x"
    and "gets_to (positive m) c x \<Longrightarrow> \<not> gets_to (usable m) c x \<Longrightarrow> hasOutgoing (positive m) x"
proof -
  let ?r = "graph_reach (positive m) c None None" and ?u = "graph_reach (usable m) c None None"
  let ?f = "fold (head_at m ?u) (reach_channels ?r) no_findings"
  have known: "known_channel m c" using h unfolding model_head_def unknown_head_def by (auto simp: Let_def split: if_splits)
  have clean: "concat (map (conflictFactsAt m) (reach_channels ?r)) = []" and q: "quiet ?f"
    and one: "\<exists>x. filter (\<lambda>d. \<not> hasOutgoing (usable m) d) (reach_channels ?u) = [x] \<and> x = d"
    using h known unfolding model_head_def by (auto simp: Let_def quiet_def split: if_splits list.splits)
  have reached: "set (reach_channels ?r) = {x. gets_to (positive m) c x}" "set (reach_channels ?u) = {x. gets_to (usable m) c x}"
    by (simp_all add: reach_channels_has graph_reach_has walk_arcs)
  have has: "reach_has ?u x \<longleftrightarrow> gets_to (usable m) c x" for x by (simp add: graph_reach_has walk_arcs)
  show "{x. gets_to (usable m) c x \<and> \<not> hasOutgoing (usable m) x} = {d}"
  proof -
    have "set (filter (\<lambda>d. \<not> hasOutgoing (usable m) d) (reach_channels ?u)) = {d}" using one by auto
    then show ?thesis using reached(2) by auto
  qed
  show "gets_to (positive m) c x \<Longrightarrow> conflictFactsAt m x = []" using clean reached(1) by auto
  have all: "\<forall>x \<in> set (reach_channels ?r). (if reach_has ?u x then answered m x else hasOutgoing (positive m) x \<or> edges_to (positive m) x = [])"
  proof (rule conjunct2 [OF quiet_fold [OF _ q]])
    fix x f assume x: "quiet (head_at m ?u x f)"
    show "quiet f \<and> (if reach_has ?u x then answered m x else hasOutgoing (positive m) x \<or> edges_to (positive m) x = [])"
    proof (cases "reach_has ?u x")
      case True
      then show ?thesis using quiet_at [OF es m x] by simp
    next
      case False
      then show ?thesis using quiet_beyond [OF m x] by simp
    qed
  qed
  have sub: "arcs (usable m) \<subseteq> arcs (positive m)"
    using usable_links(1) [OF m] unfolding arcs_linked subset_iff by (metis arcs_linked surj_pair)
  show "answered m x" if "gets_to (usable m) c x"
  proof -
    have "gets_to (positive m) c x" using that rtrancl_mono [OF sub] by blast
    then show ?thesis using all that unfolding reached(1) has by auto
  qed
  show "hasOutgoing (positive m) x" if x: "gets_to (positive m) c x" "\<not> gets_to (usable m) c x"
  proof -
    have "x \<noteq> c" using x(2) by auto
    then obtain y where "(y, x) \<in> arcs (positive m)" using x(1) by (metis rtranclE)
    then have "edges_to (positive m) x \<noteq> []" by (auto simp: arcs_def edge_key_def edges_to_def filter_empty_conv)
    then show ?thesis using all x unfolding reached(1) has by auto
  qed
qed

end
