(* ===== verification/Continuity_Example.thy ===== *)
theory Continuity_Example
  imports Continuity_Queries
begin

text \<open>
  Concrete facts the properties are shown on: an identity that tells facts apart, and the
  model of one observation, computed.
\<close>

text \<open>An identity that tells facts apart: each DID with every unit marked and an end.\<close>

fun plain_text :: "js_string \<Rightarrow> js_string" where
  "plain_text [] = [0]"
| "plain_text (u # us) = 1 # u # plain_text us"

definition plain_channel :: "Channel \<Rightarrow> js_string" where
  "plain_channel c = plain_text (localDid c) @ plain_text (peerDid c)"

fun plain_identity :: identity_text where
  "plain_identity (PeerObservation c prior) = 1 # plain_channel c @ (case prior of None \<Rightarrow> [0] | Some d \<Rightarrow> 1 # plain_text d)"
| "plain_identity (PeerEnding c) = 2 # plain_channel c"
| "plain_identity (LocalDecision c change) = 3 # plain_channel c @ (case change of End \<Rightarrow> [0] | Rotate d \<Rightarrow> 1 # plain_text d)"

lemma plain_text_inject: "plain_text a @ x = plain_text b @ y \<longleftrightarrow> a = b \<and> x = y"
proof (induction a arbitrary: b)
  case Nil
  then show ?case by (cases b) auto
next
  case (Cons u a)
  then show ?case by (cases b) auto
qed

lemma plain_inj: "inj plain_identity"
proof (rule injI)
  have one: "plain_text a = plain_text b \<longleftrightarrow> a = b" for a b using plain_text_inject [of a "[]" b "[]"] by simp
  fix f g assume "plain_identity f = plain_identity g"
  then show "f = g"
    by (cases f; cases g) (auto simp: plain_channel_def plain_text_inject one split: option.splits Change.splits)
qed

text \<open>One observation, of a peer we never rotated from: its pair alone, with itself as the head.\<close>

lemma empty_closure: "closure [] [] admits confirms = Some (new_Graph, [], [])"
proof -
  have "closure_build admits [] [] = Some new_Graph"
    by (simp add: closure_build_def closure_links_def build_graph_def add_links_def graph_close.simps)
  then show ?thesis by (simp add: closure_def add_all_def closure_loop.simps admit_round_def)
qed

definition lone_graph :: "Channel \<Rightarrow> Graph" where
  "lone_graph c = \<lparr>vertices = [c], identityCollisions = [], graph_edges = [], queue = []\<rparr>"

lemma no_edges [simp]: "edges_from (lone_graph c) d = []" "edges_to (lone_graph c) d = []" "all_edges (lone_graph c) = []"
  "edges_from new_Graph d = []" "edges_to new_Graph d = []" "all_edges new_Graph = []"
  by (simp_all add: edges_from_def edges_to_def all_edges_def lone_graph_def new_Graph_def add_all_def)

lemma lone_contexts: "new_Contexts (lone_graph c) side = Some Map.empty" "new_Contexts new_Graph side = Some Map.empty"
  by (simp_all add: new_Contexts_def side_pairs_def)

lemma lone_cycles: "cycles (lone_graph c) = Some []"
proof -
  have "tarjan_run (lone_graph c) (tarjan_enter (lone_graph c) c new_Tarjan) \<noteq> None \<and>
      (\<forall>t. tarjan_run (lone_graph c) (tarjan_enter (lone_graph c) c new_Tarjan) = Some t \<longrightarrow> tj_cycles t = [])"
    by (subst tarjan_run.simps, subst tarjan_run.simps)
      (simp add: tarjan_enter_def new_Tarjan_def tarjan_step_def tarjan_leave_def tarjan_component_def tarjan_run.simps [of _ "Tarjan_ext _ _ _ _ [] _ _ _"])
  then show ?thesis by (auto simp: cycles_def lone_graph_def new_Tarjan_def sort_by_def split: option.splits)
qed

definition lone_model :: "Channel \<Rightarrow> FactIdentity \<Rightarrow> Model" where
  "lone_model c i = \<lparr>entries = [entryOf i (PeerObservation c None)], positive = lone_graph c, positiveWaiting = [],
     samePeer = Map.empty, sameLocal = Map.empty, conflictsFound = [], usable = new_Graph, usableAdmitted = [],
     usableSamePeer = Map.empty, usableSameLocal = Map.empty\<rparr>"

lemma lone_claims [simp]: "claiming side (entryOf i (PeerObservation c None)) = None"
  "entry_sites (entryOf i (PeerObservation c None)) = [c]"
  by (simp_all add: claiming_def entryOf_def Let_def sortedChannels_def sort_by_def add_all_def add_new_def)

lemma lone_derived: "derive_model [entryOf i (PeerObservation c None)] = Some (lone_model c i)"
proof -
  have links: "peerLinks P [entryOf i (PeerObservation c None)] = []" "candidates P [entryOf i (PeerObservation c None)] = []" for P
    by (simp_all add: peerLinks_def candidates_def claim_link_def List.map_filter_simps)
  have "findConflicts [entryOf i (PeerObservation c None)] (lone_graph c) Map.empty Map.empty = Some []"
    by (simp add: findConflicts_def lone_cycles competing_def claims_of_def List.map_filter_simps sort_by_def) (simp add: lone_graph_def)
  moreover have "vertex c new_Graph = lone_graph c" by (simp add: vertex_def new_Graph_def lone_graph_def add_new_def)
  ultimately show ?thesis by (simp add: derive_model_def links empty_closure lone_contexts Let_def lone_model_def)
qed

lemma lone_head: "model_head (lone_model c i) c = Head c []"
proof -
  have reach: "graph_reach g c None None = [(c, None)]" if "\<And>d. edges_from g d = []" for g
    using that by (simp add: graph_reach_def new_Reach_def reach_loop.simps sorted_edges_def sort_by_def)
  have at: "head_at (lone_model c i) [(c, None)] c no_findings = no_findings"
    by (simp add: head_at_def reach_has_def lone_model_def rotationsAt_def context_claims_def List.map_filter_simps head_endings_def endingsAt_def
      find_conflict_def no_findings_def)
  have graphs: "positive (lone_model c i) = lone_graph c" "usable (lone_model c i) = new_Graph" "entries (lone_model c i) = [entryOf i (PeerObservation c None)]"
    "conflictsFound (lone_model c i) = []" by (simp_all add: lone_model_def)
  show ?thesis
    by (simp add: model_head_def known_channel_def graphs reach reach_channels_def conflictFactsAt_def conflictsAt_def established_def at)
      (simp add: lone_graph_def hasOutgoing_def no_findings_def facts_named_def factsOf_def sort_by_def add_all_def)
qed

end
