(* ===== verification/Continuity_Properties.thy ===== *)
theory Continuity_Properties
  imports Continuity_Example
begin

text \<open>
  The properties of the continuity package, each a promise its documentation makes, with
  an instance of each.
\<close>

section \<open>Facts\<close>

text \<open>C38: \<open>validateFact\<close> reads a value as a fact exactly when the value spells that fact and the fact is one of the profile: an object
  with the members of its kind and no other, \<open>at\<close> and \<open>change\<close> such objects themselves, each member's text the one the fact has at
  that place, every DID well formed, and none paired with itself, rotated from itself or succeeded by an end of its own pair.
  Where it is read makes no difference.\<close>

theorem continuity_facts: "validateFact v loc = Inr f \<longleftrightarrow> spells_fact f v \<and> fact_ok f"
  by (rule validateFact_Inr)

text \<open>C14: The model derived, or the error, is the same for any two lists of the same facts, whatever their order and however often
  each comes, where the identity tells facts apart.\<close>

theorem continuity_order_free:
  assumes "inj serialize" and "\<forall>f \<in> set fs. fact_ok f" and "set fs = set gs"
  shows "deriveContinuity serialize (map fact_value fs) = deriveContinuity serialize (map fact_value gs)"
  using assms by (rule derived_from_set)

definition ch :: "nat \<Rightarrow> nat \<Rightarrow> Channel" where
  "ch l p = \<lparr>localDid = [of_nat l], peerDid = [of_nat p]\<rparr>"

text \<open>We wrote as 1 with 2, chose to rotate to 3, and heard at 3 from the peer, rotated from 2 to 4.\<close>

definition example_facts :: "ContinuityFact list" where
  "example_facts = [LocalDecision (ch 1 2) (Rotate [3]), PeerObservation (ch 1 2) None, PeerObservation (ch 3 4) (Some [2])]"

lemma example_ok: "\<forall>f \<in> set example_facts. fact_ok f"
  by (simp add: example_facts_def ch_def channel_ok_def did_ok_def LONE_SURROGATE_def is_high_def is_low_def)

lemma continuity_order_free_witness:
  "deriveContinuity plain_identity (map fact_value example_facts) =
   deriveContinuity plain_identity (map fact_value (rev example_facts @ example_facts))"
  by (rule continuity_order_free [OF plain_inj example_ok]) simp

section \<open>The two graphs\<close>

text \<open>C13: The model of any facts is derived, and it is the least: the positive links are those the peer rotations and the confirmed local
  rotations lead to, where the confirmed ones are the least set each of whose members the links of that set confirm; the usable
  links are the same over the facts and channels no conflict reaches.\<close>

theorem continuity_least:
  assumes "inj serialize" and "\<forall>f \<in> set fs. fact_ok f"
  shows "\<exists>m. deriveContinuity serialize (map fact_value fs) = Inr (Some m) \<and> entry_fact ` set (entries m) = set fs \<and>
    linked (positive m) = entry_links (\<lambda>_. True) (\<lambda>_. True) (entries m) \<and>
    linked (usable m) = entry_links (clear (conflictsFound m)) (\<lambda>c. \<not> affected (conflictsFound m) c) (entries m)"
proof -
  obtain m where m: "deriveContinuity serialize (map fact_value fs) = Inr (Some m)" "model_of (entries m) m" "entry_fact ` set (entries m) = set fs"
    using facts_derive [OF assms] by blast
  show ?thesis using m(1,3) model_ofD(3,9) [OF m(2)] by blast
qed

lemma continuity_least_witness:
  "\<exists>m. deriveContinuity plain_identity (map fact_value example_facts) = Inr (Some m) \<and> entry_fact ` set (entries m) = set example_facts \<and>
    linked (positive m) = entry_links (\<lambda>_. True) (\<lambda>_. True) (entries m) \<and>
    linked (usable m) = entry_links (clear (conflictsFound m)) (\<lambda>c. \<not> affected (conflictsFound m) c) (entries m)"
  by (rule continuity_least [OF plain_inj example_ok])

text \<open>C12: An operation may rely on the usable links: each is a positive link, neither of its ends is in the scope of a conflict, no two of
  one side leave one pair, and none is on a cycle.\<close>

theorem continuity_usable:
  assumes "inj serialize" and "\<forall>f \<in> set fs. fact_ok f" and "deriveContinuity serialize (map fact_value fs) = Inr (Some m)"
  shows "(\<forall>a b side. linked (usable m) a b side \<longrightarrow> linked (positive m) a b side \<and>
      \<not> affected (conflictsFound m) a \<and> \<not> affected (conflictsFound m) b \<and> (\<forall>c. linked (usable m) a c side \<longrightarrow> c = b)) \<and>
    (\<forall>a. (a, a) \<notin> (arcs (usable m))\<^sup>+)"
proof -
  note m = derived_model [OF assms]
  show ?thesis using usable_links [OF m(2)] usable_no_fork [OF m(1,2)] usable_no_cycle [OF m(1,2)] by blast
qed

lemma continuity_usable_witness:
  "\<exists>m. deriveContinuity plain_identity (map fact_value example_facts) = Inr (Some m) \<and>
    (\<forall>a b side. linked (usable m) a b side \<longrightarrow> linked (positive m) a b side \<and>
      \<not> affected (conflictsFound m) a \<and> \<not> affected (conflictsFound m) b \<and> (\<forall>c. linked (usable m) a c side \<longrightarrow> c = b)) \<and>
    (\<forall>a. (a, a) \<notin> (arcs (usable m))\<^sup>+)"
proof -
  obtain m where "deriveContinuity plain_identity (map fact_value example_facts) = Inr (Some m)"
    using facts_derive [OF plain_inj example_ok] by blast
  then show ?thesis using continuity_usable [OF plain_inj example_ok] by blast
qed

section \<open>The graph algorithms\<close>

text \<open>C17: Closing a graph over its joins ends, and the links it ends with, each with exactly the facts it rests on, are those that follow
  from the links added, in whatever order they were.\<close>

theorem continuity_closed:
  assumes "links_ok links"
  shows "\<exists>g. build_graph admits links = Some g \<and> queue g = [] \<and>
    (\<forall>a b side f. (\<exists>s. link_at g (a, b) = Some (side, s) \<and> f \<in> s) \<longleftrightarrow> follows admits (link_base links) a b side f)"
  using assms by (rule closed_graph_links)

text \<open>A local and a peer rotation of one pair imply two joins.\<close>

lemma continuity_closed_witness:
  "\<exists>g s. build_graph (\<lambda>_. True) [(ch 1 2, ch 3 2, Local, [[7]]), (ch 1 2, ch 1 4, Peer, [[8]])] = Some g \<and>
     link_at g (ch 3 2, ch 3 4) = Some (Peer, s) \<and> [8] \<in> s"
proof -
  let ?links = "[(ch 1 2, ch 3 2, Local, [[7]]), (ch 1 2, ch 1 4, Peer, [[8]])]"
  have "links_ok ?links" by (simp add: links_ok_def replaces_one_def ch_def)
  then obtain g where g: "build_graph (\<lambda>_. True) ?links = Some g"
    and at: "\<And>a b side f. (\<exists>s. link_at g (a, b) = Some (side, s) \<and> f \<in> s) \<longleftrightarrow> follows (\<lambda>_. True) (link_base ?links) a b side f"
    using continuity_closed [of ?links "\<lambda>_. True"] by blast
  have "follows (\<lambda>_. True) (link_base ?links) (ch 1 2) (ch 3 2) Local [7]" "follows (\<lambda>_. True) (link_base ?links) (ch 1 2) (ch 1 4) Peer [8]"
    by (rule follows.added; simp add: link_base_def)+
  then have "follows (\<lambda>_. True) (link_base ?links) (ch 3 2) (pair_up (ch 3 2) (ch 1 4)) Peer [8]"
    by (rule follows.joined_peer) (simp_all add: ch_def)
  then have "follows (\<lambda>_. True) (link_base ?links) (ch 3 2) (ch 3 4) Peer [8]" by (simp add: pair_up_def ch_def)
  then show ?thesis using g at by blast
qed

text \<open>C16: Tarjan's algorithm on its explicit stack ends, and lists exactly the strongly connected sets of more than one channel, each once,
  its members in canonical order, the sets in the order of their least members.\<close>

theorem continuity_cycles:
  assumes "\<forall>e \<in> set (graph_edges g). edge_to e \<in> set (vertices g)"
  shows "\<exists>cs. cycles g = Some cs \<and> distinct (map set cs) \<and> sorted_wrt (\<lambda>a b. compareChannels (hd a) (hd b) \<le> 0) cs \<and>
    (\<forall>cy \<in> set cs. cy = sortedChannels cy) \<and> set ` set cs = {scc g c | c. c \<in> set (vertices g) \<and> scc g c \<noteq> {c}}"
  using assms by (rule cycles_listed)

definition ring :: Graph where
  "ring = \<lparr>vertices = [ch 1 2, ch 1 4], identityCollisions = [],
     graph_edges = [\<lparr>edge_from = ch 1 2, edge_to = ch 1 4, replaces = Peer, support = [[7]], derived = False\<rparr>,
       \<lparr>edge_from = ch 1 4, edge_to = ch 1 2, replaces = Peer, support = [[8]], derived = False\<rparr>], queue = []\<rparr>"

lemma ring_ends: "\<forall>e \<in> set (graph_edges ring). edge_to e \<in> set (vertices ring)"
  by (simp add: ring_def)

lemma continuity_cycles_witness: "\<exists>cs. cycles ring = Some cs \<and> scc ring (ch 1 2) \<in> set ` set cs \<and> ch 1 4 \<in> scc ring (ch 1 2)"
proof -
  obtain cs where cs: "cycles ring = Some cs" "set ` set cs = {scc ring c | c. c \<in> set (vertices ring) \<and> scc ring c \<noteq> {c}}"
    using continuity_cycles [OF ring_ends] by (elim exE conjE) (rule that, assumption+)
  have "(ch 1 2, ch 1 4) \<in> arcs ring" "(ch 1 4, ch 1 2) \<in> arcs ring" by (simp_all add: arcs_def ring_def edge_key_def)
  then have both: "ch 1 4 \<in> scc ring (ch 1 2)" by (auto simp: scc_def)
  moreover have "ch 1 4 \<noteq> ch 1 2" by (simp add: ch_def)
  ultimately have "scc ring (ch 1 2) \<noteq> {ch 1 2}" by blast
  moreover have "ch 1 2 \<in> set (vertices ring)" by (simp add: ring_def)
  ultimately have "scc ring (ch 1 2) \<in> {scc ring c | c. c \<in> set (vertices ring) \<and> scc ring c \<noteq> {c}}"
    by (intro CollectI exI [of _ "ch 1 2"] conjI refl)
  then have "scc ring (ch 1 2) \<in> set ` set cs" unfolding cs(2) .
  then show ?thesis using cs(1) both by (intro exI conjI)
qed

text \<open>The contexts of a side are built, and the root of every key is the least key, in the order of UTF-8, of those the edges of that
  side connect to it, whatever order they were joined in.\<close>

theorem continuity_contexts:
  "\<exists>p. new_Contexts g side = Some p \<and> (\<forall>k. \<exists>r p'. context_root k p = Some (r, p') \<and>
     connected (set (side_pairs g side)) k r \<and> (\<forall>j. connected (set (side_pairs g side)) k j \<longrightarrow> compareUtf8 r j \<le> 0))"
  by (rule contexts_least)

lemma continuity_contexts_witness:
  "\<exists>p r p'. new_Contexts ring Peer = Some p \<and> context_root (channelKey (ch 1 4)) p = Some (r, p') \<and>
     compareUtf8 r (channelKey (ch 1 2)) \<le> 0"
proof -
  have "linked ring (ch 1 4) (ch 1 2) Peer" by (simp add: linked_def ring_def)
  then have "connected (set (side_pairs ring Peer)) (channelKey (ch 1 4)) (channelKey (ch 1 2))" by (rule connected_linked)
  then show ?thesis using continuity_contexts [of ring Peer] by blast
qed

section \<open>Queries\<close>

text \<open>C15: A head is the one pair the usable links lead to and no usable link leaves; no conflict has facts at any pair the positive links lead to;
  at each pair the usable links lead to, no ending of either side applies, every positive link is usable or makes a change usable links
  make anyway, and every saved rotation is made by usable links; and a pair they do not lead to is never a dead end.\<close>

theorem continuity_head:
  assumes "inj serialize" and "\<forall>f \<in> set fs. fact_ok f" and "deriveContinuity serialize (map fact_value fs) = Inr (Some m)"
    and "model_head m c = Head d by_facts"
  shows "{x. gets_to (usable m) c x \<and> \<not> hasOutgoing (usable m) x} = {d} \<and>
    (\<forall>x. gets_to (positive m) c x \<longrightarrow> conflictFactsAt m x = [] \<and> (if gets_to (usable m) c x then answered m x else hasOutgoing (positive m) x))"
proof -
  note m = derived_model [OF assms(1-3)]
  show ?thesis using head_answer [OF m(1,2) assms(4)] by auto
qed

lemma continuity_head_witness:
  "\<exists>m. deriveContinuity plain_identity (map fact_value [PeerObservation (ch 1 2) None]) = Inr (Some m) \<and>
     {x. gets_to (usable m) (ch 1 2) x \<and> \<not> hasOutgoing (usable m) x} = {ch 1 2}"
proof -
  let ?f = "PeerObservation (ch 1 2) None"
  let ?m = "lone_model (ch 1 2) (plain_identity ?f)"
  have ok: "\<forall>f \<in> set [?f]. fact_ok f"
    by (simp add: ch_def channel_ok_def did_ok_def LONE_SURROGATE_def is_high_def is_low_def)
  then have "accept plain_identity (map fact_value [?f]) = Inr [(plain_identity ?f, ?f)]"
    by (simp add: accept_def validateFact_value put_fact_def sort_by_def del: fact_value.simps fact_ok.simps plain_identity.simps)
  then have "deriveContinuity plain_identity (map fact_value [?f]) = Inr (Some ?m)"
    by (simp add: deriveContinuity_def lone_derived del: fact_value.simps plain_identity.simps)
  then show ?thesis using continuity_head [OF plain_inj ok _ lone_head] by blast
qed

text \<open>A confirmation lists exactly the clear observations, at exactly the local DID asked for, of the peer or of a usable successor of it;
  without one it lists those that are not clear, and it answers a conflict only for a pair in conflict.\<close>

theorem continuity_confirmation:
  assumes "l \<noteq> p"
  shows "case confirmation m l p of
      Confirmed os \<Rightarrow> fst ` set os = entry_fact ` {e \<in> witnesses m l p. clear (conflictsFound m) e} \<and> os \<noteq> []
    | Unconfirmed fs \<Rightarrow> set fs = entry_fact ` witnesses m l p \<and> (\<forall>e \<in> witnesses m l p. \<not> clear (conflictsFound m) e)
    | ConfirmationConflict fs \<Rightarrow> conflictFactsAt m (channelOf l p) \<noteq> []"
  using assms by (rule confirmation_answer)

lemma continuity_confirmation_witness:
  "\<exists>os. confirmation (lone_model (ch 1 2) [7]) [1] [2] = Confirmed os \<and> fst ` set os = {PeerObservation (ch 1 2) None}"
proof -
  let ?m = "lone_model (ch 1 2) [7]" and ?e = "entryOf [7] (PeerObservation (ch 1 2) None)"
  have clean: "conflictFactsAt ?m c = []" "clear (conflictsFound ?m) e" for c e
    by (simp_all add: conflictFactsAt_def conflictsAt_def clear_def affected_def list_all_iff lone_model_def)
  have "walk (usable ?m) (Some Peer) (channelOf [1] [2]) [] (ch 1 2)" by (simp add: channelOf_def ch_def)
  then have w: "witnesses ?m [1] [2] = {?e}"
    unfolding witnesses_def by (auto simp: lone_model_def ch_def intro: exI [of _ "[]"])
  show ?thesis using continuity_confirmation [of "[1]" "[2]" ?m] clean w by (auto split: ConfirmationResult.splits)
qed

end
