(* ===== verification/From_Prior.thy ===== *)
theory From_Prior
  imports Peer4_Documents
begin

text \<open>
  The DIDComm \<open>from_prior\<close> proof, \<^verbatim>\<open>packages/from-prior/src/index.ts\<close>: a token is
  inspected, prechecked, verified against the issuer's long form, bound to the
  receipt it arrived on, and created with a signer the host supplies. What jose
  and \<^verbatim>\<open>@scure/base\<close> do is the record \<open>jose\<close>; \<open>None\<close> is a throw. An error keeps its
  class and its \<open>failure\<close> and loses its message, as a binding loses its \<open>because\<close>.
\<close>

section \<open>Types\<close>

datatype FromPriorFailure = Form | Profile | Unbindable | NotDocument | NotSignature

datatype from_prior_error = InvalidFromPrior FromPriorFailure | Rethrown did_error

type_synonym 'a from_prior_result = "from_prior_error + 'a"

datatype verification = Verifies string | SignatureFails | KeyRefused

record jose =
  jose_codec :: codec
  base64urlnopad_encode :: "string \<Rightarrow> string"
  base64urlnopad_decode :: "string \<Rightarrow> string option"
  decodeProtectedHeader :: "string \<Rightarrow> json_object option"
  decodeJwt :: "string \<Rightarrow> json_object option"
  compactVerify :: "string \<Rightarrow> json_object \<Rightarrow> verification"

record DidSpelling =
  presented :: did
  canonical :: did

record UnverifiedHeader =
  header_alg :: string
  header_typ :: "string option"
  header_kid :: string

record UnverifiedClaims =
  claims_iss :: string
  claims_sub :: "string option"
  claims_aud :: "string option"
  claims_iat :: int

record UnverifiedFromPrior =
  unverified_header :: UnverifiedHeader
  unverified_claims :: UnverifiedClaims

record DecodedToken =
  decoded_members :: json_object
  decoded_header :: UnverifiedHeader
  decoded_claims :: UnverifiedClaims

datatype VerifiedChange = Rotates DidSpelling | Ends "DidSpelling option"

record VerifiedFromPrior =
  proof_token :: string
  proof_issuer :: DidSpelling
  proof_change :: VerifiedChange
  proof_iat :: int
  proof_method :: string

record Receipt =
  receipt_token :: string
  receipt_recipient :: did
  receipt_sender :: "did option"

datatype BoundChange = BoundRotation did did did | BoundEnding did did

datatype FromPriorBinding = Bound BoundChange | Mismatch | Unbound

record Signer =
  signer_methodId :: string
  signer_sign :: "string \<Rightarrow> string option"

datatype RequestedChange = RotateTo did | EndWith did

record ProofRequest =
  request_issuer :: did
  request_change :: RequestedChange
  request_iat :: int
  request_issuerLongForm :: did

text \<open>A \<open>catch\<close> that throws another error.\<close>

definition instead :: "'e + 'a \<Rightarrow> 'f \<Rightarrow> 'f + 'a" where
  "instead r f = (case r of Inl _ \<Rightarrow> Inl f | Inr a \<Rightarrow> Inr a)"

lemma instead_Inr [simp]: "instead r f = Inr a \<longleftrightarrow> r = Inr a"
  by (cases r) (auto simp: instead_def)

lemma instead_of_Inr [simp]: "instead (Inr a) f = Inr a"
  by (simp add: instead_def)

abbreviation form :: from_prior_error where "form \<equiv> InvalidFromPrior Form"
abbreviation profile :: from_prior_error where "profile \<equiv> InvalidFromPrior Profile"
abbreviation unbindable :: from_prior_error where "unbindable \<equiv> InvalidFromPrior Unbindable"
abbreviation not_document :: from_prior_error where "not_document \<equiv> InvalidFromPrior NotDocument"
abbreviation not_signature :: from_prior_error where "not_signature \<equiv> InvalidFromPrior NotSignature"

section \<open>DIDs and DID URLs\<close>

text \<open>\<open>canonicalDid\<close> of this package, which reads a long form before it cuts it.\<close>

definition spelling_of :: "codec \<Rightarrow> string \<Rightarrow> DidSpelling from_prior_result" where
  "spelling_of c spelling =
     (if isShortForm spelling then Inr \<lparr>presented = spelling, canonical = spelling\<rparr>
      else if \<not> isLongForm spelling then Inl profile
      else and_then (instead (decode c spelling) profile) (\<lambda>_.
        and_then (or_throw (longToShort spelling) (Rethrown PeerDID4Error)) (\<lambda>short.
        Inr \<lparr>presented = spelling, canonical = short\<rparr>)))"

definition methodUrl :: "codec \<Rightarrow> string \<Rightarrow> (DidSpelling \<times> string) from_prior_result" where
  "methodUrl c url =
     (case split_on CHR ''#'' url of
        [did, fragment] \<Rightarrow>
          if fragment = [] then Inl profile else and_then (spelling_of c did) (\<lambda>s. Inr (s, fragment))
      | _ \<Rightarrow> Inl profile)"

section \<open>The form of a token\<close>

definition ED25519_SIGNATURE_BYTES :: nat where
  "ED25519_SIGNATURE_BYTES = 64"

definition segmentBytes :: "jose \<Rightarrow> string \<Rightarrow> string from_prior_result" where
  "segmentBytes j segment = or_throw (base64urlnopad_decode j segment) form"

definition checkSegments :: "jose \<Rightarrow> string \<Rightarrow> unit from_prior_result" where
  "checkSegments j jwt =
     (case split_on CHR ''.'' jwt of
        [header, payload, signature] \<Rightarrow>
          and_then (segmentBytes j header) (\<lambda>_. and_then (segmentBytes j payload) (\<lambda>_.
          and_then (segmentBytes j signature) (\<lambda>bytes.
          if length bytes \<noteq> ED25519_SIGNATURE_BYTES then Inl form else Inr ())))
      | _ \<Rightarrow> Inl form)"

definition crit_names :: "json option \<Rightarrow> json list" where
  "crit_names crit = (case as_array crit of None \<Rightarrow> [] | Some names \<Rightarrow> names)"

definition checkHeaderExtensions :: "json_object \<Rightarrow> unit from_prior_result" where
  "checkHeaderExtensions header =
     (let crit = field header ''crit''; names = crit_names crit in
      if crit \<noteq> None \<and> (names = [] \<or> list_ex (\<lambda>n. as_string (Some n) \<in> {None, Some []}) names) then Inl form
      else if crit \<noteq> None \<and> \<not> distinct names then Inl form
      else if field header ''b64'' \<noteq> None then
        (if field header ''b64'' \<noteq> Some (JBool True) then Inl form
         else if JStr ''b64'' \<notin> set names then Inl form else Inr ())
      else if JStr ''b64'' \<in> set names then Inl form else Inr ())"

text \<open>\<open>Object.hasOwn(object, name) && typeof object[name] !== "string"\<close>, and the member.\<close>

definition string_if_present :: "json_object \<Rightarrow> string \<Rightarrow> string option from_prior_result" where
  "string_if_present members name =
     (if field members name \<noteq> None \<and> as_string (field members name) = None then Inl form
      else Inr (as_string (field members name)))"

definition claimsOf :: "json_object \<Rightarrow> UnverifiedClaims from_prior_result" where
  "claimsOf payload =
     and_then (or_throw (as_string (field payload ''iss'')) form) (\<lambda>iss.
     and_then (string_if_present payload ''sub'') (\<lambda>sub.
     and_then (string_if_present payload ''aud'') (\<lambda>aud.
     and_then (or_throw (as_safe_integer (field payload ''iat'')) form) (\<lambda>iat.
     if field payload ''exp'' \<noteq> None \<or> field payload ''nbf'' \<noteq> None then Inl form
     else Inr \<lparr>claims_iss = iss, claims_sub = sub, claims_aud = aud, claims_iat = iat\<rparr>))))"

definition decodeToken :: "jose \<Rightarrow> string \<Rightarrow> DecodedToken from_prior_result" where
  "decodeToken j jwt =
     and_then (checkSegments j jwt) (\<lambda>_.
     and_then (or_throw (decodeProtectedHeader j jwt) form) (\<lambda>header.
     and_then (or_throw (decodeJwt j jwt) form) (\<lambda>payload.
     and_then (or_throw (as_string (field header ''alg'')) form) (\<lambda>alg.
     and_then (or_throw (as_string (field header ''kid'')) form) (\<lambda>kid.
     and_then (string_if_present header ''typ'') (\<lambda>typ.
     and_then (checkHeaderExtensions header) (\<lambda>_.
     and_then (claimsOf payload) (\<lambda>claims.
     Inr \<lparr>decoded_members = header, decoded_header = \<lparr>header_alg = alg, header_typ = typ, header_kid = kid\<rparr>,
          decoded_claims = claims\<rparr>))))))))"

definition unverifiedOf :: "DecodedToken \<Rightarrow> UnverifiedFromPrior" where
  "unverifiedOf d = \<lparr>unverified_header = decoded_header d, unverified_claims = decoded_claims d\<rparr>"

definition inspectFromPrior :: "jose \<Rightarrow> string \<Rightarrow> UnverifiedFromPrior from_prior_result" where
  "inspectFromPrior j jwt = and_then (decodeToken j jwt) (\<lambda>d. Inr (unverifiedOf d))"

section \<open>The profile\<close>

definition FROM_PRIOR_ALG :: string where
  "FROM_PRIOR_ALG = ''EdDSA''"

text \<open>
  \<open>toLowerCase\<close> on ASCII; no other character becomes one of the letters the
  result is compared with.
\<close>

definition ascii_lower :: "string \<Rightarrow> string" where
  "ascii_lower t = map (\<lambda>ch. if 65 \<le> (of_char ch :: nat) \<and> (of_char ch :: nat) \<le> 90 then char_of (of_char ch + 32 :: nat) else ch) t"

definition isJwtType :: "string option \<Rightarrow> bool" where
  "isJwtType typ = (case typ of None \<Rightarrow> True | Some t \<Rightarrow> ascii_lower t = ''jwt'' \<or> ascii_lower t = ''application/jwt'')"

definition profileChange :: "codec \<Rightarrow> UnverifiedClaims \<Rightarrow> DidSpelling \<Rightarrow> VerifiedChange from_prior_result" where
  "profileChange c claims issuer =
     (case claims_sub claims of
        Some sub \<Rightarrow>
          and_then (spelling_of c sub) (\<lambda>successor.
          if canonical successor = canonical issuer then Inl profile
          else if claims_aud claims \<noteq> None then Inl profile
          else Inr (Rotates successor))
      | None \<Rightarrow>
          (case claims_aud claims of
             None \<Rightarrow> Inr (Ends None)
           | Some aud \<Rightarrow>
               and_then (spelling_of c aud) (\<lambda>audience.
               if canonical audience = canonical issuer then Inl profile else Inr (Ends (Some audience)))))"

definition checkProfile :: "codec \<Rightarrow> DecodedToken \<Rightarrow> (DidSpelling \<times> VerifiedChange) from_prior_result" where
  "checkProfile c d =
     (if header_alg (decoded_header d) \<noteq> FROM_PRIOR_ALG then Inl profile
      else if \<not> isJwtType (header_typ (decoded_header d)) then Inl profile
      else if list_ex (\<lambda>n. n \<noteq> JStr ''b64'') (crit_names (field (decoded_members d) ''crit'')) then Inl profile
      else and_then (spelling_of c (claims_iss (decoded_claims d))) (\<lambda>issuer.
        and_then (methodUrl c (header_kid (decoded_header d))) (\<lambda>(kid, _).
        if canonical kid \<noteq> canonical issuer then Inl profile
        else and_then (profileChange c (decoded_claims d) issuer) (\<lambda>change. Inr (issuer, change)))))"

text \<open>\<open>binding\<close> is the authenticated sender when the host gives one.\<close>

definition precheckFromPrior :: "jose \<Rightarrow> string \<Rightarrow> did option \<Rightarrow> UnverifiedFromPrior from_prior_result" where
  "precheckFromPrior j jwt binding =
     and_then (decodeToken j jwt) (\<lambda>d.
     and_then (checkProfile (jose_codec j) d) (\<lambda>(_, change).
     case (binding, change) of
       (Some authenticatedSender, Rotates successor) \<Rightarrow>
         and_then (instead (spelling_of (jose_codec j) authenticatedSender) unbindable) (\<lambda>sender.
         if canonical sender \<noteq> canonical successor then Inl unbindable else Inr (unverifiedOf d))
     | _ \<Rightarrow> Inr (unverifiedOf d)))"

section \<open>The issuer's key\<close>

definition ED25519_MULTICODEC :: string where
  "ED25519_MULTICODEC = map char_of [0xed, 0x01 :: nat]"

definition ED25519_KEY_BYTES :: nat where
  "ED25519_KEY_BYTES = 32"

definition ed25519Jwk :: "jose \<Rightarrow> json_object \<Rightarrow> json_object from_prior_result" where
  "ed25519Jwk j m =
     (case (field m ''publicKeyMultibase'', field m ''publicKeyJwk'') of
        (Some (JStr multibase), None) \<Rightarrow>
          if \<not> starts_with multibase ''z'' then Inl not_document
          else and_then (or_throw (bs58_decode (jose_codec j) (drop 1 multibase)) not_document) (\<lambda>bytes.
            if length bytes \<noteq> length ED25519_MULTICODEC + ED25519_KEY_BYTES \<or> take 2 bytes \<noteq> ED25519_MULTICODEC
            then Inl not_document
            else Inr [(''kty'', JStr ''OKP''), (''crv'', JStr ''Ed25519''),
              (''x'', JStr (base64urlnopad_encode j (drop (length ED25519_MULTICODEC) bytes)))])
      | (None, Some (JObj jwk)) \<Rightarrow>
          (case as_string (field jwk ''x'') of
             None \<Rightarrow> Inl not_document
           | Some x \<Rightarrow>
               if field jwk ''kty'' \<noteq> Some (JStr ''OKP'') \<or> field jwk ''crv'' \<noteq> Some (JStr ''Ed25519'') then Inl not_document
               else and_then (or_throw (base64urlnopad_decode j x) not_document) (\<lambda>bytes.
                 if length bytes \<noteq> ED25519_KEY_BYTES then Inl not_document else Inr jwk))
      | _ \<Rightarrow> Inl not_document)"

definition issuerDocument :: "codec \<Rightarrow> did \<Rightarrow> DidSpelling \<Rightarrow> json_object from_prior_result" where
  "issuerDocument c longForm issuer =
     (if \<not> isLongForm longForm then Inl not_document
      else and_then (instead (resolveLongForm c longForm) not_document) (\<lambda>document.
        and_then (or_throw (longToShort longForm) (Rethrown PeerDID4Error)) (\<lambda>short.
        if short \<noteq> canonical issuer then Inl not_document else Inr document)))"

definition read_document :: "'a did_result \<Rightarrow> 'a from_prior_result" where
  "read_document reading =
     (case reading of
        Inr a \<Rightarrow> Inr a
      | Inl e \<Rightarrow> Inl (if e = DIDDocumentError then not_document else Rethrown e))"

definition names_method :: "codec \<Rightarrow> DidSpelling \<Rightarrow> string \<Rightarrow> string \<Rightarrow> bool" where
  "names_method c did fragment i =
     (let (d, rest) = splitDidUrl i in
      if rest \<noteq> ''#'' @ fragment then False
      else case spelling_of c d of Inl _ \<Rightarrow> False | Inr s \<Rightarrow> canonical s = canonical did)"

definition authenticationMethod :: "jose \<Rightarrow> json_object \<Rightarrow> string \<Rightarrow> (string \<times> json_object) from_prior_result" where
  "authenticationMethod j document kid =
     and_then (methodUrl (jose_codec j) kid) (\<lambda>(did, fragment).
     and_then (read_document (authorizedMethodIds (jose_codec j) document ''authentication'')) (\<lambda>ids.
     and_then (or_throw (List.find (names_method (jose_codec j) did fragment) ids) not_document) (\<lambda>i.
     and_then (read_document (definedMethod (jose_codec j) document i)) (\<lambda>m.
     and_then (ed25519Jwk j m) (\<lambda>key. Inr (kid, key))))))"

section \<open>Verifying\<close>

definition verifiedClaims :: "jose \<Rightarrow> string \<Rightarrow> UnverifiedClaims from_prior_result" where
  "verifiedClaims j payload =
     and_then (or_throw (json_of_text (jose_codec j) (text_of_bytes (jose_codec j) payload)) form) (\<lambda>parsed.
     and_then (or_throw (as_object (Some parsed)) form) claimsOf)"

definition verifyFromPrior :: "jose \<Rightarrow> string \<Rightarrow> did \<Rightarrow> VerifiedFromPrior from_prior_result" where
  "verifyFromPrior j jwt issuerLongForm =
     and_then (decodeToken j jwt) (\<lambda>d.
     and_then (checkProfile (jose_codec j) d) (\<lambda>(issuer, _).
     and_then (issuerDocument (jose_codec j) issuerLongForm issuer) (\<lambda>document.
     and_then (authenticationMethod j document (header_kid (decoded_header d))) (\<lambda>(methodId, key).
     case compactVerify j jwt key of
       SignatureFails \<Rightarrow> Inl not_signature
     | KeyRefused \<Rightarrow> Inl not_document
     | Verifies payload \<Rightarrow>
         and_then (verifiedClaims j payload) (\<lambda>claims.
         and_then (spelling_of (jose_codec j) (claims_iss claims)) (\<lambda>signedIssuer.
         and_then (profileChange (jose_codec j) claims signedIssuer) (\<lambda>change.
         Inr \<lparr>proof_token = jwt, proof_issuer = signedIssuer, proof_change = change,
              proof_iat = claims_iat claims, proof_method = methodId\<rparr>)))))))"

section \<open>Binding\<close>

definition bindFromPrior :: "codec \<Rightarrow> VerifiedFromPrior \<Rightarrow> Receipt \<Rightarrow> FromPriorBinding" where
  "bindFromPrior c p receipt =
     (if receipt_token receipt \<noteq> proof_token p then Mismatch
      else case (spelling_of c (receipt_recipient receipt),
        case receipt_sender receipt of None \<Rightarrow> Inr None | Some s \<Rightarrow> and_then (spelling_of c s) (\<lambda>sender. Inr (Some sender))) of
        (Inr recipient, Inr sender) \<Rightarrow>
          if canonical recipient = canonical (proof_issuer p) then Mismatch
          else (case proof_change p of
            Rotates successor \<Rightarrow>
              (case sender of
                 None \<Rightarrow> Mismatch
               | Some sender \<Rightarrow>
                   if canonical sender \<noteq> canonical successor then Mismatch
                   else if canonical recipient = canonical successor then Mismatch
                   else Bound (BoundRotation (canonical recipient) (canonical (proof_issuer p)) (canonical successor)))
          | Ends audience \<Rightarrow>
              if sender \<noteq> None then Mismatch
              else (case audience of
                 None \<Rightarrow> Unbound
               | Some audience \<Rightarrow>
                   if canonical audience \<noteq> canonical recipient then Mismatch
                   else Bound (BoundEnding (canonical recipient) (canonical (proof_issuer p)))))
      | _ \<Rightarrow> Mismatch)"

section \<open>Creating\<close>

definition json_segment :: "jose \<Rightarrow> json_object \<Rightarrow> string" where
  "json_segment j members = base64urlnopad_encode j (json_text (jose_codec j) (JObj members))"

text \<open>The member that states the requested change, checked.\<close>

definition requested_claim :: "codec \<Rightarrow> DidSpelling \<Rightarrow> RequestedChange \<Rightarrow> (string \<times> json) from_prior_result" where
  "requested_claim c issuer change =
     (case change of
        RotateTo d \<Rightarrow>
          and_then (spelling_of c d) (\<lambda>successor.
          if canonical successor = canonical issuer then Inl profile else Inr (''sub'', JStr (presented successor)))
      | EndWith d \<Rightarrow>
          and_then (spelling_of c d) (\<lambda>audience.
          if canonical audience = canonical issuer then Inl profile else Inr (''aud'', JStr (presented audience))))"

definition created_header :: "Signer \<Rightarrow> json_object" where
  "created_header signer = [(''alg'', JStr FROM_PRIOR_ALG), (''typ'', JStr ''JWT''), (''kid'', JStr (signer_methodId signer))]"

text \<open>The condition \<open>matches\<close>.\<close>

definition states_request :: "ProofRequest \<Rightarrow> Signer \<Rightarrow> VerifiedFromPrior \<Rightarrow> bool" where
  "states_request request signer p \<longleftrightarrow>
     presented (proof_issuer p) = request_issuer request \<and> proof_iat p = request_iat request \<and>
     proof_method p = signer_methodId signer \<and>
     (case request_change request of
        RotateTo d \<Rightarrow> (case proof_change p of Rotates s \<Rightarrow> presented s = d | Ends _ \<Rightarrow> False)
      | EndWith d \<Rightarrow> (case proof_change p of Rotates _ \<Rightarrow> False | Ends a \<Rightarrow> map_option presented a = Some d))"

definition createFromPrior :: "jose \<Rightarrow> ProofRequest \<Rightarrow> Signer \<Rightarrow> VerifiedFromPrior from_prior_result" where
  "createFromPrior j request signer =
     and_then (spelling_of (jose_codec j) (request_issuer request)) (\<lambda>issuer.
     if \<bar>request_iat request\<bar> > max_safe then Inl profile
     else and_then (requested_claim (jose_codec j) issuer (request_change request)) (\<lambda>claim.
       let claims = [(''iss'', JStr (presented issuer)), claim, (''iat'', JInt (request_iat request))];
           signingInput = json_segment j (created_header signer) @ ''.'' @ json_segment j claims in
       and_then (or_throw (signer_sign signer signingInput) not_signature) (\<lambda>signature.
       if length signature \<noteq> ED25519_SIGNATURE_BYTES then Inl not_signature
       else and_then (verifyFromPrior j (signingInput @ ''.'' @ base64urlnopad_encode j signature) (request_issuerLongForm request)) (\<lambda>p.
         if \<not> states_request request signer p then Inl profile else Inr p))))"

end
