(* ===== verification/From_Prior_Properties.thy ===== *)
theory From_Prior_Properties
  imports From_Prior
begin

text \<open>
  What the \<open>from_prior\<close> proofs of \<^verbatim>\<open>packages/from-prior/src/index.ts\<close> promise: a
  bound change was signed with the issuer's own key and names the parties of
  the receipt, a token the precheck refuses never verifies nor binds, and what
  is created verifies, states the request and binds to the receipt it is meant for.
\<close>

section \<open>What jose does\<close>

text \<open>
  \<open>compactVerify\<close> gives the payload segment decoded and \<open>decodeJwt\<close> that segment's
  JSON, so both read one object; a header with \<open>b64\<close> false is the exception (RFC 7797).
\<close>

definition reads_alike :: "jose \<Rightarrow> string \<Rightarrow> bool" where
  "reads_alike j jwt \<longleftrightarrow>
     (\<forall>header key payload claims. decodeProtectedHeader j jwt = Some header \<longrightarrow> field header ''b64'' \<noteq> Some (JBool False) \<longrightarrow>
        compactVerify j jwt key = Verifies payload \<longrightarrow> decodeJwt j jwt = Some claims \<longrightarrow>
        json_of_text (jose_codec j) (text_of_bytes (jose_codec j) payload) = Some (JObj claims))"

section \<open>Reading a token\<close>

lemma decodeToken_Inr:
  assumes "decodeToken j jwt = Inr d"
  obtains payload where "decodeProtectedHeader j jwt = Some (decoded_members d)" "decodeJwt j jwt = Some payload"
    "claimsOf payload = Inr (decoded_claims d)" "field (decoded_members d) ''b64'' \<noteq> Some (JBool False)"
  using assms by (auto simp: decodeToken_def checkHeaderExtensions_def Let_def split: if_splits)

lemma verifiedClaims_same:
  assumes "decodeToken j jwt = Inr d" and "compactVerify j jwt key = Verifies payload" and "reads_alike j jwt"
  shows "verifiedClaims j payload = Inr (decoded_claims d)"
proof -
  obtain claims where t: "decodeProtectedHeader j jwt = Some (decoded_members d)" "decodeJwt j jwt = Some claims"
    "claimsOf claims = Inr (decoded_claims d)" "field (decoded_members d) ''b64'' \<noteq> Some (JBool False)"
    using assms(1) by (rule decodeToken_Inr)
  have "json_of_text (jose_codec j) (text_of_bytes (jose_codec j) payload) = Some (JObj claims)"
    using assms(2,3) t(1,2,4) by (simp add: reads_alike_def)
  with t(3) show ?thesis by (simp add: verifiedClaims_def or_throw_def)
qed

section \<open>Spellings\<close>

definition names_did :: "codec \<Rightarrow> string \<Rightarrow> did \<Rightarrow> bool" where
  "names_did c spelling short = (case spelling_of c spelling of Inl _ \<Rightarrow> False | Inr s \<Rightarrow> canonical s = short)"

lemma spelling_names: "spelling_of c t = Inr s \<Longrightarrow> names_did c t (canonical s) \<and> presented s = t"
  by (auto simp: names_did_def spelling_of_def split: if_splits)

lemma profileChange_Rotates:
  "profileChange c claims issuer = Inr (Rotates s) \<longleftrightarrow>
     (\<exists>sub. claims_sub claims = Some sub \<and> claims_aud claims = None \<and> spelling_of c sub = Inr s \<and> canonical s \<noteq> canonical issuer)"
  by (auto simp: profileChange_def split: option.split)

lemma profileChange_Ends:
  "profileChange c claims issuer = Inr (Ends a) \<longleftrightarrow>
     claims_sub claims = None \<and>
     (case a of None \<Rightarrow> claims_aud claims = None
      | Some s \<Rightarrow> (\<exists>aud. claims_aud claims = Some aud \<and> spelling_of c aud = Inr s) \<and> canonical s \<noteq> canonical issuer)"
  by (auto simp: profileChange_def split: option.split)

section \<open>What was signed\<close>

text \<open>
  The token verifies to the payload under a key that the document of the issuer's long
  form defines and authorizes for authentication.
\<close>

definition signed_by_issuer :: "jose \<Rightarrow> string \<Rightarrow> did \<Rightarrow> did \<Rightarrow> string \<Rightarrow> bool" where
  "signed_by_issuer j jwt longForm issuer payload \<longleftrightarrow>
     (\<exists>document ids i m key. longToShort longForm = Some issuer \<and> resolveLongForm (jose_codec j) longForm = Inr document \<and>
        authorizedMethodIds (jose_codec j) document ''authentication'' = Inr ids \<and> i \<in> set ids \<and>
        names_did (jose_codec j) (fst (splitDidUrl i)) issuer \<and> definedMethod (jose_codec j) document i = Inr m \<and>
        ed25519Jwk j m = Inr key \<and> compactVerify j jwt key = Verifies payload)"

lemma read_document_Inr [simp]: "read_document r = Inr a \<longleftrightarrow> r = Inr a"
  by (cases r) (auto simp: read_document_def)

lemma names_method_did: "names_method c did fragment i \<Longrightarrow> names_did c (fst (splitDidUrl i)) (canonical did)"
  by (auto simp: names_method_def names_did_def split: if_splits sum.splits prod.splits)

lemma find_Some_set: "List.find P xs = Some x \<Longrightarrow> x \<in> set xs \<and> P x"
  by (auto simp: find_Some_iff)

lemma authenticationMethod_Inr:
  assumes "authenticationMethod j document kid = Inr (methodId, key)"
  obtains did fragment ids i m where "methodId = kid" "methodUrl (jose_codec j) kid = Inr (did, fragment)"
    "authorizedMethodIds (jose_codec j) document ''authentication'' = Inr ids" "i \<in> set ids"
    "names_did (jose_codec j) (fst (splitDidUrl i)) (canonical did)" "definedMethod (jose_codec j) document i = Inr m"
    "ed25519Jwk j m = Inr key"
proof -
  obtain did fragment ids i m where a: "methodId = kid" "methodUrl (jose_codec j) kid = Inr (did, fragment)"
    "authorizedMethodIds (jose_codec j) document ''authentication'' = Inr ids"
    "List.find (names_method (jose_codec j) did fragment) ids = Some i" "definedMethod (jose_codec j) document i = Inr m"
    "ed25519Jwk j m = Inr key"
    using assms by (auto simp: authenticationMethod_def)
  from find_Some_set [OF a(4)] that [OF a(1,2,3) _ _ a(5,6)] show ?thesis by (blast dest: names_method_did)
qed

lemma checkProfile_Inr:
  "checkProfile c d = Inr (issuer, change) \<Longrightarrow>
     spelling_of c (claims_iss (decoded_claims d)) = Inr issuer \<and> profileChange c (decoded_claims d) issuer = Inr change \<and>
     (\<exists>kid fragment. methodUrl c (header_kid (decoded_header d)) = Inr (kid, fragment) \<and> canonical kid = canonical issuer)"
  by (auto simp: checkProfile_def split: if_splits prod.splits)

lemma verifyFromPrior_Inr:
  assumes "verifyFromPrior j jwt longForm = Inr p" and "reads_alike j jwt"
  obtains d payload where "decodeToken j jwt = Inr d" "checkProfile (jose_codec j) d = Inr (proof_issuer p, proof_change p)"
    "signed_by_issuer j jwt longForm (canonical (proof_issuer p)) payload" "verifiedClaims j payload = Inr (decoded_claims d)"
    "proof_token p = jwt" "proof_iat p = claims_iat (decoded_claims d)" "proof_method p = header_kid (decoded_header d)"
proof -
  obtain d issuer change document methodId key where v: "decodeToken j jwt = Inr d"
    "checkProfile (jose_codec j) d = Inr (issuer, change)" "issuerDocument (jose_codec j) longForm issuer = Inr document"
    "authenticationMethod j document (header_kid (decoded_header d)) = Inr (methodId, key)"
    using assms(1) by (auto simp: verifyFromPrior_def)
  obtain payload where k: "compactVerify j jwt key = Verifies payload"
    using assms(1) v by (cases "compactVerify j jwt key") (auto simp: verifyFromPrior_def)
  note c = verifiedClaims_same [OF v(1) k assms(2)]
  note pr = checkProfile_Inr [OF v(2)]
  have mid: "methodId = header_kid (decoded_header d)" using v(4) by (rule authenticationMethod_Inr)
  have p: "p = \<lparr>proof_token = jwt, proof_issuer = issuer, proof_change = change,
      proof_iat = claims_iat (decoded_claims d), proof_method = header_kid (decoded_header d)\<rparr>"
    using assms(1) v k c pr mid by (auto simp: verifyFromPrior_def)
  have doc: "resolveLongForm (jose_codec j) longForm = Inr document" "longToShort longForm = Some (canonical issuer)"
    using v(3) by (auto simp: issuerDocument_def split: if_splits)
  obtain did fragment ids i m where a: "methodUrl (jose_codec j) (header_kid (decoded_header d)) = Inr (did, fragment)"
    "authorizedMethodIds (jose_codec j) document ''authentication'' = Inr ids" "i \<in> set ids"
    "names_did (jose_codec j) (fst (splitDidUrl i)) (canonical did)" "definedMethod (jose_codec j) document i = Inr m"
    "ed25519Jwk j m = Inr key"
    using v(4) by (rule authenticationMethod_Inr)
  have "canonical did = canonical issuer" using pr a(1) by auto
  then have "signed_by_issuer j jwt longForm (canonical issuer) payload"
    using doc a(2-6) k unfolding signed_by_issuer_def by metis
  with v(1,2) c show ?thesis by (intro that [of d payload]) (simp_all add: p)
qed

section \<open>What is bound\<close>

text \<open>What a claim and a receipt must say for a change to be bound.\<close>

definition names_party :: "codec \<Rightarrow> string option \<Rightarrow> did \<Rightarrow> bool" where
  "names_party c spelling short = (case spelling of None \<Rightarrow> False | Some t \<Rightarrow> names_did c t short)"

fun change_stated :: "codec \<Rightarrow> UnverifiedClaims \<Rightarrow> Receipt \<Rightarrow> BoundChange \<Rightarrow> bool" where
  "change_stated c claims receipt (BoundRotation recipient issuer successor) =
     (names_did c (claims_iss claims) issuer \<and> names_party c (claims_sub claims) successor \<and>
      names_party c (receipt_sender receipt) successor \<and> names_did c (receipt_recipient receipt) recipient \<and>
      distinct [recipient, issuer, successor])"
| "change_stated c claims receipt (BoundEnding recipient issuer) =
     (names_did c (claims_iss claims) issuer \<and> claims_sub claims = None \<and> names_party c (claims_aud claims) recipient \<and>
      receipt_sender receipt = None \<and> names_did c (receipt_recipient receipt) recipient \<and> recipient \<noteq> issuer)"

fun bound_issuer :: "BoundChange \<Rightarrow> did" where
  "bound_issuer (BoundRotation recipient issuer successor) = issuer"
| "bound_issuer (BoundEnding recipient issuer) = issuer"

lemma bindFromPrior_rotation:
  "bindFromPrior c p receipt = Bound (BoundRotation r i s) \<Longrightarrow>
     receipt_token receipt = proof_token p \<and> i = canonical (proof_issuer p) \<and> names_did c (receipt_recipient receipt) r \<and>
     names_party c (receipt_sender receipt) s \<and> r \<noteq> i \<and> r \<noteq> s \<and> (\<exists>successor. proof_change p = Rotates successor \<and> canonical successor = s)"
  by (auto simp: bindFromPrior_def names_did_def names_party_def split: if_splits sum.splits option.splits VerifiedChange.splits)

lemma bindFromPrior_ending:
  "bindFromPrior c p receipt = Bound (BoundEnding r i) \<Longrightarrow>
     receipt_token receipt = proof_token p \<and> i = canonical (proof_issuer p) \<and> names_did c (receipt_recipient receipt) r \<and>
     receipt_sender receipt = None \<and> r \<noteq> i \<and> (\<exists>audience. proof_change p = Ends (Some audience) \<and> canonical audience = r)"
  by (auto simp: bindFromPrior_def names_did_def split: if_splits sum.splits option.splits VerifiedChange.splits)

lemma bound_stated:
  assumes "bindFromPrior c p receipt = Bound change" and "spelling_of c (claims_iss claims) = Inr (proof_issuer p)"
    and "profileChange c claims (proof_issuer p) = Inr (proof_change p)"
  shows "change_stated c claims receipt change \<and> bound_issuer change = canonical (proof_issuer p) \<and> receipt_token receipt = proof_token p"
proof (cases change)
  case (BoundRotation r i s)
  then have b: "bindFromPrior c p receipt = Bound (BoundRotation r i s)" using assms(1) by simp
  obtain successor where s: "proof_change p = Rotates successor" "canonical successor = s"
    using bindFromPrior_rotation [OF b] by blast
  obtain sub where sub: "claims_sub claims = Some sub" "spelling_of c sub = Inr successor" "canonical successor \<noteq> canonical (proof_issuer p)"
    using assms(3) unfolding s(1) profileChange_Rotates by blast
  show ?thesis
    using bindFromPrior_rotation [OF b] spelling_names [OF assms(2)] spelling_names [OF sub(2)] sub(1,3) s(2)
    by (auto simp: BoundRotation names_party_def)
next
  case (BoundEnding r i)
  then have b: "bindFromPrior c p receipt = Bound (BoundEnding r i)" using assms(1) by simp
  obtain audience where a: "proof_change p = Ends (Some audience)" "canonical audience = r"
    using bindFromPrior_ending [OF b] by blast
  obtain aud where aud: "claims_aud claims = Some aud" "spelling_of c aud = Inr audience" "claims_sub claims = None"
    using assms(3) unfolding a(1) profileChange_Ends by auto
  show ?thesis
    using bindFromPrior_ending [OF b] spelling_names [OF assms(2)] spelling_names [OF aud(2)] aud(1,3) a(2)
    by (auto simp: BoundEnding names_party_def)
qed

section \<open>Properties\<close>

text \<open>
  C18: A change bound to a receipt was declared by the DID it says left: the receipt
  carries the very token, the token verifies under a key that the issuer's own document
  authorizes for authentication, and the claims that signature covers name the issuer and,
  in a rotation, the receipt's authenticated sender as successor, in an ending of a
  receipt without a sender, its recipient as audience; the parties are different DIDs.
\<close>

theorem from_prior_bound:
  assumes "verifyFromPrior j jwt longForm = Inr p" and "bindFromPrior (jose_codec j) p receipt = Bound change"
    and "reads_alike j jwt"
  shows "receipt_token receipt = jwt \<and>
     (\<exists>payload claims. signed_by_issuer j jwt longForm (bound_issuer change) payload \<and> verifiedClaims j payload = Inr claims \<and>
        change_stated (jose_codec j) claims receipt change)"
proof -
  obtain d payload where v: "checkProfile (jose_codec j) d = Inr (proof_issuer p, proof_change p)"
    "signed_by_issuer j jwt longForm (canonical (proof_issuer p)) payload" "verifiedClaims j payload = Inr (decoded_claims d)"
    "proof_token p = jwt"
    using assms(1,3) by (rule verifyFromPrior_Inr)
  have "change_stated (jose_codec j) (decoded_claims d) receipt change \<and> bound_issuer change = canonical (proof_issuer p) \<and>
      receipt_token receipt = proof_token p"
    using bound_stated [OF assms(2)] checkProfile_Inr [OF v(1)] by blast
  with v show ?thesis by auto
qed

lemma names_didE:
  assumes "names_did c t short"
  obtains s where "spelling_of c t = Inr s" "canonical s = short"
  using assms by (auto simp: names_did_def split: sum.splits)

lemma precheck_accepts:
  assumes "decodeToken j jwt = Inr d" and "checkProfile (jose_codec j) d = Inr (issuer, change)"
    and "\<And>s successor. sender = Some s \<Longrightarrow> change = Rotates successor \<Longrightarrow> names_did (jose_codec j) s (canonical successor)"
  shows "precheckFromPrior j jwt sender = Inr (unverifiedOf d)"
proof (cases "\<exists>s successor. sender = Some s \<and> change = Rotates successor")
  case True
  then obtain s successor where s: "sender = Some s" "change = Rotates successor" by blast
  with assms(3) obtain a where "spelling_of (jose_codec j) s = Inr a" "canonical a = canonical successor"
    by (blast elim: names_didE)
  with s show ?thesis using assms(1,2) by (simp add: precheckFromPrior_def)
next
  case False
  then show ?thesis using assms(1,2) by (auto simp: precheckFromPrior_def split: option.split VerifiedChange.split)
qed

text \<open>
  C19: What the precheck refuses can never verify, nor bind: a token that verifies
  passes it, and one bound to a receipt passes it with that receipt's sender too, with the
  same answer, which states the issuer, the time and the method of the proof.
\<close>

theorem from_prior_prechecked:
  assumes "verifyFromPrior j jwt longForm = Inr p" and "reads_alike j jwt"
  shows "\<exists>u. inspectFromPrior j jwt = Inr u \<and> precheckFromPrior j jwt None = Inr u \<and>
     claims_iss (unverified_claims u) = presented (proof_issuer p) \<and> claims_iat (unverified_claims u) = proof_iat p \<and>
     header_kid (unverified_header u) = proof_method p \<and>
     (\<forall>receipt change. bindFromPrior (jose_codec j) p receipt = Bound change \<longrightarrow>
        precheckFromPrior j jwt (receipt_sender receipt) = Inr u)"
proof -
  obtain d payload where v: "decodeToken j jwt = Inr d" "checkProfile (jose_codec j) d = Inr (proof_issuer p, proof_change p)"
    "proof_iat p = claims_iat (decoded_claims d)" "proof_method p = header_kid (decoded_header d)"
    using assms by (rule verifyFromPrior_Inr)
  have sender: "precheckFromPrior j jwt (receipt_sender receipt) = Inr (unverifiedOf d)"
    if b: "bindFromPrior (jose_codec j) p receipt = Bound change" for receipt change
  proof (rule precheck_accepts [OF v(1,2)])
    fix s successor assume s: "receipt_sender receipt = Some s" "proof_change p = Rotates successor"
    show "names_did (jose_codec j) s (canonical successor)"
    proof (cases change)
      case (BoundRotation r i s')
      then show ?thesis using bindFromPrior_rotation [of "jose_codec j" p receipt r i s'] b s by (simp add: names_party_def)
    next
      case (BoundEnding r i)
      then show ?thesis using bindFromPrior_ending [of "jose_codec j" p receipt r i] b s by simp
    qed
  qed
  have "precheckFromPrior j jwt None = Inr (unverifiedOf d)" by (rule precheck_accepts [OF v(1,2)]) simp_all
  moreover have "inspectFromPrior j jwt = Inr (unverifiedOf d)" using v(1) by (simp add: inspectFromPrior_def)
  moreover have "claims_iss (decoded_claims d) = presented (proof_issuer p)"
    using spelling_names conjunct1 [OF checkProfile_Inr [OF v(2)]] by metis
  ultimately show ?thesis using sender v(3,4) by (intro exI [of _ "unverifiedOf d"]) (simp add: unverifiedOf_def)
qed

section \<open>What is created\<close>

text \<open>
  What the platform and jose do with one token made of a header, claims and a
  signature: its segments are base64url and read back, its header and claims are
  those written, and it verifies under the key, which is to say the signature is that key's.
\<close>

definition compact :: "jose \<Rightarrow> json_object \<Rightarrow> json_object \<Rightarrow> string \<Rightarrow> string" where
  "compact j header claims signature =
     json_segment j header @ ''.'' @ json_segment j claims @ ''.'' @ base64urlnopad_encode j signature"

definition token_serves :: "jose \<Rightarrow> json_object \<Rightarrow> json_object \<Rightarrow> string \<Rightarrow> json_object \<Rightarrow> bool" where
  "token_serves j header claims signature key =
     (let jwt = compact j header claims signature; payload = json_text (jose_codec j) (JObj claims) in
      list_all (\<lambda>t. CHR ''.'' \<notin> set t \<and> base64urlnopad_decode j t \<noteq> None) [json_segment j header, json_segment j claims] \<and>
      CHR ''.'' \<notin> set (base64urlnopad_encode j signature) \<and>
      base64urlnopad_decode j (base64urlnopad_encode j signature) = Some signature \<and>
      decodeProtectedHeader j jwt = Some header \<and> decodeJwt j jwt = Some claims \<and> compactVerify j jwt key = Verifies payload \<and>
      json_of_text (jose_codec j) (text_of_bytes (jose_codec j) payload) = Some (JObj claims))"

text \<open>The claims of a request, and the change its proof states.\<close>

fun requested :: "RequestedChange \<Rightarrow> did" where
  "requested (RotateTo d) = d"
| "requested (EndWith d) = d"

fun change_member :: "RequestedChange \<Rightarrow> string" where
  "change_member (RotateTo d) = ''sub''"
| "change_member (EndWith d) = ''aud''"

definition request_claims :: "ProofRequest \<Rightarrow> json_object" where
  "request_claims request =
     [(''iss'', JStr (request_issuer request)), (change_member (request_change request), JStr (requested (request_change request))),
      (''iat'', JInt (request_iat request))]"

fun change_of :: "RequestedChange \<Rightarrow> DidSpelling \<Rightarrow> VerifiedChange" where
  "change_of (RotateTo d) s = Rotates s"
| "change_of (EndWith d) s = Ends (Some s)"

text \<open>
  A request the profile allows, a signer whose method is an authentication method of
  the issuer's document, and a signature that verifies under that method's key.
\<close>

definition can_create :: "jose \<Rightarrow> ProofRequest \<Rightarrow> Signer \<Rightarrow> DidSpelling \<Rightarrow> DidSpelling \<Rightarrow> bool" where
  "can_create j request signer issuer other \<longleftrightarrow>
     spelling_of (jose_codec j) (request_issuer request) = Inr issuer \<and>
     spelling_of (jose_codec j) (requested (request_change request)) = Inr other \<and> canonical other \<noteq> canonical issuer \<and>
     \<bar>request_iat request\<bar> \<le> max_safe \<and>
     (\<exists>document key kid fragment signature.
        issuerDocument (jose_codec j) (request_issuerLongForm request) issuer = Inr document \<and>
        methodUrl (jose_codec j) (signer_methodId signer) = Inr (kid, fragment) \<and> canonical kid = canonical issuer \<and>
        authenticationMethod j document (signer_methodId signer) = Inr (signer_methodId signer, key) \<and>
        signer_sign signer (json_segment j (created_header signer) @ ''.'' @ json_segment j (request_claims request)) = Some signature \<and>
        length signature = ED25519_SIGNATURE_BYTES \<and>
        token_serves j (created_header signer) (request_claims request) signature key)"

lemma as_safe_integer_JInt: "\<bar>i\<bar> \<le> max_safe \<Longrightarrow> as_safe_integer (Some (JInt i)) = Some i"
  by (simp add: JInt_def)

lemma claimsOf_request:
  assumes "\<bar>request_iat request\<bar> \<le> max_safe"
  shows "claimsOf (request_claims request) = Inr \<lparr>claims_iss = request_issuer request,
     claims_sub = (case request_change request of RotateTo d \<Rightarrow> Some d | EndWith d \<Rightarrow> None),
     claims_aud = (case request_change request of RotateTo d \<Rightarrow> None | EndWith d \<Rightarrow> Some d), claims_iat = request_iat request\<rparr>"
  using as_safe_integer_JInt [OF assms]
  by (cases "request_change request") (simp_all add: claimsOf_def request_claims_def field_def string_if_present_def or_throw_def)

lemma request_claimed:
  assumes "\<bar>request_iat request\<bar> \<le> max_safe" and "claimsOf (request_claims request) = Inr claims"
  shows "claims_iss claims = request_issuer request" and "claims_iat claims = request_iat request"
  using assms(2) claimsOf_request [OF assms(1)] by auto

lemma split_compact:
  assumes "CHR ''.'' \<notin> set a" and "CHR ''.'' \<notin> set b" and "CHR ''.'' \<notin> set s"
  shows "split_on CHR ''.'' (a @ ''.'' @ b @ ''.'' @ s) = [a, b, s]"
  using assms split_on_append [of "CHR ''.''" a] split_on_append [of "CHR ''.''" b] split_on_none [of "CHR ''.''" s] by simp

lemma decode_created:
  assumes "token_serves j (created_header signer) (request_claims request) signature key"
    and "length signature = ED25519_SIGNATURE_BYTES" and "\<bar>request_iat request\<bar> \<le> max_safe"
  obtains d where "decodeToken j (compact j (created_header signer) (request_claims request) signature) = Inr d"
    "decoded_members d = created_header signer" "claimsOf (request_claims request) = Inr (decoded_claims d)"
    "decoded_header d = \<lparr>header_alg = FROM_PRIOR_ALG, header_typ = Some ''JWT'', header_kid = signer_methodId signer\<rparr>"
proof -
  note t = assms(1) [unfolded token_serves_def Let_def, simplified]
  have "checkSegments j (compact j (created_header signer) (request_claims request) signature) = Inr ()"
    using t assms(2) by (auto simp: checkSegments_def compact_def split_compact [simplified] segmentBytes_def or_throw_def)
  moreover have "checkHeaderExtensions (created_header signer) = Inr ()"
    by (simp add: checkHeaderExtensions_def created_header_def field_def crit_names_def Let_def)
  moreover obtain claims where "claimsOf (request_claims request) = Inr claims" using claimsOf_request [OF assms(3)] by blast
  moreover have "field (created_header signer) ''alg'' = Some (JStr FROM_PRIOR_ALG)" "field (created_header signer) ''typ'' = Some (JStr ''JWT'')"
    "field (created_header signer) ''kid'' = Some (JStr (signer_methodId signer))"
    by (simp_all add: created_header_def field_def)
  ultimately show ?thesis
    using t that [of "\<lparr>decoded_members = created_header signer,
      decoded_header = \<lparr>header_alg = FROM_PRIOR_ALG, header_typ = Some ''JWT'', header_kid = signer_methodId signer\<rparr>, decoded_claims = claims\<rparr>"]
    by (simp add: decodeToken_def string_if_present_def or_throw_def)
qed

lemma jwt_type: "isJwtType (Some ''JWT'')"
  by code_simp

lemma profileChange_request:
  assumes "\<bar>request_iat request\<bar> \<le> max_safe" and "claimsOf (request_claims request) = Inr claims"
    and "spelling_of c (requested (request_change request)) = Inr other" and "canonical other \<noteq> canonical issuer"
  shows "profileChange c claims issuer = Inr (change_of (request_change request) other)"
  using assms claimsOf_request [OF assms(1)] by (cases "request_change request") (auto simp: profileChange_def)

text \<open>The proof made of a request and its signature.\<close>

definition proof_of_request :: "jose \<Rightarrow> ProofRequest \<Rightarrow> Signer \<Rightarrow> DidSpelling \<Rightarrow> DidSpelling \<Rightarrow> string \<Rightarrow> VerifiedFromPrior" where
  "proof_of_request j request signer issuer other signature =
     \<lparr>proof_token = compact j (created_header signer) (request_claims request) signature, proof_issuer = issuer,
      proof_change = change_of (request_change request) other, proof_iat = request_iat request, proof_method = signer_methodId signer\<rparr>"

lemma created_proof:
  assumes "can_create j request signer issuer other"
  obtains signature p where "p = proof_of_request j request signer issuer other signature"
    "signer_sign signer (json_segment j (created_header signer) @ ''.'' @ json_segment j (request_claims request)) = Some signature"
    "createFromPrior j request signer = Inr p" "verifyFromPrior j (proof_token p) (request_issuerLongForm request) = Inr p"
proof -
  let ?c = "jose_codec j" and ?h = "created_header signer" and ?cl = "request_claims request"
  have c: "spelling_of ?c (request_issuer request) = Inr issuer" "spelling_of ?c (requested (request_change request)) = Inr other"
    "canonical other \<noteq> canonical issuer" "\<bar>request_iat request\<bar> \<le> max_safe"
    using assms by (simp_all add: can_create_def)
  obtain document key kid fragment signature where k:
    "issuerDocument ?c (request_issuerLongForm request) issuer = Inr document"
    "methodUrl ?c (signer_methodId signer) = Inr (kid, fragment)" "canonical kid = canonical issuer"
    "authenticationMethod j document (signer_methodId signer) = Inr (signer_methodId signer, key)"
    "signer_sign signer (json_segment j ?h @ ''.'' @ json_segment j ?cl) = Some signature"
    "length signature = ED25519_SIGNATURE_BYTES" "token_serves j ?h ?cl signature key"
    using assms by (auto simp: can_create_def)
  obtain d where d: "decodeToken j (compact j ?h ?cl signature) = Inr d" "decoded_members d = ?h" "claimsOf ?cl = Inr (decoded_claims d)"
    "decoded_header d = \<lparr>header_alg = FROM_PRIOR_ALG, header_typ = Some ''JWT'', header_kid = signer_methodId signer\<rparr>"
    using k(7,6) c(4) by (rule decode_created)
  note pc = profileChange_request [OF c(4) d(3) c(2,3)]
  have iss: "claims_iss (decoded_claims d) = request_issuer request" "claims_iat (decoded_claims d) = request_iat request"
    using request_claimed [OF c(4) d(3)] by simp_all
  have crit: "crit_names (field ?h ''crit'') = []" by (simp add: created_header_def field_def crit_names_def)
  have prof: "checkProfile ?c d = Inr (issuer, change_of (request_change request) other)"
    using d(2,4) k(2,3) c(1) pc iss crit by (simp add: checkProfile_def jwt_type)
  have vc: "verifiedClaims j (json_text ?c (JObj ?cl)) = Inr (decoded_claims d)"
    using k(7) d(3) by (simp add: token_serves_def Let_def verifiedClaims_def or_throw_def)
  let ?p = "proof_of_request j request signer issuer other signature"
  have v: "verifyFromPrior j (compact j ?h ?cl signature) (request_issuerLongForm request) = Inr ?p"
    using d(1,4) prof k(1,4,7) vc iss c(1) pc by (simp add: verifyFromPrior_def token_serves_def proof_of_request_def Let_def)
  have pres: "presented issuer = request_issuer request" "presented other = requested (request_change request)"
    using spelling_names c(1,2) by blast+
  have states: "states_request request signer ?p" using pres by (cases "request_change request") (simp_all add: states_request_def proof_of_request_def)
  have claim: "requested_claim ?c issuer (request_change request) = Inr (change_member (request_change request), JStr (requested (request_change request)))"
    using c(2,3) pres(2) by (cases "request_change request") (simp_all add: requested_claim_def)
  have "createFromPrior j request signer = Inr ?p"
    using c(1,4) claim pres(1) k(5,6) v states
    by (simp add: createFromPrior_def Let_def request_claims_def compact_def or_throw_def)
  with v k(5) show ?thesis by (intro that [of ?p signature]) (simp_all add: proof_of_request_def)
qed

text \<open>The receipt a request is meant for.\<close>

fun meant_for :: "codec \<Rightarrow> RequestedChange \<Rightarrow> did \<Rightarrow> did \<Rightarrow> did \<Rightarrow> Receipt \<Rightarrow> bool" where
  "meant_for c (RotateTo d) issuer other recipient receipt =
     (names_party c (receipt_sender receipt) other \<and> names_did c (receipt_recipient receipt) recipient \<and>
      recipient \<noteq> issuer \<and> recipient \<noteq> other)"
| "meant_for c (EndWith d) issuer other recipient receipt =
     (receipt_sender receipt = None \<and> names_did c (receipt_recipient receipt) recipient \<and> recipient = other)"

fun bound_change :: "RequestedChange \<Rightarrow> did \<Rightarrow> did \<Rightarrow> did \<Rightarrow> BoundChange" where
  "bound_change (RotateTo d) issuer other recipient = BoundRotation recipient issuer other"
| "bound_change (EndWith d) issuer other recipient = BoundEnding recipient issuer"

lemma created_binds:
  assumes "proof_change p = change_of change other" and "canonical other \<noteq> canonical (proof_issuer p)"
    and "receipt_token receipt = proof_token p" and "meant_for c change (canonical (proof_issuer p)) (canonical other) recipient receipt"
  shows "bindFromPrior c p receipt = Bound (bound_change change (canonical (proof_issuer p)) (canonical other) recipient)"
proof (cases change)
  case (RotateTo d)
  then obtain s sender r where "receipt_sender receipt = Some s" "spelling_of c s = Inr sender" "canonical sender = canonical other"
    "spelling_of c (receipt_recipient receipt) = Inr r" "canonical r = recipient"
    using assms(4) by (auto simp: names_party_def elim!: names_didE split: option.splits)
  with assms RotateTo show ?thesis by (simp add: bindFromPrior_def)
next
  case (EndWith d)
  then obtain r where "spelling_of c (receipt_recipient receipt) = Inr r" "canonical r = recipient" "receipt_sender receipt = None"
    using assms(4) by (auto elim!: names_didE)
  with assms EndWith show ?thesis by (simp add: bindFromPrior_def)
qed

text \<open>
  C20: A proof the profile allows is created, and what is created verifies against the
  issuer's long form, states exactly the issuer, change, time and method asked for, and
  binds to every receipt it is meant for: for a rotation, one from the successor to
  a third DID, for an ending, one without a sender to its audience.
\<close>

theorem from_prior_created:
  assumes "can_create j request signer issuer other"
  shows "\<exists>p. createFromPrior j request signer = Inr p \<and> verifyFromPrior j (proof_token p) (request_issuerLongForm request) = Inr p \<and>
     states_request request signer p \<and>
     (\<forall>receipt recipient. receipt_token receipt = proof_token p \<longrightarrow>
        meant_for (jose_codec j) (request_change request) (canonical issuer) (canonical other) recipient receipt \<longrightarrow>
        bindFromPrior (jose_codec j) p receipt = Bound (bound_change (request_change request) (canonical issuer) (canonical other) recipient))"
proof -
  obtain signature p where made: "p = proof_of_request j request signer issuer other signature"
    and p: "createFromPrior j request signer = Inr p" "verifyFromPrior j (proof_token p) (request_issuerLongForm request) = Inr p"
    using assms by (rule created_proof)
  note parts = made [unfolded proof_of_request_def]
  have oth: "canonical other \<noteq> canonical issuer" "presented issuer = request_issuer request" "presented other = requested (request_change request)"
    using assms spelling_names by (auto simp: can_create_def)
  have "states_request request signer p" using parts oth(2,3) by (cases "request_change request") (simp_all add: states_request_def)
  moreover have "bindFromPrior (jose_codec j) p receipt = Bound (bound_change (request_change request) (canonical issuer) (canonical other) recipient)"
    if "receipt_token receipt = proof_token p"
      "meant_for (jose_codec j) (request_change request) (canonical issuer) (canonical other) recipient receipt" for receipt recipient
    using created_binds [of p "request_change request" other receipt "jose_codec j" recipient] oth(1) that by (simp add: parts)
  ultimately show ?thesis using p by blast
qed

end
