(* ===== verification/From_Prior_Example.thy ===== *)
theory From_Prior_Example
  imports From_Prior_Properties Base64url
begin

text \<open>
  The properties of \<^verbatim>\<open>From_Prior_Properties\<close> at a concrete rotation: a document with one
  key, base64url and the three-segment form as they are, a JSON text for the three
  values written, and a signature that is one fixed string of 64 bytes.
\<close>

definition prior_key :: json_object where
  "prior_key = [(''kty'', JStr ''OKP''), (''crv'', JStr ''Ed25519''), (''x'', JStr (base64url (replicate 32 CHR ''k'')))]"

definition prior_document :: json_object where
  "prior_document = [(''authentication'', JArr [JObj [(''id'', JStr ''#k''), (''publicKeyJwk'', JObj prior_key)]])]"

definition prior_long :: did where
  "prior_long = ''did:peer:4z'' @ demo_hash_text @ '':zabcdef''"

definition prior_short :: did where
  "prior_short = ''did:peer:4z'' @ demo_hash_text"

definition prior_successor :: did where
  "prior_successor = ''did:peer:4zQm'' @ replicate 44 CHR ''B''"

definition prior_recipient :: did where
  "prior_recipient = ''did:peer:4zQm'' @ replicate 44 CHR ''C''"

definition prior_request :: ProofRequest where
  "prior_request = \<lparr>request_issuer = prior_long, request_change = RotateTo prior_successor, request_iat = 5,
     request_issuerLongForm = prior_long\<rparr>"

definition prior_signature :: string where
  "prior_signature = replicate 64 CHR ''s''"

definition prior_signer :: Signer where
  "prior_signer = \<lparr>signer_methodId = prior_long @ ''#k'', signer_sign = (\<lambda>_. Some prior_signature)\<rparr>"

definition prior_values :: "(string \<times> json) list" where
  "prior_values = [(''doc'', JObj prior_document), (''header'', JObj (created_header prior_signer)), (''claims'', JObj (request_claims prior_request))]"

definition prior_codec :: codec where
  "prior_codec = demo_peer_codec\<lparr>
     json_text := (\<lambda>v. case List.find (\<lambda>p. snd p = v) prior_values of Some p \<Rightarrow> fst p | None \<Rightarrow> []),
     json_of_text := map_of prior_values\<rparr>"

definition prior_segment :: "nat \<Rightarrow> string \<Rightarrow> string option" where
  "prior_segment n jwt = (let parts = split_on CHR ''.'' jwt in if n < length parts then Some (base64url_decode (parts ! n)) else None)"

definition prior_object :: "nat \<Rightarrow> string \<Rightarrow> json_object option" where
  "prior_object n jwt = Option.bind (prior_segment n jwt) (\<lambda>t. as_object (map_of prior_values t))"

definition prior_jose :: jose where
  "prior_jose = \<lparr>jose_codec = prior_codec, base64urlnopad_encode = base64url,
     base64urlnopad_decode = (\<lambda>t. if base64url (base64url_decode t) = t then Some (base64url_decode t) else None),
     decodeProtectedHeader = prior_object 0, decodeJwt = prior_object 1,
     compactVerify = (\<lambda>jwt key. if key \<noteq> prior_key then KeyRefused
        else if prior_segment 2 jwt \<noteq> Some prior_signature then SignatureFails
        else case prior_segment 1 jwt of None \<Rightarrow> SignatureFails | Some t \<Rightarrow> Verifies t)\<rparr>"

lemma prior_reads_alike: "reads_alike prior_jose jwt"
proof -
  have "json_of_text prior_codec (text_of_bytes prior_codec payload) = Some (JObj claims)"
    if "compactVerify prior_jose jwt key = Verifies payload" "decodeJwt prior_jose jwt = Some claims" for key payload claims
  proof -
    have "prior_segment 1 jwt = Some payload" using that(1) by (auto simp: prior_jose_def split: if_splits option.splits)
    then have "as_object (map_of prior_values payload) = Some claims" using that(2) by (simp add: prior_jose_def prior_object_def)
    then have "map_of prior_values payload = Some (JObj claims)" by (cases "map_of prior_values payload" rule: as_object.cases) auto
    then show ?thesis by (simp add: prior_codec_def demo_peer_codec_def)
  qed
  then show ?thesis by (simp add: reads_alike_def prior_jose_def)
qed

definition prior_issuer :: DidSpelling where
  "prior_issuer = \<lparr>presented = prior_long, canonical = prior_short\<rparr>"

definition prior_other :: DidSpelling where
  "prior_other = \<lparr>presented = prior_successor, canonical = prior_successor\<rparr>"

lemma prior_spellings:
  "spelling_of (jose_codec prior_jose) prior_long = Inr prior_issuer"
  "spelling_of (jose_codec prior_jose) prior_successor = Inr prior_other"
  by code_simp+

definition prior_resolved :: json_object where
  "prior_resolved = (case resolveLongForm (jose_codec prior_jose) prior_long of Inl _ \<Rightarrow> [] | Inr d \<Rightarrow> d)"

lemma prior_issuerDocument: "issuerDocument (jose_codec prior_jose) prior_long prior_issuer = Inr prior_resolved"
  by code_simp

lemma prior_methodUrl: "methodUrl (jose_codec prior_jose) (prior_long @ ''#k'') = Inr (prior_issuer, ''k'')"
  by code_simp

lemma prior_authenticationMethod:
  "authenticationMethod prior_jose prior_resolved (prior_long @ ''#k'') = Inr (prior_long @ ''#k'', prior_key)"
  by code_simp

lemma prior_token_serves:
  "token_serves prior_jose (created_header prior_signer) (request_claims prior_request) prior_signature prior_key"
  by code_simp

lemma prior_request_parts [simp]:
  "request_issuer prior_request = prior_long" "request_issuerLongForm prior_request = prior_long"
  "requested (request_change prior_request) = prior_successor" "\<bar>request_iat prior_request\<bar> \<le> max_safe"
  "request_iat prior_request = 5" "request_change prior_request = RotateTo prior_successor"
  by (simp_all add: prior_request_def max_safe_def)

lemma prior_signer_parts [simp]:
  "signer_methodId prior_signer = prior_long @ ''#k''" "signer_sign prior_signer t = Some prior_signature"
  "length prior_signature = ED25519_SIGNATURE_BYTES"
  by (simp_all add: prior_signer_def prior_signature_def ED25519_SIGNATURE_BYTES_def)

lemma prior_signing:
  "\<exists>document key kid fragment signature.
     issuerDocument (jose_codec prior_jose) (request_issuerLongForm prior_request) prior_issuer = Inr document \<and>
     methodUrl (jose_codec prior_jose) (signer_methodId prior_signer) = Inr (kid, fragment) \<and> canonical kid = canonical prior_issuer \<and>
     authenticationMethod prior_jose document (signer_methodId prior_signer) = Inr (signer_methodId prior_signer, key) \<and>
     signer_sign prior_signer t = Some signature \<and> length signature = ED25519_SIGNATURE_BYTES \<and>
     token_serves prior_jose (created_header prior_signer) (request_claims prior_request) signature key"
  by (rule exI [of _ prior_resolved], rule exI [of _ prior_key], rule exI [of _ prior_issuer], rule exI [of _ "''k''"],
      rule exI [of _ prior_signature])
    (simp add: prior_issuerDocument prior_methodUrl prior_authenticationMethod prior_token_serves)

lemma prior_parties: "canonical prior_other \<noteq> canonical prior_issuer"
  by code_simp

lemma prior_can_create: "can_create prior_jose prior_request prior_signer prior_issuer prior_other"
  using prior_spellings prior_signing prior_parties by (simp add: can_create_def max_safe_def)

definition prior_token :: string where
  "prior_token = compact prior_jose (created_header prior_signer) (request_claims prior_request) prior_signature"

definition prior_proof :: VerifiedFromPrior where
  "prior_proof = proof_of_request prior_jose prior_request prior_signer prior_issuer prior_other prior_signature"

definition prior_receipt :: Receipt where
  "prior_receipt = \<lparr>receipt_token = prior_token, receipt_recipient = prior_recipient, receipt_sender = Some prior_successor\<rparr>"

definition prior_change :: BoundChange where
  "prior_change = BoundRotation prior_recipient prior_short prior_successor"

lemma prior_verifies: "verifyFromPrior prior_jose prior_token prior_long = Inr prior_proof"
proof -
  obtain signature p where c: "p = proof_of_request prior_jose prior_request prior_signer prior_issuer prior_other signature"
    "signature = prior_signature" "verifyFromPrior prior_jose (proof_token p) prior_long = Inr p"
    by (rule created_proof [OF prior_can_create]) simp
  then show ?thesis by (simp add: prior_proof_def prior_token_def proof_of_request_def)
qed

lemma prior_binds: "bindFromPrior (jose_codec prior_jose) prior_proof prior_receipt = Bound prior_change"
  by code_simp

theorem from_prior_bound_witness:
  "\<exists>payload claims. signed_by_issuer prior_jose prior_token prior_long prior_short payload \<and>
     verifiedClaims prior_jose payload = Inr claims \<and> change_stated (jose_codec prior_jose) claims prior_receipt prior_change"
  using from_prior_bound [OF prior_verifies prior_binds prior_reads_alike] by (simp add: prior_change_def)

theorem from_prior_prechecked_witness:
  "\<exists>u. precheckFromPrior prior_jose prior_token (Some prior_successor) = Inr u \<and> claims_iss (unverified_claims u) = prior_long"
proof -
  obtain u where u: "claims_iss (unverified_claims u) = presented (proof_issuer prior_proof)"
    "\<forall>receipt change. bindFromPrior (jose_codec prior_jose) prior_proof receipt = Bound change \<longrightarrow>
        precheckFromPrior prior_jose prior_token (receipt_sender receipt) = Inr u"
    using from_prior_prechecked [OF prior_verifies prior_reads_alike] by blast
  have "precheckFromPrior prior_jose prior_token (receipt_sender prior_receipt) = Inr u" using u(2) prior_binds by blast
  with u(1) show ?thesis by (simp add: prior_receipt_def prior_proof_def proof_of_request_def prior_issuer_def)
qed

theorem from_prior_created_witness:
  "\<exists>p. createFromPrior prior_jose prior_request prior_signer = Inr p \<and> states_request prior_request prior_signer p \<and>
     verifyFromPrior prior_jose (proof_token p) prior_long = Inr p"
  using from_prior_created [OF prior_can_create] by (auto simp: prior_request_def)

end
