(* ===== verification/Spec2Isabelle.thy ===== *)
theory Spec2Isabelle
  imports Mediator_Guarantees Mediator_Members_Example Mediator_Sessions Mediator_Dispatch Dasl_Car Continuity_Properties From_Prior_Example
begin

text \<open>
  A verification of estoc's mediator, from the database to the HTTP entry, and of the packages below its
  agents: did:peer, from_prior proofs, the model of channel continuity, and DASL data.

  \<^bold>\<open>The program.\<close> estoc is a DIDComm system: people's agents, each on several
  devices (replicas), and a mediator that holds mail for them while they are
  away. The development follows the mediator (\<^verbatim>\<open>mediator/src\<close>) from its database up
  to the protocol handlers, and the library both sides resolve DIDs with
  (\<^verbatim>\<open>packages/did-peer/src\<close>). A message arrives unpacked by the didcomm library; its
  handler reads the sender the library proved, calls the store, and answers.
  The store is one SQL database; each of its methods is one statement or one
  batch of statements, run as a transaction. On the agents' side a DID moves to
  another by a signed from_prior proof; what an agent observed and decided of such moves are
  the facts the continuity package derives channels, successors and conflicts from; objects
  are exchanged as DRISL values under DASL CIDs, in CAR containers.

  \<^bold>\<open>The store\<close>, \<^verbatim>\<open>mediator/src/store/sql-store.ts\<close> and \<^verbatim>\<open>types.ts\<close>.
  \<^item> \<^verbatim>\<open>Mediator_Schema\<close>: each table of \<open>SCHEMA\<close> as a list of rows, with its unique keys and foreign
    keys as executable checks (\<open>uniq_ok\<close>, \<open>fk_ok\<close>); a statement that breaks one is an error and the
    batch leaves the database as it was. The database invariant \<open>db_inv\<close> also says whose name a DID is.
  \<^item> \<^verbatim>\<open>Mediator_Statements\<close>: transactions, and the statements several methods share.
  \<^item> \<^verbatim>\<open>Mediator_Accounts\<close>, \<^verbatim>\<open>Mediator_Replicas\<close>, \<^verbatim>\<open>Mediator_Mail\<close>, \<^verbatim>\<open>Mediator_Executions\<close>,
    \<^verbatim>\<open>Mediator_Blobs\<close>: one definition per method of \<open>SqlStore\<close>, statement by statement, the result each
    method gives on every branch, and that it keeps the invariant.
  \<^item> \<^verbatim>\<open>Mediator_System\<close>, \<^verbatim>\<open>Mediator_Traces\<close>: the contract of a method (it answers, and keeps the invariant) as the locale
    \<open>store_method\<close>, interpreted on each; every method that changes state as one \<open>store_call\<close>; runs of
    calls in any order, the databases they reach, and what no run changes.
  \<^item> \<^verbatim>\<open>Mediator_Store\<close>: what the store promises its callers on every database it reaches;
    \<^verbatim>\<open>Mediator_Example\<close> is a run from the empty database used for concrete instances;
    \<^verbatim>\<open>Mediator_Guarantees\<close> holds the store's properties: the invariant on every reachable database, one
    account per name, rosters that only grow, queues that keep their order, mail delivered to each active replica
    once (in no order promised: the query has no \<open>ORDER BY\<close>), quotas never exceeded, blobs kept until their time and their ends recorded, nothing left
    of a deleted account.

  \<^bold>\<open>did:peer\<close>, \<^verbatim>\<open>packages/did-peer/src\<close>.
  \<^item> \<^verbatim>\<open>Did_Peer4\<close>: the two spellings of a did:peer:4; \<^verbatim>\<open>Did_Url\<close>: DID and DID URL syntax;
    \<^verbatim>\<open>Did_Document\<close>: methods, relationships and services of a document.
  \<^item> \<^verbatim>\<open>Peer4_Documents\<close>: a document in its own DID, written, read back and resolved: the round trip, and that two
    long forms share a short form exactly when SHA-256 gives their documents one digest. \<^verbatim>\<open>Didcomm_Documents\<close>: did:peer:2, and the flat document the didcomm library
    reads, in which every key a document authorizes is found.
  \<^item> \<^verbatim>\<open>Remembered\<close>: the bounded memory of \<open>decode\<close>, which answers as the computation itself.

  \<^bold>\<open>from_prior\<close>, \<^verbatim>\<open>packages/from-prior/src\<close>.
  \<^item> \<^verbatim>\<open>From_Prior\<close>: inspecting, prechecking, verifying, binding and creating a proof, each error with its class.
    \<^verbatim>\<open>From_Prior_Properties\<close>: a bound change was signed with a key of the issuer's own document and names the
    receipt's parties; the precheck refuses only what can never bind; what is created verifies and binds.
    \<^verbatim>\<open>From_Prior_Example\<close> computes a rotation.

  \<^bold>\<open>Continuity\<close>, \<^verbatim>\<open>packages/continuity/src\<close>.
  \<^item> \<^verbatim>\<open>Continuity_Facts\<close> (\<^verbatim>\<open>facts.ts\<close>): channels, changes, the check of a fact, and the orders and keys. A table the code keys
    by the text \<open>channelKey\<close> gives is a table by the channel itself: the same, as that text tells channels of DIDs without U+0000 apart, which the source asks of a DID.
    What \<open>validateFact\<close> reads as a fact is exactly what spells one.
  \<^item> \<^verbatim>\<open>Continuity_Graph\<close>, \<^verbatim>\<open>Continuity_Reach\<close>, \<^verbatim>\<open>Continuity_Contexts\<close>, \<^verbatim>\<open>Continuity_Closure\<close>, \<^verbatim>\<open>Continuity_Cycles\<close> (\<^verbatim>\<open>graph.ts\<close>): edges and joins
    and their closing, breadth-first search and its shortest paths, the union-find whose root is the least key,
    the closure over candidates as a least fixpoint (locale \<open>confirmation_rule\<close>, interpreted on the model's own confirmations),
    and Tarjan's algorithm on its explicit stack.
  \<^item> \<^verbatim>\<open>Continuity_Model\<close> (\<^verbatim>\<open>model.ts\<close>): accepting facts, both closures, conflicts, and every query. \<^verbatim>\<open>Continuity_Laws\<close>,
    \<^verbatim>\<open>Continuity_Usable\<close>, \<^verbatim>\<open>Continuity_Queries\<close> prove what accepting, the usable links and the queries do;
    \<^verbatim>\<open>Continuity_Properties\<close> states the properties and \<^verbatim>\<open>Continuity_Example\<close> computes a small model.

  \<^bold>\<open>DASL\<close>, \<^verbatim>\<open>packages/dasl/src\<close>.
  \<^item> \<^verbatim>\<open>Unicode\<close>, \<^verbatim>\<open>Binary64\<close>, \<^verbatim>\<open>Collections\<close>: code points and UTF-8 both ways, floats by their 64 bits, stable sorting and insertion-ordered sets.
  \<^item> \<^verbatim>\<open>Dasl_Cid\<close>: CIDs; \<^verbatim>\<open>Drisl\<close>: the decoder and the encoder through its buffers; \<^verbatim>\<open>Drisl_Codec\<close>: they are inverse, a value
    has one byte string and every other spelling is refused; \<^verbatim>\<open>Dasl_Car\<close>: containers, written and read back,
    each block under the name it hashes to.

  \<^bold>\<open>Protocols\<close>, \<^verbatim>\<open>mediator/src/protocols\<close>.
  \<^item> \<^verbatim>\<open>Json\<close>, \<^verbatim>\<open>Base64url\<close>, \<^verbatim>\<open>Utf8\<close>, \<^verbatim>\<open>Dates\<close>, \<^verbatim>\<open>Results\<close>: values, codecs and dates the handlers use.
  \<^item> \<^verbatim>\<open>Mediator_Context\<close>: messages, policy, session, reply, and a handler's run \<open>act\<close> over store and session.
  \<^item> \<^verbatim>\<open>Mediator_Inbox\<close>: a locale for an inbox a client pages through, interpreted on both kinds of queue;
    \<^verbatim>\<open>Mediator_Pickup\<close> (\<^verbatim>\<open>pickup.ts\<close>): a client drains its own queue and no other.
  \<^item> \<^verbatim>\<open>Mediator_Coordinate\<close> (\<^verbatim>\<open>coordinate-mediation.ts\<close>): who is granted mediation and which recipients it binds.
  \<^item> \<^verbatim>\<open>Mediator_Routing\<close> (\<^verbatim>\<open>routing.ts\<close>): an envelope's shape and a forward's outcomes.
  \<^item> \<^verbatim>\<open>Mediator_Grants\<close> (\<^verbatim>\<open>replica-grant.ts\<close>, \<^verbatim>\<open>recipient-proof.ts\<close>, \<^verbatim>\<open>did-resolver.ts\<close>): signed payloads and the
    documents their keys come from. \<^verbatim>\<open>Mediator_Controls\<close> (\<^verbatim>\<open>replica-mediation.ts\<close>): every control.
    \<^verbatim>\<open>Mediator_Membership\<close>: each control is answered, a refusal changes nothing, and nobody joins without the
    signature that lets them. \<^verbatim>\<open>Mediator_Listing\<close>: a listing followed through its cursors is the
    roster it began with. \<^verbatim>\<open>Mediator_Members_Example\<close> has their concrete instances.

  \<^bold>\<open>Around the handlers.\<close>
  \<^item> \<^verbatim>\<open>Mediator_Blob_Service\<close> (\<^verbatim>\<open>blobs/service.ts\<close>, \<^verbatim>\<open>hash.ts\<close>, \<^verbatim>\<open>storage.ts\<close>, \<^verbatim>\<open>fs-storage.ts\<close>, \<^verbatim>\<open>protocols/blob-store.ts\<close>): blobs
    by row and by bytes, followed at the granularity of single calls by the step relation \<open>blob_step\<close>; what is served has the size and hash declared.
  \<^item> \<^verbatim>\<open>Mediator_Sessions\<close> (\<^verbatim>\<open>transport/sessions.ts\<close>, \<^verbatim>\<open>workers/inbox-hub.ts\<close>): the registry of connections as the step
    relation \<open>session_step\<close>; whom a push reaches, that a binding is for good, and that a registry rebuilt from its sockets is the same.
  \<^item> \<^verbatim>\<open>Mediator_Dispatch\<close> (\<^verbatim>\<open>protocols/dispatch.ts\<close>, \<^verbatim>\<open>discover-features.ts\<close>, \<^verbatim>\<open>trust-ping.ts\<close>, \<open>POST /\<close> of \<^verbatim>\<open>app.ts\<close>): the contract of a
    handler as the locale \<open>sound_handler\<close>, interpreted on every handler; every posted envelope is answered and keeps the store's
    invariant, its handling never ends in a failed store call, and a reply is sealed to the proven sender.

  \<^bold>\<open>How the model stands to the code.\<close> A string is the list of its UTF-8 bytes; where the code counts UTF-16
  units the model does (\<open>js_length\<close>); DRISL, which orders and checks them, has the units themselves. A JSON number is the rational it denotes, and \<open>Number.isSafeInteger\<close> is
  kept as a test. Times are integers in the unit the code has at that place. \<open>Date.now()\<close> is read once for a
  request and passed in, as are the identifiers \<open>crypto.randomUUID()\<close> gives. A handler runs without others in
  between; the store's own properties hold for every interleaving of store calls. What
  the platform and third-party packages do is a parameter: the record \<open>codec\<close> (base58, SHA-256, the JSON text and
  its parsing, canonical JSON) and the record \<open>host\<close> (jose's header, key import and verification, fetched
  documents, Buffer's base64url reading, multiformats' digests, the sealing of a reply), the record \<open>jose\<close> of the from_prior
  proofs, the RFC 8785 text of a fact in continuity, and the records \<open>multiformats\<close> and \<open>car_library\<close> of DASL; the properties that need something of them say what as a hypothesis.
  Recursion is structural or has a measure, but for loops that run until nothing is left to do, which are
  \<open>partial_function (option)\<close> and are shown to end (the closings, searches and Tarjan's algorithm of continuity),
  and the client runs that follow pages, which take the pages
  asked for (a number, or the states they are asked in) and are shown to need no more than the queue or roster over the page size.

  \<^bold>\<open>Not modelled.\<close> Schema migration of an older database file (\<open>SqlStore.open\<close>); the SQL drivers; configuration, the
  WebSocket servers and the Workers runtime; packing and unpacking; streaming and the R2 backend of the blob service;
  fetching and caching did:web documents; the mediator's own keys and invitation. Of the agent's
  side the agent itself (\<^verbatim>\<open>packages/agent-core\<close>), its vault and event store (\<^verbatim>\<open>vault\<close>, \<^verbatim>\<open>event-store\<close>), the daemon and its
  clients and the user interface are not here.
\<close>

end
